(* ===== verification/Sj_Prelude.thy ===== *)
theory Sj_Prelude
  imports Main "HOL-Library.Word" "HOL-Library.Monad_Syntax"
begin

text \<open>
  Shared vocabulary of the development: the machine types of the C sources,
  bounds-checked access to C objects, C strings inside a buffer, the
  big-endian byte order of the wire and of the file headers, and the generic
  lemmas the component theories use.

  An object of C (an array, a malloc'ed block) is the list of its cells. A read
  or a write outside the object is undefined behaviour in C; here it is the
  value \<open>None\<close> of \<open>rd\<close> and \<open>wr\<close>, so that \<open>f x = Some y\<close> states that
  \<open>f\<close> returns and stays inside its objects.
\<close>

unbundle bit_operations_syntax

named_theorems mem_simps \<open>reads and writes of C objects\<close>
named_theorems byte_simps \<open>splitting and joining machine integers\<close>

type_synonym u8 = "8 word"
type_synonym u16 = "16 word"
type_synonym u32 = "32 word"
type_synonym cbuf = "u8 list"

section \<open>Objects\<close>

definition rd :: "'a list \<Rightarrow> nat \<Rightarrow> 'a option" where
  "rd b i = (if i < length b then Some (b ! i) else None)"

definition wr :: "'a list \<Rightarrow> nat \<Rightarrow> 'a \<Rightarrow> 'a list option" where
  "wr b i x = (if i < length b then Some (b[i := x]) else None)"

lemma rd_Some_iff: "rd b i = Some x \<longleftrightarrow> i < length b \<and> b ! i = x"
  by (auto simp: rd_def)

lemma rd_None_iff: "rd b i = None \<longleftrightarrow> length b \<le> i"
  by (auto simp: rd_def)

lemma wr_Some_iff: "wr b i x = Some b' \<longleftrightarrow> i < length b \<and> b' = b[i := x]"
  by (auto simp: wr_def)

lemma wr_None_iff [simp]: "wr b i x = None \<longleftrightarrow> length b \<le> i"
  by (auto simp: wr_def)

lemma wr_in [mem_simps]: "i < length b \<Longrightarrow> wr b i x = Some (b[i := x])"
  by (simp add: wr_def)

lemma rd_in [mem_simps]: "i < length b \<Longrightarrow> rd b i = Some (b ! i)"
  by (simp add: rd_def)

lemma length_wr: "wr b i x = Some b' \<Longrightarrow> length b' = length b"
  by (auto simp: wr_Some_iff)

lemma wr_append [mem_simps]: "wr (p @ y # q) (length p) x = Some (p @ x # q)"
  by (simp add: wr_def)

lemma rd_append [mem_simps]: "rd (p @ y # q) (length p) = Some y"
  by (simp add: rd_def)

lemma drop_eq_Cons_rd: "drop i b = x # r \<Longrightarrow> rd b i = Some x \<and> drop (Suc i) b = r"
  by (metis drop_eq_Nil2 linorder_not_less list.discI list.inject nth_via_drop rd_Some_iff
      Cons_nth_drop_Suc)

lemma rd_drop0: "drop i b = c # r \<Longrightarrow> rd b i = Some c"
  by (simp add: drop_eq_Cons_rd)

lemma rd_drop1: "drop i b = c # d # r \<Longrightarrow> rd b (Suc i) = Some d"
  by (metis drop_eq_Cons_rd)

lemma drop_drop1: "drop i b = c # r \<Longrightarrow> drop (Suc i) b = r"
  by (metis drop_eq_Cons_rd)

lemma drop_drop2: "drop i b = c # d # r \<Longrightarrow> drop (i + 2) b = r"
  by (metis drop_eq_Cons_rd add_2_eq_Suc')

lemmas drop_rds = rd_drop0 rd_drop1 drop_drop1 drop_drop2

lemma wr_two:
  "wr (p @ y # z # q) (length p) a = Some (p @ a # z # q)"
  "wr (p @ a # z # q) (Suc (length p)) b = Some (p @ a # b # q)"
  using wr_append [of p y "z # q" a] wr_append [of "p @ [a]" z q b] by simp_all

section \<open>C strings\<close>

text \<open>\<open>cstr_at b i s\<close>: the NUL-terminated string that starts at offset \<open>i\<close> of \<open>b\<close> is \<open>s\<close>.\<close>

definition cstr_at :: "cbuf \<Rightarrow> nat \<Rightarrow> u8 list \<Rightarrow> bool" where
  "cstr_at b i s \<longleftrightarrow> 0 \<notin> set s \<and> (\<exists>r. drop i b = s @ 0 # r)"

lemma cstr_atI: "0 \<notin> set s \<Longrightarrow> drop i b = s @ 0 # r \<Longrightarrow> cstr_at b i s"
  by (auto simp: cstr_at_def)

lemma cstr_at_Nil [simp]: "cstr_at b i [] \<longleftrightarrow> rd b i = Some 0"
  by (auto simp: cstr_at_def rd_Some_iff dest!: drop_eq_Cons_rd)
     (metis Cons_nth_drop_Suc)

lemma cstr_at_Cons [simp]:
  "cstr_at b i (c # s) \<longleftrightarrow> c \<noteq> 0 \<and> rd b i = Some c \<and> cstr_at b (Suc i) s"
  by (auto simp: cstr_at_def rd_Some_iff dest!: drop_eq_Cons_rd)
     (metis Cons_nth_drop_Suc append_Cons)

lemma cstr_at_app_iff:
  "0 \<notin> set s \<Longrightarrow> cstr_at b i (s @ t) \<longleftrightarrow> (\<exists>r. drop i b = s @ r) \<and> cstr_at b (i + length s) t"
proof (induction s arbitrary: i)
  case Nil
  show ?case by auto
next
  case (Cons c s)
  have "(\<exists>r. drop i b = c # s @ r) \<longleftrightarrow> rd b i = Some c \<and> (\<exists>r. drop (Suc i) b = s @ r)"
    by (auto dest: drop_eq_Cons_rd simp: rd_Some_iff) (metis Cons_nth_drop_Suc)
  with Cons show ?case by auto
qed

lemma cstr_at_unique: "cstr_at b i s \<Longrightarrow> cstr_at b i t \<Longrightarrow> s = t"
proof (induction s arbitrary: i t)
  case Nil
  then show ?case by (cases t) auto
next
  case (Cons c s)
  then show ?case by (cases t) auto
qed

lemma cstr_at_0 [simp]: "0 \<notin> set s \<Longrightarrow> cstr_at (s @ 0 # r) 0 s"
  by (auto simp: cstr_at_def)

section \<open>Machine integers\<close>

lemma uint_of_int_u8: "0 \<le> k \<Longrightarrow> k < 256 \<Longrightarrow> uint (word_of_int k :: u8) = k"
  by (simp add: uint_word_of_int)

lemma u8_range [simp]: "0 \<le> uint (x :: u8)" "uint (x :: u8) < 256"
  using uint_lt2p [of x] by simp_all

lemma u8_eq_iff: "x = y \<longleftrightarrow> uint x = uint (y :: u8)"
  by (metis word_of_int_uint)

lemma unat_u8_less [simp]: "unat (x :: u8) < 256"
  by (metis nat_uint_eq nat_less_iff of_nat_numeral u8_range)

lemma and7f: "uint (a AND 0x7f :: u8) = uint a mod 128"
proof -
  have "uint (take_bit 7 a) = take_bit 7 (uint a)"
    by (simp only: unsigned_take_bit_eq)
  moreover have "take_bit 7 a = a AND 0x7f"
    by (simp add: take_bit_eq_mask mask_eq_exp_minus_1)
  ultimately show ?thesis by (simp add: take_bit_eq_mod)
qed
lemma bit_80 [simp]: "bit (0x80 :: u8) n \<longleftrightarrow> n = 7"
  using bit_exp_iff [of 7 n, where 'a = u8] by auto

lemma bit7_iff: "bit (x :: u8) 7 \<longleftrightarrow> 128 \<le> uint x"
proof -
  have "bit x 7 \<longleftrightarrow> bit (uint x) 7" by (simp add: bit_uint_iff)
  also have "\<dots> \<longleftrightarrow> odd (uint x div 2 ^ 7)" by (simp add: bit_iff_odd)
  also have "\<dots> \<longleftrightarrow> 128 \<le> uint x"
  proof -
    have "uint x div 128 = 0 \<or> uint x div 128 = 1" using u8_range [of x] by presburger
    then show ?thesis using u8_range [of x] by auto
  qed
  finally show ?thesis .
qed

lemma and80_eq_0: "(x :: u8) AND 0x80 = 0 \<longleftrightarrow> uint x < 128"
proof
  assume "x AND 0x80 = 0"
  then have "\<not> bit (x AND 0x80) 7" by simp
  then have "\<not> bit x 7" by (simp only: bit_and_iff bit_80) simp
  then show "uint x < 128" by (simp add: bit7_iff)
next
  assume "uint x < 128"
  then have "\<not> bit x 7" by (simp add: bit7_iff)
  then show "x AND 0x80 = 0"
    by (intro bit_word_eqI) (auto simp only: bit_and_iff bit_80 bit_0_eq bot_apply bot_bool_def)
qed

lemma or80: "uint x < 128 \<Longrightarrow> uint (x OR 0x80 :: u8) = uint x + 128"
proof -
  assume a: "uint x < 128"
  then have "x AND 0x80 = 0" by (simp add: and80_eq_0)
  then have "x + 0x80 = x OR 0x80" by (rule disjunctive_add_eq_or)
  then have "uint (x OR 0x80) = uint (x + 0x80)" by simp
  also have "\<dots> = uint x + 128" using a by (simp add: uint_word_ariths)
  finally show ?thesis .
qed

lemma or80_neq_0: "(x :: u8) OR 0x80 \<noteq> 0"
  by (metis bit_0_eq bit_80 bit_or_iff bot_apply bot_bool_def)

definition mk16 :: "u8 \<Rightarrow> u8 \<Rightarrow> u16" where
  "mk16 a b = push_bit 8 (ucast a) OR ucast b"

definition hi8 :: "u16 \<Rightarrow> u8" where
  "hi8 c = ucast (drop_bit 8 c AND 0xff)"

definition lo8 :: "u16 \<Rightarrow> u8" where
  "lo8 c = ucast (c AND 0xff)"

lemma mask8_u16: "(0xff :: u16) = mask 8"
  by (simp add: mask_eq_exp_minus_1)

lemma hi8_mk16 [simp, byte_simps]: "hi8 (mk16 a b) = a"
  unfolding hi8_def mk16_def mask8_u16
  by (rule bit_word_eqI) (auto simp: bit_simps dest: bit_imp_le_length)

lemma lo8_mk16 [simp, byte_simps]: "lo8 (mk16 a b) = b"
  unfolding lo8_def mk16_def mask8_u16
  by (rule bit_word_eqI) (auto simp: bit_simps dest: bit_imp_le_length)

lemma mk16_hi_lo [simp, byte_simps]: "mk16 (hi8 c) (lo8 c) = c"
  unfolding lo8_def hi8_def mk16_def mask8_u16
  by (rule bit_word_eqI) (auto simp: bit_simps)

lemma mk16_eq_iff [simp]: "mk16 a b = mk16 c d \<longleftrightarrow> a = c \<and> b = d"
  by (metis hi8_mk16 lo8_mk16)

lemma mk16_0 [simp]: "mk16 0 0 = 0"
  by (simp add: mk16_def)

lemma mk16_eq_0 [simp]: "mk16 a b = 0 \<longleftrightarrow> a = 0 \<and> b = 0"
  by (metis mk16_0 mk16_eq_iff)

lemma mk16_plus: "push_bit 8 (ucast a :: u16) + ucast b = mk16 a b"
  unfolding mk16_def
  by (rule disjunctive_add_eq_or)
     (rule bit_word_eqI, auto simp: bit_simps dest: bit_imp_le_length)

text \<open>The four bytes of an \<open>int\<close>, most significant first, and back.\<close>

definition byte3 :: "u32 \<Rightarrow> u8" where "byte3 c = ucast (drop_bit 24 c)"
definition byte2 :: "u32 \<Rightarrow> u8" where "byte2 c = ucast (drop_bit 16 c)"
definition byte1 :: "u32 \<Rightarrow> u8" where "byte1 c = ucast (drop_bit 8 c)"
definition byte0 :: "u32 \<Rightarrow> u8" where "byte0 c = ucast c"

definition mk32 :: "u8 \<Rightarrow> u8 \<Rightarrow> u8 \<Rightarrow> u8 \<Rightarrow> u32" where
  "mk32 a b c d = push_bit 24 (ucast a) OR push_bit 16 (ucast b) OR push_bit 8 (ucast c) OR ucast d"

lemma mk32_bytes [simp, byte_simps]: "mk32 (byte3 c) (byte2 c) (byte1 c) (byte0 c) = c"
proof (rule bit_word_eqI)
  fix n
  assume "n < LENGTH(32)"
  then consider "n < 8" | "8 \<le> n" "n < 16" | "16 \<le> n" "n < 24" | "24 \<le> n" "n < 32"
    by force
  then show "bit (mk32 (byte3 c) (byte2 c) (byte1 c) (byte0 c)) n = bit c n"
    by cases (auto simp: mk32_def byte3_def byte2_def byte1_def byte0_def bit_simps)
qed

lemma bytes_mk32 [simp, byte_simps]:
  "byte3 (mk32 a b c d) = a" "byte2 (mk32 a b c d) = b"
  "byte1 (mk32 a b c d) = c" "byte0 (mk32 a b c d) = d"
  unfolding mk32_def byte3_def byte2_def byte1_def byte0_def
  by (rule bit_word_eqI, auto simp: bit_simps dest: bit_imp_le_length)+

end
