(* ===== verification/Sj_String.thy ===== *)
theory Sj_String
  imports Sj_Prelude
begin

text \<open>
  \<^verbatim>\<open>lib/sj3lib/sj_string.c\<close> (the server compiles the same file as
  \<^verbatim>\<open>src/sj3serv/sj_string.c\<close>): conversion of two-byte codes between JIS,
  EUC and Shift JIS and of whole C strings between EUC and Shift JIS.

  The C code computes in \<open>int\<close> and stores into \<open>unsigned char\<close>; the model
  computes in \<^typ>\<open>int\<close> and truncates with \<^const>\<open>word_of_int\<close>. The string
  routines take the input and output objects as lists and yield \<open>None\<close> when
  the C code would leave one of them; a result \<open>Some (r, out, useflag)\<close> is the
  return value, the output object and the counter of default characters.
\<close>

section \<open>Codes\<close>

definition SS2 :: u8 where "SS2 = 0x8e"
definition SS3 :: u8 where "SS3 = 0x8f"

definition issjis1 :: "u8 \<Rightarrow> bool" where
  "issjis1 c \<longleftrightarrow> (0x81 \<le> c \<and> c \<le> 0x9f) \<or> (0xe0 \<le> c \<and> c \<le> 0xfc)"

definition iseuc :: "u8 \<Rightarrow> bool" where
  "iseuc c \<longleftrightarrow> 0xa1 \<le> c \<and> c \<le> 0xfe"

definition iskana :: "u8 \<Rightarrow> bool" where
  "iskana c \<longleftrightarrow> 0xa1 \<le> c \<and> c \<le> 0xdf"

definition sj_jis2sjis :: "u8 \<times> u8 \<Rightarrow> u8 \<times> u8" where
  "sj_jis2sjis s =
     (let high = uint (fst s); low = uint (snd s);
          nh = (high - 0x21) div 2 + 0x81;
          nh = (if nh > 0x9f then nh + 0x40 else nh);
          nl = (if high mod 2 = 1
                then (let nl = low + 0x1f in if low > 0x5f then nl + 1 else nl)
                else low + 0x7e)
      in (word_of_int nh, word_of_int nl))"

definition sj_euc2sjis :: "u8 \<times> u8 \<Rightarrow> u8 \<times> u8" where
  "sj_euc2sjis s = sj_jis2sjis (fst s AND 0x7f, snd s AND 0x7f)"

definition sj_sjis2jis :: "u8 \<times> u8 \<Rightarrow> u8 \<times> u8" where
  "sj_sjis2jis s =
     (let byte1 = uint (fst s); byte2 = uint (snd s);
          bad = (byte1 \<le> 0x80 \<or> byte1 \<ge> 0xf0 \<or> (byte1 \<ge> 0xa0 \<and> byte1 \<le> 0xdf)
                 \<or> byte2 \<le> 0x3f \<or> byte2 \<ge> 0xfe \<or> byte2 = 0x7f);
          byte1 = (if bad then 0x81 else byte1);
          byte2 = (if bad then 0x40 else byte2);
          byte1 = byte1 - (if byte1 \<ge> 0xa0 then 0xc1 else 0x81)
      in if byte2 \<ge> 0x9f
         then (word_of_int (byte1 * 2 + 0x22), word_of_int (byte2 - 0x7e))
         else (word_of_int (byte1 * 2 + 0x21),
               word_of_int (byte2 - (if byte2 \<le> 0x7e then 0x1f else 0x20))))"

definition sj_sjis2euc :: "u8 \<times> u8 \<Rightarrow> u8 \<times> u8" where
  "sj_sjis2euc s = (let t = sj_sjis2jis s in (fst t OR 0x80, snd t OR 0x80))"

definition sj3_jis2sjis :: "u16 \<Rightarrow> u16" where
  "sj3_jis2sjis code = (let t = sj_jis2sjis (hi8 code, lo8 code) in mk16 (fst t) (snd t))"

definition sj3_jis2euc :: "u16 \<Rightarrow> u16" where
  "sj3_jis2euc code = mk16 (hi8 code OR 0x80) (lo8 code OR 0x80)"

definition sj3_sjis2jis :: "u16 \<Rightarrow> u16" where
  "sj3_sjis2jis code = (let t = sj_sjis2jis (hi8 code, lo8 code) in mk16 (fst t) (snd t))"

definition sj3_euc2sjis :: "u16 \<Rightarrow> u16" where
  "sj3_euc2sjis code = (let t = sj_euc2sjis (hi8 code, lo8 code) in mk16 (fst t) (snd t))"

definition sj3_sjis2euc :: "u16 \<Rightarrow> u16" where
  "sj3_sjis2euc code = (let t = sj_sjis2euc (hi8 code, lo8 code) in mk16 (fst t) (snd t))"

section \<open>Strings\<close>

type_synonym conv_result = "(int \<times> cbuf \<times> int) option"

text \<open>The \<open>while\<close> loop of \<^verbatim>\<open>sj3_str_sjistoeuc\<close>: \<open>i\<close> is \<open>sjis - in\<close>.\<close>

function str_sjistoeuc_loop ::
  "cbuf \<Rightarrow> int \<Rightarrow> u8 \<times> u8 \<Rightarrow> nat \<Rightarrow> nat \<Rightarrow> cbuf \<Rightarrow> int \<Rightarrow> conv_result" where
  "str_sjistoeuc_loop inb outlen dflt i n out useflag = do {
     c \<leftarrow> rd inb i;
     if c \<noteq> 0 \<and> int n < outlen then
       (if issjis1 c then do {
          d \<leftarrow> rd inb (i + 1);
          if int n + 2 > outlen then Some (-1, out, useflag)
          else (let code = sj3_sjis2euc (mk16 c d) in
            if code = 0 then (let default_code = sj3_sjis2euc (mk16 (fst dflt) (snd dflt)) in do {
              out \<leftarrow> wr out n (hi8 default_code);
              out \<leftarrow> wr out (n + 1) (lo8 default_code);
              str_sjistoeuc_loop inb outlen dflt (i + 2) (n + 2) out (useflag + 1) })
            else do {
              out \<leftarrow> wr out n (hi8 code);
              out \<leftarrow> wr out (n + 1) (lo8 code);
              str_sjistoeuc_loop inb outlen dflt (i + 2) (n + 2) out useflag })
        }
        else if 0xa1 \<le> c \<and> c \<le> 0xdf then
          (if int n + 2 > outlen then Some (-1, out, useflag)
           else do {
             out \<leftarrow> wr out n SS2;
             out \<leftarrow> wr out (n + 1) c;
             str_sjistoeuc_loop inb outlen dflt (i + 1) (n + 2) out useflag })
        else do {
          out \<leftarrow> wr out n c;
          str_sjistoeuc_loop inb outlen dflt (i + 1) (n + 1) out useflag })
     else if int n > outlen then Some (-1, out, useflag)
     else do { out \<leftarrow> wr out n 0; Some (int n, out, useflag) }
   }"
  by pat_completeness auto
termination
  by (relation "measure (\<lambda>(inb, outlen, dflt, i, n, out, useflag). length inb - i)") (auto simp: rd_Some_iff)

definition sj3_str_sjistoeuc ::
  "cbuf \<Rightarrow> int \<Rightarrow> cbuf option \<Rightarrow> u8 \<times> u8 \<Rightarrow> conv_result" where
  "sj3_str_sjistoeuc out outlen inp dflt = do {
     out \<leftarrow> wr out 0 0;
     (case inp of None \<Rightarrow> Some (0, out, 0)
      | Some inb \<Rightarrow> str_sjistoeuc_loop inb outlen dflt 0 0 out 0)
   }"

function str_euctosjis_loop ::
  "cbuf \<Rightarrow> int \<Rightarrow> u8 \<times> u8 \<Rightarrow> nat \<Rightarrow> nat \<Rightarrow> cbuf \<Rightarrow> int \<Rightarrow> conv_result" where
  "str_euctosjis_loop inb outlen dflt i n out useflag = do {
     c \<leftarrow> rd inb i;
     if c \<noteq> 0 \<and> int n < outlen then
       (if iseuc c then do {
          d \<leftarrow> rd inb (i + 1);
          if int n + 2 > outlen then Some (-1, out, useflag)
          else (let code = sj3_euc2sjis (mk16 c d) in
            if code = 0 then do {
              out \<leftarrow> wr out n (fst dflt);
              out \<leftarrow> wr out (n + 1) (snd dflt);
              str_euctosjis_loop inb outlen dflt (i + 2) (n + 2) out (useflag + 1) }
            else do {
              out \<leftarrow> wr out n (hi8 code);
              out \<leftarrow> wr out (n + 1) (lo8 code);
              str_euctosjis_loop inb outlen dflt (i + 2) (n + 2) out useflag })
        }
        else if c = SS3 then
          (if int n + 2 > outlen then Some (-1, out, useflag)
           else do {
             out \<leftarrow> wr out n (fst dflt);
             out \<leftarrow> wr out (n + 1) (snd dflt);
             str_euctosjis_loop inb outlen dflt (i + 3) (n + 2) out (useflag + 1) })
        else if c = SS2 then do {
          d \<leftarrow> rd inb (i + 1);
          out \<leftarrow> wr out n d;
          str_euctosjis_loop inb outlen dflt (i + 2) (n + 1) out useflag }
        else do {
          out \<leftarrow> wr out n c;
          str_euctosjis_loop inb outlen dflt (i + 1) (n + 1) out useflag })
     else if int n > outlen then Some (-1, out, useflag)
     else do { out \<leftarrow> wr out n 0; Some (int n, out, useflag) }
   }"
  by pat_completeness auto
termination
  by (relation "measure (\<lambda>(inb, outlen, dflt, i, n, out, useflag). length inb - i)") (auto simp: rd_Some_iff)

definition sj3_str_euctosjis ::
  "cbuf \<Rightarrow> int \<Rightarrow> cbuf option \<Rightarrow> u8 \<times> u8 \<Rightarrow> conv_result" where
  "sj3_str_euctosjis out outlen inp dflt = do {
     out \<leftarrow> wr out 0 0;
     (case inp of None \<Rightarrow> Some (0, out, 0)
      | Some inb \<Rightarrow> str_euctosjis_loop inb outlen dflt 0 0 out 0)
   }"

declare str_sjistoeuc_loop.simps [simp del]
declare str_euctosjis_loop.simps [simp del]

text \<open>The byte count a conversion to EUC will need: \<^verbatim>\<open>sj3_sjistoeuclen\<close>.\<close>

function sjistoeuclen_loop :: "cbuf \<Rightarrow> int \<Rightarrow> nat \<Rightarrow> int \<Rightarrow> int \<Rightarrow> int option" where
  "sjistoeuclen_loop str mx i len bytes =
     (if bytes \<le> mx then do {
        c \<leftarrow> rd str i;
        if c = 0 then Some len
        else if issjis1 c then do {
          d \<leftarrow> rd str (i + 1);
          if d = 0 then Some len
          else sjistoeuclen_loop str mx (i + 2) (len + 2) (bytes + 2) }
        else if c AND 0x80 \<noteq> 0 then sjistoeuclen_loop str mx (i + 1) (len + 2) (bytes + 1)
        else sjistoeuclen_loop str mx (i + 1) (len + 1) (bytes + 1) }
      else Some len)"
  by pat_completeness auto
termination
  by (relation "measure (\<lambda>(str, mx, i, len, bytes). length str - i)") (auto simp: rd_Some_iff)

declare sjistoeuclen_loop.simps [simp del]

definition sj3_sjistoeuclen :: "cbuf \<Rightarrow> int \<Rightarrow> int option" where
  "sj3_sjistoeuclen str mx = (if mx = 0 then Some 0 else sjistoeuclen_loop str mx 0 0 1)"

definition def_char :: "u8 \<times> u8" where
  "def_char = (0x81, 0x40)"

definition sj3_sjistoeuc :: "cbuf \<Rightarrow> int \<Rightarrow> cbuf option \<Rightarrow> (int \<times> cbuf) option" where
  "sj3_sjistoeuc e elen s = do {
     (r, e, dummy) \<leftarrow> sj3_str_sjistoeuc e elen s def_char;
     Some (r, e) }"

definition sj3_euctosjis :: "cbuf \<Rightarrow> int \<Rightarrow> cbuf option \<Rightarrow> (int \<times> cbuf) option" where
  "sj3_euctosjis s slen e = do {
     (r, s, dummy) \<leftarrow> sj3_str_euctosjis s slen e def_char;
     Some (r, s) }"

section \<open>Two-byte codes are converted without loss\<close>

definition sjis_lead :: "int \<Rightarrow> int" where
  "sjis_lead h = (let n = (h - 0x21) div 2 + 0x81 in if n > 0x9f then n + 0x40 else n)"
definition sjis_trail :: "int \<Rightarrow> int \<Rightarrow> int" where
  "sjis_trail h l = (if h mod 2 = 1 then (if l > 0x5f then l + 0x20 else l + 0x1f) else l + 0x7e)"
lemma jis2sjis_uint:
  "sj_jis2sjis (h, l) = (word_of_int (sjis_lead (uint h)), word_of_int (sjis_trail (uint h) (uint l)))"
  by (simp add: sj_jis2sjis_def sjis_lead_def sjis_trail_def Let_def)
lemma sjis_lead_range:
  assumes "0x21 \<le> h" "h \<le> 0x7e"
  shows "(0x81 \<le> sjis_lead h \<and> sjis_lead h \<le> 0x9f) \<or> (0xe0 \<le> sjis_lead h \<and> sjis_lead h \<le> 0xef)"
proof -
  have "0 \<le> (h - 0x21) div 2" "(h - 0x21) div 2 \<le> 46" using assms by auto
  then show ?thesis by (auto simp: sjis_lead_def Let_def)
qed
lemma sjis_trail_range:
  assumes "0x21 \<le> l" "l \<le> 0x7e"
  shows "0x40 \<le> sjis_trail h l" "sjis_trail h l \<le> 0xfc" "sjis_trail h l \<noteq> 0x7f"
    "0x9f \<le> sjis_trail h l \<longleftrightarrow> h mod 2 \<noteq> 1"
  using assms by (auto simp: sjis_trail_def)
lemma sjis_lead_inv:
  assumes "0x21 \<le> h" "h \<le> 0x7e"
  shows "sjis_lead h - (if sjis_lead h \<ge> 0xa0 then 0xc1 else 0x81) = (h - 0x21) div 2"
proof -
  have "0 \<le> (h - 0x21) div 2" "(h - 0x21) div 2 \<le> 46" using assms by auto
  then show ?thesis by (auto simp: sjis_lead_def Let_def)
qed
lemma jis_sjis_jis:
  assumes "0x21 \<le> uint h" "uint h \<le> 0x7e" "0x21 \<le> uint l" "uint l \<le> 0x7e"
  shows "sj_sjis2jis (sj_jis2sjis (h, l)) = (h, l)"
proof -
  let ?H = "uint h" let ?L = "uint l"
  let ?a = "sjis_lead ?H" let ?b = "sjis_trail ?H ?L"
  note a = sjis_lead_range [OF assms(1,2)] and b = sjis_trail_range [OF assms(3,4), of ?H]
    and inv = sjis_lead_inv [OF assms(1,2)]
  have ua: "uint (word_of_int ?a :: u8) = ?a" using a by (intro uint_of_int_u8) auto
  have ub: "uint (word_of_int ?b :: u8) = ?b" using b by (intro uint_of_int_u8) auto
  have good: "\<not> (?a \<le> 0x80 \<or> ?a \<ge> 0xf0 \<or> (?a \<ge> 0xa0 \<and> ?a \<le> 0xdf)
                 \<or> ?b \<le> 0x3f \<or> ?b \<ge> 0xfe \<or> ?b = 0x7f)"
    using a b by auto
  have eq: "sj_sjis2jis (sj_jis2sjis (h, l)) =
      (if ?b \<ge> 0x9f then (word_of_int ((?H - 0x21) div 2 * 2 + 0x22), word_of_int (?b - 0x7e))
       else (word_of_int ((?H - 0x21) div 2 * 2 + 0x21), word_of_int (?b - (if ?b \<le> 0x7e then 0x1f else 0x20))))"
    unfolding jis2sjis_uint
    unfolding sj_sjis2jis_def Let_def fst_conv snd_conv ua ub if_not_P [OF good] inv ..
  show ?thesis
  proof (cases "?H mod 2 = 1")
    case True
    then have "(?H - 0x21) div 2 * 2 + 0x21 = ?H" by presburger
    moreover have "?b - (if ?b \<le> 0x7e then 0x1f else 0x20) = ?L" using True assms by (auto simp: sjis_trail_def)
    ultimately show ?thesis using True b(4) by (simp add: eq)
  next
    case False
    then have "(?H - 0x21) div 2 * 2 + 0x22 = ?H" by presburger
    moreover have "?b - 0x7e = ?L" using False by (auto simp: sjis_trail_def)
    ultimately show ?thesis using False b(4) by (simp add: eq)
  qed
qed

definition sjis_pair :: "u8 \<Rightarrow> u8 \<Rightarrow> bool" where
  "sjis_pair a b \<longleftrightarrow> ((0x81 \<le> a \<and> a \<le> 0x9f) \<or> (0xe0 \<le> a \<and> a \<le> 0xef))
     \<and> 0x40 \<le> b \<and> b \<le> 0xfd \<and> b \<noteq> 0x7f"

definition jis_row :: "int \<Rightarrow> int \<Rightarrow> int" where
  "jis_row a b = (a - (if a \<ge> 0xa0 then 0xc1 else 0x81)) * 2 + (if b \<ge> 0x9f then 0x22 else 0x21)"

definition jis_col :: "int \<Rightarrow> int" where
  "jis_col b = (if b \<ge> 0x9f then b - 0x7e else b - (if b \<le> 0x7e then 0x1f else 0x20))"

lemma sjis_pair_uint:
  "sjis_pair a b \<longleftrightarrow> ((0x81 \<le> uint a \<and> uint a \<le> 0x9f) \<or> (0xe0 \<le> uint a \<and> uint a \<le> 0xef))
     \<and> 0x40 \<le> uint b \<and> uint b \<le> 0xfd \<and> uint b \<noteq> 0x7f"
  by (simp add: sjis_pair_def word_le_def u8_eq_iff)

lemma sjis2jis_uint:
  "sjis_pair a b \<Longrightarrow>
    sj_sjis2jis (a, b) = (word_of_int (jis_row (uint a) (uint b)), word_of_int (jis_col (uint b)))"
  unfolding sjis_pair_uint sj_sjis2jis_def jis_row_def jis_col_def Let_def by force

lemma jis_row_col_range:
  assumes "sjis_pair a b"
  shows "0x21 \<le> jis_row (uint a) (uint b)" "jis_row (uint a) (uint b) \<le> 0x7e"
    "0x21 \<le> jis_col (uint b)" "jis_col (uint b) \<le> 0x7f"
  using assms unfolding sjis_pair_uint jis_row_def jis_col_def by auto

lemma sjis_lead_row: "sjis_pair a b \<Longrightarrow> sjis_lead (jis_row (uint a) (uint b)) = uint a"
proof -
  assume p: "sjis_pair a b"
  let ?k = "uint a - (if uint a \<ge> 0xa0 then 0xc1 else 0x81)"
  have "(jis_row (uint a) (uint b) - 0x21) div 2 = ?k"
    unfolding jis_row_def by auto
  then show ?thesis
    using p by (auto simp: sjis_lead_def Let_def sjis_pair_uint)
qed

lemma sjis_trail_col:
  "sjis_pair a b \<Longrightarrow> sjis_trail (jis_row (uint a) (uint b)) (jis_col (uint b)) = uint b"
proof -
  assume p: "sjis_pair a b"
  have "jis_row (uint a) (uint b) mod 2 = 1 \<longleftrightarrow> uint b < 0x9f"
    unfolding jis_row_def by auto presburger+
  then show ?thesis
    using p by (auto simp: sjis_trail_def jis_col_def sjis_pair_uint)
qed

lemma sjis2jis_bytes:
  assumes "sjis_pair a b"
  shows "uint (fst (sj_sjis2jis (a, b))) = jis_row (uint a) (uint b)"
    "uint (snd (sj_sjis2jis (a, b))) = jis_col (uint b)"
  using jis_row_col_range [OF assms]
  by (simp_all add: sjis2jis_uint [OF assms] uint_of_int_u8 del: of_int_add of_int_diff)

lemma sjis_jis_sjis:
  assumes "sjis_pair a b"
  shows "sj_jis2sjis (sj_sjis2jis (a, b)) = (a, b)"
proof -
  obtain h l where hl: "sj_sjis2jis (a, b) = (h, l)" by fastforce
  with sjis2jis_bytes [OF assms]
  have "uint h = jis_row (uint a) (uint b)" "uint l = jis_col (uint b)" by simp_all
  then show ?thesis
    by (simp add: hl jis2sjis_uint sjis_lead_row [OF assms] sjis_trail_col [OF assms])
qed

lemma uint_iseuc: "iseuc c \<longleftrightarrow> 0xa1 \<le> uint c \<and> uint c \<le> 0xfe"
  by (simp add: iseuc_def word_le_def)

lemma and7f_euc: "iseuc c \<Longrightarrow> uint (c AND 0x7f) = uint c - 128"
  by (simp add: and7f uint_iseuc) presburger

lemma euc2sjis_inverse:
  assumes "iseuc h" "iseuc l"
  shows "sj_sjis2euc (sj_euc2sjis (h, l)) = (h, l)"
proof -
  note h = and7f_euc [OF assms(1)] and l = and7f_euc [OF assms(2)]
  have "sj_sjis2jis (sj_jis2sjis (h AND 0x7f, l AND 0x7f)) = (h AND 0x7f, l AND 0x7f)"
    by (rule jis_sjis_jis) (use assms in \<open>auto simp: uint_iseuc h l\<close>)
  moreover have "(h AND 0x7f) OR 0x80 = h" "(l AND 0x7f) OR 0x80 = l"
    using assms h l by (auto simp: u8_eq_iff or80 uint_iseuc)
  ultimately show ?thesis by (simp add: sj_sjis2euc_def sj_euc2sjis_def Let_def)
qed

lemma sjis2euc_inverse:
  assumes p: "sjis_pair a b"
  shows "sj_euc2sjis (sj_sjis2euc (a, b)) = (a, b)"
proof -
  have r: "uint (fst (sj_sjis2jis (a, b))) < 128" "uint (snd (sj_sjis2jis (a, b))) < 128"
    using jis_row_col_range [OF p] by (simp_all add: sjis2jis_bytes [OF p])
  have inv: "(x OR 0x80) AND 0x7f = x" if "uint x < 128" for x :: u8
    using that by (simp add: u8_eq_iff and7f or80)
  show ?thesis
    using sjis_jis_sjis [OF p] inv [OF r(1)] inv [OF r(2)]
    by (simp add: sj_sjis2euc_def sj_euc2sjis_def Let_def)
qed

lemma euc2sjis_lead:
  assumes "iseuc h" "iseuc l"
  shows "issjis1 (fst (sj_euc2sjis (h, l)))" "snd (sj_euc2sjis (h, l)) \<noteq> 0"
    "fst (sj_euc2sjis (h, l)) \<noteq> 0"
proof -
  note h = and7f_euc [OF assms(1)] and l = and7f_euc [OF assms(2)]
  note a = sjis_lead_range [of "uint h - 128"] and b = sjis_trail_range [of "uint l - 128" "uint h - 128"]
  have eq: "sj_euc2sjis (h, l) =
      (word_of_int (sjis_lead (uint h - 128)), word_of_int (sjis_trail (uint h - 128) (uint l - 128)))"
    unfolding sj_euc2sjis_def fst_conv snd_conv jis2sjis_uint h l ..
  have ua: "uint (word_of_int (sjis_lead (uint h - 128)) :: u8) = sjis_lead (uint h - 128)"
    using a assms by (intro uint_of_int_u8) (auto simp: uint_iseuc)
  have ub: "uint (word_of_int (sjis_trail (uint h - 128) (uint l - 128)) :: u8)
      = sjis_trail (uint h - 128) (uint l - 128)"
    using b assms by (intro uint_of_int_u8) (auto simp: uint_iseuc)
  show "issjis1 (fst (sj_euc2sjis (h, l)))" "snd (sj_euc2sjis (h, l)) \<noteq> 0"
    "fst (sj_euc2sjis (h, l)) \<noteq> 0"
    using a b assms unfolding eq
    by (auto simp: issjis1_def word_le_def u8_eq_iff ua ub uint_iseuc simp del: word_of_int_eq_iff)
qed

section \<open>Strings of characters\<close>

text \<open>
  The text both encodings can express: one-byte characters, half-width katakana
  and JIS X 0208 pairs (named by their EUC bytes), with their bytes in EUC and in
  Shift JIS.
\<close>

datatype mbchar = Single u8 | Kana u8 | Zen u8 u8

fun euc_bytes :: "mbchar \<Rightarrow> u8 list" where
  "euc_bytes (Single c) = [c]"
| "euc_bytes (Kana c) = [SS2, c]"
| "euc_bytes (Zen h l) = [h, l]"

fun sjis_bytes :: "mbchar \<Rightarrow> u8 list" where
  "sjis_bytes (Single c) = [c]"
| "sjis_bytes (Kana c) = [c]"
| "sjis_bytes (Zen h l) = (let s = sj_euc2sjis (h, l) in [fst s, snd s])"

fun mb_ok :: "mbchar \<Rightarrow> bool" where
  "mb_ok (Single c) = (c \<noteq> 0 \<and> c < 0x80)"
| "mb_ok (Kana c) = iskana c"
| "mb_ok (Zen h l) = (iseuc h \<and> iseuc l)"

definition euc_str :: "mbchar list \<Rightarrow> u8 list" where
  "euc_str cs = concat (map euc_bytes cs)"

definition sjis_str :: "mbchar list \<Rightarrow> u8 list" where
  "sjis_str cs = concat (map sjis_bytes cs)"

lemma euc_str_simps [simp]:
  "euc_str [] = []" "euc_str (c # cs) = euc_bytes c @ euc_str cs"
  by (simp_all add: euc_str_def)

lemma sjis_str_simps [simp]:
  "sjis_str [] = []" "sjis_str (c # cs) = sjis_bytes c @ sjis_str cs"
  by (simp_all add: sjis_str_def)

lemma iskana_uint: "iskana c \<longleftrightarrow> 0xa1 \<le> uint c \<and> uint c \<le> 0xdf"
  by (simp add: iskana_def word_le_def)

lemma class_disjoint:
  "iskana c \<Longrightarrow> \<not> issjis1 c" "c < 0x80 \<Longrightarrow> \<not> issjis1 c" "c < 0x80 \<Longrightarrow> \<not> iseuc c"
  "c < 0x80 \<Longrightarrow> \<not> iskana c" "iskana c \<Longrightarrow> c \<noteq> 0" "iseuc c \<Longrightarrow> c \<noteq> 0"
  "\<not> iseuc SS2" "\<not> iseuc SS3" "SS2 \<noteq> 0" "SS2 \<noteq> SS3" "c < 0x80 \<Longrightarrow> c \<noteq> SS2" "c < 0x80 \<Longrightarrow> c \<noteq> SS3"
  by (auto simp: iskana_def issjis1_def iseuc_def word_le_def word_less_def SS2_def SS3_def u8_eq_iff)

lemma sj3_euc2sjis_mk16: "sj3_euc2sjis (mk16 h l) = mk16 (fst (sj_euc2sjis (h, l))) (snd (sj_euc2sjis (h, l)))"
  by (simp add: sj3_euc2sjis_def Let_def)

lemma sj3_sjis2euc_mk16: "sj3_sjis2euc (mk16 h l) = mk16 (fst (sj_sjis2euc (h, l))) (snd (sj_sjis2euc (h, l)))"
  by (simp add: sj3_sjis2euc_def Let_def)


lemma sj3_euc2sjis_nonzero: "iseuc h \<Longrightarrow> iseuc l \<Longrightarrow> sj3_euc2sjis (mk16 h l) \<noteq> 0"
  using euc2sjis_lead by (simp add: sj3_euc2sjis_mk16)



text \<open>What a conversion loop leaves behind: the converted text and its terminating NUL.\<close>

definition conv_done :: "cbuf \<Rightarrow> nat \<Rightarrow> int \<Rightarrow> conv_result" where
  "conv_done out n f = do { out \<leftarrow> wr out n 0; Some (int n, out, f) }"

lemma conv_done_in: "n < length out \<Longrightarrow> conv_done out n f = Some (int n, out[n := 0], f)"
  by (simp add: conv_done_def wr_in)

lemma conv_done_out: "length out \<le> n \<Longrightarrow> conv_done out n f = None"
  by (simp add: conv_done_def wr_def)


lemma euctosjis_loop_ok:
  assumes "list_all mb_ok cs" and "drop i inb = euc_str cs @ 0 # r"
    and "int (length p + length (sjis_str cs)) \<le> outlen" and "length (sjis_str cs) \<le> length q"
  shows "str_euctosjis_loop inb outlen dflt i (length p) (p @ q) f =
     conv_done (p @ sjis_str cs @ drop (length (sjis_str cs)) q) (length p + length (sjis_str cs)) f"
  using assms
proof (induction cs arbitrary: i p q)
  case Nil
  then show ?case
    by (subst str_euctosjis_loop.simps) (simp add: rd_drop0 conv_done_def)
next
  case (Cons c cs)
  show ?case
  proof (cases c)
    case (Single x)
    with Cons.prems obtain y q' where q: "q = y # q'" and x: "x \<noteq> 0" "x < 0x80" by (cases q) auto
    have IH: "str_euctosjis_loop inb outlen dflt (Suc i) (length (p @ [x])) ((p @ [x]) @ q') f =
        conv_done ((p @ [x]) @ sjis_str cs @ drop (length (sjis_str cs)) q')
          (length (p @ [x]) + length (sjis_str cs)) f"
      by (rule Cons.IH) (use Cons.prems Single q in \<open>auto simp: drop_drop1\<close>)
    show ?thesis
      using Cons.prems Single IH x
      by (subst str_euctosjis_loop.simps) (auto simp: q rd_drop0 wr_append class_disjoint)
  next
    case (Kana x)
    with Cons.prems obtain y q' where q: "q = y # q'" and x: "iskana x" by (cases q) auto
    have IH: "str_euctosjis_loop inb outlen dflt (i + 2) (length (p @ [x])) ((p @ [x]) @ q') f =
        conv_done ((p @ [x]) @ sjis_str cs @ drop (length (sjis_str cs)) q')
          (length (p @ [x]) + length (sjis_str cs)) f"
      by (rule Cons.IH) (use Cons.prems Kana q in \<open>auto dest: drop_drop2\<close>)
    show ?thesis
      using Cons.prems Kana IH x
      by (subst str_euctosjis_loop.simps) (auto simp: q drop_rds wr_append class_disjoint)
  next
    case (Zen h l)
    let ?s = "sj_euc2sjis (h, l)"
    from Zen Cons.prems have hl: "iseuc h" "iseuc l" by auto
    from Zen Cons.prems obtain y z q' where q: "q = y # z # q'"
      by (cases q; cases "tl q") (auto simp: Let_def)
    have IH: "str_euctosjis_loop inb outlen dflt (i + 2) (length (p @ [fst ?s, snd ?s]))
        ((p @ [fst ?s, snd ?s]) @ q') f =
        conv_done ((p @ [fst ?s, snd ?s]) @ sjis_str cs @ drop (length (sjis_str cs)) q')
          (length (p @ [fst ?s, snd ?s]) + length (sjis_str cs)) f"
      by (rule Cons.IH) (use Cons.prems Zen q in \<open>auto simp: Let_def dest: drop_drop2\<close>)
    show ?thesis
      using Cons.prems Zen IH hl sj3_euc2sjis_nonzero [OF hl]
      by (subst str_euctosjis_loop.simps)
         (auto simp: q drop_rds wr_two class_disjoint sj3_euc2sjis_mk16 Let_def)
  qed
qed

lemma sj3_sjis2euc_nonzero: "sj3_sjis2euc c \<noteq> 0"
  by (simp add: sj3_sjis2euc_def sj_sjis2euc_def Let_def or80_neq_0)

lemma sjistoeuc_loop_ok:
  assumes "list_all mb_ok cs" and "drop i inb = sjis_str cs @ 0 # r"
    and "int (length p + length (euc_str cs)) \<le> outlen" and "length (euc_str cs) \<le> length q"
  shows "str_sjistoeuc_loop inb outlen dflt i (length p) (p @ q) f =
     conv_done (p @ euc_str cs @ drop (length (euc_str cs)) q) (length p + length (euc_str cs)) f"
  using assms
proof (induction cs arbitrary: i p q)
  case Nil
  then show ?case
    by (subst str_sjistoeuc_loop.simps) (simp add: rd_drop0 conv_done_def)
next
  case (Cons c cs)
  show ?case
  proof (cases c)
    case (Single x)
    with Cons.prems obtain y q' where q: "q = y # q'" and x: "x \<noteq> 0" "x < 0x80" by (cases q) auto
    have IH: "str_sjistoeuc_loop inb outlen dflt (Suc i) (length (p @ [x])) ((p @ [x]) @ q') f =
        conv_done ((p @ [x]) @ euc_str cs @ drop (length (euc_str cs)) q')
          (length (p @ [x]) + length (euc_str cs)) f"
      by (rule Cons.IH) (use Cons.prems Single q in \<open>auto simp: drop_drop1\<close>)
    have "\<not> (0xa1 \<le> x \<and> x \<le> 0xdf)" using class_disjoint(4) [OF x(2)] by (simp add: iskana_def)
    then show ?thesis
      using Cons.prems Single IH x
      by (subst str_sjistoeuc_loop.simps) (auto simp: q rd_drop0 wr_append class_disjoint)
  next
    case (Kana x)
    with Cons.prems obtain y z q' where q: "q = y # z # q'" and x: "iskana x"
      by (cases q; cases "tl q") auto
    have IH: "str_sjistoeuc_loop inb outlen dflt (Suc i) (length (p @ [SS2, x])) ((p @ [SS2, x]) @ q') f =
        conv_done ((p @ [SS2, x]) @ euc_str cs @ drop (length (euc_str cs)) q')
          (length (p @ [SS2, x]) + length (euc_str cs)) f"
      by (rule Cons.IH) (use Cons.prems Kana q in \<open>auto simp: drop_drop1\<close>)
    show ?thesis
      using Cons.prems Kana IH x
      by (subst str_sjistoeuc_loop.simps)
         (auto simp: q drop_rds wr_two class_disjoint iskana_def [symmetric])
  next
    case (Zen h l)
    let ?s = "sj_euc2sjis (h, l)"
    from Zen Cons.prems have hl: "iseuc h" "iseuc l" by auto
    note lead = euc2sjis_lead [OF hl]
    from Zen Cons.prems obtain y z q' where q: "q = y # z # q'"
      by (cases q; cases "tl q") (auto simp: Let_def)
    have IH: "str_sjistoeuc_loop inb outlen dflt (i + 2) (length (p @ [h, l])) ((p @ [h, l]) @ q') f =
        conv_done ((p @ [h, l]) @ euc_str cs @ drop (length (euc_str cs)) q')
          (length (p @ [h, l]) + length (euc_str cs)) f"
      by (rule Cons.IH) (use Cons.prems Zen q in \<open>auto simp: Let_def dest: drop_drop2\<close>)
    have code: "sj3_sjis2euc (mk16 (fst ?s) (snd ?s)) = mk16 h l"
      using euc2sjis_inverse [OF hl] by (simp add: sj3_sjis2euc_mk16)
    have "rd inb i = Some (fst ?s)" "rd inb (Suc i) = Some (snd ?s)"
      using Cons.prems(2) Zen by (auto simp: Let_def drop_rds)
    then show ?thesis
      using Cons.prems Zen IH hl lead
      by (subst str_sjistoeuc_loop.simps)
         (auto simp: q wr_two class_disjoint code Let_def)
  qed
qed

lemma sjistoeuclen_ok:
  assumes "list_all mb_ok cs" and "drop i str = sjis_str cs @ 0 # r"
    and "bytes + int (length (sjis_str cs)) \<le> mx + 1"
  shows "sjistoeuclen_loop str mx i len bytes = Some (len + int (length (euc_str cs)))"
  using assms
proof (induction cs arbitrary: i len bytes)
  case Nil
  then show ?case
    by (subst sjistoeuclen_loop.simps) (simp add: rd_drop0)
next
  case (Cons c cs)
  show ?case
  proof (cases c)
    case (Single x)
    then have x: "x \<noteq> 0" "x < 0x80" using Cons.prems by auto
    then have "x AND 0x80 = 0" by (simp add: and80_eq_0 word_less_def)
    moreover have "sjistoeuclen_loop str mx (Suc i) (len + 1) (bytes + 1) = Some (len + 1 + int (length (euc_str cs)))"
      by (rule Cons.IH) (use Cons.prems Single in \<open>auto simp: drop_drop1\<close>)
    ultimately show ?thesis
      using Cons.prems Single x
      by (subst sjistoeuclen_loop.simps) (auto simp: rd_drop0 class_disjoint)
  next
    case (Kana x)
    then have x: "iskana x" using Cons.prems by auto
    then have "x AND 0x80 \<noteq> 0" by (simp add: and80_eq_0 iskana_uint)
    moreover have "sjistoeuclen_loop str mx (Suc i) (len + 2) (bytes + 1) = Some (len + 2 + int (length (euc_str cs)))"
      by (rule Cons.IH) (use Cons.prems Kana in \<open>auto simp: drop_drop1\<close>)
    ultimately show ?thesis
      using Cons.prems Kana x
      by (subst sjistoeuclen_loop.simps) (auto simp: rd_drop0 class_disjoint)
  next
    case (Zen h l)
    let ?s = "sj_euc2sjis (h, l)"
    from Zen Cons.prems have hl: "iseuc h" "iseuc l" by auto
    have "sjistoeuclen_loop str mx (i + 2) (len + 2) (bytes + 2) = Some (len + 2 + int (length (euc_str cs)))"
      by (rule Cons.IH) (use Cons.prems Zen in \<open>auto simp: Let_def dest: drop_drop2\<close>)
    moreover have "rd str i = Some (fst ?s)" "rd str (Suc i) = Some (snd ?s)"
      using Cons.prems(2) Zen by (auto simp: Let_def drop_rds)
    ultimately show ?thesis
      using Cons.prems Zen euc2sjis_lead [OF hl]
      by (subst sjistoeuclen_loop.simps) (auto simp: Let_def)
  qed
qed

section \<open>The contract of a conversion routine\<close>

text \<open>
  Both string routines promise the same: text \<open>cs\<close> encoded by \<open>src\<close> comes out
  encoded by \<open>dst\<close>, followed by a NUL, provided \<open>outlen\<close> admits it.
\<close>

locale conv_routine =
  fixes conv :: "cbuf \<Rightarrow> int \<Rightarrow> cbuf option \<Rightarrow> u8 \<times> u8 \<Rightarrow> conv_result"
    and src dst :: "mbchar list \<Rightarrow> u8 list"
  assumes conv_ok:
    "list_all mb_ok cs \<Longrightarrow> int (length (dst cs)) \<le> outlen \<Longrightarrow> length (dst cs) \<le> length out \<Longrightarrow>
     out \<noteq> [] \<Longrightarrow>
     conv out outlen (Some (src cs @ 0 # r)) dflt =
       conv_done (dst cs @ drop (length (dst cs)) (out[0 := 0])) (length (dst cs)) 0"
    and dst_no_nul: "list_all mb_ok cs \<Longrightarrow> 0 \<notin> set (dst cs)"
begin

lemma conv_fits:
  assumes "list_all mb_ok cs" "int (length (dst cs)) \<le> outlen" "length (dst cs) < length out"
  shows "conv out outlen (Some (src cs @ 0 # r)) dflt =
    Some (int (length (dst cs)), dst cs @ 0 # drop (Suc (length (dst cs))) out, 0)"
proof -
  let ?n = "length (dst cs)"
  have "drop ?n (out[0 := 0]) = (out[0 := 0]) ! ?n # drop (Suc ?n) out"
    using assms(3) by (metis Cons_nth_drop_Suc drop_update_cancel length_list_update zero_less_Suc)
  then have "(dst cs @ drop ?n (out[0 := 0]))[?n := 0] = dst cs @ 0 # drop (Suc ?n) out"
    by (simp add: list_update_append)
  then show ?thesis
    using assms by (subst conv_ok) (auto simp: conv_done_in)
qed

lemma conv_exact_fill:
  assumes "list_all mb_ok cs" "length (dst cs) = length out" "out \<noteq> []"
  shows "conv out (int (length out)) (Some (src cs @ 0 # r)) dflt = None"
  using assms by (subst conv_ok) (auto simp: conv_done_out)

end

text \<open>Two routines that invert each other's encodings.\<close>

locale conv_pair =
  fwd: conv_routine conv1 src dst + bwd: conv_routine conv2 dst src
  for conv1 conv2 src dst
begin

lemma conv_roundtrip:
  assumes "list_all mb_ok cs" "length (dst cs) < length out1" "length (src cs) < length out2"
  shows "do { (n, b, f) \<leftarrow> conv1 out1 (int (length out1)) (Some (src cs @ 0 # r)) d1;
              (n', b', f') \<leftarrow> conv2 out2 (int (length out2)) (Some b) d2;
              Some (n', take (nat n') b', f + f') }
    = Some (int (length (src cs)), src cs, 0)"
  using assms by (simp add: fwd.conv_fits bwd.conv_fits)

end

lemma sjis_str_no_nul: "list_all mb_ok cs \<Longrightarrow> 0 \<notin> set (sjis_str cs)"
proof (induction cs)
  case (Cons c cs)
  then show ?case
    by (cases c) (auto simp: Let_def class_disjoint euc2sjis_lead dest: euc2sjis_lead(2,3) [THEN not_sym])
qed simp

lemma euc_str_no_nul: "list_all mb_ok cs \<Longrightarrow> 0 \<notin> set (euc_str cs)"
proof (induction cs)
  case (Cons c cs)
  then show ?case
    by (cases c) (auto simp: class_disjoint(9) [symmetric] dest: class_disjoint(5,6))
qed simp

interpretation euc2sjis_conv: conv_routine sj3_str_euctosjis euc_str sjis_str
proof
  fix cs outlen and out r :: cbuf and dflt
  assume a: "list_all mb_ok cs" "int (length (sjis_str cs)) \<le> outlen"
    "length (sjis_str cs) \<le> length out" "out \<noteq> []"
  from euctosjis_loop_ok [OF a(1), of 0 "euc_str cs @ 0 # r" r "[]" outlen "out[0 := 0]" dflt 0] a
  show "sj3_str_euctosjis out outlen (Some (euc_str cs @ 0 # r)) dflt =
      conv_done (sjis_str cs @ drop (length (sjis_str cs)) (out[0 := 0])) (length (sjis_str cs)) 0"
    by (simp add: sj3_str_euctosjis_def wr_in)
qed (rule sjis_str_no_nul)

interpretation sjis2euc_conv: conv_routine sj3_str_sjistoeuc sjis_str euc_str
proof
  fix cs outlen and out r :: cbuf and dflt
  assume a: "list_all mb_ok cs" "int (length (euc_str cs)) \<le> outlen"
    "length (euc_str cs) \<le> length out" "out \<noteq> []"
  from sjistoeuc_loop_ok [OF a(1), of 0 "sjis_str cs @ 0 # r" r "[]" outlen "out[0 := 0]" dflt 0] a
  show "sj3_str_sjistoeuc out outlen (Some (sjis_str cs @ 0 # r)) dflt =
      conv_done (euc_str cs @ drop (length (euc_str cs)) (out[0 := 0])) (length (euc_str cs)) 0"
    by (simp add: sj3_str_sjistoeuc_def wr_in)
qed (rule euc_str_no_nul)

interpretation euc_sjis: conv_pair sj3_str_euctosjis sj3_str_sjistoeuc euc_str sjis_str
  by unfold_locales

section \<open>Properties\<close>

text \<open>
  C1. Two-byte codes survive the conversion in both directions: EUC to Shift JIS and
  back is the identity on every EUC pair, and Shift JIS to EUC and back is the identity
  on every pair the code accepts as Shift JIS.
\<close>

theorem code_roundtrip:
  "(iseuc (hi8 c) \<and> iseuc (lo8 c) \<longrightarrow> sj3_sjis2euc (sj3_euc2sjis c) = c)
   \<and> (sjis_pair (hi8 c) (lo8 c) \<longrightarrow> sj3_euc2sjis (sj3_sjis2euc c) = c)"
proof (intro conjI impI)
  assume "iseuc (hi8 c) \<and> iseuc (lo8 c)"
  then have "sj_sjis2euc (sj_euc2sjis (hi8 c, lo8 c)) = (hi8 c, lo8 c)"
    by (simp add: euc2sjis_inverse)
  then show "sj3_sjis2euc (sj3_euc2sjis c) = c"
    by (simp add: sj3_sjis2euc_def sj3_euc2sjis_def Let_def)
next
  assume "sjis_pair (hi8 c) (lo8 c)"
  then have "sj_euc2sjis (sj_sjis2euc (hi8 c, lo8 c)) = (hi8 c, lo8 c)"
    by (rule sjis2euc_inverse)
  then show "sj3_euc2sjis (sj3_sjis2euc c) = c"
    by (simp add: sj3_sjis2euc_def sj3_euc2sjis_def Let_def)
qed

theorem code_roundtrip_witness:
  "iseuc (hi8 0xa4a2) \<and> iseuc (lo8 0xa4a2) \<and> sj3_sjis2euc (sj3_euc2sjis 0xa4a2) = 0xa4a2
   \<and> sjis_pair (hi8 0x82a0) (lo8 0x82a0) \<and> sj3_euc2sjis (sj3_sjis2euc 0x82a0) = 0x82a0"
proof -
  have e: "iseuc (hi8 0xa4a2)" "iseuc (lo8 0xa4a2)" by code_simp+
  have s: "sjis_pair (hi8 0x82a0) (lo8 0x82a0)" by code_simp
  show ?thesis using e s code_roundtrip [of "0xa4a2"] code_roundtrip [of "0x82a0"] by simp
qed

text \<open>
  C2. Converting text from EUC to Shift JIS and the result back to EUC gives the
  text again, without any default character, whenever both output objects have room
  for the text and its NUL.
\<close>

theorem string_roundtrip:
  assumes "list_all mb_ok cs" "length (sjis_str cs) < length out1" "length (euc_str cs) < length out2"
  shows "do { (n, b, f) \<leftarrow> sj3_str_euctosjis out1 (int (length out1)) (Some (euc_str cs @ 0 # r)) d1;
              (n', b', f') \<leftarrow> sj3_str_sjistoeuc out2 (int (length out2)) (Some b) d2;
              Some (n', take (nat n') b', f + f') }
    = Some (int (length (euc_str cs)), euc_str cs, 0)"
  using assms by (rule euc_sjis.conv_roundtrip)

theorem string_roundtrip_witness:
  "do { (n, b, f) \<leftarrow> sj3_str_euctosjis (replicate 8 0) 8
            (Some [0xa4, 0xa2, 0x8e, 0xb1, 0x41, 0]) (0x81, 0x40);
        (n', b', f') \<leftarrow> sj3_str_sjistoeuc (replicate 8 0) 8 (Some b) (0x81, 0x40);
        Some (n', take (nat n') b', f + f') }
   = Some (5, [0xa4, 0xa2, 0x8e, 0xb1, 0x41], 0)"
proof -
  let ?cs = "[Zen 0xa4 0xa2, Kana 0xb1, Single 0x41]"
  have ok: "list_all mb_ok ?cs" by code_simp
  show ?thesis
    using string_roundtrip [OF ok, of "replicate 8 0" "replicate 8 0" "[]" "(0x81, 0x40)" "(0x81, 0x40)"]
    by (simp add: SS2_def Let_def)
qed

text \<open>
  C3. The caller's \<open>outlen\<close> does not leave room for the NUL: when the converted
  text fills an output object of \<open>outlen\<close> bytes exactly, both routines write the
  terminating NUL one byte behind the object.
\<close>

theorem exact_fill_overruns:
  assumes "list_all mb_ok cs" "out \<noteq> []"
  shows "(length (sjis_str cs) = length out \<longrightarrow>
           sj3_str_euctosjis out (int (length out)) (Some (euc_str cs @ 0 # r)) d = None)
    \<and> (length (euc_str cs) = length out \<longrightarrow>
           sj3_str_sjistoeuc out (int (length out)) (Some (sjis_str cs @ 0 # r)) d = None)"
  using assms euc2sjis_conv.conv_exact_fill sjis2euc_conv.conv_exact_fill by simp

theorem exact_fill_overruns_witness:
  "sj3_str_euctosjis [0, 0] 2 (Some [0xa4, 0xa2, 0]) (0x81, 0x40) = None
   \<and> sj3_str_sjistoeuc [0, 0] 2 (Some [0x82, 0xa0, 0]) (0x81, 0x40) = None"
proof -
  let ?cs = "[Zen 0xa4 0xa2]"
  have ok: "list_all mb_ok ?cs" by code_simp
  have s: "sjis_str ?cs = [0x82, 0xa0]" by code_simp
  have e: "euc_str ?cs = [0xa4, 0xa2]" by simp
  show ?thesis
    using exact_fill_overruns [OF ok, of "[0, 0]" "[]" "(0x81, 0x40)"] unfolding s e by simp
qed

text \<open>
  C4. \<^verbatim>\<open>sj3_sjistoeuclen\<close> predicts the length of the conversion: for text in
  Shift JIS of at most \<open>mx\<close> bytes it is the number of bytes the text has in EUC,
  which is what \<^verbatim>\<open>sj3_str_sjistoeuc\<close> returns.
\<close>

theorem sjistoeuclen_exact:
  assumes "list_all mb_ok cs" "int (length (sjis_str cs)) \<le> mx" "length (euc_str cs) < length out"
  shows "sj3_sjistoeuclen (sjis_str cs @ 0 # r) mx =
    map_option fst (sj3_str_sjistoeuc out (int (length out)) (Some (sjis_str cs @ 0 # r)) d)"
proof -
  have "sj3_sjistoeuclen (sjis_str cs @ 0 # r) mx = Some (int (length (euc_str cs)))"
  proof (cases "mx = 0")
    case True
    with assms(2) have "sjis_str cs = []" by simp
    then have "cs = []"
    proof (cases cs)
      case (Cons c cs')
      with \<open>sjis_str cs = []\<close> show ?thesis by (cases c) (auto simp: Let_def)
    qed
    with True show ?thesis by (simp add: sj3_sjistoeuclen_def)
  next
    case False
    then show ?thesis
      using sjistoeuclen_ok [OF assms(1), of 0 _ r 1 mx 0] assms(2)
      by (simp add: sj3_sjistoeuclen_def)
  qed
  with assms show ?thesis by (simp add: sjis2euc_conv.conv_fits)
qed

theorem sjistoeuclen_exact_witness:
  "sj3_sjistoeuclen [0x82, 0xa0, 0xb1, 0] 3 =
    map_option fst (sj3_str_sjistoeuc (replicate 5 0) 5 (Some [0x82, 0xa0, 0xb1, 0]) (0x81, 0x40))"
proof -
  let ?cs = "[Zen 0xa4 0xa2, Kana 0xb1]"
  have ok: "list_all mb_ok ?cs" by code_simp
  have s: "sjis_str ?cs = [0x82, 0xa0, 0xb1]" by code_simp
  show ?thesis
    using sjistoeuclen_exact [OF ok, of 3 "replicate 5 0" "[]" "(0x81, 0x40)"] unfolding s by simp
qed

end
