(* ===== verification/Sj_Study.thy ===== *)
theory Sj_Study
  imports Sj_Prelude
begin

text \<open>
  \<^verbatim>\<open>lib/sj3core/study.c\<close>: the word-learning records of a study file. The array
  \<open>STUDYDICT\<close> of \<open>STUDYMAX\<close> records holds \<open>STUDYCOUNT\<close> records in the
  order of segment and offset; \<open>styno\<close> ranks them by recency (1 is the word used
  last). \<open>srchstdy\<close> finds a record by binary search, \<open>study\<close> notes the use of a word.

  A pointer into the array is the index of a record. The C types are kept where they
  can wrap: \<open>styno\<close> is a \<open>short\<close>.
\<close>

section \<open>Data\<close>

definition to_short :: "int \<Rightarrow> int" where
  "to_short x = (x + 2 ^ 15) mod 2 ^ 16 - 2 ^ 15"

lemma to_short_id [simp]: "- (2 ^ 15) \<le> x \<Longrightarrow> x < 2 ^ 15 \<Longrightarrow> to_short x = x"
  by (simp add: to_short_def)

record STDYIN =
  st_offset :: nat
  st_seg :: int
  styno :: int
  st_dicid :: nat
  sttkj :: bool
  ka_kj :: bool
  nmflg :: bool

record STDYOUT =
  stdy1 :: STDYIN
  st_hinshi :: u8
  st_len :: nat
  sttlen :: nat
  sttfg :: bool
  ka_fg :: bool

record STDY =
  stdycnt :: int
  stdymax :: int
  stdydic :: "STDYIN list"
  clstdystep :: int
  clstdyidx :: "u16 list"
  clstdylen :: int
  clstdydic :: cbuf

datatype study_result = STUDYNORMEND | STUDYNODICT | STUDYFULLAREA | STUDYNOTSTUDY | STUDYERROR

type_synonym skey = "int \<times> nat \<times> nat"

definition skey :: "STDYIN \<Rightarrow> skey" where
  "skey e = (st_seg e, st_offset e, st_dicid e)"

section \<open>Search\<close>

text \<open>
  The three loops of \<^verbatim>\<open>srchstdy\<close>. The outer \<open>option\<close> is the memory check, the
  inner one the \<open>NULL\<close> of the C code.
\<close>

function srch_seg :: "STDYIN list \<Rightarrow> int \<Rightarrow> int \<Rightarrow> int \<Rightarrow> nat option option" where
  "srch_seg d seg low high =
     (let mid = (low + high) div 2 in
      if low > high then Some None
      else do {
        e \<leftarrow> rd d (nat mid);
        if st_seg e > seg then
          (if low > mid - 1 then Some None else srch_seg d seg low (mid - 1))
        else if st_seg e < seg then
          (if mid + 1 > high then Some None else srch_seg d seg (mid + 1) high)
        else Some (Some (nat mid)) })"
  by pat_completeness auto
termination
  by (relation "measure (\<lambda>(d, seg, low, high). nat (high - low + 1))") auto

declare srch_seg.simps [simp del]

fun srch_down :: "STDYIN list \<Rightarrow> skey \<Rightarrow> nat \<Rightarrow> nat option option" where
  "srch_down d (seg, ofs, dicid) mid = do {
     e \<leftarrow> rd d mid;
     if st_seg e = seg then
       (if st_offset e < ofs then Some None
        else if st_dicid e = dicid \<and> st_offset e = ofs then Some (Some mid)
        else (case mid of 0 \<Rightarrow> Some None | Suc m \<Rightarrow> srch_down d (seg, ofs, dicid) m))
     else Some None }"

fun srch_up :: "STDYIN list \<Rightarrow> skey \<Rightarrow> nat \<Rightarrow> nat \<Rightarrow> nat option option" where
  "srch_up d k ptr 0 = Some None"
| "srch_up d (seg, ofs, dicid) ptr (Suc mid) = do {
     e \<leftarrow> rd d ptr;
     if st_seg e = seg then
       (if st_offset e > ofs then Some None
        else if st_dicid e = dicid \<and> st_offset e = ofs then Some (Some ptr)
        else srch_up d (seg, ofs, dicid) (Suc ptr) mid)
     else Some None }"

declare srch_down.simps [simp del]

definition srchstdy :: "STDY option \<Rightarrow> int \<Rightarrow> nat \<Rightarrow> nat \<Rightarrow> nat option option" where
  "srchstdy sb seg ofs dicid =
     (case sb of None \<Rightarrow> Some None
      | Some s \<Rightarrow>
        if stdycnt s = 0 \<or> ofs = 0 then Some None
        else do {
          r \<leftarrow> srch_seg (stdydic s) seg 0 (stdycnt s - 1);
          (case r of None \<Rightarrow> Some None
           | Some mid \<Rightarrow> do {
               r \<leftarrow> srch_down (stdydic s) (seg, ofs, dicid) mid;
               (case r of Some i \<Rightarrow> Some (Some i)
                | None \<Rightarrow> srch_up (stdydic s) (seg, ofs, dicid) (mid + 1)
                            (nat (stdycnt s - int (mid + 1)))) }) })"

section \<open>Learning\<close>

text \<open>A loop over the first \<open>n\<close> records that updates each of them.\<close>

definition upd_first :: "nat \<Rightarrow> (STDYIN \<Rightarrow> STDYIN) \<Rightarrow> STDYIN list \<Rightarrow> STDYIN list option" where
  "upd_first n f d = (if n \<le> length d then Some (map f (take n d) @ drop n d) else None)"

text \<open>
  The loop that ages every record of a full array and remembers the first one of
  highest rank (\<open>p2\<close>); \<open>wi\<close> starts at 0.
\<close>

fun age_all :: "STDYIN list \<Rightarrow> nat \<Rightarrow> int \<Rightarrow> nat option \<Rightarrow> STDYIN list \<times> nat option" where
  "age_all [] i wi p2 = ([], p2)"
| "age_all (e # es) i wi p2 =
     (let nm = to_short (styno e + 1);
          wi' = (if nm > wi then nm else wi);
          p2' = (if nm > wi then Some i else p2);
          (es', r) = age_all es (Suc i) wi' p2'
      in (e\<lparr>styno := nm\<rparr> # es', r))"

text \<open>
  \<^verbatim>\<open>mvmemi(p2 + 1, p2, (STUDYTAIL - p2) * STUDYRECSIZE)\<close> copies one record more
  than lies behind \<open>p2\<close>: the record behind the array, \<open>beyond\<close>, moves into the
  last slot.
\<close>

definition close_gap :: "STDYIN \<Rightarrow> nat \<Rightarrow> STDYIN list \<Rightarrow> STDYIN list" where
  "close_gap beyond p2 d = take p2 d @ drop (Suc p2) (d @ [beyond])"

fun ins_seg :: "STDYIN list \<Rightarrow> int \<Rightarrow> nat \<Rightarrow> nat \<Rightarrow> (nat \<times> nat) option" where
  "ins_seg d seg p1 0 = Some (p1, 0)"
| "ins_seg d seg p1 (Suc wcnt) = do {
     e \<leftarrow> rd d p1;
     if st_seg e < seg then ins_seg d seg (Suc p1) wcnt else Some (p1, Suc wcnt) }"

fun ins_ofs :: "STDYIN list \<Rightarrow> int \<Rightarrow> nat \<Rightarrow> nat \<Rightarrow> nat \<Rightarrow> nat option" where
  "ins_ofs d seg ofs p1 0 = Some p1"
| "ins_ofs d seg ofs p1 (Suc wcnt) = do {
     e \<leftarrow> rd d p1;
     if st_seg e = seg then
       (if st_offset e > ofs then Some p1 else ins_ofs d seg ofs (Suc p1) wcnt)
     else Some p1 }"

text \<open>
  \<^verbatim>\<open>mvmemd\<close> of everything from \<open>p1\<close> one slot up (the last record falls out),
  then the new record at \<open>p1\<close>.
\<close>

definition open_gap :: "nat \<Rightarrow> STDYIN \<Rightarrow> STDYIN list \<Rightarrow> STDYIN list option" where
  "open_gap p1 e d = (if p1 < length d then Some (take p1 d @ e # butlast (drop p1 d)) else None)"

definition new_rec :: "STDYOUT \<Rightarrow> STDYIN" where
  "new_rec outp = \<lparr> st_offset = st_offset (stdy1 outp), st_seg = st_seg (stdy1 outp), styno = 1,
     st_dicid = st_dicid (stdy1 outp),
     sttkj = (if sttfg outp then sttkj (stdy1 outp) else False),
     ka_kj = (if ka_fg outp then ka_kj (stdy1 outp) else False),
     nmflg = nmflg (stdy1 outp) \<rparr>"

definition hit_rec :: "STDYOUT \<Rightarrow> STDYIN \<Rightarrow> STDYIN" where
  "hit_rec outp e = e\<lparr> styno := 1,
     sttkj := (if sttfg outp then sttkj (stdy1 outp) else sttkj e),
     ka_kj := (if ka_fg outp then ka_kj (stdy1 outp) else ka_kj e),
     nmflg := nmflg (stdy1 outp) \<rparr>"

text \<open>The tail of \<^verbatim>\<open>study\<close>: the new record goes to its place.\<close>

definition study_insert :: "STDYOUT \<Rightarrow> STDY \<Rightarrow> STDY option" where
  "study_insert outp s = do {
     (p1, wcnt) \<leftarrow> ins_seg (stdydic s) (st_seg (stdy1 outp)) 0 (nat (stdycnt s));
     p1 \<leftarrow> ins_ofs (stdydic s) (st_seg (stdy1 outp)) (st_offset (stdy1 outp)) p1 wcnt;
     d \<leftarrow> open_gap p1 (new_rec outp) (stdydic s);
     Some (s\<lparr>stdydic := d, stdycnt := to_short (stdycnt s + 1)\<rparr>) }"

text \<open>
  The result: the return code, the new study data, and whether \<^verbatim>\<open>putstydic\<close> was
  called to write them to the file.
\<close>

definition study :: "STDYIN \<Rightarrow> STDY option \<Rightarrow> STDYOUT \<Rightarrow> (study_result \<times> STDY option \<times> bool) option" where
  "study beyond sb outp =
     (case sb of None \<Rightarrow> Some (STUDYNODICT, None, False)
      | Some s \<Rightarrow>
        if st_offset (stdy1 outp) = 0 then Some (STUDYNOTSTUDY, Some s, False)
        else do {
          r \<leftarrow> srchstdy sb (st_seg (stdy1 outp)) (st_offset (stdy1 outp)) (st_dicid (stdy1 outp));
          (case r of
             Some p1 \<Rightarrow> do {
               e \<leftarrow> rd (stdydic s) p1;
               d \<leftarrow> upd_first (nat (stdycnt s))
                      (\<lambda>x. if styno x < styno e then x\<lparr>styno := to_short (styno x + 1)\<rparr> else x)
                      (stdydic s);
               e \<leftarrow> rd d p1;
               d \<leftarrow> wr d p1 (hit_rec outp e);
               Some (STUDYNORMEND, Some (s\<lparr>stdydic := d\<rparr>), True) }
           | None \<Rightarrow>
               if stdycnt s \<ge> stdymax s then
                 (let (d, p2) = age_all (stdydic s) 0 0 None in
                  case p2 of
                    None \<Rightarrow> Some (STUDYERROR, Some (s\<lparr>stdydic := d\<rparr>), False)
                  | Some p2 \<Rightarrow> do {
                      s' \<leftarrow> study_insert outp
                              (s\<lparr>stdydic := close_gap beyond p2 d, stdycnt := to_short (stdycnt s - 1)\<rparr>);
                      Some (STUDYFULLAREA, Some s', True) })
               else do {
                 d \<leftarrow> upd_first (nat (stdycnt s)) (\<lambda>x. x\<lparr>styno := to_short (styno x + 1)\<rparr>) (stdydic s);
                 s' \<leftarrow> study_insert outp (s\<lparr>stdydic := d\<rparr>);
                 Some (STUDYNORMEND, Some s', True) }) })"

end
