(* ===== verification/Sj_Study_Laws.thy ===== *)
theory Sj_Study_Laws
  imports Sj_Study "HOL-Library.Multiset"
begin

text \<open>
  The laws of \<^verbatim>\<open>study.c\<close>: the search is a correct binary search, and learning is a
  least-recently-used store on the sorted array.
\<close>

section \<open>The search is a correct binary search\<close>

text \<open>
  The order of the array and its live part; \<open>srchstdy\<close> reads inside the array,
  terminates, and finds a record exactly when there is one.
\<close>

definition before :: "STDYIN \<Rightarrow> STDYIN \<Rightarrow> bool" where
  "before a b \<longleftrightarrow> st_seg a < st_seg b \<or> st_seg a = st_seg b \<and> st_offset a \<le> st_offset b"

definition live :: "STDY \<Rightarrow> STDYIN list" where
  "live s = take (nat (stdycnt s)) (stdydic s)"

definition stdy_sorted :: "STDYIN list \<Rightarrow> nat \<Rightarrow> bool" where
  "stdy_sorted d n \<longleftrightarrow> n \<le> length d \<and> (\<forall>i j. i < j \<longrightarrow> j < n \<longrightarrow> before (d ! i) (d ! j))"

lemma stdy_sortedD: "stdy_sorted d n \<Longrightarrow> i \<le> j \<Longrightarrow> j < n \<Longrightarrow> before (d ! i) (d ! j)"
  by (cases "i = j") (auto simp: stdy_sorted_def before_def)

lemma stdy_sorted_seg: "stdy_sorted d n \<Longrightarrow> i \<le> j \<Longrightarrow> j < n \<Longrightarrow> st_seg (d ! i) \<le> st_seg (d ! j)"
  using stdy_sortedD [of d n i j] by (auto simp: before_def)

lemma stdy_sorted_len: "stdy_sorted d n \<Longrightarrow> n \<le> length d"
  by (simp add: stdy_sorted_def)

lemma srch_seg_spec:
  assumes "stdy_sorted d n" "0 \<le> low" "low \<le> high" "high < int n"
    "\<And>i. i < nat low \<Longrightarrow> st_seg (d ! i) < seg"
    "\<And>i. nat high < i \<Longrightarrow> i < n \<Longrightarrow> st_seg (d ! i) > seg"
  shows "(\<exists>m < n. st_seg (d ! m) = seg \<and> srch_seg d seg low high = Some (Some m))
    \<or> ((\<forall>i < n. st_seg (d ! i) \<noteq> seg) \<and> srch_seg d seg low high = Some None)"
  using assms
proof (induction d seg low high rule: srch_seg.induct)
  case (1 d seg low high)
  define mid where "mid = (low + high) div 2"
  have mid: "low \<le> mid" "mid \<le> high" "nat mid < n" using 1 by (auto simp: mid_def)
  with stdy_sorted_len [OF "1.prems"(1)] have r: "rd d (nat mid) = Some (d ! nat mid)"
    by (simp add: rd_in)
  note unf = srch_seg.simps [of d seg low high, folded mid_def, unfolded Let_def]
  consider (gt) "st_seg (d ! nat mid) > seg" | (lt) "st_seg (d ! nat mid) < seg"
    | (eq) "st_seg (d ! nat mid) = seg" by linarith
  then show ?case
  proof cases
    case gt
    have above: "st_seg (d ! i) > seg" if "nat (mid - 1) < i" "i < n" "low \<le> mid - 1 \<or> nat low \<le> i" for i
    proof -
      have "nat mid \<le> i" using that mid "1.prems"(2) by auto
      with stdy_sorted_seg [OF "1.prems"(1), of "nat mid" i] that gt show ?thesis by simp
    qed
    show ?thesis
    proof (cases "low > mid - 1")
      case True
      have "st_seg (d ! i) \<noteq> seg" if "i < n" for i
      proof (cases "i < nat low")
        case True then show ?thesis using "1.prems"(5) by force
      next
        case False
        then have "nat mid \<le> i" using \<open>low > mid - 1\<close> mid by auto
        with stdy_sorted_seg [OF "1.prems"(1), of "nat mid" i] that gt show ?thesis by simp
      qed
      moreover have "srch_seg d seg low high = Some None" unfolding unf using True gt mid r by simp
      ultimately show ?thesis by blast
    next
      case False
      have "srch_seg d seg low high = srch_seg d seg low (mid - 1)"
        using False gt mid r by (simp add: unf)
      moreover have "(\<exists>m<n. st_seg (d ! m) = seg \<and> srch_seg d seg low (mid - 1) = Some (Some m)) \<or>
        (\<forall>i<n. st_seg (d ! i) \<noteq> seg) \<and> srch_seg d seg low (mid - 1) = Some None"
        by (rule "1.IH"(1) [OF mid_def]) (use False gt mid r "1.prems" above in auto)
      ultimately show ?thesis by simp
    qed
  next
    case lt
    have below: "st_seg (d ! i) < seg" if "i \<le> nat mid" for i
      using stdy_sorted_seg [OF "1.prems"(1) that mid(3)] lt by simp
    show ?thesis
    proof (cases "mid + 1 > high")
      case True
      have "st_seg (d ! i) \<noteq> seg" if "i < n" for i
      proof (cases "i \<le> nat mid")
        case True then show ?thesis using below by force
      next
        case False
        then have "nat high < i" using \<open>mid + 1 > high\<close> mid by auto
        with "1.prems"(6) that show ?thesis by force
      qed
      moreover have "srch_seg d seg low high = Some None" unfolding unf using True lt mid r by simp
      ultimately show ?thesis by blast
    next
      case False
      have "srch_seg d seg low high = srch_seg d seg (mid + 1) high"
        using False lt mid r by (simp add: unf)
      moreover have "(\<exists>m<n. st_seg (d ! m) = seg \<and> srch_seg d seg (mid + 1) high = Some (Some m)) \<or>
        (\<forall>i<n. st_seg (d ! i) \<noteq> seg) \<and> srch_seg d seg (mid + 1) high = Some None"
      proof (rule "1.IH"(2) [OF mid_def])
        show "\<not> st_seg (d ! nat mid) > seg" using lt by simp
      qed (use False lt mid r "1.prems" below in auto)
      ultimately show ?thesis by simp
    qed
  next
    case eq
    then show ?thesis using mid r by (auto simp: unf)
  qed
qed

lemma srch_down_spec:
  assumes "stdy_sorted d n" "mid < n" "st_seg (d ! mid) \<le> seg"
  shows "(\<exists>i \<le> mid. skey (d ! i) = (seg, ofs, dicid) \<and> srch_down d (seg, ofs, dicid) mid = Some (Some i))
    \<or> ((\<forall>i \<le> mid. skey (d ! i) \<noteq> (seg, ofs, dicid)) \<and> srch_down d (seg, ofs, dicid) mid = Some None)"
  using assms(2,3)
proof (induction mid)
  case 0
  have "rd d 0 = Some (d ! 0)" using 0 stdy_sorted_len [OF assms(1)] by (auto simp: rd_def)
  then show ?case by (auto simp: srch_down.simps skey_def)
next
  case (Suc m)
  let ?k = "(seg, ofs, dicid)"
  have r: "rd d (Suc m) = Some (d ! Suc m)"
    using Suc.prems stdy_sorted_len [OF assms(1)] by (simp add: rd_in)
  have bef: "before (d ! i) (d ! Suc m)" if "i \<le> Suc m" for i
    using stdy_sortedD [OF assms(1) that] Suc.prems by simp
  show ?case
  proof (cases "st_seg (d ! Suc m) = seg \<and> \<not> st_offset (d ! Suc m) < ofs \<and> skey (d ! Suc m) \<noteq> ?k")
    case True
    have "srch_down d ?k (Suc m) = srch_down d ?k m"
      using True r by (subst srch_down.simps) (auto simp: skey_def)
    moreover have "st_seg (d ! m) \<le> seg" using stdy_sorted_seg [OF assms(1), of m "Suc m"] Suc.prems by simp
    ultimately show ?thesis using Suc True by (metis Suc_lessD le_Suc_eq)
  next
    case False
    have "skey (d ! Suc m) = ?k \<Longrightarrow> srch_down d ?k (Suc m) = Some (Some (Suc m))"
      using r by (subst srch_down.simps) (auto simp: skey_def)
    moreover have "skey (d ! Suc m) \<noteq> ?k \<Longrightarrow> srch_down d ?k (Suc m) = Some None"
      using False r by (subst srch_down.simps) (auto simp: skey_def)
    moreover have "skey (d ! i) \<noteq> ?k" if "i \<le> Suc m" "skey (d ! Suc m) \<noteq> ?k" for i
      using bef [OF that(1)] that False Suc.prems by (auto simp: skey_def before_def)
    ultimately show ?thesis by blast
  qed
qed

lemma srch_up_spec:
  assumes "stdy_sorted d n" "ptr + c = n" "\<And>i. ptr \<le> i \<Longrightarrow> i < n \<Longrightarrow> seg \<le> st_seg (d ! i)"
  shows "(\<exists>i < n. skey (d ! i) = (seg, ofs, dicid) \<and> srch_up d (seg, ofs, dicid) ptr c = Some (Some i))
    \<or> ((\<forall>i < n. ptr \<le> i \<longrightarrow> skey (d ! i) \<noteq> (seg, ofs, dicid)) \<and> srch_up d (seg, ofs, dicid) ptr c = Some None)"
  using assms(2,3)
proof (induction c arbitrary: ptr)
  case 0
  then show ?case by auto
next
  case (Suc c)
  let ?k = "(seg, ofs, dicid)"
  have r: "rd d ptr = Some (d ! ptr)" and p: "ptr < n"
    using Suc.prems stdy_sorted_len [OF assms(1)] by (auto simp: rd_in)
  have bef: "before (d ! ptr) (d ! i)" if "ptr \<le> i" "i < n" for i
    using stdy_sortedD [OF assms(1) that] .
  show ?case
  proof (cases "st_seg (d ! ptr) = seg \<and> \<not> st_offset (d ! ptr) > ofs \<and> skey (d ! ptr) \<noteq> ?k")
    case True
    then have "srch_up d ?k ptr (Suc c) = srch_up d ?k (Suc ptr) c"
      using r by (auto simp: skey_def)
    moreover have "(\<exists>i<n. skey (d ! i) = ?k \<and> srch_up d ?k (Suc ptr) c = Some (Some i)) \<or>
      (\<forall>i<n. Suc ptr \<le> i \<longrightarrow> skey (d ! i) \<noteq> ?k) \<and> srch_up d ?k (Suc ptr) c = Some None"
      by (rule Suc.IH) (use Suc.prems in auto)
    ultimately show ?thesis using True by (metis Suc_leI le_neq_implies_less)
  next
    case False
    have "skey (d ! ptr) = ?k \<Longrightarrow> srch_up d ?k ptr (Suc c) = Some (Some ptr)"
      using r by (auto simp: skey_def)
    moreover have "skey (d ! ptr) \<noteq> ?k \<Longrightarrow> srch_up d ?k ptr (Suc c) = Some None"
      using False r by (auto simp: skey_def)
    moreover have "skey (d ! i) \<noteq> ?k" if "ptr \<le> i" "i < n" "skey (d ! ptr) \<noteq> ?k" for i
      using bef [OF that(1,2)] that False Suc.prems(2) [of ptr] p by (auto simp: skey_def before_def)
    ultimately show ?thesis using p by blast
  qed
qed

lemma srchstdy_spec:
  assumes s: "stdy_sorted (stdydic s) (nat (stdycnt s))" "0 \<le> stdycnt s" "ofs \<noteq> 0"
  shows "(\<exists>i < nat (stdycnt s). skey (stdydic s ! i) = (seg, ofs, dicid)
            \<and> srchstdy (Some s) seg ofs dicid = Some (Some i))
    \<or> ((\<forall>i < nat (stdycnt s). skey (stdydic s ! i) \<noteq> (seg, ofs, dicid))
            \<and> srchstdy (Some s) seg ofs dicid = Some None)"
proof (cases "stdycnt s = 0")
  case True
  then show ?thesis by (simp add: srchstdy_def)
next
  case False
  let ?n = "nat (stdycnt s)" and ?d = "stdydic s" and ?k = "(seg, ofs, dicid)"
  have "(\<exists>m < ?n. st_seg (?d ! m) = seg \<and> srch_seg ?d seg 0 (stdycnt s - 1) = Some (Some m))
    \<or> ((\<forall>i < ?n. st_seg (?d ! i) \<noteq> seg) \<and> srch_seg ?d seg 0 (stdycnt s - 1) = Some None)"
    by (rule srch_seg_spec [OF s(1)]) (use False s(2) in auto)
  then consider (found) m where "m < ?n" "st_seg (?d ! m) = seg" "srch_seg ?d seg 0 (stdycnt s - 1) = Some (Some m)"
    | (none) "\<forall>i < ?n. st_seg (?d ! i) \<noteq> seg" "srch_seg ?d seg 0 (stdycnt s - 1) = Some None"
    by blast
  then show ?thesis
  proof cases
    case none
    then show ?thesis using False s(3) by (auto simp: srchstdy_def skey_def)
  next
    case found
    have up: "seg \<le> st_seg (?d ! i)" if "m + 1 \<le> i" "i < ?n" for i
      using stdy_sorted_seg [OF s(1), of m i] that found(2) by simp
    have cnt: "m + 1 + nat (stdycnt s - int (m + 1)) = ?n" using found(1) by simp
    from srch_down_spec [OF s(1) found(1) eq_refl [OF found(2)], of ofs dicid]
    consider (dn) i where "i \<le> m" "skey (?d ! i) = ?k" "srch_down ?d ?k m = Some (Some i)"
      | (nd) "\<forall>i \<le> m. skey (?d ! i) \<noteq> ?k" "srch_down ?d ?k m = Some None"
      by blast
    then show ?thesis
    proof cases
      case dn
      then show ?thesis using found False s(3) by (auto simp: srchstdy_def)
    next
      case nd
      then have "srchstdy (Some s) seg ofs dicid = srch_up ?d ?k (m + 1) (nat (stdycnt s - int (m + 1)))"
        using False s(3) found(3) by (simp add: srchstdy_def)
      moreover have "\<forall>i < ?n. m + 1 \<le> i \<longrightarrow> skey (?d ! i) \<noteq> ?k \<Longrightarrow> \<forall>i < ?n. skey (?d ! i) \<noteq> ?k"
        using nd(1) by (metis Suc_eq_plus1 not_less_eq_eq)
      ultimately show ?thesis
        using srch_up_spec [OF s(1) cnt up, of ofs dicid] by metis
    qed
  qed
qed

section \<open>Recency\<close>

text \<open>
  The well-formed study area and its abstraction: the keys of the live records, the
  word used last in front.
\<close>

definition inc :: "STDYIN \<Rightarrow> STDYIN" where
  "inc e = e\<lparr>styno := styno e + 1\<rparr>"

lemma inc_simps [simp]: "styno (inc e) = styno e + 1" "skey (inc e) = skey e" "st_seg (inc e) = st_seg e"
  "st_offset (inc e) = st_offset e" "st_dicid (inc e) = st_dicid e"
  by (simp_all add: inc_def skey_def)

lemma before_inc [simp]: "before (inc a) (inc b) = before a b"
  by (simp add: before_def)

definition stdy_wf :: "STDY \<Rightarrow> bool" where
  "stdy_wf s \<longleftrightarrow> length (stdydic s) = nat (stdymax s) \<and> 0 \<le> stdycnt s \<and> stdycnt s \<le> stdymax s
     \<and> stdymax s \<le> 0x7fff \<and> sorted_wrt before (live s) \<and> distinct (map skey (live s))
     \<and> distinct (map styno (live s)) \<and> styno ` set (live s) = {1..stdycnt s}"

definition lru :: "STDYIN list \<Rightarrow> skey list" where
  "lru es = map skey (sort_key styno es)"

definition lru_touch :: "nat \<Rightarrow> 'k \<Rightarrow> 'k list \<Rightarrow> 'k list" where
  "lru_touch cap k ks = take cap (k # removeAll k ks)"

lemma stdy_sorted_iff: "stdy_sorted d n \<longleftrightarrow> n \<le> length d \<and> sorted_wrt before (take n d)"
  by (auto simp: stdy_sorted_def sorted_wrt_iff_nth_less)

lemma stdy_wf_sorted: "stdy_wf s \<Longrightarrow> stdy_sorted (stdydic s) (nat (stdycnt s))"
  by (auto simp: stdy_wf_def stdy_sorted_def live_def sorted_wrt_iff_nth_less)

lemma sort_styno_unique:
  assumes "set ys = set es" "distinct (map styno es)" "sorted (map styno ys)" "distinct (map styno ys)"
  shows "sort_key styno es = ys"
proof (rule map_sorted_distinct_set_unique)
  show "inj_on styno (set (sort_key styno es) \<union> set ys)"
    using assms(1,2) by (simp add: distinct_map)
  show "distinct (map styno (sort_key styno es))"
    using assms(2) by (metis distinct_map distinct_sort set_sort)
qed (use assms in auto)

lemma sort_styno_distinct:
  "distinct (map styno es) \<Longrightarrow> distinct (map styno (sort_key styno es))"
  by (metis distinct_map distinct_sort set_sort)

lemma set_lru [simp]: "set (lru es) = skey ` set es"
  by (simp add: lru_def)

lemma length_lru [simp]: "length (lru es) = length es"
  by (simp add: lru_def)

text \<open>A new record in front of aged ones.\<close>

lemma lru_new:
  assumes "set es' = insert e (inc ` set es)" "distinct (map styno es')" "styno e = 1"
    "\<forall>x \<in> set es. 1 \<le> styno x" "distinct (map styno es)"
  shows "lru es' = skey e # lru es"
proof -
  have "sort_key styno es' = e # map inc (sort_key styno es)"
  proof (rule sort_styno_unique)
    have "sorted (map (\<lambda>x. styno x + 1) (sort_key styno es))"
      using sorted_sort_key [of styno es] by (simp add: sorted_wrt_map sorted_map)
    then show "sorted (map styno (e # map inc (sort_key styno es)))"
      using assms(3,4) by (auto simp: comp_def)
    have "distinct (map (\<lambda>x. styno x + 1) (sort_key styno es))"
      using sort_styno_distinct [OF assms(5)] by (simp add: distinct_map inj_on_def)
    then show "distinct (map styno (e # map inc (sort_key styno es)))"
      using assms(3,4) by (auto simp: comp_def)
  qed (use assms in auto)
  then show ?thesis by (simp add: lru_def comp_def)
qed

text \<open>A record of the array moves to the front.\<close>

definition promote :: "int \<Rightarrow> STDYIN \<Rightarrow> STDYIN" where
  "promote nm x = (if styno x < nm then inc x else x)"

lemma promote_simps [simp]: "skey (promote nm x) = skey x" "st_seg (promote nm x) = st_seg x"
  "st_offset (promote nm x) = st_offset x"
  by (simp_all add: promote_def)

lemma promote_mono:
  assumes "styno x < styno y" "styno x \<noteq> nm" "styno y \<noteq> nm"
  shows "styno (promote nm x) < styno (promote nm y)"
  using assms by (auto simp: promote_def)

lemma lru_hit:
  assumes e: "e \<in> set es" and e': "styno e' = 1" "skey e' = skey e"
    and d: "distinct (map styno es)" "distinct (map skey es)" "\<forall>x \<in> set es. 1 \<le> styno x"
    and es': "set es' = insert e' (promote (styno e) ` (set es - {e}))" "distinct (map styno es')"
  shows "lru es' = skey e # removeAll (skey e) (lru es)"
proof -
  let ?ys = "filter (\<lambda>x. x \<noteq> e) (sort_key styno es)"
  have inj: "styno x \<noteq> styno e" if "x \<in> set es" "x \<noteq> e" for x
    using d(1) e that by (auto simp: distinct_map dest: inj_onD)
  have strict: "sorted_wrt (\<lambda>x y. styno x < styno y) (sort_key styno es)"
  proof -
    have "sorted_wrt (<) (map styno (sort_key styno es))"
      using sort_styno_distinct [OF d(1)] sorted_sort_key [of styno es] by (simp only: strict_sorted_iff)
    then show ?thesis by (simp only: sorted_wrt_map)
  qed
  have "sorted_wrt (\<lambda>x y. styno x < styno y) ?ys"
    using strict by (rule sorted_wrt_filter)
  then have "sorted_wrt (\<lambda>x y. styno (promote (styno e) x) < styno (promote (styno e) y)) ?ys"
    by (rule sorted_wrt_mono_rel [rotated]) (auto intro!: promote_mono dest: inj)
  then have m: "sorted_wrt (<) (map styno (map (promote (styno e)) ?ys))"
    by (simp add: sorted_wrt_map comp_def)
  have gt: "1 < styno (promote (styno e) x)" if "x \<in> set ?ys" for x
  proof -
    have "x \<in> set es" "x \<noteq> e" using that by auto
    with inj d(3) e have "styno x \<noteq> styno e" "1 \<le> styno x" "1 \<le> styno e" by auto
    then show ?thesis by (auto simp: promote_def)
  qed
  have "sort_key styno es' = e' # map (promote (styno e)) ?ys"
  proof (rule sort_styno_unique)
    show "set (e' # map (promote (styno e)) ?ys) = set es'"
      using es'(1) by auto
    have "sorted_wrt (<) (map styno (e' # map (promote (styno e)) ?ys))"
      using m gt e'(1) by auto
    then show "sorted (map styno (e' # map (promote (styno e)) ?ys))"
      "distinct (map styno (e' # map (promote (styno e)) ?ys))"
      using strict_sorted_iff by blast+
  qed (rule es'(2))
  moreover have "map skey ?ys = removeAll (skey e) (lru es)"
  proof -
    have "skey x \<noteq> skey e" if "x \<in> set es" "x \<noteq> e" for x
      using d(2) e that by (auto simp: distinct_map dest: inj_onD)
    then have "filter (\<lambda>x. x \<noteq> e) (sort_key styno es) = filter (\<lambda>x. skey e \<noteq> skey x) (sort_key styno es)"
      by (intro filter_cong refl) (metis set_sort)
    then show ?thesis by (simp add: lru_def removeAll_filter_not_eq filter_map comp_def)
  qed
  ultimately show ?thesis
    using e'(2) by (simp add: lru_def comp_def)
qed

text \<open>The record of highest rank leaves.\<close>

lemma lru_evict:
  assumes "es = xs @ e # ys" "distinct (map styno es)" "\<forall>x \<in> set es. styno x \<le> styno e"
  shows "lru (xs @ ys) = butlast (lru es)"
proof -
  let ?s = "sort_key styno (xs @ ys)"
  have "sort_key styno es = ?s @ [e]"
  proof (rule sort_styno_unique)
    have "distinct (map styno (xs @ ys))" using assms(1,2) by auto
    then show "distinct (map styno (?s @ [e]))"
      using assms(1,2) sort_styno_distinct by (auto simp: image_iff)
    show "sorted (map styno (?s @ [e]))"
      using assms by (auto simp: sorted_append)
  qed (use assms in auto)
  then show ?thesis by (simp add: lru_def)
qed

section \<open>The array operations\<close>

lemma before_trans: "before a b \<Longrightarrow> before b c \<Longrightarrow> before a c"
  by (auto simp: before_def)

lemma ins_seg_spec:
  "p + c = n \<Longrightarrow> n \<le> length d \<Longrightarrow>
   \<exists>q. ins_seg d seg p c = Some (q, n - q) \<and> p \<le> q \<and> q \<le> n \<and>
     (\<forall>i. p \<le> i \<and> i < q \<longrightarrow> st_seg (d ! i) < seg) \<and> (q < n \<longrightarrow> \<not> st_seg (d ! q) < seg)"
proof (induction c arbitrary: p)
  case 0
  then show ?case by auto
next
  case (Suc c)
  have r: "rd d p = Some (d ! p)" using Suc.prems by (simp add: rd_in)
  show ?case
  proof (cases "st_seg (d ! p) < seg")
    case True
    from Suc.IH [of "Suc p"] Suc.prems obtain q where
      q: "ins_seg d seg (Suc p) c = Some (q, n - q)" "Suc p \<le> q" "q \<le> n"
      "\<forall>i. Suc p \<le> i \<and> i < q \<longrightarrow> st_seg (d ! i) < seg" "q < n \<longrightarrow> \<not> st_seg (d ! q) < seg" by auto
    have "\<forall>i. p \<le> i \<and> i < q \<longrightarrow> st_seg (d ! i) < seg"
      using True q(4) by (metis Suc_leI le_neq_implies_less)
    with q r True show ?thesis by auto
  next
    case False
    with r Suc.prems show ?thesis by (auto intro!: exI [of _ p])
  qed
qed

lemma ins_ofs_spec:
  "p + c = n \<Longrightarrow> n \<le> length d \<Longrightarrow>
   \<exists>q. ins_ofs d seg ofs p c = Some q \<and> p \<le> q \<and> q \<le> n \<and>
     (\<forall>i. p \<le> i \<and> i < q \<longrightarrow> st_seg (d ! i) = seg \<and> st_offset (d ! i) \<le> ofs) \<and>
     (q < n \<longrightarrow> st_seg (d ! q) \<noteq> seg \<or> st_offset (d ! q) > ofs)"
proof (induction c arbitrary: p)
  case 0
  then show ?case by auto
next
  case (Suc c)
  have r: "rd d p = Some (d ! p)" using Suc.prems by (simp add: rd_in)
  show ?case
  proof (cases "st_seg (d ! p) = seg \<and> st_offset (d ! p) \<le> ofs")
    case True
    from Suc.IH [of "Suc p"] Suc.prems obtain q where
      q: "ins_ofs d seg ofs (Suc p) c = Some q" "Suc p \<le> q" "q \<le> n"
      "\<forall>i. Suc p \<le> i \<and> i < q \<longrightarrow> st_seg (d ! i) = seg \<and> st_offset (d ! i) \<le> ofs"
      "q < n \<longrightarrow> st_seg (d ! q) \<noteq> seg \<or> st_offset (d ! q) > ofs" by auto
    have "\<forall>i. p \<le> i \<and> i < q \<longrightarrow> st_seg (d ! i) = seg \<and> st_offset (d ! i) \<le> ofs"
      using True q(4) by (metis Suc_leI le_neq_implies_less)
    with q r True show ?thesis by auto
  next
    case False
    with r Suc.prems show ?thesis by (auto intro!: exI [of _ p])
  qed
qed

text \<open>Where \<^verbatim>\<open>study\<close> puts a record, the live part stays in order.\<close>

lemma ins_place:
  assumes s: "stdy_sorted d n" and k: "seg = st_seg e" "ofs = st_offset e"
  shows "\<exists>p w. ins_seg d seg 0 n = Some (p, w) \<and> (\<exists>q \<le> n. ins_ofs d seg ofs p w = Some q \<and>
     (\<forall>x \<in> set (take q (take n d)). before x e) \<and> (\<forall>x \<in> set (drop q (take n d)). before e x))"
proof -
  have n: "n \<le> length d" using s by (rule stdy_sorted_len)
  from ins_seg_spec [of 0 n n d seg] n obtain p where
    p: "ins_seg d seg 0 n = Some (p, n - p)" "p \<le> n" "\<forall>i. i < p \<longrightarrow> st_seg (d ! i) < seg"
      "p < n \<longrightarrow> \<not> st_seg (d ! p) < seg" by auto
  from ins_ofs_spec [of p "n - p" n d seg ofs] n p(2) obtain q where
    q: "ins_ofs d seg ofs p (n - p) = Some q" "p \<le> q" "q \<le> n"
      "\<forall>i. p \<le> i \<and> i < q \<longrightarrow> st_seg (d ! i) = seg \<and> st_offset (d ! i) \<le> ofs"
      "q < n \<longrightarrow> st_seg (d ! q) \<noteq> seg \<or> st_offset (d ! q) > ofs" by auto
  have lo: "before (d ! i) e" if "i < q" for i
    using that p(3) q(4) k by (cases "i < p") (auto simp: before_def)
  have hi: "before e (d ! i)" if "q \<le> i" "i < n" for i
  proof -
    have "seg \<le> st_seg (d ! q)"
      using p(4) q(2) that stdy_sorted_seg [OF s, of p q] by auto
    then have "before e (d ! q)" using q(5) that k by (auto simp: before_def)
    moreover have "before (d ! q) (d ! i)" using stdy_sortedD [OF s that] .
    ultimately show ?thesis by (auto simp: before_def)
  qed
  have "\<forall>x \<in> set (take q (take n d)). before x e"
    using lo n by (auto simp: in_set_conv_nth)
  moreover have "\<forall>x \<in> set (drop q (take n d)). before e x"
    using hi n by (auto simp: in_set_conv_nth)
  ultimately show ?thesis using p(1) q(1,3) by blast
qed

lemma study_insert_spec:
  assumes s: "stdy_sorted (stdydic s) (nat (stdycnt s))" "0 \<le> stdycnt s"
    "nat (stdycnt s) < length (stdydic s)" "length (stdydic s) \<le> 0x7fff"
  shows "\<exists>s' q. study_insert outp s = Some s' \<and> q \<le> nat (stdycnt s)
    \<and> stdycnt s' = stdycnt s + 1 \<and> length (stdydic s') = length (stdydic s)
    \<and> live s' = take q (live s) @ new_rec outp # drop q (live s)
    \<and> sorted_wrt before (live s') \<and> stdymax s' = stdymax s
    \<and> s' = s\<lparr>stdycnt := stdycnt s', stdydic := take q (stdydic s) @ new_rec outp # butlast (drop q (stdydic s))\<rparr>"
proof -
  let ?n = "nat (stdycnt s)" and ?d = "stdydic s" and ?e = "new_rec outp"
  have k: "st_seg (stdy1 outp) = st_seg ?e" "st_offset (stdy1 outp) = st_offset ?e"
    by (simp_all add: new_rec_def)
  from ins_place [OF s(1) k] obtain p w q where
    pq: "ins_seg ?d (st_seg (stdy1 outp)) 0 ?n = Some (p, w)" "q \<le> ?n"
      "ins_ofs ?d (st_seg (stdy1 outp)) (st_offset (stdy1 outp)) p w = Some q"
      "\<forall>x \<in> set (take q (live s)). before x ?e" "\<forall>x \<in> set (drop q (live s)). before ?e x"
    unfolding live_def by blast
  let ?d' = "take q ?d @ ?e # butlast (drop q ?d)"
  let ?s' = "s\<lparr>stdycnt := stdycnt s + 1, stdydic := ?d'\<rparr>"
  have q: "q < length ?d" using pq(2) s(3) by simp
  have cnt: "to_short (stdycnt s + 1) = stdycnt s + 1" using s by (intro to_short_id) auto
  have sel: "stdycnt ?s' = stdycnt s + 1" "stdydic ?s' = ?d'" by simp_all
  have ins: "study_insert outp s = Some ?s'"
    using pq(1,3) q by (simp add: study_insert_def open_gap_def cnt)
  have a: "take (nat (stdycnt s + 1)) ?d' = take q ?d @ ?e # take (?n - q) (butlast (drop q ?d))"
    using q pq(2) s(2) by (simp add: nat_add_distrib Suc_diff_le)
  have b: "take (?n - q) (butlast (drop q ?d)) = drop q (take ?n ?d)"
    using q s(3) by (simp add: butlast_conv_take min_def drop_take)
  have c: "take q (take ?n ?d) = take q ?d" using pq(2) by simp
  have live: "live ?s' = take q (live s) @ ?e # drop q (live s)"
    unfolding live_def sel a b c ..
  have "sorted_wrt before (live s)"
    using s(1) by (auto simp: stdy_sorted_def live_def sorted_wrt_iff_nth_less)
  then have "sorted_wrt before (live ?s')"
    unfolding live using pq(4,5)
    by (auto simp: sorted_wrt_append intro: sorted_wrt_take sorted_wrt_drop before_trans)
  with ins live pq(2) q show ?thesis by (intro exI [of _ ?s'] exI [of _ q]) auto
qed


lemma age_all_spec:
  "\<forall>e \<in> set es. 0 \<le> styno e \<and> styno e < 0x7fff \<Longrightarrow>
   fst (age_all es i wi p2) = map inc es \<and>
   ((\<exists>j < length es. snd (age_all es i wi p2) = Some (i + j)
        \<and> (\<forall>k < length es. styno (es ! k) \<le> styno (es ! j)) \<and> wi < styno (es ! j) + 1)
    \<or> snd (age_all es i wi p2) = p2 \<and> (\<forall>k < length es. styno (es ! k) + 1 \<le> wi))"
proof (induction es arbitrary: i wi p2)
  case Nil
  then show ?case by simp
next
  case (Cons e es)
  let ?nm = "styno e + 1"
  have nm: "to_short ?nm = ?nm" using Cons.prems by (intro to_short_id) auto
  define wi' p' where "wi' = (if ?nm > wi then ?nm else wi)" "p' = (if ?nm > wi then Some i else p2)"
  have unf: "age_all (e # es) i wi p2 = (inc e # fst (age_all es (Suc i) wi' p'), snd (age_all es (Suc i) wi' p'))"
    by (simp add: nm Let_def wi'_p'_def inc_def split: prod.split)
  have "\<forall>e \<in> set es. 0 \<le> styno e \<and> styno e < 0x7fff" using Cons.prems by simp
  note ih = Cons.IH [OF this, of "Suc i" wi' p']
  from ih have IH: "fst (age_all es (Suc i) wi' p') = map inc es"
    and cases: "(\<exists>j < length es. snd (age_all es (Suc i) wi' p') = Some (Suc i + j)
        \<and> (\<forall>k < length es. styno (es ! k) \<le> styno (es ! j)) \<and> wi' < styno (es ! j) + 1)
      \<or> snd (age_all es (Suc i) wi' p') = p' \<and> (\<forall>k < length es. styno (es ! k) + 1 \<le> wi')"
    by blast+
  from cases show ?case
  proof
    assume "\<exists>j < length es. snd (age_all es (Suc i) wi' p') = Some (Suc i + j)
        \<and> (\<forall>k < length es. styno (es ! k) \<le> styno (es ! j)) \<and> wi' < styno (es ! j) + 1"
    then obtain j where j: "j < length es" "snd (age_all es (Suc i) wi' p') = Some (Suc i + j)"
      "\<forall>k < length es. styno (es ! k) \<le> styno (es ! j)" "wi' < styno (es ! j) + 1" by blast
    have "styno ((e # es) ! k) \<le> styno ((e # es) ! Suc j)" if "k < length (e # es)" for k
      using that j wi'_p'_def by (cases k) (auto split: if_splits)
    moreover have "wi < styno ((e # es) ! Suc j) + 1" using j(4) wi'_p'_def by (auto split: if_splits)
    ultimately show ?thesis
      using unf IH j by (auto intro!: disjI1 exI [of _ "Suc j"])
  next
    assume a: "snd (age_all es (Suc i) wi' p') = p' \<and> (\<forall>k < length es. styno (es ! k) + 1 \<le> wi')"
    show ?thesis
    proof (cases "?nm > wi")
      case True
      have "styno ((e # es) ! k) \<le> styno e" if "k < length (e # es)" for k
        using that a True wi'_p'_def by (cases k) auto
      then show ?thesis using unf IH a True wi'_p'_def by (auto intro!: disjI1 exI [of _ 0])
    next
      case False
      have "styno ((e # es) ! k) + 1 \<le> wi" if "k < length (e # es)" for k
        using that a False wi'_p'_def by (cases k) auto
      then show ?thesis using unf IH a False wi'_p'_def by auto
    qed
  qed
qed

text \<open>What one call of \<^verbatim>\<open>study\<close> does, by the three ways it can go.\<close>

lemma live_of_wf: "stdy_wf s \<Longrightarrow> length (live s) = nat (stdycnt s)"
  by (auto simp: stdy_wf_def live_def)

lemma wf_range: "stdy_wf s \<Longrightarrow> x \<in> set (live s) \<Longrightarrow> 1 \<le> styno x \<and> styno x \<le> stdycnt s"
  by (auto simp: stdy_wf_def)

lemma key_new_rec [simp]: "skey (new_rec outp) = skey (stdy1 outp)" "styno (new_rec outp) = 1"
  by (simp_all add: skey_def new_rec_def)

lemma key_hit_rec [simp]: "skey (hit_rec outp e) = skey e" "styno (hit_rec outp e) = 1"
  "st_seg (hit_rec outp e) = st_seg e" "st_offset (hit_rec outp e) = st_offset e"
  by (simp_all add: skey_def hit_rec_def)

lemma srchstdy_wf:
  assumes "stdy_wf s" "st_offset e \<noteq> 0"
  shows "(\<exists>i < length (live s). live s ! i = stdydic s ! i \<and> skey (live s ! i) = skey e
            \<and> srchstdy (Some s) (st_seg e) (st_offset e) (st_dicid e) = Some (Some i))
    \<or> (skey e \<notin> skey ` set (live s)
            \<and> srchstdy (Some s) (st_seg e) (st_offset e) (st_dicid e) = Some None)"
proof -
  have w: "stdy_sorted (stdydic s) (nat (stdycnt s))" "0 \<le> stdycnt s"
    using stdy_wf_sorted [OF assms(1)] assms(1) by (auto simp: stdy_wf_def)
  have l: "length (live s) = nat (stdycnt s)" "\<And>i. i < nat (stdycnt s) \<Longrightarrow> live s ! i = stdydic s ! i"
    using live_of_wf [OF assms(1)] by (auto simp: live_def)
  from srchstdy_spec [OF w assms(2), of "st_seg e" "st_dicid e"]
  show ?thesis
  proof
    assume "\<exists>i<nat (stdycnt s). skey (stdydic s ! i) = (st_seg e, st_offset e, st_dicid e) \<and>
      srchstdy (Some s) (st_seg e) (st_offset e) (st_dicid e) = Some (Some i)"
    then show ?thesis using l by (auto simp: skey_def)
  next
    assume a: "(\<forall>i<nat (stdycnt s). skey (stdydic s ! i) \<noteq> (st_seg e, st_offset e, st_dicid e)) \<and>
      srchstdy (Some s) (st_seg e) (st_offset e) (st_dicid e) = Some None"
    then have "\<forall>i<length (live s). skey (live s ! i) \<noteq> skey e" using l by (auto simp: skey_def)
    then have "skey e \<notin> skey ` set (live s)" by (metis image_iff in_set_conv_nth)
    with a show ?thesis by blast
  qed
qed

text \<open>A record of rank 1 joins records that have aged.\<close>

lemma fresh_ranks:
  assumes ms: "mset es' = add_mset e (mset (map inc es))" and e: "styno e = 1"
    and es: "distinct (map styno es)" "styno ` set es = {1..n}" "0 \<le> n"
  shows "distinct (map styno es')" "styno ` set es' = {1..n + 1}" "lru es' = skey e # lru es"
    "distinct (map skey es) \<Longrightarrow> skey e \<notin> skey ` set es \<Longrightarrow> distinct (map skey es')"
proof -
  have pos: "\<forall>x \<in> set es. 1 \<le> styno x" using es(2) by auto
  have "mset (map styno es') = mset (1 # map (\<lambda>x. styno x + 1) es)"
    using ms e by (simp add: image_mset.compositionality comp_def)
  moreover have "distinct (1 # map (\<lambda>x. styno x + 1) es)"
    using es(1) pos by (force simp: distinct_map inj_on_def)
  ultimately show dn: "distinct (map styno es')" using mset_eq_imp_distinct_iff by blast
  have set': "set es' = insert e (inc ` set es)"
    using arg_cong [OF ms, of set_mset] by simp
  show "styno ` set es' = {1..n + 1}"
  proof -
    have "styno ` set es' = insert 1 ((\<lambda>v. v + 1) ` styno ` set es)"
      unfolding set' by (simp add: image_image e)
    also have "\<dots> = insert 1 {2..n + 1}" using es(2) by simp
    also have "\<dots> = {1..n + 1}" using es(3) by auto
    finally show ?thesis .
  qed
  show "lru es' = skey e # lru es"
    by (rule lru_new [OF set' dn e pos es(1)])
  assume k: "distinct (map skey es)" "skey e \<notin> skey ` set es"
  have "mset (map skey es') = mset (skey e # map skey es)"
    using ms by (simp add: image_mset.compositionality comp_def)
  then show "distinct (map skey es')"
    using k mset_eq_imp_distinct_iff by fastforce
qed

lemma mset_split: "mset (take q xs @ e # drop q xs) = add_mset e (mset xs)"
  by (metis append_take_drop_id mset.simps(2) mset_append union_mset_add_mset_right)

lemma to_short_inc: "0 \<le> styno x \<Longrightarrow> styno x < 0x7fff \<Longrightarrow> x\<lparr>styno := to_short (styno x + 1)\<rparr> = inc x"
  by (simp add: inc_def)

lemma study_miss_room:
  assumes wf: "stdy_wf s" and k: "st_offset (stdy1 outp) \<noteq> 0" "skey (stdy1 outp) \<notin> skey ` set (live s)"
    and room: "stdycnt s < stdymax s"
    and srch: "srchstdy (Some s) (st_seg (stdy1 outp)) (st_offset (stdy1 outp)) (st_dicid (stdy1 outp)) = Some None"
  shows "\<exists>s'. (\<forall>beyond. study beyond (Some s) outp = Some (STUDYNORMEND, Some s', True)) \<and> stdy_wf s'
    \<and> stdymax s' = stdymax s \<and> lru (live s') = skey (stdy1 outp) # lru (live s)"
proof -
  let ?n = "nat (stdycnt s)"
  have n: "?n < length (stdydic s)" "length (stdydic s) \<le> 0x7fff" "0 \<le> stdycnt s"
    using wf room by (auto simp: stdy_wf_def)
  let ?d = "map inc (take ?n (stdydic s)) @ drop ?n (stdydic s)"
  let ?s1 = "s\<lparr>stdydic := ?d\<rparr>"
  have live1: "live ?s1 = map inc (live s)" using n by (simp add: live_def)
  have "\<And>x. x \<in> set (live s) \<Longrightarrow> x\<lparr>styno := to_short (styno x + 1)\<rparr> = inc x"
    using wf_range [OF wf] room wf by (intro to_short_inc) (force simp: stdy_wf_def)+
  then have upd: "upd_first ?n (\<lambda>x. x\<lparr>styno := to_short (styno x + 1)\<rparr>) (stdydic s) = Some ?d"
    using n by (simp add: upd_first_def live_def cong: map_cong)
  have srt: "stdy_sorted (stdydic ?s1) (nat (stdycnt ?s1))"
    using wf n by (simp add: stdy_sorted_iff stdy_wf_def live_def sorted_wrt_map)
  have "\<exists>s' q. study_insert outp ?s1 = Some s' \<and> stdycnt s' = stdycnt s + 1
      \<and> length (stdydic s') = length (stdydic s) \<and> stdymax s' = stdymax s
      \<and> live s' = take q (live ?s1) @ new_rec outp # drop q (live ?s1) \<and> sorted_wrt before (live s')"
    using study_insert_spec [OF srt, of outp] n by auto
  then obtain s' q where
    s': "study_insert outp ?s1 = Some s'" "stdycnt s' = stdycnt s + 1"
      "length (stdydic s') = length (stdydic s)" "stdymax s' = stdymax s"
      "live s' = take q (live ?s1) @ new_rec outp # drop q (live ?s1)" "sorted_wrt before (live s')"
    by blast
  have st: "study beyond (Some s) outp = Some (STUDYNORMEND, Some s', True)" for beyond
    using k srch room upd s'(1) by (simp add: study_def)
  have ms: "mset (live s') = add_mset (new_rec outp) (mset (map inc (live s)))"
    unfolding s'(5) live1 by (rule mset_split)
  note w = wf [unfolded stdy_wf_def]
  note fr = fresh_ranks [OF ms key_new_rec(2), of "stdycnt s"]
  have wf': "stdy_wf s'"
    unfolding stdy_wf_def using w s' room fr k by simp
  moreover have "lru (live s') = skey (stdy1 outp) # lru (live s)" using fr w by simp
  ultimately show ?thesis using st s'(4) by blast
qed

lemma ins_seg_prefix: "p + c \<le> length L \<Longrightarrow> ins_seg (L @ r) seg p c = ins_seg L seg p c"
  by (induction c arbitrary: p) (auto simp: rd_def nth_append)

lemma ins_ofs_prefix: "p + c \<le> length L \<Longrightarrow> ins_ofs (L @ r) seg ofs p c = ins_ofs L seg ofs p c"
  by (induction c arbitrary: p) (auto simp: rd_def nth_append)

lemma ins_seg_result: "ins_seg d seg p c = Some (q, w) \<Longrightarrow> q + w = p + c"
  by (induction c arbitrary: p) (auto split: if_splits bind_splits)

text \<open>Insertion over a slot whose content does not matter.\<close>

lemma study_insert_over:
  assumes d: "\<And>b. stdydic (s b) = L @ [b]" "\<And>b. stdycnt (s b) = int (length L)"
    "\<And>b b'. s b = s b'\<lparr>stdydic := stdydic (s b)\<rparr>"
    and L: "sorted_wrt before L" "length L < 0x7fff"
  shows "\<exists>s' q. (\<forall>b. study_insert outp (s b) = Some s') \<and> stdycnt s' = int (length L) + 1
    \<and> stdydic s' = take q L @ new_rec outp # drop q L \<and> sorted_wrt before (stdydic s')
    \<and> stdymax s' = stdymax (s undefined)"
proof -
  let ?n = "length L" and ?e = "new_rec outp"
  have k: "st_seg (stdy1 outp) = st_seg ?e" "st_offset (stdy1 outp) = st_offset ?e"
    by (simp_all add: new_rec_def)
  have srt: "stdy_sorted L ?n" using L(1) by (simp add: stdy_sorted_iff)
  from ins_place [OF srt k] obtain p w q where
    pq: "ins_seg L (st_seg (stdy1 outp)) 0 ?n = Some (p, w)" "q \<le> ?n"
      "ins_ofs L (st_seg (stdy1 outp)) (st_offset (stdy1 outp)) p w = Some q"
      "\<forall>x \<in> set (take q L). before x ?e" "\<forall>x \<in> set (drop q L). before ?e x"
    by auto
  have w: "p + w = ?n" using ins_seg_result [OF pq(1)] by simp
  let ?d' = "take q L @ ?e # drop q L"
  have cnt: "to_short (int ?n + 1) = int ?n + 1" using L(2) by (intro to_short_id) auto
  have og: "open_gap q ?e (L @ [b]) = Some ?d'" for b
    using pq(2) by (simp add: open_gap_def)
  have ins: "study_insert outp (s b) = Some ((s b)\<lparr>stdydic := ?d', stdycnt := int ?n + 1\<rparr>)" for b
    using pq(1,3) w og by (simp add: study_insert_def d ins_seg_prefix ins_ofs_prefix cnt)
  have eq: "(s b)\<lparr>stdydic := ?d', stdycnt := int ?n + 1\<rparr>
      = (s undefined)\<lparr>stdydic := ?d', stdycnt := int ?n + 1\<rparr>" for b
    by (subst d(3) [of b undefined]) simp
  have "sorted_wrt before ?d'"
    using L(1) pq(4,5)
    by (auto simp: sorted_wrt_append intro: sorted_wrt_take sorted_wrt_drop before_trans)
  then show ?thesis
    using ins eq by (intro exI [of _ "(s undefined)\<lparr>stdydic := ?d', stdycnt := int ?n + 1\<rparr>"] exI [of _ q]) simp
qed

lemma age_all_wf:
  assumes wf: "stdy_wf s" and full: "stdycnt s = stdymax s" "0 < stdymax s" "stdymax s < 0x7fff"
  shows "\<exists>j. age_all (stdydic s) 0 0 None = (map inc (stdydic s), Some j) \<and> j < length (stdydic s)
    \<and> (\<forall>x \<in> set (stdydic s). styno x \<le> styno (stdydic s ! j))"
proof -
  let ?d = "stdydic s"
  note w = wf [unfolded stdy_wf_def]
  have live: "live s = ?d" and len: "length ?d = nat (stdymax s)" using w full(1) by (auto simp: live_def)
  have ne: "0 < length ?d" using len full(2) by auto
  have rng: "\<forall>e \<in> set ?d. 0 \<le> styno e \<and> styno e < 0x7fff"
    using wf_range [OF wf] full live by fastforce
  have "\<not> (\<forall>k < length ?d. styno (?d ! k) + 1 \<le> 0)"
    using rng ne nth_mem by fastforce
  with age_all_spec [OF rng, of 0 0 None] obtain j where
    "j < length ?d" "snd (age_all ?d 0 0 None) = Some j" "\<forall>k < length ?d. styno (?d ! k) \<le> styno (?d ! j)"
    "fst (age_all ?d 0 0 None) = map inc ?d" by auto
  then show ?thesis by (metis in_set_conv_nth prod.collapse)
qed

lemma study_miss_full:
  assumes wf: "stdy_wf s" and k: "st_offset (stdy1 outp) \<noteq> 0" "skey (stdy1 outp) \<notin> skey ` set (live s)"
    and full: "stdycnt s = stdymax s" "0 < stdymax s" "stdymax s < 0x7fff"
    and srch: "srchstdy (Some s) (st_seg (stdy1 outp)) (st_offset (stdy1 outp)) (st_dicid (stdy1 outp)) = Some None"
  shows "\<exists>s'. (\<forall>beyond. study beyond (Some s) outp = Some (STUDYFULLAREA, Some s', True)) \<and> stdy_wf s'
    \<and> stdymax s' = stdymax s \<and> lru (live s') = skey (stdy1 outp) # butlast (lru (live s))"
proof -
  let ?d = "stdydic s"
  note w = wf [unfolded stdy_wf_def]
  have live: "live s = ?d" and len: "length ?d = nat (stdymax s)" using w full(1) by (auto simp: live_def)
  obtain j where j: "age_all ?d 0 0 None = (map inc ?d, Some j)" "j < length ?d"
    "\<forall>x \<in> set ?d. styno x \<le> styno (?d ! j)" using age_all_wf [OF wf full] by blast
  define xs ys where "xs = take j ?d" "ys = drop (Suc j) ?d"
  have split: "?d = xs @ ?d ! j # ys" using j(2) by (simp add: xs_ys_def id_take_nth_drop)
  define L where "L = map inc (xs @ ys)"
  have lenL: "int (length L) = stdycnt s - 1"
    using len j(2) full by (simp add: L_def xs_ys_def)
  have gap: "close_gap b j (map inc ?d) = L @ [b]" for b
    using j(2) by (simp add: close_gap_def L_def xs_ys_def take_map drop_map)
  let ?s1 = "\<lambda>b. s\<lparr>stdydic := L @ [b], stdycnt := stdycnt s - 1\<rparr>"
  have short: "to_short (stdycnt s - 1) = stdycnt s - 1" using full by (intro to_short_id) auto
  have "sorted_wrt before (xs @ ?d ! j # ys)" using w live split by metis
  then have "sorted_wrt before L" by (simp add: L_def sorted_wrt_append sorted_wrt_map)
  then obtain s' q where s': "\<forall>b. study_insert outp (?s1 b) = Some s'" "stdycnt s' = int (length L) + 1"
    "stdydic s' = take q L @ new_rec outp # drop q L" "sorted_wrt before (stdydic s')" "stdymax s' = stdymax s"
    using study_insert_over [of ?s1 L outp] lenL full by auto
  have st: "study beyond (Some s) outp = Some (STUDYFULLAREA, Some s', True)" for beyond
    using k srch full s'(1) by (simp add: study_def j(1) gap short)
  have len': "length (stdydic s') = nat (stdymax s)"
  proof -
    have "length (stdydic s') = length (take q L @ drop q L) + 1" unfolding s'(3) by simp
    also have "\<dots> = length L + 1" by simp
    finally show ?thesis using lenL full by simp
  qed
  have live': "live s' = stdydic s'" using s'(2) lenL full len' by (simp add: live_def)
  have ms: "mset (live s') = add_mset (new_rec outp) (mset (map inc (xs @ ys)))"
    unfolding live' s'(3) L_def by (rule mset_split)
  have dst: "distinct (map styno (xs @ ?d ! j # ys))" "distinct (map skey (xs @ ?d ! j # ys))"
    using w live split by metis+
  have top: "styno (?d ! j) = stdycnt s"
  proof -
    have "stdycnt s \<in> styno ` set ?d" using w live full by simp
    moreover have "styno (?d ! j) \<le> stdycnt s" using wf_range [OF wf, of "?d ! j"] live j(2) by simp
    ultimately show ?thesis using j(3) by force
  qed
  have "set ?d = set (xs @ ?d ! j # ys)" using split by metis
  then have "styno ` set (xs @ ys) = styno ` set ?d - {styno (?d ! j)}"
    using dst(1) by (auto, metis image_eqI, metis image_eqI)
  also have "\<dots> = {1..stdycnt s - 1}" using w live top by (simp add: atLeastLessThan_def) auto
  finally have rng: "styno ` set (xs @ ys) = {1..stdycnt s - 1}" .
  have sub: "skey (stdy1 outp) \<notin> skey ` set (xs @ ys)"
    using k(2) live by (auto simp: xs_ys_def dest: in_set_takeD in_set_dropD)
  have d2: "distinct (map styno (xs @ ys))" "distinct (map skey (xs @ ys))" using dst by auto
  note fr = fresh_ranks [OF ms key_new_rec(2) d2(1) rng]
  have "0 \<le> stdycnt s - 1" using full by simp
  note fr = fr [OF this]
  have wf': "stdy_wf s'"
    unfolding stdy_wf_def using w s' lenL full len' live' fr(1,2) fr(4) [OF d2(2)] sub by simp
  have "lru (live s') = skey (stdy1 outp) # lru (xs @ ys)" using fr(3) by simp
  also have "lru (xs @ ys) = butlast (lru (live s))"
    unfolding live by (rule lru_evict [OF split]) (use w live j(3) in auto)
  finally show ?thesis using st wf' s'(5) by blast
qed

text \<open>The ranks after the record of rank \<open>m\<close> has come to the front.\<close>

lemma promote_ranks:
  assumes "1 \<le> m" "m \<le> (n::int)"
  shows "insert 1 ((\<lambda>v. if v < m then v + 1 else v) ` ({1..n} - {m})) = {1..n}" (is "?L = _")
proof
  show "?L \<subseteq> {1..n}" using assms by auto
  show "{1..n} \<subseteq> ?L"
  proof
    fix v assume v: "v \<in> {1..n}"
    then have "1 \<le> v" by simp
    then consider "v = 1" | "1 < v" "v \<le> m" | "m < v" by linarith
    then show "v \<in> ?L"
    proof cases
      case 2
      then have "v = (if v - 1 < m then v - 1 + 1 else v - 1)" "v - 1 \<in> {1..n} - {m}" using v by auto
      then show ?thesis by blast
    next
      case 3
      then have "v = (if v < m then v + 1 else v)" "v \<in> {1..n} - {m}" using v assms by auto
      then show ?thesis by blast
    qed simp
  qed
qed

lemma promote_all:
  assumes es: "es = xs @ e # ys" and d: "distinct (map styno es)" and e': "styno e' = 1" "skey e' = skey e"
    and r: "styno ` set es = {1..n}"
  defines "es' \<equiv> map (promote (styno e)) xs @ e' # map (promote (styno e)) ys"
  shows "set es' = insert e' (promote (styno e) ` (set es - {e}))" "distinct (map styno es')"
    "styno ` set es' = {1..n}" "map skey es' = map skey es"
    "sorted_wrt before es \<Longrightarrow> sorted_wrt before es'"
proof -
  let ?m = "styno e"
  define p where "p = (\<lambda>v. if v < styno e then v + 1 else v)"
  have pr: "styno (promote ?m x) = p (styno x)" for x by (simp add: promote_def p_def)
  have one: "1 \<le> styno x" if "x \<in> set es" for x using r that by fastforce
  have m: "1 \<le> ?m" "?m \<le> n" using r es by force+
  have ne: "styno x \<noteq> ?m" if "x \<in> set xs \<union> set ys" for x
    using d that unfolding es by (auto; metis image_eqI)
  have rest: "set es - {e} = set xs \<union> set ys" unfolding es using ne by auto
  then show set': "set es' = insert e' (promote ?m ` (set es - {e}))" by (auto simp: es'_def)
  have sn: "styno ` (set xs \<union> set ys) = {1..n} - {?m}"
  proof -
    have "styno ` set es = insert ?m (styno ` (set xs \<union> set ys))" unfolding es by auto
    moreover have "?m \<notin> styno ` (set xs \<union> set ys)" by (metis imageE ne)
    ultimately show ?thesis using r by auto
  qed
  have "styno ` promote ?m ` (set xs \<union> set ys) = p ` styno ` (set xs \<union> set ys)"
    by (simp only: image_image pr)
  then show "styno ` set es' = {1..n}"
    unfolding set' rest sn using promote_ranks [OF m, folded p_def] e'(1) by (simp only: image_insert)
  have "inj_on p (styno ` (set xs \<union> set ys))" unfolding sn by (auto simp: inj_on_def p_def)
  moreover have "distinct (map styno xs @ map styno ys)" using d es by auto
  ultimately have "distinct (map p (map styno xs @ map styno ys))"
    unfolding distinct_map by (simp add: image_Un)
  moreover have "1 \<notin> p ` styno ` (set xs \<union> set ys)" unfolding sn using m by (auto simp: p_def)
  ultimately show "distinct (map styno es')"
    using e'(1) by (simp add: es'_def comp_def pr image_Un image_image)
  show "map skey es' = map skey es" using e'(2) es by (simp add: es'_def comp_def)
  have k: "before a b = before (c::STDYIN) d" if "skey a = skey c" "skey b = skey d" for a b c d
    using that by (simp add: before_def skey_def)
  assume "sorted_wrt before es"
  then show "sorted_wrt before es'"
    unfolding es'_def es
    by (simp add: sorted_wrt_append sorted_wrt_map k [OF promote_simps(1) promote_simps(1)]
        k [OF promote_simps(1) e'(2)] k [OF e'(2) promote_simps(1)])
qed

lemma study_hit:
  assumes wf: "stdy_wf s" and k: "st_offset (stdy1 outp) \<noteq> 0"
    and i: "i < length (live s)" "live s ! i = stdydic s ! i" "skey (live s ! i) = skey (stdy1 outp)"
    and srch: "srchstdy (Some s) (st_seg (stdy1 outp)) (st_offset (stdy1 outp)) (st_dicid (stdy1 outp)) = Some (Some i)"
  shows "\<exists>s'. (\<forall>beyond. study beyond (Some s) outp = Some (STUDYNORMEND, Some s', True)) \<and> stdy_wf s'
    \<and> stdymax s' = stdymax s \<and> lru (live s') = skey (stdy1 outp) # removeAll (skey (stdy1 outp)) (lru (live s))"
proof -
  note w = wf [unfolded stdy_wf_def]
  let ?n = "nat (stdycnt s)" and ?e = "stdydic s ! i"
  let ?g = "promote (styno ?e)"
  have n: "?n \<le> length (stdydic s)" "length (live s) = ?n" using w live_of_wf [OF wf] by auto
  then have ii: "i < length (stdydic s)" "i < ?n" using i(1) by auto
  have e: "?e \<in> set (live s)" using i(1,2) nth_mem by metis
  have er: "1 \<le> styno ?e" "styno ?e \<le> stdycnt s" using wf_range [OF wf e] by auto
  have g: "(if styno x < styno ?e then x\<lparr>styno := to_short (styno x + 1)\<rparr> else x) = ?g x"
    if "x \<in> set (live s)" for x
    using wf_range [OF wf that] er w by (auto simp: promote_def inc_def)
  let ?d = "map ?g (take ?n (stdydic s)) @ drop ?n (stdydic s)"
  have upd: "upd_first ?n (\<lambda>x. if styno x < styno ?e then x\<lparr>styno := to_short (styno x + 1)\<rparr> else x) (stdydic s) = Some ?d"
    using n(1) g by (simp add: upd_first_def live_def cong: map_cong)
  have di: "?d ! i = ?e" using ii n(1) by (simp add: nth_append promote_def)
  let ?e' = "hit_rec outp ?e"
  define s' where "s' = s\<lparr>stdydic := ?d[i := ?e']\<rparr>"
  have st: "study beyond (Some s) outp = Some (STUDYNORMEND, Some s', True)" for beyond
    using k srch upd ii n(1) di by (simp add: study_def rd_in wr_in s'_def)
  have sel: "stdycnt s' = stdycnt s" "stdymax s' = stdymax s" "length (stdydic s') = length (stdydic s)"
    using n(1) by (simp_all add: s'_def)
  define xs ys where "xs = take i (live s)" "ys = drop (Suc i) (live s)"
  have split: "live s = xs @ ?e # ys"
    using id_take_nth_drop [OF i(1)] i(2) by (simp add: xs_ys_def)
  have "live s' = (map ?g (live s))[i := ?e']"
    using ii n(1) by (simp add: live_def take_update_swap s'_def)
  also have "\<dots> = map ?g xs @ ?e' # map ?g ys"
    using i(1) by (simp add: upd_conv_take_nth_drop xs_ys_def take_map drop_map)
  finally have live': "live s' = map ?g xs @ ?e' # map ?g ys" .
  have e': "styno ?e' = 1" "skey ?e' = skey ?e" by simp_all
  have ds: "distinct (map styno (live s))" "styno ` set (live s) = {1..stdycnt s}" using w by auto
  note pa = promote_all [OF split ds(1) e' ds(2), folded live']
  have "stdy_wf s'"
    unfolding stdy_wf_def using w pa n sel by simp
  moreover have "lru (live s') = skey ?e # removeAll (skey ?e) (lru (live s))"
    by (rule lru_hit [OF e e' ds(1) _ _ pa(1,2)]) (use w wf_range [OF wf] in auto)
  ultimately show ?thesis using st sel i(2,3) by (intro exI [of _ s']) simp
qed
section \<open>Learning is a least-recently-used store\<close>

lemma lru_touch_distinct: "distinct ks \<Longrightarrow> distinct (lru_touch cap k ks)"
  by (simp add: lru_touch_def distinct_removeAll)

lemma lru_touch_front: "0 < cap \<Longrightarrow> hd (lru_touch cap k ks) = k"
  by (cases cap) (simp_all add: lru_touch_def)

lemma takeWhile_removeAll:
  "j \<noteq> k \<Longrightarrow> takeWhile (\<lambda>x. x \<noteq> k) (removeAll j ks) = removeAll j (takeWhile (\<lambda>x. x \<noteq> k) ks)"
  by (induction ks) auto

lemma in_take_if:
  "k \<in> set ks \<Longrightarrow> length (takeWhile (\<lambda>x. x \<noteq> k) ks) < n \<Longrightarrow>
    k \<in> set (take n ks) \<and> takeWhile (\<lambda>x. x \<noteq> k) (take n ks) = takeWhile (\<lambda>x. x \<noteq> k) ks"
proof (induction ks arbitrary: n)
  case (Cons a ks)
  then show ?case by (cases n) auto
qed simp

lemma lru_keeps:
  assumes "k \<in> set ks" "distinct ks" "card (set (takeWhile (\<lambda>x. x \<noteq> k) ks) \<union> (set js - {k})) < cap"
  shows "k \<in> set (foldl (\<lambda>ks j. lru_touch cap j ks) ks js)"
  using assms
proof (induction js arbitrary: ks)
  case (Cons j js)
  let ?tw = "takeWhile (\<lambda>x. x \<noteq> k)" and ?l = "j # removeAll j ks"
  have l: "k \<in> set ?l" "distinct ?l" using Cons.prems by (auto simp: distinct_removeAll)
  have sub: "set (?tw ?l) \<union> (set js - {k}) \<subseteq> set (?tw ks) \<union> (set (j # js) - {k})"
    by (cases "j = k") (auto simp: takeWhile_removeAll)
  then have c: "card (set (?tw ?l) \<union> (set js - {k})) < cap"
    using Cons.prems(3) by (meson card_mono finite_UnI finite_Diff List.finite_set le_less_trans)
  have "length (?tw ?l) = card (set (?tw ?l))"
    using l(2) by (metis distinct_card distinct_takeWhile)
  also have "\<dots> < cap" using c by (meson card_mono finite_UnI finite_Diff List.finite_set le_less_trans Un_upper1)
  finally have t: "k \<in> set (take cap ?l)" "?tw (take cap ?l) = ?tw ?l" using in_take_if [OF l(1)] by blast+
  have "k \<in> set (foldl (\<lambda>ks j. lru_touch cap j ks) (take cap ?l) js)"
    using Cons.IH [OF t(1)] l(2) c t(2) by simp
  then show ?case by (simp add: lru_touch_def)
qed simp

text \<open>
  What a store of learned words promises: a use of a word is a touch of the abstract
  list of keys, most recent first, that keeps at most \<open>cap\<close> of them.
\<close>

locale lru_store =
  fixes inv :: "'s \<Rightarrow> bool" and abs :: "'s \<Rightarrow> 'k list" and ok :: "'op \<Rightarrow> bool"
    and key :: "'op \<Rightarrow> 'k" and learn :: "'op \<Rightarrow> 's \<Rightarrow> 's" and cap :: nat
  assumes cap_pos: "inv s \<Longrightarrow> 0 < cap"
    and abs_distinct: "inv s \<Longrightarrow> distinct (abs s)"
    and learn_inv: "inv s \<Longrightarrow> ok x \<Longrightarrow> inv (learn x s)"
    and learn_abs: "inv s \<Longrightarrow> ok x \<Longrightarrow> abs (learn x s) = lru_touch cap (key x) (abs s)"
begin

lemma run_inv: "inv s \<Longrightarrow> \<forall>x \<in> set xs. ok x \<Longrightarrow> inv (fold learn xs s)"
  by (induction xs arbitrary: s) (simp_all add: learn_inv)

lemma run_abs:
  "inv s \<Longrightarrow> \<forall>x \<in> set xs. ok x \<Longrightarrow>
   abs (fold learn xs s) = foldl (\<lambda>ks k. lru_touch cap k ks) (abs s) (map key xs)"
  by (induction xs arbitrary: s) (simp_all add: learn_inv learn_abs)

lemma run_remembers:
  assumes "inv s" "\<forall>y \<in> set xs. ok y" "ok x" "\<forall>y \<in> set ys. ok y" "card (key ` set ys - {key x}) < cap"
  shows "key x \<in> set (abs (fold learn (xs @ x # ys) s))"
proof -
  let ?s1 = "fold learn xs s"
  have i1: "inv ?s1" using run_inv assms by blast
  have i2: "inv (learn x ?s1)" using learn_inv [OF i1 assms(3)] .
  have a: "abs (learn x ?s1) = lru_touch cap (key x) (abs ?s1)" using learn_abs [OF i1 assms(3)] .
  have "key x \<in> set (foldl (\<lambda>ks k. lru_touch cap k ks) (abs (learn x ?s1)) (map key ys))"
  proof (rule lru_keeps)
    obtain c where c: "cap = Suc c" using cap_pos [OF i1] by (cases cap) auto
    show "key x \<in> set (abs (learn x ?s1))" by (simp add: a c lru_touch_def)
    show "distinct (abs (learn x ?s1))" using abs_distinct [OF i2] .
    show "card (set (takeWhile (\<lambda>y. y \<noteq> key x) (abs (learn x ?s1))) \<union> (set (map key ys) - {key x})) < cap"
      using assms(5) by (simp add: a c lru_touch_def)
  qed
  then show ?thesis using run_abs [OF i2 assms(4)] by simp
qed

end

definition study_state :: "STDYIN \<Rightarrow> STDYOUT \<Rightarrow> STDY \<Rightarrow> STDY" where
  "study_state beyond outp s =
     (case study beyond (Some s) outp of Some (_, Some s', _) \<Rightarrow> s' | _ \<Rightarrow> s)"

lemma removeAll_notin: "k \<notin> set ks \<Longrightarrow> removeAll k ks = ks"
  by (simp add: removeAll_id)

lemma study_lru:
  assumes wf: "stdy_wf s" and m: "0 < stdymax s" "stdymax s < 0x7fff" and k: "st_offset (stdy1 outp) \<noteq> 0"
  shows "\<exists>s'. (\<forall>beyond. study beyond (Some s) outp =
      Some (if skey (stdy1 outp) \<in> skey ` set (live s) \<or> stdycnt s < stdymax s then STUDYNORMEND else STUDYFULLAREA,
            Some s', True))
    \<and> stdy_wf s' \<and> stdymax s' = stdymax s
    \<and> lru (live s') = lru_touch (nat (stdymax s)) (skey (stdy1 outp)) (lru (live s))"
proof -
  let ?k = "skey (stdy1 outp)" and ?ks = "lru (live s)"
  have le: "length ?ks = nat (stdycnt s)" "stdycnt s \<le> stdymax s" "0 \<le> stdycnt s"
    using wf live_of_wf [OF wf] by (auto simp: stdy_wf_def)
  show ?thesis
  proof (cases "?k \<in> skey ` set (live s)")
    case TF: True
    then obtain i where i: "i < length (live s)" "live s ! i = stdydic s ! i" "skey (live s ! i) = ?k"
      "srchstdy (Some s) (st_seg (stdy1 outp)) (st_offset (stdy1 outp)) (st_dicid (stdy1 outp)) = Some (Some i)"
      using srchstdy_wf [OF wf k] TF by meson
    have "length (removeAll ?k ?ks) < length ?ks" using TF by (intro length_removeAll_less) simp
    then have "length (?k # removeAll ?k ?ks) \<le> nat (stdymax s)" using le by simp
    then have "lru_touch (nat (stdymax s)) ?k ?ks = ?k # removeAll ?k ?ks" by (simp only: lru_touch_def take_all)
    moreover obtain s' where "\<forall>beyond. study beyond (Some s) outp = Some (STUDYNORMEND, Some s', True)"
      "stdy_wf s'" "stdymax s' = stdymax s" "lru (live s') = ?k # removeAll ?k ?ks"
      using study_hit [OF wf k i] by blast
    ultimately show ?thesis using TF by (intro exI [of _ s']) simp
  next
    case TF: False
    then have srch: "srchstdy (Some s) (st_seg (stdy1 outp)) (st_offset (stdy1 outp)) (st_dicid (stdy1 outp)) = Some None"
      using srchstdy_wf [OF wf k] TF by (metis image_eqI nth_mem)
    have r: "removeAll ?k ?ks = ?ks" using TF by (simp add: removeAll_id)
    show ?thesis
    proof (cases "stdycnt s < stdymax s")
      case True
      then have "lru_touch (nat (stdymax s)) ?k ?ks = ?k # ?ks" using le r by (simp add: lru_touch_def)
      moreover obtain s' where "\<forall>beyond. study beyond (Some s) outp = Some (STUDYNORMEND, Some s', True)"
        "stdy_wf s'" "stdymax s' = stdymax s" "lru (live s') = ?k # ?ks"
        using study_miss_room [OF wf k TF True srch] by blast
      ultimately show ?thesis using True by (intro exI [of _ s']) simp
    next
      case f: False
      then have full: "stdycnt s = stdymax s" using le by simp
      have "lru_touch (nat (stdymax s)) ?k ?ks = ?k # butlast ?ks"
        using le r full m by (simp add: lru_touch_def butlast_conv_take take_Cons')
      moreover obtain s' where "\<forall>beyond. study beyond (Some s) outp = Some (STUDYFULLAREA, Some s', True)"
        "stdy_wf s'" "stdymax s' = stdymax s" "lru (live s') = ?k # butlast ?ks"
        using study_miss_full [OF wf k TF full m srch] by blast
      ultimately show ?thesis using f TF by (intro exI [of _ s']) simp
    qed
  qed
qed

lemma study_state_lru:
  assumes "stdy_wf s" "0 < stdymax s" "stdymax s < 0x7fff" "st_offset (stdy1 outp) \<noteq> 0"
  shows "stdy_wf (study_state beyond outp s)" "stdymax (study_state beyond outp s) = stdymax s"
    "lru (live (study_state beyond outp s)) = lru_touch (nat (stdymax s)) (skey (stdy1 outp)) (lru (live s))"
  using study_lru [OF assms] by (auto simp: study_state_def)

lemma distinct_lru: "distinct (map skey es) \<Longrightarrow> distinct (lru es)"
  unfolding lru_def by (metis mset_eq_imp_distinct_iff mset_map mset_sort)

interpretation stdy: lru_store
  "\<lambda>s. stdy_wf s \<and> stdymax s = int cap \<and> 0 < cap \<and> cap < 0x7fff" "\<lambda>s. lru (live s)"
  "\<lambda>x. st_offset (stdy1 x) \<noteq> 0" "\<lambda>x. skey (stdy1 x)" "study_state beyond" cap
  for beyond cap
proof unfold_locales
  fix s and x :: STDYOUT assume s: "stdy_wf s \<and> stdymax s = int cap \<and> 0 < cap \<and> cap < 0x7fff" and x: "st_offset (stdy1 x) \<noteq> 0"
  then show "stdy_wf (study_state beyond x s) \<and> stdymax (study_state beyond x s) = int cap \<and> 0 < cap \<and> cap < 0x7fff"
    "lru (live (study_state beyond x s)) = lru_touch cap (skey (stdy1 x)) (lru (live s))"
    using study_state_lru [of s x beyond] by auto
qed (auto simp: stdy_wf_def intro: distinct_lru)

section \<open>Properties\<close>

text \<open>
  C5. A use of a word is a touch of a least-recently-used list of at most \<open>STUDYMAX\<close>
  words: on a well-formed study area \<^verbatim>\<open>study\<close> accesses no memory outside the array
  but the record behind it, whose content has no influence, keeps the area well formed
  (sorted, without duplicates, the recency numbers \<open>1..STUDYCOUNT\<close>), writes it out, puts
  the word in front and drops the word of highest number exactly when the array is full;
  the return code tells which.
\<close>

theorem study_refines_lru:
  assumes "stdy_wf s" "0 < stdymax s" "stdymax s < 0x7fff" "st_offset (stdy1 outp) \<noteq> 0"
  shows "\<exists>s'. (\<forall>beyond. study beyond (Some s) outp =
      Some (if skey (stdy1 outp) \<in> skey ` set (live s) \<or> stdycnt s < stdymax s then STUDYNORMEND else STUDYFULLAREA,
            Some s', True))
    \<and> stdy_wf s' \<and> stdymax s' = stdymax s
    \<and> lru (live s') = lru_touch (nat (stdymax s)) (skey (stdy1 outp)) (lru (live s))"
  by (rule study_lru [OF assms])

definition ex_rec :: "nat \<Rightarrow> int \<Rightarrow> STDYIN" where
  "ex_rec ofs nm = \<lparr>st_offset = ofs, st_seg = 1, styno = nm, st_dicid = 0, sttkj = False, ka_kj = False, nmflg = False\<rparr>"

definition ex_out :: "nat \<Rightarrow> STDYOUT" where
  "ex_out ofs = \<lparr>stdy1 = ex_rec ofs 0, st_hinshi = 1, st_len = 2, sttlen = 0, sttfg = False, ka_fg = False\<rparr>"

definition ex_stdy :: STDY where
  "ex_stdy = \<lparr>stdycnt = 2, stdymax = 2, stdydic = [ex_rec 10 2, ex_rec 20 1], clstdystep = 1, clstdyidx = [],
     clstdylen = 0, clstdydic = []\<rparr>"

lemma ex_stdy_wf: "stdy_wf ex_stdy" "lru (live ex_stdy) = [(1, 20, 0), (1, 10, 0)]" "stdymax ex_stdy = 2"
  by (auto simp: stdy_wf_def ex_stdy_def ex_rec_def live_def before_def skey_def lru_def)

theorem study_refines_lru_witness:
  "\<exists>s'. study (ex_rec 99 0) (Some ex_stdy) (ex_out 15) = Some (STUDYFULLAREA, Some s', True)
    \<and> lru (live s') = [(1, 15, 0), (1, 20, 0)]"
proof -
  have "skey (stdy1 (ex_out 15)) = (1, 15, 0)" "st_offset (stdy1 (ex_out 15)) = 15"
    by (simp_all add: ex_out_def ex_rec_def skey_def)
  moreover have "skey ` set (live ex_stdy) = {(1, 10, 0), (1, 20, 0)}" "stdycnt ex_stdy = 2"
    by (simp_all add: ex_stdy_def live_def skey_def ex_rec_def)
  ultimately show ?thesis
    using study_refines_lru [of ex_stdy "ex_out 15"] ex_stdy_wf by (auto simp: lru_touch_def)
qed

text \<open>
  C6. A word is not forgotten before \<open>STUDYMAX\<close> other words have been used since: after
  any sequence of uses, a word \<open>x\<close> followed by uses of fewer than \<open>STUDYMAX\<close> distinct
  other words is found by \<^verbatim>\<open>srchstdy\<close>.
\<close>

theorem study_remembers:
  assumes "stdy_wf s" "stdymax s = int cap" "0 < cap" "cap < 0x7fff"
    and "\<forall>y \<in> set (xs @ x # ys). st_offset (stdy1 y) \<noteq> 0"
    and "card ((\<lambda>y. skey (stdy1 y)) ` set ys - {skey (stdy1 x)}) < cap"
  shows "\<exists>i. srchstdy (Some (fold (study_state beyond) (xs @ x # ys) s))
    (st_seg (stdy1 x)) (st_offset (stdy1 x)) (st_dicid (stdy1 x)) = Some (Some i)"
proof -
  let ?s = "fold (study_state beyond) (xs @ x # ys) s"
  have "stdy_wf ?s" using stdy.run_inv [of s cap "xs @ x # ys"] assms by blast
  moreover have "skey (stdy1 x) \<in> set (lru (live ?s))"
    using stdy.run_remembers [of s cap xs x ys] assms by auto
  ultimately show ?thesis using srchstdy_wf [of ?s "stdy1 x"] assms(5) by auto
qed

theorem study_remembers_witness:
  "\<exists>i. srchstdy (Some (fold (study_state (ex_rec 99 0)) ([ex_out 30] @ ex_out 15 # [ex_out 20, ex_out 20]) ex_stdy)) 1 15 0 = Some (Some i)"
  using study_remembers [of ex_stdy 2 "[ex_out 30]" "ex_out 15" "[ex_out 20, ex_out 20]" "ex_rec 99 0"] ex_stdy_wf
  by (simp add: ex_out_def ex_rec_def skey_def)

text \<open>
  C7. On a well-formed study area \<^verbatim>\<open>srchstdy\<close> ends, reads only live records, returns
  a record with exactly the given segment, offset and dictionary, and returns \<open>NULL\<close> only
  when there is none; offset 0 and a missing area give \<open>NULL\<close>.
\<close>

theorem srchstdy_correct:
  assumes "stdy_wf s"
  shows "srchstdy None seg ofs dicid = Some None \<and> srchstdy (Some s) seg 0 dicid = Some None
    \<and> (ofs \<noteq> 0 \<longrightarrow> (\<exists>r. srchstdy (Some s) seg ofs dicid = Some r \<and>
      (case r of None \<Rightarrow> (seg, ofs, dicid) \<notin> skey ` set (live s)
       | Some i \<Rightarrow> i < length (live s) \<and> skey (live s ! i) = (seg, ofs, dicid))))"
  using srchstdy_wf [OF assms, of "(ex_rec ofs 0)\<lparr>st_seg := seg, st_dicid := dicid\<rparr>"]
  by (auto simp: srchstdy_def skey_def ex_rec_def)

theorem srchstdy_correct_witness:
  "\<exists>i. srchstdy (Some ex_stdy) 1 20 0 = Some (Some i) \<and> i < length (live ex_stdy)"
proof -
  have "(1, 20, 0) \<in> skey ` set (live ex_stdy)" by (simp add: ex_stdy_def live_def skey_def ex_rec_def)
  then show ?thesis
    using srchstdy_correct [OF ex_stdy_wf(1), of 1 20 0] by (auto split: option.splits)
qed

end
