(* ===== verification/Sj_Io.thy ===== *)
theory Sj_Io
  imports Sj_Prelude
begin

text \<open>
  What both ends of the protocol share: the answers of the kernel to \<^verbatim>\<open>read\<close> and
  \<^verbatim>\<open>write\<close> on a stream socket, the constants of
  \<^verbatim>\<open>include/sj3common/sj3cmd.h\<close>, \<^verbatim>\<open>sj3err.h\<close> and \<^verbatim>\<open>Const.h\<close>, and the
  big-endian integers of the wire.

  A run of the program meets a script of answers. A \<^verbatim>\<open>read\<close> answer is a chunk of
  bytes (the empty chunk is the end of the stream) or an error; the end of the script is
  the end of the stream. A \<^verbatim>\<open>write\<close> answer is the number of bytes the kernel takes,
  negative for an error; at the end of the script the kernel takes everything.
\<close>

section \<open>The kernel\<close>

datatype rd_ans = Chunk "u8 list" | Eintr | Ewouldblock | Eother

fun sys_read :: "nat \<Rightarrow> rd_ans list \<Rightarrow> rd_ans \<times> rd_ans list" where
  "sys_read n [] = (Chunk [], [])"
| "sys_read n (Chunk bs # q) =
     (if length bs \<le> n then (Chunk bs, q) else (Chunk (take n bs), Chunk (drop n bs) # q))"
| "sys_read n (a # q) = (a, q)"

fun sys_write :: "nat \<Rightarrow> int list \<Rightarrow> int \<times> int list" where
  "sys_write len [] = (int len, [])"
| "sys_write len (i # ws) = (if i < 0 then - 1 else min i (int len), ws)"

fun ans_size :: "rd_ans \<Rightarrow> nat" where
  "ans_size (Chunk bs) = Suc (length bs)"
| "ans_size _ = 1"

definition script_size :: "rd_ans list \<Rightarrow> nat" where
  "script_size q = sum_list (map ans_size q)"

lemma script_size_simps [simp]:
  "script_size [] = 0" "script_size (a # q) = ans_size a + script_size q"
  by (simp_all add: script_size_def)

lemma sys_read_Chunk:
  assumes "sys_read n q = (Chunk (b # bs), q')"
  shows "length (b # bs) + script_size q' \<le> script_size q" "length (b # bs) \<le> n"
proof -
  have "length (b # bs) + script_size q' \<le> script_size q \<and> length (b # bs) \<le> n"
  proof (cases "(n, q)" rule: sys_read.cases)
    case (2 n' cs q0)
    show ?thesis
    proof (cases "length cs \<le> n")
      case False
      then have "take n cs = b # bs" "q' = Chunk (drop n cs) # q0" using 2 assms by auto
      then show ?thesis using False 2 arg_cong [OF \<open>take n cs = b # bs\<close>, of length] by auto
    qed (use 2 assms in auto)
  qed (use assms in auto)
  then show "length (b # bs) + script_size q' \<le> script_size q" "length (b # bs) \<le> n" by auto
qed

lemma sys_read_size: "sys_read n q = (a, q') \<Longrightarrow> script_size q' \<le> script_size q"
  by (cases "(n, q)" rule: sys_read.cases) (auto split: if_splits)

text \<open>Every write answer accepts at least a byte.\<close>

definition writable :: "int list \<Rightarrow> bool" where
  "writable ws \<longleftrightarrow> (\<forall>i \<in> set ws. 0 < i)"

lemma sys_write_ok:
  assumes "writable ws" "0 < len"
  obtains j ws' where "sys_write len ws = (j, ws')" "0 < j" "j \<le> int len" "writable ws'"
proof (cases ws)
  case (Cons i ws')
  have "sys_write len ws = (min i (int len), ws')" "0 < i"
    using assms Cons by (auto simp: writable_def)
  then show ?thesis using that [of "min i (int len)" ws'] assms Cons by (auto simp: writable_def)
qed (use that assms in auto)

section \<open>Constants\<close>

definition BUFSIZ :: nat where "BUFSIZ = 8192"

abbreviation ERROR :: u32 where "ERROR \<equiv> - 1"

abbreviation SJ3SERV_VERSION_NO :: u32 where "SJ3SERV_VERSION_NO \<equiv> 2"
abbreviation SJ3_CONNECT :: u32 where "SJ3_CONNECT \<equiv> 1"
abbreviation SJ3_DISCONNECT :: u32 where "SJ3_DISCONNECT \<equiv> 2"
abbreviation SJ3_OPENDICT :: u32 where "SJ3_OPENDICT \<equiv> 11"
abbreviation SJ3_CLOSEDICT :: u32 where "SJ3_CLOSEDICT \<equiv> 12"
abbreviation SJ3_OPENSTDY :: u32 where "SJ3_OPENSTDY \<equiv> 21"
abbreviation SJ3_CLOSESTDY :: u32 where "SJ3_CLOSESTDY \<equiv> 22"
abbreviation SJ3_STDYSIZE :: u32 where "SJ3_STDYSIZE \<equiv> 23"
abbreviation SJ3_LOCK :: u32 where "SJ3_LOCK \<equiv> 31"
abbreviation SJ3_UNLOCK :: u32 where "SJ3_UNLOCK \<equiv> 32"
abbreviation SJ3_PH2KNJ :: u32 where "SJ3_PH2KNJ \<equiv> 41"
abbreviation SJ3_CL2KNJ :: u32 where "SJ3_CL2KNJ \<equiv> 51"
abbreviation SJ3_NEXTCL :: u32 where "SJ3_NEXTCL \<equiv> 52"
abbreviation SJ3_PREVCL :: u32 where "SJ3_PREVCL \<equiv> 53"
abbreviation SJ3_CL2KNJ_ALL :: u32 where "SJ3_CL2KNJ_ALL \<equiv> 54"
abbreviation SJ3_CL2KNJ_CNT :: u32 where "SJ3_CL2KNJ_CNT \<equiv> 55"
abbreviation SJ3_STUDY :: u32 where "SJ3_STUDY \<equiv> 61"
abbreviation SJ3_CLSTUDY :: u32 where "SJ3_CLSTUDY \<equiv> 62"
abbreviation SJ3_ADDDICT :: u32 where "SJ3_ADDDICT \<equiv> 71"
abbreviation SJ3_DELDICT :: u32 where "SJ3_DELDICT \<equiv> 72"
abbreviation SJ3_MAKEDICT :: u32 where "SJ3_MAKEDICT \<equiv> 81"
abbreviation SJ3_MAKESTDY :: u32 where "SJ3_MAKESTDY \<equiv> 82"
abbreviation SJ3_MAKEDIR :: u32 where "SJ3_MAKEDIR \<equiv> 83"
abbreviation SJ3_ACCESS :: u32 where "SJ3_ACCESS \<equiv> 84"
abbreviation SJ3_GETDICT :: u32 where "SJ3_GETDICT \<equiv> 91"
abbreviation SJ3_NEXTDICT :: u32 where "SJ3_NEXTDICT \<equiv> 92"
abbreviation SJ3_PREVDICT :: u32 where "SJ3_PREVDICT \<equiv> 93"
abbreviation SJ3_WHO :: u32 where "SJ3_WHO \<equiv> 100"
abbreviation SJ3_QUIT :: u32 where "SJ3_QUIT \<equiv> 101"
abbreviation SJ3_KILL :: u32 where "SJ3_KILL \<equiv> 102"
abbreviation SJ3_VERSION :: u32 where "SJ3_VERSION \<equiv> 103"
abbreviation SJ3_DICTPASS :: u32 where "SJ3_DICTPASS \<equiv> 104"
abbreviation SJ3_DICTCMNT :: u32 where "SJ3_DICTCMNT \<equiv> 105"
abbreviation SJ3_STDYPASS :: u32 where "SJ3_STDYPASS \<equiv> 106"
abbreviation SJ3_STDYCMNT :: u32 where "SJ3_STDYCMNT \<equiv> 107"
abbreviation SJ3_SETCVER :: u32 where "SJ3_SETCVER \<equiv> 110"
abbreviation SJ3_PH2KNJ_EUC :: u32 where "SJ3_PH2KNJ_EUC \<equiv> 111"
abbreviation SJ3_CL2KNJ_EUC :: u32 where "SJ3_CL2KNJ_EUC \<equiv> 112"
abbreviation SJ3_NEXTCL_EUC :: u32 where "SJ3_NEXTCL_EUC \<equiv> 113"
abbreviation SJ3_PREVCL_EUC :: u32 where "SJ3_PREVCL_EUC \<equiv> 114"
abbreviation SJ3_CL2KNJ_ALL_EUC :: u32 where "SJ3_CL2KNJ_ALL_EUC \<equiv> 115"
abbreviation SJ3_CL2KNJ_CNT_EUC :: u32 where "SJ3_CL2KNJ_CNT_EUC \<equiv> 116"
abbreviation SJ3_CLSTUDY_EUC :: u32 where "SJ3_CLSTUDY_EUC \<equiv> 117"
abbreviation SJ3_ADDDICT_EUC :: u32 where "SJ3_ADDDICT_EUC \<equiv> 118"
abbreviation SJ3_DELDICT_EUC :: u32 where "SJ3_DELDICT_EUC \<equiv> 119"
abbreviation SJ3_GETDICT_EUC :: u32 where "SJ3_GETDICT_EUC \<equiv> 120"
abbreviation SJ3_NEXTDICT_EUC :: u32 where "SJ3_NEXTDICT_EUC \<equiv> 121"
abbreviation SJ3_PREVDICT_EUC :: u32 where "SJ3_PREVDICT_EUC \<equiv> 122"

abbreviation SJ3_InternalError :: u32 where "SJ3_InternalError \<equiv> - 1"
abbreviation SJ3_NormalEnd :: u32 where "SJ3_NormalEnd \<equiv> 0"
abbreviation SJ3_ServerDown :: u32 where "SJ3_ServerDown \<equiv> 1"
abbreviation SJ3_OpenSocket :: u32 where "SJ3_OpenSocket \<equiv> 2"
abbreviation SJ3_ConnectSocket :: u32 where "SJ3_ConnectSocket \<equiv> 3"
abbreviation SJ3_GetHostByName :: u32 where "SJ3_GetHostByName \<equiv> 4"
abbreviation SJ3_NotOpened :: u32 where "SJ3_NotOpened \<equiv> 5"
abbreviation SJ3_NotEnoughMemory :: u32 where "SJ3_NotEnoughMemory \<equiv> 6"
abbreviation SJ3_IllegalCommand :: u32 where "SJ3_IllegalCommand \<equiv> 7"
abbreviation SJ3_DifferentVersion :: u32 where "SJ3_DifferentVersion \<equiv> 11"
abbreviation SJ3_NoHostName :: u32 where "SJ3_NoHostName \<equiv> 12"
abbreviation SJ3_NoUserName :: u32 where "SJ3_NoUserName \<equiv> 13"
abbreviation SJ3_NotAllowedUser :: u32 where "SJ3_NotAllowedUser \<equiv> 14"
abbreviation SJ3_AlreadyConnected :: u32 where "SJ3_AlreadyConnected \<equiv> 15"
abbreviation SJ3_NotConnected :: u32 where "SJ3_NotConnected \<equiv> 16"
abbreviation SJ3_TooLongParameter :: u32 where "SJ3_TooLongParameter \<equiv> 21"
abbreviation SJ3_IllegalParameter :: u32 where "SJ3_IllegalParameter \<equiv> 22"
abbreviation SJ3_BadDictID :: u32 where "SJ3_BadDictID \<equiv> 31"
abbreviation SJ3_IllegalDictFile :: u32 where "SJ3_IllegalDictFile \<equiv> 32"
abbreviation SJ3_IllegalStdyFile :: u32 where "SJ3_IllegalStdyFile \<equiv> 33"
abbreviation SJ3_IncorrectPasswd :: u32 where "SJ3_IncorrectPasswd \<equiv> 34"
abbreviation SJ3_FileNotExist :: u32 where "SJ3_FileNotExist \<equiv> 35"
abbreviation SJ3_CannotAccessFile :: u32 where "SJ3_CannotAccessFile \<equiv> 36"
abbreviation SJ3_CannotOpenFile :: u32 where "SJ3_CannotOpenFile \<equiv> 37"
abbreviation SJ3_CannotCreateFile :: u32 where "SJ3_CannotCreateFile \<equiv> 38"
abbreviation SJ3_FileReadError :: u32 where "SJ3_FileReadError \<equiv> 39"
abbreviation SJ3_FileWriteError :: u32 where "SJ3_FileWriteError \<equiv> 40"
abbreviation SJ3_FileSeekError :: u32 where "SJ3_FileSeekError \<equiv> 41"
abbreviation SJ3_StdyAlreadyOpened :: u32 where "SJ3_StdyAlreadyOpened \<equiv> 51"
abbreviation SJ3_StdyFileNotOpened :: u32 where "SJ3_StdyFileNotOpened \<equiv> 52"
abbreviation SJ3_TooSmallStdyArea :: u32 where "SJ3_TooSmallStdyArea \<equiv> 53"
abbreviation SJ3_LockedByOther :: u32 where "SJ3_LockedByOther \<equiv> 61"
abbreviation SJ3_NotLocked :: u32 where "SJ3_NotLocked \<equiv> 62"
abbreviation SJ3_NoSuchDict :: u32 where "SJ3_NoSuchDict \<equiv> 71"
abbreviation SJ3_ReadOnlyDict :: u32 where "SJ3_ReadOnlyDict \<equiv> 72"
abbreviation SJ3_DictLocked :: u32 where "SJ3_DictLocked \<equiv> 73"
abbreviation SJ3_BadYomiString :: u32 where "SJ3_BadYomiString \<equiv> 74"
abbreviation SJ3_BadKanjiString :: u32 where "SJ3_BadKanjiString \<equiv> 75"
abbreviation SJ3_BadHinsiCode :: u32 where "SJ3_BadHinsiCode \<equiv> 76"
abbreviation SJ3_AddDictFailed :: u32 where "SJ3_AddDictFailed \<equiv> 81"
abbreviation SJ3_AlreadyExistWord :: u32 where "SJ3_AlreadyExistWord \<equiv> 82"
abbreviation SJ3_NoMoreDouonWord :: u32 where "SJ3_NoMoreDouonWord \<equiv> 83"
abbreviation SJ3_NoMoreUserDict :: u32 where "SJ3_NoMoreUserDict \<equiv> 84"
abbreviation SJ3_NoMoreIndexBlock :: u32 where "SJ3_NoMoreIndexBlock \<equiv> 85"
abbreviation SJ3_DelDictFailed :: u32 where "SJ3_DelDictFailed \<equiv> 91"
abbreviation SJ3_NoSuchWord :: u32 where "SJ3_NoSuchWord \<equiv> 92"
abbreviation SJ3_DirAlreadyExist :: u32 where "SJ3_DirAlreadyExist \<equiv> 101"
abbreviation SJ3_CannotCreateDir :: u32 where "SJ3_CannotCreateDir \<equiv> 102"
abbreviation SJ3_NoMoreDictData :: u32 where "SJ3_NoMoreDictData \<equiv> 111"
abbreviation SJ3_UserConnected :: u32 where "SJ3_UserConnected \<equiv> 121"
abbreviation SJ3_TooLongPasswd :: u32 where "SJ3_TooLongPasswd \<equiv> 131"
abbreviation SJ3_TooLongComment :: u32 where "SJ3_TooLongComment \<equiv> 132"
abbreviation SJ3_CannotCodeConvert :: u32 where "SJ3_CannotCodeConvert \<equiv> 133"

abbreviation MBCODE_SJIS :: u32 where "MBCODE_SJIS \<equiv> 1"
abbreviation SJ3_NAME_LENGTH :: int where "SJ3_NAME_LENGTH \<equiv> 128"

section \<open>Integers on the wire\<close>

definition be32 :: "u32 \<Rightarrow> u8 list" where
  "be32 c = [byte3 c, byte2 c, byte1 c, byte0 c]"

lemma length_be32 [simp]: "length (be32 c) = 4"
  by (simp add: be32_def)

text \<open>The content of a C object as \<^verbatim>\<open>strlen\<close> sees it.\<close>

fun strlen :: "cbuf \<Rightarrow> nat option" where
  "strlen [] = None"
| "strlen (c # p) = (if c = 0 then Some 0 else do { n \<leftarrow> strlen p; Some (Suc n) })"

lemma strlen_Some_iff:
  "strlen p = Some n \<longleftrightarrow> n < length p \<and> p ! n = 0 \<and> 0 \<notin> set (take n p)"
proof (induction p arbitrary: n)
  case (Cons c p)
  show ?case
  proof (cases n)
    case 0
    then show ?thesis by (auto split: bind_splits)
  next
    case (Suc m)
    then show ?thesis using Cons.IH [of m] by (auto split: bind_splits)
  qed
qed simp

lemma strlen_string [simp]: "0 \<notin> set x \<Longrightarrow> strlen (x @ 0 # r) = Some (length x)"
  by (auto simp: strlen_Some_iff)

lemma ucast_u8_u32 [simp]: "ucast (ucast (c :: u8) :: u32) = c"
  by (rule bit_word_eqI) (auto simp: bit_simps)

section \<open>Reading bytes\<close>

text \<open>
  The interface of a byte source, the client's \<^verbatim>\<open>get_byte\<close> and the server's: the bytes
  that are going to arrive come one by one and in order, however the kernel delivers
  them. \<open>same\<close> is what reading leaves alone.
\<close>

definition read_int :: "('s \<Rightarrow> (u32 \<times> 's) option) \<Rightarrow> 's \<Rightarrow> (u32 \<times> 's) option" where
  "read_int next s = do {
     (i0, s) \<leftarrow> next s; (i1, s) \<leftarrow> next s; (i2, s) \<leftarrow> next s; (i3, s) \<leftarrow> next s;
     Some (push_bit (8 * 3) i0 OR push_bit (8 * 2) i1 OR push_bit (8 * 1) i2 OR i3, s) }"

locale byte_reader =
  fixes "next" :: "'s \<Rightarrow> (u32 \<times> 's) option" and avail :: "'s \<Rightarrow> u8 list" and same :: "'s \<Rightarrow> 's \<Rightarrow> bool"
  assumes next_avail: "avail s = b # bs \<Longrightarrow> \<exists>s'. next s = Some (ucast b, s') \<and> avail s' = bs \<and> same s s'"
    and same_refl: "same s s"
    and same_trans: "same s t \<Longrightarrow> same t u \<Longrightarrow> same s u"
begin

lemma next_int:
  assumes "avail s = be32 c @ bs"
  shows "\<exists>s'. read_int next s = Some (c, s') \<and> avail s' = bs \<and> same s s'"
proof -
  obtain s1 where 1: "next s = Some (ucast (byte3 c), s1)" "avail s1 = [byte2 c, byte1 c, byte0 c] @ bs" "same s s1"
    using next_avail [of s "byte3 c"] assms by (auto simp: be32_def)
  obtain s2 where 2: "next s1 = Some (ucast (byte2 c), s2)" "avail s2 = [byte1 c, byte0 c] @ bs" "same s1 s2"
    using next_avail [of s1 "byte2 c"] 1 by auto
  obtain s3 where 3: "next s2 = Some (ucast (byte1 c), s3)" "avail s3 = byte0 c # bs" "same s2 s3"
    using next_avail [of s2 "byte1 c"] 2 by auto
  obtain s4 where 4: "next s3 = Some (ucast (byte0 c), s4)" "avail s4 = bs" "same s3 s4"
    using next_avail [of s3 "byte0 c"] 3 by auto
  have "read_int next s = Some (c, s4)"
    using 1 2 3 4 mk32_bytes [of c] by (simp add: read_int_def mk32_def or.assoc)
  then show ?thesis using 1 2 3 4 same_trans by blast
qed

end

end
