(* ===== verification/Sj_Client.thy ===== *)
theory Sj_Client
  imports Sj_Io
begin

text \<open>
  \<^verbatim>\<open>lib/sj3lib/level1.c\<close>: the client's side of the protocol. The state is the
  file's static variables, the client environment \<open>cliptr\<close> points to, and the socket
  (the bytes written so far and the script of the kernel's answers).

  \<open>c_putbuf\<close> is the part of \<^verbatim>\<open>putbuf\<close> below \<^verbatim>\<open>putpos\<close>, \<open>c_getbuf\<close> the part
  of \<^verbatim>\<open>getbuf\<close> below \<^verbatim>\<open>getlen\<close>. C integers are 32-bit words; \<open>None\<close> is an
  access outside an object (\<^verbatim>\<open>put_byte\<close> does not check the end of \<^verbatim>\<open>putbuf\<close>).
\<close>

section \<open>State\<close>

record SJ3_CLIENT_ENV =
  ce_fd :: u32
  stdy_size :: u32
  svr_version :: u32
  cli_version :: u32
  default_char :: "u8 list"

record cli =
  c_putbuf :: "u8 list"
  c_getbuf :: "u8 list"
  c_getpos :: nat
  ReadErrorFlag :: bool
  server_fd :: u32
  sj3_error_number :: u32
  cliptr :: SJ3_CLIENT_ENV
  c_sent :: "u8 list"
  c_wq :: "int list"
  c_rq :: "rd_ans list"

definition server_down :: "cli \<Rightarrow> cli" where
  "server_down s = s\<lparr>cliptr := (cliptr s)\<lparr>ce_fd := - 1\<rparr>, server_fd := - 1,
     sj3_error_number := SJ3_ServerDown\<rparr>"

section \<open>Output\<close>

function put_flush_loop :: "u8 list \<Rightarrow> cli \<Rightarrow> u32 \<times> cli" where
  "put_flush_loop p s =
     (if p = [] then (0, s\<lparr>c_putbuf := []\<rparr>)
      else let (j, ws) = sys_write (length p) (c_wq s); s = s\<lparr>c_wq := ws\<rparr> in
        if j \<le> 0 then (ERROR, server_down s)
        else put_flush_loop (drop (nat j) p) (s\<lparr>c_sent := c_sent s @ take (nat j) p\<rparr>))"
  by pat_completeness auto
termination
  by (relation "measure (\<lambda>(p, s). length p)") auto

declare put_flush_loop.simps [simp del]

definition put_flush :: "cli \<Rightarrow> u32 \<times> cli" where
  "put_flush s = put_flush_loop (c_putbuf s) s"

definition put_byte :: "u32 \<Rightarrow> cli \<Rightarrow> cli option" where
  "put_byte c s = (if length (c_putbuf s) < BUFSIZ then Some (s\<lparr>c_putbuf := c_putbuf s @ [ucast c]\<rparr>) else None)"

definition put_word :: "u32 \<Rightarrow> cli \<Rightarrow> cli option" where
  "put_word c s = do { s \<leftarrow> put_byte (drop_bit 8 c) s; put_byte (c AND 0xff) s }"

definition put_int :: "u32 \<Rightarrow> cli \<Rightarrow> cli option" where
  "put_int c s = do {
     s \<leftarrow> put_byte (drop_bit (8 * 3) c) s;
     s \<leftarrow> put_byte (drop_bit (8 * 2) c) s;
     s \<leftarrow> put_byte (drop_bit (8 * 1) c) s;
     put_byte c s }"

definition put_cmd :: "u32 \<Rightarrow> cli \<Rightarrow> cli option" where
  "put_cmd cmd s = put_int cmd (s\<lparr>ReadErrorFlag := False, c_putbuf := [], c_getbuf := []\<rparr>)"

text \<open>
  \<^verbatim>\<open>put_ndata\<close>, which is also \<^verbatim>\<open>put_string\<close>. A null pointer gives zero bytes; the
  result is the advanced pointer.
\<close>

fun put_ndata_loop :: "cbuf option \<Rightarrow> nat \<Rightarrow> cli \<Rightarrow> (cbuf option \<times> cli) option" where
  "put_ndata_loop p 0 s = Some (p, s)"
| "put_ndata_loop None (Suc n) s = do { s \<leftarrow> put_byte 0 s; put_ndata_loop None n s }"
| "put_ndata_loop (Some p) (Suc n) s = do {
     c \<leftarrow> rd p 0;
     s \<leftarrow> put_byte (ucast c) s;
     put_ndata_loop (Some (drop 1 p)) n s }"

definition put_ndata :: "cbuf option \<Rightarrow> int \<Rightarrow> cli \<Rightarrow> (cbuf option \<times> cli) option" where
  "put_ndata p n s = put_ndata_loop p (nat n) s"

abbreviation put_string :: "cbuf option \<Rightarrow> int \<Rightarrow> cli \<Rightarrow> (cbuf option \<times> cli) option" where
  "put_string \<equiv> put_ndata"

text \<open>
  The loop of \<^verbatim>\<open>put_over\<close> over a datum that does not fit, and the loop over the data.
\<close>

function put_over_big :: "cbuf option \<Rightarrow> int \<Rightarrow> int \<Rightarrow> cli \<Rightarrow> (u32 \<times> int \<times> cli) option" where
  "put_over_big p len buflen s =
     (if len > 0 then do {
        (p, s) \<leftarrow> put_ndata p (if len < buflen then len else buflen) s;
        (let (r, s) = put_flush s in
         if r = ERROR then Some (ERROR, buflen, s)
         else put_over_big p (len - buflen) (int BUFSIZ) s) }
      else Some (0, buflen, s))"
  by pat_completeness auto
termination
  by (relation "measures [\<lambda>(p, len, buflen, s). if buflen = int BUFSIZ then 0 else 1,
        \<lambda>(p, len, buflen, s). nat len]") (auto simp: BUFSIZ_def)

declare put_over_big.simps [simp del]

fun put_over_args :: "int \<Rightarrow> (cbuf option \<times> int) list \<Rightarrow> cli \<Rightarrow> (u32 \<times> int \<times> cli) option" where
  "put_over_args buflen [] s = Some (0, buflen, s)"
| "put_over_args buflen ((p, len) # as) s =
     (if len < buflen then do {
        (p, s) \<leftarrow> put_ndata p len s;
        put_over_args (buflen - len) as s }
      else do {
        (r, buflen, s) \<leftarrow> put_over_big p len buflen s;
        if r = ERROR then Some (ERROR, buflen, s) else put_over_args buflen as s })"

definition put_over :: "int \<Rightarrow> (cbuf option \<times> int) list \<Rightarrow> cli \<Rightarrow> (u32 \<times> cli) option" where
  "put_over buflen as s = do {
     (r, buflen, s) \<leftarrow> put_over_args buflen as s;
     if r = ERROR then Some (ERROR, s)
     else if buflen \<noteq> int BUFSIZ then
       (let (r, s) = put_flush s in if r = ERROR then Some (ERROR, s) else Some (0, s))
     else Some (0, s) }"

section \<open>Input\<close>

definition get_buffer :: "cli \<Rightarrow> u32 \<times> cli" where
  "get_buffer s =
     (if ReadErrorFlag s then (ERROR, s)
      else let (a, q) = sys_read BUFSIZ (c_rq s);
               s = s\<lparr>c_getpos := 0, c_getbuf := [], c_rq := q\<rparr> in
        (case a of
           Chunk (b # bs) \<Rightarrow> (of_nat (length (b # bs)), s\<lparr>c_getbuf := b # bs\<rparr>)
         | _ \<Rightarrow> (ERROR, server_down s)))"

definition get_byte :: "cli \<Rightarrow> u32 \<times> cli" where
  "get_byte s =
     (if c_getpos s \<ge> length (c_getbuf s) then
        (let (r, s) = get_buffer s in
         if r = ERROR then (0, s\<lparr>ReadErrorFlag := True\<rparr>)
         else (ucast (c_getbuf s ! c_getpos s), s\<lparr>c_getpos := c_getpos s + 1\<rparr>))
      else (ucast (c_getbuf s ! c_getpos s), s\<lparr>c_getpos := c_getpos s + 1\<rparr>))"

definition get_word :: "cli \<Rightarrow> u32 \<times> cli" where
  "get_word s =
     (let (i, s) = get_byte s; (j, s) = get_byte s in (push_bit 8 i OR j, s))"

definition get_int :: "cli \<Rightarrow> u32 \<times> cli" where
  "get_int s =
     (let (i0, s) = get_byte s; (i1, s) = get_byte s; (i2, s) = get_byte s; (i3, s) = get_byte s in
      (push_bit (8 * 3) i0 OR push_bit (8 * 2) i1 OR push_bit (8 * 1) i2 OR i3, s))"

text \<open>
  What is left to read bounds the loops that read up to a NUL: every byte that is not
  zero has been taken from it, and after an error every byte is zero.
\<close>

definition unread :: "cli \<Rightarrow> nat" where
  "unread s = (length (c_getbuf s) - c_getpos s) + script_size (c_rq s)"

lemma get_buffer_cases:
  obtains (flag) "ReadErrorFlag s" "get_buffer s = (ERROR, s)"
  | (data) b bs q where "\<not> ReadErrorFlag s" "sys_read BUFSIZ (c_rq s) = (Chunk (b # bs), q)"
      "get_buffer s = (of_nat (length (b # bs)), s\<lparr>c_getpos := 0, c_rq := q, c_getbuf := b # bs\<rparr>)"
      "of_nat (length (b # bs)) \<noteq> ERROR"
  | (down) a q where "\<not> ReadErrorFlag s" "sys_read BUFSIZ (c_rq s) = (a, q)" "\<forall>b bs. a \<noteq> Chunk (b # bs)"
      "get_buffer s = (ERROR, server_down (s\<lparr>c_getpos := 0, c_getbuf := [], c_rq := q\<rparr>))"
proof (cases "ReadErrorFlag s")
  case True
  then show ?thesis using flag by (simp add: get_buffer_def)
next
  case nf: False
  obtain a q where aq: "sys_read BUFSIZ (c_rq s) = (a, q)" by fastforce
  show ?thesis
  proof (cases "\<exists>b bs. a = Chunk (b # bs)")
    case True
    then obtain b bs where a: "a = Chunk (b # bs)" by blast
    have "length (b # bs) \<le> 8192" using sys_read_Chunk(2) [of BUFSIZ "c_rq s" b bs q] aq a by (simp add: BUFSIZ_def)
    then have "unat (of_nat (length (b # bs)) :: u32) = length (b # bs)"
      by (simp add: unat_of_nat del: of_nat_Suc length_Cons)
    moreover have "unat ERROR = 4294967295" by (simp add: unsigned_minus_1_eq_mask mask_eq_exp_minus_1)
    ultimately have "of_nat (length (b # bs)) \<noteq> ERROR"
      using \<open>length (b # bs) \<le> 8192\<close> by (auto simp del: length_Cons of_nat_Suc)
    with nf aq a show ?thesis by (intro data) (simp_all add: get_buffer_def)
  next
    case False
    then show ?thesis using nf aq down by (auto simp: get_buffer_def Let_def split: rd_ans.splits list.splits)
  qed
qed

lemma unread_server_down [simp]: "unread (server_down s) = unread s"
  by (simp add: unread_def server_down_def)

lemma get_byte_unread: "get_byte s = (c, s') \<Longrightarrow> unread s' \<le> unread s \<and> (c \<noteq> 0 \<longrightarrow> unread s' < unread s)"
proof (cases "c_getpos s \<ge> length (c_getbuf s)")
  case True
  assume g: "get_byte s = (c, s')"
  show ?thesis
  proof (cases rule: get_buffer_cases [of s])
    case flag
    then show ?thesis using True g by (auto simp: get_byte_def unread_def)
  next
    case (data b bs q)
    then show ?thesis using True g sys_read_Chunk(1) [OF data(2)] by (auto simp: get_byte_def unread_def)
  next
    case (down a q)
    then show ?thesis using True g sys_read_size [OF down(2)]
      by (auto simp: get_byte_def unread_def server_down_def)
  qed
qed (auto simp: get_byte_def unread_def)

lemma get_byte_measure:
  "(case get_byte s of (c, s') \<Rightarrow> 2 * unread s' + (if c \<noteq> 0 then 1 else 0)) < Suc (2 * unread s)"
  using get_byte_unread [of s] by (cases "get_byte s") auto

text \<open>
  \<^verbatim>\<open>get_string\<close> and \<^verbatim>\<open>get_ndata\<close> write through a pointer: an object and an offset.
\<close>

function get_string :: "cbuf \<Rightarrow> nat \<Rightarrow> cli \<Rightarrow> (cbuf \<times> nat \<times> cli) option" where
  "get_string p i s =
     (let (c, s') = get_byte s in do {
        p \<leftarrow> wr p i (ucast c);
        if c \<noteq> 0 then get_string p (i + 1) s' else Some (p, i + 1, s') })"
  by pat_completeness auto
termination
  by (relation "measure (\<lambda>(p, i, s). unread s)") (auto dest: get_byte_unread [OF sym])

function get_nstring_loop :: "cbuf \<Rightarrow> nat \<Rightarrow> int \<Rightarrow> u32 \<Rightarrow> cli \<Rightarrow> (cbuf \<times> nat \<times> int \<times> cli) option" where
  "get_nstring_loop p i n c s =
     (if c \<noteq> 0 then
        (if n > 1 then do {
           p \<leftarrow> wr p i (ucast c);
           (let (c', s') = get_byte s in get_nstring_loop p (i + 1) (n - 1) c' s') }
         else (let (c', s') = get_byte s in get_nstring_loop p i n c' s'))
      else Some (p, i, n, s))"
  by pat_completeness auto
termination
  by (relation "measure (\<lambda>(p, i, n, c, s). 2 * unread s + (if c \<noteq> 0 then 1 else 0))")
    (auto intro: get_byte_measure)

definition get_nstring :: "cbuf \<Rightarrow> nat \<Rightarrow> int \<Rightarrow> cli \<Rightarrow> (int \<times> cbuf \<times> cli) option" where
  "get_nstring p i n s =
     (let (c, s) = get_byte s in do {
        (p, i, n, s) \<leftarrow> get_nstring_loop p i n c s;
        p \<leftarrow> (if n > 0 then wr p i 0 else Some p);
        Some (n, p, s) })"

fun get_ndata :: "cbuf \<Rightarrow> nat \<Rightarrow> nat \<Rightarrow> cli \<Rightarrow> (cbuf \<times> nat \<times> cli) option" where
  "get_ndata p i 0 s = Some (p, i, s)"
| "get_ndata p i (Suc n) s =
     (let (c, s) = get_byte s in do { p \<leftarrow> wr p i (ucast c); get_ndata p (i + 1) n s })"

function skip_string :: "cli \<Rightarrow> cli" where
  "skip_string s = (let (c, s') = get_byte s in if c \<noteq> 0 then skip_string s' else s')"
  by pat_completeness auto
termination
  by (relation "measure unread") (auto dest: get_byte_unread [OF sym])

fun skip_ndata :: "nat \<Rightarrow> cli \<Rightarrow> cli" where
  "skip_ndata 0 s = s"
| "skip_ndata (Suc n) s = skip_ndata n (snd (get_byte s))"

declare get_string.simps [simp del] get_nstring_loop.simps [simp del] skip_string.simps [simp del]

lemma get_byte_unread_le: "unread (snd (get_byte s)) \<le> unread s"
  using get_byte_unread [of s] by (cases "get_byte s") auto

lemma skip_string_unread: "unread (skip_string s) \<le> unread s"
proof (induction s rule: skip_string.induct)
  case (1 s)
  then show ?case
    using get_byte_unread [of s] by (subst skip_string.simps) (fastforce split: prod.splits)
qed

lemma skip_ndata_unread: "unread (skip_ndata n s) \<le> unread s"
  by (induction n arbitrary: s) (auto intro: order_trans [OF _ get_byte_unread_le])

lemma get_ndata_unread: "get_ndata p i n s = Some (p', i', s') \<Longrightarrow> unread s' \<le> unread s"
proof (induction n arbitrary: p i s)
  case (Suc n)
  then show ?case using get_byte_unread [of s]
    by (auto split: prod.splits bind_splits) (meson order_trans less_imp_le)+
qed simp

section \<open>Connection\<close>

text \<open>
  The answers of the system to an attempt to connect: \<open>None\<close> for a failing
  \<^verbatim>\<open>getaddrinfo\<close>, and for each address whether \<^verbatim>\<open>socket\<close> and \<^verbatim>\<open>connect\<close>
  succeed and with which descriptor.
\<close>

datatype attempt = SocketFails | ConnectFails | Connects u32

record conn_os =
  os_unix :: attempt
  os_inet :: "attempt list option"
  os_hostname :: cbuf

definition open_unix :: "attempt \<Rightarrow> cli \<Rightarrow> u32 \<times> cli" where
  "open_unix a s = (case a of
     SocketFails \<Rightarrow> (ERROR, s\<lparr>sj3_error_number := SJ3_OpenSocket\<rparr>)
   | ConnectFails \<Rightarrow> (ERROR, s\<lparr>sj3_error_number := SJ3_ConnectSocket\<rparr>)
   | Connects fd \<Rightarrow> (fd, s))"

fun open_inet_loop :: "attempt list \<Rightarrow> u32 \<Rightarrow> u32 \<Rightarrow> u32 \<times> u32" where
  "open_inet_loop [] fd r = (fd, r)"
| "open_inet_loop (SocketFails # as) fd r = open_inet_loop as (- 1) SJ3_OpenSocket"
| "open_inet_loop (ConnectFails # as) fd r = open_inet_loop as (- 1) SJ3_ConnectSocket"
| "open_inet_loop (Connects fd' # as) fd r = (fd', r)"

definition open_inet :: "attempt list option \<Rightarrow> cli \<Rightarrow> u32 \<times> cli" where
  "open_inet res0 s = (case res0 of
     None \<Rightarrow> (ERROR, s\<lparr>sj3_error_number := SJ3_GetHostByName\<rparr>)
   | Some as \<Rightarrow>
       (let (fd, r) = open_inet_loop as (- 1) 0 in if sint fd < 0 then (r, s) else (fd, s)))"

text \<open>
  The macro \<^verbatim>\<open>client_init\<close>; \<open>err\<close> is what the function returns on it.
\<close>

definition client_init :: "'a \<Rightarrow> (cli \<Rightarrow> ('a \<times> cli) option) \<Rightarrow> cli \<Rightarrow> ('a \<times> cli) option" where
  "client_init err body s =
     (let s = s\<lparr>server_fd := ce_fd (cliptr s)\<rparr> in
      if server_fd s = - 1 then Some (err, s\<lparr>sj3_error_number := SJ3_NotOpened\<rparr>) else body s)"

text \<open>
  \<^verbatim>\<open>if (put_flush() == ERROR) return ERROR;\<close> before the rest of the function.
\<close>

definition flushed :: "'a \<Rightarrow> (cli \<Rightarrow> ('a \<times> cli) option) \<Rightarrow> cli \<Rightarrow> ('a \<times> cli) option" where
  "flushed err body s = (let (r, s) = put_flush s in if r = ERROR then Some (err, s) else body s)"

definition put_overed :: "'a \<Rightarrow> int \<Rightarrow> (cbuf option \<times> int) list \<Rightarrow> (cli \<Rightarrow> ('a \<times> cli) option) \<Rightarrow> cli \<Rightarrow> ('a \<times> cli) option" where
  "put_overed err buflen as body s = do {
     (r, s) \<leftarrow> put_over buflen as s;
     if r = ERROR then Some (err, s) else body s }"

text \<open>
  \<^verbatim>\<open>if (sj3_error_number = get_int()) return ERROR;\<close> and
  \<^verbatim>\<open>return ReadErrorFlag ? ERROR : result\<close>.
\<close>

definition get_status :: "'a \<Rightarrow> (cli \<Rightarrow> ('a \<times> cli) option) \<Rightarrow> cli \<Rightarrow> ('a \<times> cli) option" where
  "get_status err body s =
     (let (n, s) = get_int s; s = s\<lparr>sj3_error_number := n\<rparr> in if n \<noteq> 0 then Some (err, s) else body s)"

definition read_result :: "u32 \<Rightarrow> cli \<Rightarrow> (u32 \<times> cli) option" where
  "read_result r s = Some (if ReadErrorFlag s then ERROR else r, s)"

definition cmd_only :: "u32 \<Rightarrow> (cli \<Rightarrow> (u32 \<times> cli) option) \<Rightarrow> cli \<Rightarrow> (u32 \<times> cli) option" where
  "cmd_only cmd body s = do { s \<leftarrow> put_cmd cmd s; flushed ERROR body s }"

definition INTLEN :: int where "INTLEN = 4"
definition CMDLEN :: int where "CMDLEN = 4"

definition sj3_erase_connection :: "cli \<Rightarrow> (u32 \<times> cli) option" where
  "sj3_erase_connection = client_init ERROR (cmd_only SJ3_DISCONNECT (\<lambda>s.
     let (n, s) = get_int s;
         s = s\<lparr>sj3_error_number := n, cliptr := (cliptr s)\<lparr>ce_fd := - 1\<rparr>\<rparr> in
     Some (if ReadErrorFlag s then ERROR else if n \<noteq> 0 then ERROR else 0, s)))"

text \<open>
  The \<^verbatim>\<open>SJ3_CONNECT\<close> request with the three strings, sent once or, to a server of
  another version, twice.
\<close>

definition send_connect :: "u32 \<Rightarrow> (cbuf \<times> nat) \<Rightarrow> (cbuf \<times> nat) \<Rightarrow> (cbuf \<times> nat) \<Rightarrow> (cli \<Rightarrow> (u32 \<times> cli) option) \<Rightarrow> cli \<Rightarrow> (u32 \<times> cli) option" where
  "send_connect version host user prog body s =
     (let hostlen = int (snd host); userlen = int (snd user); proglen = int (snd prog);
          datalen = hostlen + userlen + proglen; buflen = int BUFSIZ - CMDLEN - INTLEN in do {
      s \<leftarrow> put_cmd SJ3_CONNECT s;
      s \<leftarrow> put_int version s;
      if datalen \<le> buflen then do {
        (_, s) \<leftarrow> put_string (Some (fst host)) hostlen s;
        (_, s) \<leftarrow> put_string (Some (fst user)) userlen s;
        (_, s) \<leftarrow> put_string (Some (fst prog)) proglen s;
        flushed ERROR body s }
      else put_overed ERROR buflen
             [(Some (fst host), hostlen), (Some (fst user), userlen), (Some (fst prog), proglen)] body s })"

definition connect_failed :: "u32 \<Rightarrow> cli \<Rightarrow> (u32 \<times> cli) option" where
  "connect_failed tmp s = do {
     (_, s) \<leftarrow> sj3_erase_connection s;
     Some (ERROR, s\<lparr>sj3_error_number := tmp\<rparr>) }"

definition connect_finish :: "u32 \<Rightarrow> cli \<Rightarrow> (u32 \<times> cli) option" where
  "connect_finish tmp s =
     (let s = s\<lparr>cliptr := (cliptr s)\<lparr>svr_version := (if tmp \<noteq> 0 then - tmp else 1),
                  cli_version := SJ3SERV_VERSION_NO, default_char := [0x81, 0x40]\<rparr>,
                sj3_error_number := 0\<rparr> in
      if ReadErrorFlag s then Some (ERROR, s)
      else cmd_only SJ3_STDYSIZE (\<lambda>s.
        let (tmp, s) = get_int s in
        if tmp \<noteq> 0 then connect_failed tmp s
        else let (n, s) = get_int s;
                 s = s\<lparr>cliptr := (cliptr s)\<lparr>stdy_size := n, ce_fd := server_fd s\<rparr>\<rparr> in
             read_result 0 s) s)"

definition af_unix_str :: cbuf where "af_unix_str = [0x75, 0x6e, 0x69, 0x78, 0]"

definition cstr :: "cbuf \<Rightarrow> (cbuf \<times> nat) option" where
  "cstr p = do { n \<leftarrow> strlen p; Some (p, n + 1) }"

definition sj3_make_connection :: "conn_os \<Rightarrow> cbuf option \<Rightarrow> cbuf \<Rightarrow> cbuf \<Rightarrow> cli \<Rightarrow> (u32 \<times> cli) option" where
  "sj3_make_connection os serv user prog s =
     (let s = s\<lparr>cliptr := (cliptr s)\<lparr>ce_fd := - 1\<rparr>\<rparr> in do {
      is_unix \<leftarrow> (case serv of None \<Rightarrow> Some True
                  | Some p \<Rightarrow> do { n \<leftarrow> strlen p; Some (n = 0 \<or> take (n + 1) p = af_unix_str) });
      (let (fd, s) = (if is_unix then open_unix (os_unix os) s else open_inet (os_inet os) s);
           s = s\<lparr>server_fd := fd\<rparr>;
           host = (if is_unix then af_unix_str else os_hostname os) in
       if fd = ERROR then Some (ERROR, s)
       else client_init ERROR (\<lambda>s. do {
         host \<leftarrow> cstr host;
         user \<leftarrow> cstr user;
         prog \<leftarrow> cstr prog;
         send_connect SJ3SERV_VERSION_NO host user prog (\<lambda>s.
           let (tmp, s) = get_int s in
           if tmp = SJ3_DifferentVersion then
             (if ReadErrorFlag s then Some (ERROR, s)
              else send_connect 1 host user prog (\<lambda>s.
                let (tmp, s) = get_int s in
                if tmp \<noteq> 0 then connect_failed tmp s else connect_finish tmp s) s)
           else if tmp \<noteq> 0 \<and> - 2 < sint tmp then connect_failed tmp s
           else connect_finish tmp s) s })
         (s\<lparr>cliptr := (cliptr s)\<lparr>ce_fd := fd\<rparr>\<rparr>)) })"

section \<open>Dictionaries, study files, locks\<close>

definition sj3_open_dictionary :: "cbuf \<Rightarrow> cbuf option \<Rightarrow> cli \<Rightarrow> (u32 \<times> cli) option" where
  "sj3_open_dictionary dictname password = client_init ERROR (\<lambda>s. do {
     n \<leftarrow> strlen dictname;
     m \<leftarrow> (case password of None \<Rightarrow> Some 0 | Some p \<Rightarrow> strlen p);
     let dictlen = int n + 1;
     let passlen = int m + 1;
     let datalen = dictlen + passlen;
     let buflen = int BUFSIZ - CMDLEN;
     let rest = get_status 0 (\<lambda>s. let (res, s) = get_int s in read_result res s);
     s \<leftarrow> put_cmd SJ3_OPENDICT s;
     if datalen < buflen then do {
       (_, s) \<leftarrow> put_string (Some dictname) dictlen s;
       (_, s) \<leftarrow> put_string password passlen s;
       flushed ERROR rest s }
     else put_overed ERROR buflen [(Some dictname, dictlen), (password, passlen)] rest s })"

definition sj3_close_dictionary :: "u32 \<Rightarrow> cli \<Rightarrow> (u32 \<times> cli) option" where
  "sj3_close_dictionary dicid = client_init ERROR (\<lambda>s. do {
     s \<leftarrow> put_cmd SJ3_CLOSEDICT s;
     s \<leftarrow> put_int dicid s;
     flushed ERROR (get_status ERROR (read_result 0)) s })"

definition sj3_open_study_file :: "cbuf \<Rightarrow> cbuf \<Rightarrow> cli \<Rightarrow> (u32 \<times> cli) option" where
  "sj3_open_study_file stdyname password = client_init ERROR (\<lambda>s. do {
     n \<leftarrow> strlen stdyname;
     m \<leftarrow> strlen password;
     let stdylen = int n + 1;
     let passlen = int m + 1;
     let datalen = stdylen + passlen;
     let buflen = int BUFSIZ - CMDLEN;
     let rest = get_status ERROR (read_result 0);
     s \<leftarrow> put_cmd SJ3_OPENSTDY s;
     if datalen < buflen then do {
       (_, s) \<leftarrow> put_string (Some stdyname) stdylen s;
       (_, s) \<leftarrow> put_string (Some password) passlen s;
       flushed ERROR rest s }
     else put_overed ERROR buflen [(Some stdyname, stdylen), (Some password, passlen)] rest s })"

definition sj3_close_study_file :: "cli \<Rightarrow> (u32 \<times> cli) option" where
  "sj3_close_study_file = client_init ERROR (cmd_only SJ3_CLOSESTDY (get_status ERROR (read_result 0)))"

definition sj3_get_id_size :: "cli \<Rightarrow> (u32 \<times> cli) option" where
  "sj3_get_id_size = client_init ERROR (cmd_only SJ3_STDYSIZE (get_status ERROR (\<lambda>s.
     let (n, s) = get_int s in read_result n (s\<lparr>cliptr := (cliptr s)\<lparr>stdy_size := n\<rparr>\<rparr>))))"

definition sj3_lock_server :: "cli \<Rightarrow> (u32 \<times> cli) option" where
  "sj3_lock_server = client_init ERROR (cmd_only SJ3_LOCK (get_status ERROR (read_result 0)))"

definition sj3_unlock_server :: "cli \<Rightarrow> (u32 \<times> cli) option" where
  "sj3_unlock_server = client_init ERROR (cmd_only SJ3_UNLOCK (get_status ERROR (read_result 0)))"

section \<open>Conversion\<close>

text \<open>
  The loops of \<^verbatim>\<open>sj3_ikkatu_henkan\<close>. \<open>ikkatu_error2\<close> is the code from the label
  \<^verbatim>\<open>error2\<close> on; the inner loop returns whether it ended normally.
\<close>

function ikkatu_error2 :: "nat \<Rightarrow> cli \<Rightarrow> cli" where
  "ikkatu_error2 stysiz s =
     (let (c, s') = get_byte (skip_string s) in
      if c \<noteq> 0 then ikkatu_error2 stysiz (skip_ndata stysiz s') else s')"
  by pat_completeness auto
termination
proof (relation "measure (\<lambda>(n, s). unread s)", goal_cases)
  case (2 stysiz s x c s')
  then have "unread s' < unread (skip_string s)" using get_byte_unread by metis
  then show ?case
    using skip_string_unread [of s] skip_ndata_unread [of stysiz s'] by simp
qed simp

declare ikkatu_error2.simps [simp del]

definition ikkatu_error1 :: "nat \<Rightarrow> cli \<Rightarrow> cli" where
  "ikkatu_error1 stysiz s = ikkatu_error2 stysiz (skip_ndata stysiz s)"

function ikkatu_inner :: "cbuf \<Rightarrow> nat \<Rightarrow> int \<Rightarrow> cli \<Rightarrow> (bool \<times> cbuf \<times> nat \<times> int \<times> cli) option" where
  "ikkatu_inner dst i dstsiz s =
     (let (c, s') = get_byte s in
      if c \<noteq> 0 then
        (if dstsiz < 3 then Some (False, dst, i, dstsiz - 1, s')
         else do { dst \<leftarrow> wr dst i (ucast c); ikkatu_inner dst (i + 1) (dstsiz - 1) s' })
      else Some (True, dst, i, dstsiz, s'))"
  by pat_completeness auto
termination
  by (relation "measure (\<lambda>(dst, i, n, s). unread s)") (auto dest: get_byte_unread [OF sym])

declare ikkatu_inner.simps [simp del]

lemma ikkatu_inner_unread:
  "ikkatu_inner dst i n s = Some (b, dst', i', n', s') \<Longrightarrow> unread s' \<le> unread s"
proof (induction dst i n s rule: ikkatu_inner.induct)
  case (1 dst i n s)
  obtain c s1 where g: "get_byte s = (c, s1)" by fastforce
  show ?case
    using "1.prems" "1.IH" [OF g [symmetric] refl] g get_byte_unread [OF g]
    by (subst (asm) ikkatu_inner.simps) (auto split: if_splits bind_splits)
qed

function ikkatu_loop :: "int \<Rightarrow> cbuf \<Rightarrow> nat \<Rightarrow> int \<Rightarrow> u32 \<Rightarrow> cli \<Rightarrow> ((u32 \<times> cbuf) \<times> cli) option" where
  "ikkatu_loop stysiz dst i dstsiz result s =
     (let (c, s1) = get_byte s in
      if c \<noteq> 0 then
        (if dstsiz < 1 + stysiz + 1 + 1 then
           (let s = ikkatu_error1 (nat stysiz) s1 in do {
              dst \<leftarrow> wr dst i 0;
              Some ((if ReadErrorFlag s then ERROR else result, dst), s) })
         else do {
           dst1 \<leftarrow> wr dst i (ucast c);
           (dst2, j, s2) \<leftarrow> get_ndata dst1 (i + 1) (nat stysiz) s1;
           (ok, dst3, j, siz, s3) \<leftarrow> ikkatu_inner dst2 j (dstsiz - (stysiz + 1)) s2;
           if ok then do {
             dst4 \<leftarrow> wr dst3 j 0;
             ikkatu_loop stysiz dst4 (j + 1) (siz - 1) (result + c) s3 }
           else (let s = ikkatu_error2 (nat stysiz) s3 in do {
             dst4 \<leftarrow> wr dst3 i 0;
             Some ((if ReadErrorFlag s then ERROR else result, dst4), s) }) })
      else do {
        dst \<leftarrow> wr dst i 0;
        Some ((if ReadErrorFlag s1 then ERROR else result, dst), s1) })"
  by pat_completeness auto
termination
proof (relation "measure (\<lambda>(n, dst, i, siz, r, s). unread s)", goal_cases)
  case (2 stysiz dst i dstsiz result s x c s1 dst1 t2 dst2 t3 j2 s2 t4 ok t5 dst3 t6 j3 t7 siz s3 dst4)
  have "unread s1 < unread s" using 2(1,2,3) get_byte_unread by metis
  moreover have "unread s2 \<le> unread s1" using 2 get_ndata_unread by blast
  moreover have "unread s3 \<le> unread s2" using 2 ikkatu_inner_unread by blast
  ultimately show ?case by simp
qed simp

declare ikkatu_loop.simps [simp del]

text \<open>The result carries the object \<^verbatim>\<open>dst\<close> points to, as the call leaves it.\<close>

definition sj3_ikkatu_henkan :: "cbuf \<Rightarrow> cbuf \<Rightarrow> int \<Rightarrow> u32 \<Rightarrow> cli \<Rightarrow> ((u32 \<times> cbuf) \<times> cli) option" where
  "sj3_ikkatu_henkan src dst dstsiz mb_flag = client_init (ERROR, dst) (\<lambda>s. do {
     n \<leftarrow> strlen src;
     let srclen = int n + 1;
     let buflen = int BUFSIZ - CMDLEN;
     let rest = get_status (ERROR, dst) (\<lambda>s.
       let (_, s) = get_int s in ikkatu_loop (sint (stdy_size (cliptr s))) dst 0 dstsiz 0 s);
     s \<leftarrow> put_cmd (if mb_flag = MBCODE_SJIS then SJ3_PH2KNJ else SJ3_PH2KNJ_EUC) s;
     if srclen < buflen then do {
       (_, s) \<leftarrow> put_string (Some src) srclen s;
       flushed (ERROR, dst) rest s }
     else put_overed (ERROR, dst) buflen [(Some src, srclen)] rest s })"

text \<open>
  The request of the four functions that convert one clause: the command, the length
  and the reading.
\<close>

definition send_yomi :: "'a \<Rightarrow> u32 \<Rightarrow> cbuf \<Rightarrow> u32 \<Rightarrow> (cli \<Rightarrow> ('a \<times> cli) option) \<Rightarrow> cli \<Rightarrow> ('a \<times> cli) option" where
  "send_yomi err cmd yomi len rest s = do {
     let buflen = int BUFSIZ - CMDLEN - INTLEN;
     s \<leftarrow> put_cmd cmd s;
     s \<leftarrow> put_int len s;
     if sint len + 1 \<le> buflen then do {
       (_, s) \<leftarrow> put_ndata (Some yomi) (sint len) s;
       s \<leftarrow> put_byte 0 s;
       flushed err rest s }
     else put_overed err buflen [(Some yomi, sint len), (None, 1)] rest s }"

text \<open>
  The reply of a single candidate: the result, the study record and the string, read
  into \<open>kanji\<close>.
\<close>

definition get_candidate :: "cbuf \<Rightarrow> cli \<Rightarrow> ((u32 \<times> cbuf) \<times> cli) option" where
  "get_candidate kanji = get_status (ERROR, kanji) (\<lambda>s.
     let (result, s) = get_int s in do {
       (kanji, i, s) \<leftarrow> get_ndata kanji 0 (nat (sint (stdy_size (cliptr s)))) s;
       (kanji, _, s) \<leftarrow> get_string kanji i s;
       Some ((if ReadErrorFlag s then ERROR else result, kanji), s) })"

definition sj3_bunsetu_henkan :: "cbuf \<Rightarrow> u32 \<Rightarrow> cbuf \<Rightarrow> u32 \<Rightarrow> cli \<Rightarrow> ((u32 \<times> cbuf) \<times> cli) option" where
  "sj3_bunsetu_henkan yomi len kanji mb_flag = client_init (ERROR, kanji)
     (send_yomi (ERROR, kanji) (if mb_flag = MBCODE_SJIS then SJ3_CL2KNJ else SJ3_CL2KNJ_EUC) yomi len (get_candidate kanji))"

definition sj3_bunsetu_jikouho :: "cbuf \<Rightarrow> u32 \<Rightarrow> u32 \<Rightarrow> cli \<Rightarrow> ((u32 \<times> cbuf) \<times> cli) option" where
  "sj3_bunsetu_jikouho kanji mode mb_flag = client_init (ERROR, kanji) (\<lambda>s. do {
     s \<leftarrow> put_cmd (if mb_flag = MBCODE_SJIS then SJ3_NEXTCL else SJ3_NEXTCL_EUC) s;
     s \<leftarrow> put_int mode s;
     flushed (ERROR, kanji) (get_candidate kanji) s })"

definition sj3_bunsetu_maekouho :: "cbuf \<Rightarrow> u32 \<Rightarrow> u32 \<Rightarrow> cli \<Rightarrow> ((u32 \<times> cbuf) \<times> cli) option" where
  "sj3_bunsetu_maekouho kanji mode mb_flag = client_init (ERROR, kanji) (\<lambda>s. do {
     s \<leftarrow> put_cmd (if mb_flag = MBCODE_SJIS then SJ3_PREVCL else SJ3_PREVCL_EUC) s;
     s \<leftarrow> put_int mode s;
     flushed (ERROR, kanji) (get_candidate kanji) s })"

definition sj3_bunsetu_kouhosuu :: "cbuf \<Rightarrow> u32 \<Rightarrow> u32 \<Rightarrow> cli \<Rightarrow> (u32 \<times> cli) option" where
  "sj3_bunsetu_kouhosuu yomi len mb_flag = client_init ERROR
     (send_yomi ERROR (if mb_flag = MBCODE_SJIS then SJ3_CL2KNJ_CNT else SJ3_CL2KNJ_CNT_EUC) yomi len (get_status ERROR (\<lambda>s.
        let (result, s) = get_int s in read_result result s)))"

record SJ3_DOUON =
  ddata :: cbuf
  dlen :: nat
  dcid :: cbuf

lemma get_int_unread: "get_int s = (n, s') \<Longrightarrow> unread s' \<le> unread s \<and> (n \<noteq> 0 \<longrightarrow> unread s' < unread s)"
proof -
  assume g: "get_int s = (n, s')"
  obtain a s1 where 1: "get_byte s = (a, s1)" by fastforce
  obtain b s2 where 2: "get_byte s1 = (b, s2)" by fastforce
  obtain c s3 where 3: "get_byte s2 = (c, s3)" by fastforce
  obtain d s4 where 4: "get_byte s3 = (d, s4)" by fastforce
  have "s' = s4" "n \<noteq> 0 \<longrightarrow> a \<noteq> 0 \<or> b \<noteq> 0 \<or> c \<noteq> 0 \<or> d \<noteq> 0"
    using g 1 2 3 4 by (auto simp: get_int_def)
  then show ?thesis
    using get_byte_unread [OF 1] get_byte_unread [OF 2] get_byte_unread [OF 3] get_byte_unread [OF 4] by auto
qed

lemma get_string_unread: "get_string p i s = Some (p', i', s') \<Longrightarrow> unread s' \<le> unread s"
proof (induction p i s rule: get_string.induct)
  case (1 p i s)
  obtain c s1 where g: "get_byte s = (c, s1)" by fastforce
  show ?case
    using "1.prems" "1.IH" [OF g [symmetric] refl] g get_byte_unread [OF g]
    by (subst (asm) get_string.simps) (auto split: if_splits bind_splits)
qed

function zenkouho_loop :: "SJ3_DOUON list \<Rightarrow> nat \<Rightarrow> cli \<Rightarrow> (SJ3_DOUON list \<times> nat \<times> cli) option" where
  "zenkouho_loop douon cnt s =
     (let (n, s1) = get_int s in
      if n \<noteq> 0 then do {
        d \<leftarrow> rd douon cnt;
        (rec, _, s2) \<leftarrow> get_ndata (dcid d) 0 (nat (sint (stdy_size (cliptr s1)))) s1;
        (dat, _, s3) \<leftarrow> get_string (ddata d) 0 s2;
        len \<leftarrow> strlen dat;
        douon1 \<leftarrow> wr douon cnt \<lparr>ddata = dat, dlen = len, dcid = rec\<rparr>;
        zenkouho_loop douon1 (cnt + 1) s3 }
      else Some (douon, cnt, s1))"
  by pat_completeness auto
termination
proof (relation "measure (\<lambda>(d, n, s). unread s)", goal_cases)
  case (2 douon cnt s x n s1 d t1 rec t2 u s2 t3 dat t4 v s3 len douon1)
  have "unread s1 < unread s" using 2 get_int_unread by metis
  moreover have "unread s2 \<le> unread s1" using 2 get_ndata_unread by blast
  moreover have "unread s3 \<le> unread s2" using 2 get_string_unread by blast
  ultimately show ?case by simp
qed simp

declare zenkouho_loop.simps [simp del]

definition sj3_bunsetu_zenkouho :: "cbuf \<Rightarrow> u32 \<Rightarrow> SJ3_DOUON list \<Rightarrow> u32 \<Rightarrow> cli \<Rightarrow> ((u32 \<times> SJ3_DOUON list) \<times> cli) option" where
  "sj3_bunsetu_zenkouho yomi len douon mb_flag = client_init (ERROR, douon)
     (send_yomi (ERROR, douon) (if mb_flag = MBCODE_SJIS then SJ3_CL2KNJ_ALL else SJ3_CL2KNJ_ALL_EUC) yomi len (get_status (ERROR, douon) (\<lambda>s. do {
        (douon, cnt, s) \<leftarrow> zenkouho_loop douon 0 s;
        Some ((if ReadErrorFlag s then ERROR else of_nat cnt, douon), s) })))"

section \<open>Learning and registration\<close>

definition sj3_tango_gakusyuu :: "cbuf \<Rightarrow> cli \<Rightarrow> (u32 \<times> cli) option" where
  "sj3_tango_gakusyuu stdy = client_init ERROR (\<lambda>s. do {
     let size = sint (stdy_size (cliptr s));
     let buflen = int BUFSIZ - CMDLEN;
     let rest = get_status ERROR (read_result 0);
     s \<leftarrow> put_cmd SJ3_STUDY s;
     if size \<le> buflen then do {
       (_, s) \<leftarrow> put_ndata (Some stdy) size s;
       flushed ERROR rest s }
     else put_overed ERROR buflen [(Some stdy, size)] rest s })"

definition sj3_bunsetu_gakusyuu :: "cbuf \<Rightarrow> cbuf \<Rightarrow> cbuf \<Rightarrow> u32 \<Rightarrow> cli \<Rightarrow> (u32 \<times> cli) option" where
  "sj3_bunsetu_gakusyuu yomi1 yomi2 stdy mb_flag = client_init ERROR (\<lambda>s. do {
     n \<leftarrow> strlen yomi1;
     m \<leftarrow> strlen yomi2;
     let yomilen1 = int n + 1;
     let yomilen2 = int m + 1;
     let size = sint (stdy_size (cliptr s));
     let datalen = yomilen1 + yomilen2 + size;
     let buflen = int BUFSIZ - CMDLEN;
     let rest = get_status ERROR (read_result 0);
     s \<leftarrow> put_cmd (if mb_flag = MBCODE_SJIS then SJ3_CLSTUDY else SJ3_CLSTUDY_EUC) s;
     if datalen \<le> buflen then do {
       (_, s) \<leftarrow> put_string (Some yomi1) yomilen1 s;
       (_, s) \<leftarrow> put_string (Some yomi2) yomilen2 s;
       (_, s) \<leftarrow> put_ndata (Some stdy) size s;
       flushed ERROR rest s }
     else put_overed ERROR buflen [(Some yomi1, yomilen1), (Some yomi2, yomilen2), (Some stdy, size)] rest s })"

text \<open>
  The bytes of an integer in memory, on a little-endian host: what the \<^verbatim>\<open>put_over\<close>
  calls marked \<^verbatim>\<open>XXX\<close> send.
\<close>

definition host_bytes :: "u32 \<Rightarrow> cbuf" where
  "host_bytes c = [byte0 c, byte1 c, byte2 c, byte3 c]"

definition sj3_tango_touroku :: "u32 \<Rightarrow> cbuf \<Rightarrow> cbuf \<Rightarrow> u32 \<Rightarrow> u32 \<Rightarrow> cli \<Rightarrow> (u32 \<times> cli) option" where
  "sj3_tango_touroku dicid yomi kanji code mb_flag = client_init ERROR (\<lambda>s. do {
     n \<leftarrow> strlen yomi;
     m \<leftarrow> strlen kanji;
     let yomilen = int n + 1;
     let kanjilen = int m + 1;
     let datalen = yomilen + kanjilen + INTLEN;
     let buflen = int BUFSIZ - CMDLEN - INTLEN;
     let rest = get_status ERROR (read_result 0);
     s \<leftarrow> put_cmd (if mb_flag = MBCODE_SJIS then SJ3_ADDDICT else SJ3_ADDDICT_EUC) s;
     s \<leftarrow> put_int dicid s;
     if datalen \<le> buflen then do {
       (_, s) \<leftarrow> put_string (Some yomi) yomilen s;
       (_, s) \<leftarrow> put_string (Some kanji) kanjilen s;
       s \<leftarrow> put_int code s;
       flushed ERROR rest s }
     else put_overed ERROR buflen [(Some yomi, yomilen), (Some kanji, kanjilen), (Some (host_bytes code), INTLEN)] rest s })"

definition sj3_tango_sakujo :: "u32 \<Rightarrow> cbuf \<Rightarrow> cbuf \<Rightarrow> u32 \<Rightarrow> u32 \<Rightarrow> cli \<Rightarrow> (u32 \<times> cli) option" where
  "sj3_tango_sakujo dicid yomi kanji code mb_flag = client_init ERROR (\<lambda>s. do {
     n \<leftarrow> strlen yomi;
     m \<leftarrow> strlen kanji;
     let yomilen = int n + 1;
     let kanjilen = int m + 1;
     let datalen = yomilen + kanjilen + INTLEN;
     let buflen = int BUFSIZ - CMDLEN - INTLEN;
     let rest = get_status ERROR (read_result 0);
     s \<leftarrow> put_cmd (if mb_flag = MBCODE_SJIS then SJ3_DELDICT else SJ3_DELDICT_EUC) s;
     s \<leftarrow> put_int dicid s;
     if datalen \<le> buflen then do {
       (_, s) \<leftarrow> put_string (Some yomi) yomilen s;
       (_, s) \<leftarrow> put_string (Some kanji) kanjilen s;
       s \<leftarrow> put_int code s;
       flushed ERROR rest s }
     else put_overed ERROR buflen [(Some yomi, yomilen), (Some kanji, kanjilen), (Some (host_bytes code), INTLEN)] rest s })"

definition get_tango :: "cbuf \<Rightarrow> cli \<Rightarrow> ((u32 \<times> cbuf) \<times> cli) option" where
  "get_tango buf = get_status (ERROR, buf) (\<lambda>s. do {
     (buf, p, s) \<leftarrow> get_string buf 0 s;
     (buf, p, s) \<leftarrow> get_string buf p s;
     (let (n, s) = get_int s in do {
        buf \<leftarrow> wr buf p (ucast n);
        Some ((if ReadErrorFlag s then ERROR else 0, buf), s) }) })"

definition sj3_tango_syutoku :: "u32 \<Rightarrow> cbuf \<Rightarrow> u32 \<Rightarrow> cli \<Rightarrow> ((u32 \<times> cbuf) \<times> cli) option" where
  "sj3_tango_syutoku dicid buf mb_flag = client_init (ERROR, buf) (\<lambda>s. do {
     s \<leftarrow> put_cmd (if mb_flag = MBCODE_SJIS then SJ3_GETDICT else SJ3_GETDICT_EUC) s;
     s \<leftarrow> put_int dicid s;
     flushed (ERROR, buf) (get_tango buf) s })"

definition sj3_tango_jikouho :: "u32 \<Rightarrow> cbuf \<Rightarrow> u32 \<Rightarrow> cli \<Rightarrow> ((u32 \<times> cbuf) \<times> cli) option" where
  "sj3_tango_jikouho dicid buf mb_flag = client_init (ERROR, buf) (\<lambda>s. do {
     s \<leftarrow> put_cmd (if mb_flag = MBCODE_SJIS then SJ3_NEXTDICT else SJ3_NEXTDICT_EUC) s;
     s \<leftarrow> put_int dicid s;
     flushed (ERROR, buf) (get_tango buf) s })"

definition sj3_tango_maekouho :: "u32 \<Rightarrow> cbuf \<Rightarrow> u32 \<Rightarrow> cli \<Rightarrow> ((u32 \<times> cbuf) \<times> cli) option" where
  "sj3_tango_maekouho dicid buf mb_flag = client_init (ERROR, buf) (\<lambda>s. do {
     s \<leftarrow> put_cmd (if mb_flag = MBCODE_SJIS then SJ3_PREVDICT else SJ3_PREVDICT_EUC) s;
     s \<leftarrow> put_int dicid s;
     flushed (ERROR, buf) (get_tango buf) s })"

section \<open>Files and administration\<close>

definition sj3_make_dict_file :: "cbuf \<Rightarrow> u32 \<Rightarrow> u32 \<Rightarrow> u32 \<Rightarrow> cli \<Rightarrow> (u32 \<times> cli) option" where
  "sj3_make_dict_file path idxlen seglen segnum = client_init ERROR (\<lambda>s. do {
     n \<leftarrow> strlen path;
     let pathlen = int n + 1;
     let datalen = pathlen + INTLEN + INTLEN + INTLEN;
     let buflen = int BUFSIZ - CMDLEN;
     let rest = get_status ERROR (read_result 0);
     s \<leftarrow> put_cmd SJ3_MAKEDICT s;
     if datalen \<le> buflen then do {
       (_, s) \<leftarrow> put_string (Some path) pathlen s;
       s \<leftarrow> put_int idxlen s;
       s \<leftarrow> put_int seglen s;
       s \<leftarrow> put_int segnum s;
       flushed ERROR rest s }
     else put_overed ERROR buflen
            [(Some path, pathlen), (Some (host_bytes idxlen), INTLEN), (Some (host_bytes seglen), INTLEN),
             (Some (host_bytes segnum), 0)] rest s })"

definition sj3_make_study_file :: "cbuf \<Rightarrow> u32 \<Rightarrow> u32 \<Rightarrow> u32 \<Rightarrow> cli \<Rightarrow> (u32 \<times> cli) option" where
  "sj3_make_study_file path stynum clstep cllen = client_init ERROR (\<lambda>s. do {
     n \<leftarrow> strlen path;
     let pathlen = int n + 1;
     let datalen = pathlen + INTLEN + INTLEN + INTLEN;
     let buflen = int BUFSIZ - CMDLEN;
     let rest = get_status ERROR (read_result 0);
     s \<leftarrow> put_cmd SJ3_MAKESTDY s;
     if datalen \<le> buflen then do {
       (_, s) \<leftarrow> put_string (Some path) pathlen s;
       s \<leftarrow> put_int stynum s;
       s \<leftarrow> put_int clstep s;
       s \<leftarrow> put_int cllen s;
       flushed ERROR rest s }
     else put_overed ERROR buflen
            [(Some path, pathlen), (Some (host_bytes stynum), INTLEN), (Some (host_bytes clstep), INTLEN),
             (Some (host_bytes cllen), 0)] rest s })"

definition sj3_make_directory :: "cbuf \<Rightarrow> cli \<Rightarrow> (u32 \<times> cli) option" where
  "sj3_make_directory path = client_init ERROR (\<lambda>s. do {
     n \<leftarrow> strlen path;
     let pathlen = int n + 1;
     let buflen = int BUFSIZ - CMDLEN;
     let rest = get_status ERROR (read_result 0);
     s \<leftarrow> put_cmd SJ3_MAKEDIR s;
     if pathlen \<le> buflen then do {
       (_, s) \<leftarrow> put_string (Some path) pathlen s;
       flushed ERROR rest s }
     else put_overed ERROR buflen [(Some path, pathlen)] rest s })"

definition sj3_access :: "cbuf \<Rightarrow> u32 \<Rightarrow> cli \<Rightarrow> (u32 \<times> cli) option" where
  "sj3_access path mode = client_init ERROR (\<lambda>s. do {
     n \<leftarrow> strlen path;
     let pathlen = int n + 1;
     let datalen = pathlen + INTLEN;
     let buflen = int BUFSIZ - CMDLEN;
     let rest = (\<lambda>s. let (result, s) = get_int (s\<lparr>sj3_error_number := 0\<rparr>) in read_result result s);
     s \<leftarrow> put_cmd SJ3_ACCESS s;
     if datalen \<le> buflen then do {
       (_, s) \<leftarrow> put_string (Some path) pathlen s;
       s \<leftarrow> put_int mode s;
       flushed ERROR rest s }
     else put_overed ERROR buflen [(Some path, pathlen), (Some (host_bytes mode), INTLEN)] rest s })"

record SJ3_WHO_STRUCT =
  who_fd :: u32
  hostname :: cbuf
  username :: cbuf
  progname :: cbuf

fun who_loop :: "SJ3_WHO_STRUCT list \<Rightarrow> nat \<Rightarrow> nat \<Rightarrow> int \<Rightarrow> cli \<Rightarrow> (SJ3_WHO_STRUCT list \<times> cli) option" where
  "who_loop r j 0 num s = Some (r, s)"
| "who_loop r j (Suc n) num s =
     (if int j < num then do {
        w \<leftarrow> rd r j;
        let (fd, s) = get_int s;
        (_, h, s) \<leftarrow> get_nstring (hostname w) 0 SJ3_NAME_LENGTH s;
        (_, u, s) \<leftarrow> get_nstring (username w) 0 SJ3_NAME_LENGTH s;
        (_, p, s) \<leftarrow> get_nstring (progname w) 0 SJ3_NAME_LENGTH s;
        r \<leftarrow> wr r j \<lparr>who_fd = fd, hostname = h, username = u, progname = p\<rparr>;
        who_loop r (Suc j) n num s }
      else who_loop r (Suc j) n num (skip_string (skip_string (skip_string (snd (get_int s))))))"

definition sj3_who :: "SJ3_WHO_STRUCT list \<Rightarrow> int \<Rightarrow> cli \<Rightarrow> ((u32 \<times> SJ3_WHO_STRUCT list) \<times> cli) option" where
  "sj3_who r num = client_init (ERROR, r) (\<lambda>s. do {
     s \<leftarrow> put_cmd SJ3_WHO s;
     flushed (ERROR, r) (\<lambda>s.
       let (i, s) = get_int s in
       if sint i < 0 then Some ((- 1, r), s\<lparr>sj3_error_number := SJ3_InternalError\<rparr>)
       else do {
         (r, s) \<leftarrow> who_loop r 0 (unat i) num (s\<lparr>sj3_error_number := 0\<rparr>);
         Some ((if ReadErrorFlag s then ERROR else if sint i < num then i else word_of_int num, r), s) }) s })"

definition sj3_quit :: "cli \<Rightarrow> (u32 \<times> cli) option" where
  "sj3_quit = client_init ERROR (cmd_only SJ3_QUIT (get_status ERROR (read_result 0)))"

definition sj3_kill :: "cli \<Rightarrow> (u32 \<times> cli) option" where
  "sj3_kill = client_init ERROR (cmd_only SJ3_KILL (get_status ERROR (read_result 0)))"

function version_inner :: "cbuf \<Rightarrow> nat \<Rightarrow> int \<Rightarrow> u32 \<Rightarrow> cli \<Rightarrow> (cbuf \<times> nat \<times> int \<times> cli) option" where
  "version_inner dst i dstsiz c s =
     (if c \<noteq> 0 then
        (if dstsiz > 2 then do {
           dst \<leftarrow> wr dst i (ucast c);
           (let (c', s') = get_byte s in version_inner dst (i + 1) (dstsiz - 1) c' s') }
         else (let (c', s') = get_byte s in version_inner dst i dstsiz c' s'))
      else Some (dst, i, dstsiz, s))"
  by pat_completeness auto
termination
  by (relation "measure (\<lambda>(p, i, n, c, s). 2 * unread s + (if c \<noteq> 0 then 1 else 0))")
    (auto intro: get_byte_measure)

declare version_inner.simps [simp del]

lemma version_inner_unread:
  "version_inner dst i n c s = Some (dst', i', n', s') \<Longrightarrow> unread s' \<le> unread s"
proof (induction dst i n c s rule: version_inner.induct)
  case (1 dst i n c s)
  obtain c1 s1 where g: "get_byte s = (c1, s1)" by fastforce
  show ?case
    using "1.prems" "1.IH"(1) [OF _ _ _ g [symmetric] refl] "1.IH"(2) [OF _ _ g [symmetric] refl] g get_byte_unread [OF g]
    by (subst (asm) version_inner.simps) (fastforce split: if_splits bind_splits)
qed

function version_loop :: "cbuf \<Rightarrow> nat \<Rightarrow> int \<Rightarrow> u32 \<Rightarrow> cli \<Rightarrow> (cbuf \<times> nat \<times> int \<times> cli) option" where
  "version_loop dst i dstsiz c s =
     (if c \<noteq> 0 then do {
        (dst1, j, siz, s1) \<leftarrow> version_inner dst i dstsiz c s;
        if siz > 1 then do {
          dst2 \<leftarrow> wr dst1 j 0;
          (let (c', s') = get_byte s1 in version_loop dst2 (j + 1) (siz - 1) c' s') }
        else (let (c', s') = get_byte s1 in version_loop dst1 j siz c' s') }
      else Some (dst, i, dstsiz, s))"
  by pat_completeness auto
termination
proof (relation "measure (\<lambda>(p, i, n, c, s). 2 * unread s + (if c \<noteq> 0 then 1 else 0))", goal_cases)
  case (2 dst i dstsiz c s t dst1 t1 j t2 siz s1 dst2 t3 c' s')
  then show ?case using version_inner_unread [of dst i dstsiz c s] get_byte_measure [of s1] by fastforce
next
  case (3 dst i dstsiz c s t dst1 t1 j t2 siz s1 t3 c' s')
  then show ?case using version_inner_unread [of dst i dstsiz c s] get_byte_measure [of s1] by fastforce
qed simp

declare version_loop.simps [simp del]

definition sj3_version :: "cbuf \<Rightarrow> int \<Rightarrow> cli \<Rightarrow> ((u32 \<times> cbuf) \<times> cli) option" where
  "sj3_version dst dstsiz = client_init (ERROR, dst) (\<lambda>s. do {
     s \<leftarrow> put_cmd SJ3_VERSION s;
     flushed (ERROR, dst) (\<lambda>s.
       let (n, s) = get_int s;
           (c, s) = get_byte (s\<lparr>sj3_error_number := n\<rparr>) in do {
         (dst, i, dstsiz, s) \<leftarrow> version_loop dst 0 dstsiz c s;
         dst \<leftarrow> (if dstsiz > 0 then wr dst i 0 else Some dst);
         Some ((if ReadErrorFlag s then ERROR else 0, dst), s) }) s })"

end
