(* ===== verification/Sj_Client_Laws.thy ===== *)
theory Sj_Client_Laws
  imports Sj_Client
begin

text \<open>
  The laws of \<^verbatim>\<open>level1.c\<close>: what a request puts on the socket, what the reading
  functions deliver, that the loops stay inside the caller's buffers, and the exchanges
  made of them.
\<close>

section \<open>What reaches the socket\<close>

lemma put_flush_loop_sends:
  "writable (c_wq s) \<Longrightarrow> \<exists>ws. writable ws
     \<and> put_flush_loop p s = (0, s\<lparr>c_putbuf := [], c_sent := c_sent s @ p, c_wq := ws\<rparr>)"
proof (induction p s rule: put_flush_loop.induct)
  case (1 p s)
  show ?case
  proof (cases "p = []")
    case True
    then show ?thesis using 1 by (subst put_flush_loop.simps) (auto intro!: exI [of _ "c_wq s"])
  next
    case False
    then obtain j ws where j: "sys_write (length p) (c_wq s) = (j, ws)" "0 < j" "j \<le> int (length p)" "writable ws"
      using sys_write_ok [OF "1.prems", of "length p"] by auto
    let ?s1 = "s\<lparr>c_wq := ws\<rparr>"
    let ?s2 = "?s1\<lparr>c_sent := c_sent ?s1 @ take (nat j) p\<rparr>"
    have "put_flush_loop p s = put_flush_loop (drop (nat j) p) ?s2"
      using False j by (subst put_flush_loop.simps) simp
    moreover obtain ws' where "writable ws'" "put_flush_loop (drop (nat j) p) ?s2
        = (0, ?s2\<lparr>c_putbuf := [], c_sent := c_sent ?s2 @ drop (nat j) p, c_wq := ws'\<rparr>)"
      using "1.IH" [OF False j(1) [symmetric] refl refl] j by auto
    ultimately show ?thesis by (intro exI [of _ ws']) simp
  qed
qed

lemma put_flush_sends:
  assumes "writable (c_wq s)"
  obtains ws where "writable ws" "put_flush s = (0, s\<lparr>c_putbuf := [], c_sent := c_sent s @ c_putbuf s, c_wq := ws\<rparr>)"
  using put_flush_loop_sends [OF assms, of "c_putbuf s"] by (auto simp: put_flush_def)

lemma put_byte_fits: "length (c_putbuf s) < BUFSIZ \<Longrightarrow> put_byte c s = Some (s\<lparr>c_putbuf := c_putbuf s @ [ucast c]\<rparr>)"
  by (simp add: put_byte_def)

lemma put_int_fits:
  "length (c_putbuf s) + 4 \<le> BUFSIZ \<Longrightarrow> put_int c s = Some (s\<lparr>c_putbuf := c_putbuf s @ be32 c\<rparr>)"
  by (simp add: put_int_def put_byte_fits be32_def byte3_def byte2_def byte1_def byte0_def)

definition arg_bytes :: "cbuf option \<times> int \<Rightarrow> u8 list" where
  "arg_bytes a = (case fst a of None \<Rightarrow> replicate (nat (snd a)) 0 | Some p \<Rightarrow> take (nat (snd a)) p)"

definition arg_ok :: "cbuf option \<times> int \<Rightarrow> bool" where
  "arg_ok a \<longleftrightarrow> 0 \<le> snd a \<and> (case fst a of None \<Rightarrow> True | Some p \<Rightarrow> snd a \<le> int (length p))"

definition advance :: "cbuf option \<Rightarrow> int \<Rightarrow> cbuf option" where
  "advance p n = map_option (drop (nat n)) p"

lemma nat_Suc_int: "nat (1 + int n) = Suc n"
  by simp

lemma put_ndata_loop_fits:
  "length (c_putbuf s) + n \<le> BUFSIZ \<Longrightarrow> arg_ok (p, int n) \<Longrightarrow>
   put_ndata_loop p n s = Some (advance p (int n), s\<lparr>c_putbuf := c_putbuf s @ arg_bytes (p, int n)\<rparr>)"
proof (induction p n s rule: put_ndata_loop.induct)
  case (1 p s)
  then show ?case by (auto simp: advance_def arg_bytes_def option.map_ident split: option.splits)
next
  case (2 n s)
  then show ?case by (simp add: put_byte_fits advance_def arg_bytes_def arg_ok_def nat_Suc_int)
next
  case (3 p n s)
  then have ok: "Suc n \<le> length p" by (auto simp: arg_ok_def)
  then obtain c p' where p: "p = c # p'" by (cases p) auto
  have "rd p 0 = Some c" "length (c_putbuf s) < BUFSIZ" using p 3 by (auto simp: rd_def)
  then show ?case using "3.IH" [of c "s\<lparr>c_putbuf := c_putbuf s @ [c]\<rparr>"] "3.prems" p
    by (simp add: put_byte_fits advance_def arg_bytes_def arg_ok_def nat_Suc_int)
qed

lemma put_ndata_fits:
  assumes "int (length (c_putbuf s)) + n \<le> int BUFSIZ" "arg_ok (p, n)"
  shows "put_ndata p n s = Some (advance p n, s\<lparr>c_putbuf := c_putbuf s @ arg_bytes (p, n)\<rparr>)"
proof -
  have "0 \<le> n" using assms(2) by (simp add: arg_ok_def)
  then show ?thesis
    using put_ndata_loop_fits [of s "nat n" p] assms by (simp add: put_ndata_def)
qed

text \<open>
  The invariant of \<^verbatim>\<open>put_over\<close>: \<open>buflen\<close> is the room left in \<^verbatim>\<open>putbuf\<close>, and it is
  never used up; what has been handed over is what was sent and what is buffered.
\<close>

definition emits :: "cli \<Rightarrow> u8 list \<Rightarrow> cli \<Rightarrow> bool" where
  "emits s bs s' \<longleftrightarrow> (\<exists>b w q. s' = s\<lparr>c_putbuf := b, c_sent := w, c_wq := q\<rparr>
     \<and> w @ b = c_sent s @ c_putbuf s @ bs \<and> writable q)"

definition room :: "int \<Rightarrow> cli \<Rightarrow> bool" where
  "room buflen s \<longleftrightarrow> int (length (c_putbuf s)) + buflen = int BUFSIZ \<and> 0 < buflen"

lemma emits_refl: "writable (c_wq s) \<Longrightarrow> emits s [] s"
  unfolding emits_def by (intro exI [of _ "c_putbuf s"] exI [of _ "c_sent s"] exI [of _ "c_wq s"]) simp

lemma emits_trans: "emits s bs s' \<Longrightarrow> emits s' cs s'' \<Longrightarrow> emits s (bs @ cs) s''"
  unfolding emits_def by (clarsimp, metis append.assoc)

lemma emits_writable: "emits s bs s' \<Longrightarrow> writable (c_wq s')"
  by (auto simp: emits_def)

lemma put_ndata_emits:
  assumes "room buflen s" "n \<le> buflen" "arg_ok (p, n)" "writable (c_wq s)"
  obtains s' where "put_ndata p n s = Some (advance p n, s')" "emits s (arg_bytes (p, n)) s'"
    "int (length (c_putbuf s')) + (buflen - n) = int BUFSIZ"
proof
  let ?s = "s\<lparr>c_putbuf := c_putbuf s @ arg_bytes (p, n)\<rparr>"
  show "put_ndata p n s = Some (advance p n, ?s)" using assms by (intro put_ndata_fits) (auto simp: room_def)
  show "emits s (arg_bytes (p, n)) ?s" unfolding emits_def
    by (rule exI [of _ "c_putbuf s @ arg_bytes (p, n)"], rule exI [of _ "c_sent s"], rule exI [of _ "c_wq s"])
      (use assms in simp)
  show "int (length (c_putbuf ?s)) + (buflen - n) = int BUFSIZ"
    using assms(1,3) by (auto simp: room_def arg_bytes_def arg_ok_def split: option.splits)
qed

lemma put_flush_emits:
  assumes "writable (c_wq s)"
  obtains s' where "put_flush s = (0, s')" "emits s [] s'" "c_putbuf s' = []"
proof -
  obtain ws where ws: "writable ws" "put_flush s = (0, s\<lparr>c_putbuf := [], c_sent := c_sent s @ c_putbuf s, c_wq := ws\<rparr>)"
    using put_flush_sends [OF assms] by blast
  have "emits s [] (s\<lparr>c_putbuf := [], c_sent := c_sent s @ c_putbuf s, c_wq := ws\<rparr>)"
    unfolding emits_def using ws(1) by (intro exI conjI) (rule refl, auto)
  then show ?thesis using that ws(2) by simp
qed

lemma arg_split:
  assumes "arg_ok (p, n)" "0 \<le> k" "k \<le> n"
  shows "arg_ok (p, k)" "arg_ok (advance p k, n - k)"
    "arg_bytes (p, n) = arg_bytes (p, k) @ arg_bytes (advance p k, n - k)"
proof -
  show "arg_ok (p, k)" "arg_ok (advance p k, n - k)"
    using assms by (auto simp: arg_ok_def advance_def split: option.splits)
  have n: "nat n = nat k + nat (n - k)" using assms by simp
  show "arg_bytes (p, n) = arg_bytes (p, k) @ arg_bytes (advance p k, n - k)"
    unfolding arg_bytes_def advance_def by (cases p) (simp_all add: n replicate_add take_add)
qed

lemma put_over_big_emits:
  assumes "room buflen s" "arg_ok (p, len)" "writable (c_wq s)" "len \<ge> buflen \<or> buflen = int BUFSIZ"
  shows "\<exists>s' b. put_over_big p len buflen s = Some (0, b, s') \<and> emits s (arg_bytes (p, len)) s' \<and> room b s'"
  using assms
proof (induction p len buflen s rule: put_over_big.induct)
  case (1 p len buflen s)
  let ?k = "if len < buflen then len else buflen"
  show ?case
  proof (cases "len > 0")
    case True
    have k: "0 \<le> ?k" "?k \<le> len" "?k \<le> buflen" using True 1 by (auto simp: room_def)
    note sp = arg_split [OF "1.prems"(2) k(1,2)]
    obtain s1 where s1: "put_ndata p ?k s = Some (advance p ?k, s1)" "emits s (arg_bytes (p, ?k)) s1"
      using put_ndata_emits [OF "1.prems"(1) k(3) sp(1) "1.prems"(3)] by blast
    obtain s2 where s2: "put_flush s1 = (0, s2)" "emits s1 [] s2" "c_putbuf s2 = []"
      using put_flush_emits [OF emits_writable [OF s1(2)]] by blast
    have e2: "emits s (arg_bytes (p, ?k)) s2" using emits_trans [OF s1(2) s2(2)] by simp
    have r2: "room (int BUFSIZ) s2" using s2(3) by (simp add: room_def BUFSIZ_def)
    have step: "put_over_big p len buflen s = put_over_big (advance p ?k) (len - buflen) (int BUFSIZ) s2"
      using True s1 s2 by (subst put_over_big.simps) simp
    show ?thesis
    proof (cases "len < buflen")
      case True
      then have "put_over_big (advance p ?k) (len - buflen) (int BUFSIZ) s2 = Some (0, int BUFSIZ, s2)"
        by (subst put_over_big.simps) simp
      with step e2 r2 True show ?thesis by auto
    next
      case False
      then have "\<exists>s' b. put_over_big (advance p ?k) (len - buflen) (int BUFSIZ) s2 = Some (0, b, s')
          \<and> emits s2 (arg_bytes (advance p ?k, len - buflen)) s' \<and> room b s'"
        using "1.IH" [OF True s1(1) refl s2(1) [symmetric] refl] r2 sp(2) emits_writable [OF s2(2)] by simp
      with step e2 sp(3) False emits_trans [OF e2] show ?thesis by fastforce
    qed
  next
    case False
    then have "put_over_big p len buflen s = Some (0, buflen, s)" by (subst put_over_big.simps) simp
    moreover have "nat len = 0" using False by simp
    ultimately show ?thesis
      using "1.prems" emits_refl by (auto simp: arg_bytes_def split: option.splits)
  qed
qed

lemma put_over_args_emits:
  "room buflen s \<Longrightarrow> \<forall>a \<in> set as. arg_ok a \<Longrightarrow> writable (c_wq s) \<Longrightarrow>
   \<exists>s' b. put_over_args buflen as s = Some (0, b, s') \<and> emits s (concat (map arg_bytes as)) s' \<and> room b s'"
proof (induction buflen as s rule: put_over_args.induct)
  case (1 buflen s)
  then show ?case using emits_refl by auto
next
  case (2 buflen p len as s)
  have ok: "arg_ok (p, len)" using 2 by simp
  show ?case
  proof (cases "len < buflen")
    case True
    obtain s1 where s1: "put_ndata p len s = Some (advance p len, s1)" "emits s (arg_bytes (p, len)) s1"
      "int (length (c_putbuf s1)) + (buflen - len) = int BUFSIZ"
      using put_ndata_emits [OF "2.prems"(1) _ ok "2.prems"(3)] True by auto
    have "room (buflen - len) s1" using s1(3) True by (simp add: room_def)
    from "2.IH"(1) [OF True s1(1) refl this _ emits_writable [OF s1(2)]] "2.prems"(2)
    show ?thesis using True s1(1) emits_trans [OF s1(2)] by fastforce
  next
    case False
    obtain s1 b where s1: "put_over_big p len buflen s = Some (0, b, s1)" "emits s (arg_bytes (p, len)) s1" "room b s1"
      using put_over_big_emits [OF "2.prems"(1) ok "2.prems"(3)] False by auto
    from "2.IH"(2) [OF False s1(1) refl refl _ s1(3) _ emits_writable [OF s1(2)]] "2.prems"(2)
    show ?thesis using False s1(1) emits_trans [OF s1(2)] by fastforce
  qed
qed

lemma put_over_emits:
  assumes "room buflen s" "\<forall>a \<in> set as. arg_ok a" "writable (c_wq s)"
  obtains s' where "put_over buflen as s = Some (0, s')" "emits s (concat (map arg_bytes as)) s'" "c_putbuf s' = []"
proof -
  obtain s1 b where s1: "put_over_args buflen as s = Some (0, b, s1)" "emits s (concat (map arg_bytes as)) s1" "room b s1"
    using put_over_args_emits [OF assms] by blast
  show ?thesis
  proof (cases "b = int BUFSIZ")
    case True
    then have "c_putbuf s1 = []" using s1(3) by (simp add: room_def)
    then show ?thesis using that s1 True by (simp add: put_over_def)
  next
    case False
    obtain s2 where "put_flush s1 = (0, s2)" "emits s1 [] s2" "c_putbuf s2 = []"
      using put_flush_emits [OF emits_writable [OF s1(2)]] by blast
    then show ?thesis using that [of s2] s1 False emits_trans [OF s1(2), of "[]" s2] by (simp add: put_over_def)
  qed
qed

section \<open>Requests\<close>

text \<open>
  The state in which a request is built: \<^verbatim>\<open>put_cmd\<close> has emptied the buffers and
  \<open>bs\<close> is in \<^verbatim>\<open>putbuf\<close>.
\<close>

definition filled :: "cli \<Rightarrow> u8 list \<Rightarrow> cli" where
  "filled s bs = s\<lparr>server_fd := ce_fd (cliptr s), ReadErrorFlag := False, c_getbuf := [], c_putbuf := bs\<rparr>"

text \<open>
  The request \<open>bs\<close> has been written to the socket completely.
\<close>

definition request :: "cli \<Rightarrow> u8 list \<Rightarrow> cli \<Rightarrow> bool" where
  "request s bs s' \<longleftrightarrow> (\<exists>q. writable q \<and> s' = (filled s [])\<lparr>c_sent := c_sent s @ bs, c_wq := q\<rparr>)"

definition online :: "cli \<Rightarrow> bool" where
  "online s \<longleftrightarrow> ce_fd (cliptr s) \<noteq> - 1 \<and> writable (c_wq s)"

lemma filled_simps [simp]:
  "c_putbuf (filled s bs) = bs" "c_wq (filled s bs) = c_wq s" "c_sent (filled s bs) = c_sent s"
  "cliptr (filled s bs) = cliptr s" "(filled s bs)\<lparr>c_putbuf := cs\<rparr> = filled s cs"
  by (simp_all add: filled_def)

lemma client_init_online: "online s \<Longrightarrow> client_init err body s = body (s\<lparr>server_fd := ce_fd (cliptr s)\<rparr>)"
  by (simp add: client_init_def online_def)

lemma put_cmd_filled: "put_cmd cmd (s\<lparr>server_fd := ce_fd (cliptr s)\<rparr>) = Some (filled s (be32 cmd))"
  by (simp add: put_cmd_def put_int_fits BUFSIZ_def filled_def)

lemma put_int_filled: "length bs + 4 \<le> BUFSIZ \<Longrightarrow> put_int c (filled s bs) = Some (filled s (bs @ be32 c))"
  by (simp add: put_int_fits)

lemma put_byte_filled: "length bs < BUFSIZ \<Longrightarrow> put_byte c (filled s bs) = Some (filled s (bs @ [ucast c]))"
  by (simp add: put_byte_fits)

lemma put_ndata_filled:
  "int (length bs) + n \<le> int BUFSIZ \<Longrightarrow> arg_ok (p, n) \<Longrightarrow>
   put_ndata p n (filled s bs) = Some (advance p n, filled s (bs @ arg_bytes (p, n)))"
  by (simp add: put_ndata_fits)

lemma length_arg_bytes: "arg_ok a \<Longrightarrow> int (length (arg_bytes a)) = snd a"
  by (auto simp: arg_ok_def arg_bytes_def split: option.splits)

lemma request_of_emits:
  "emits (filled s bs) cs s' \<Longrightarrow> c_putbuf s' = [] \<Longrightarrow> request s (bs @ cs) s'"
  by (auto simp: emits_def request_def filled_def)

lemma flushed_request:
  assumes "online s"
  shows "\<exists>s'. request s bs s' \<and> flushed err body (filled s bs) = body s'"
proof -
  obtain s' where "put_flush (filled s bs) = (0, s')" "emits (filled s bs) [] s'" "c_putbuf s' = []"
    using put_flush_emits [of "filled s bs"] assms by (auto simp: online_def)
  then show ?thesis using request_of_emits [of s bs "[]" s'] by (auto simp: flushed_def)
qed

lemma put_overed_request:
  assumes "online s" "int (length bs) + buflen = int BUFSIZ" "0 < buflen" "\<forall>a \<in> set as. arg_ok a"
  shows "\<exists>s'. request s (bs @ concat (map arg_bytes as)) s' \<and> put_overed err buflen as body (filled s bs) = body s'"
proof -
  obtain s' where "put_over buflen as (filled s bs) = Some (0, s')"
    "emits (filled s bs) (concat (map arg_bytes as)) s'" "c_putbuf s' = []"
    using put_over_emits [of buflen "filled s bs" as] assms by (auto simp: online_def room_def)
  then show ?thesis using request_of_emits by (intro exI [of _ s']) (simp add: put_overed_def)
qed

lemma arg_ok_str [simp]: "strlen p = Some n \<Longrightarrow> arg_ok (Some p, int n + 1)"
  by (auto simp: arg_ok_def strlen_Some_iff)

lemma arg_ok_simps [simp]: "arg_ok (None, 1)" "arg_ok (Some (host_bytes c), INTLEN)" "arg_ok (Some (host_bytes c), 0)"
  "arg_ok (Some (host_bytes c), 4)"
  by (simp_all add: arg_ok_def host_bytes_def INTLEN_def)

lemma arg_bytes_simps [simp]: "arg_bytes (None, 1) = [0]" "arg_bytes (Some (host_bytes c), INTLEN) = host_bytes c"
  "arg_bytes (Some (host_bytes c), 0) = []" "arg_bytes (Some (host_bytes c), 4) = host_bytes c"
  by (simp_all add: arg_bytes_def host_bytes_def INTLEN_def)

abbreviation str_bytes :: "cbuf \<Rightarrow> nat \<Rightarrow> u8 list" where
  "str_bytes p n \<equiv> take (Suc n) p"

lemma arg_bytes_str [simp]: "arg_bytes (Some p, int n + 1) = str_bytes p n"
  by (simp add: arg_bytes_def nat_add_distrib)

lemma length_str_bytes [simp]: "strlen p = Some n \<Longrightarrow> length (str_bytes p n) = Suc n"
  by (auto simp: strlen_Some_iff)

lemmas request_simps = client_init_online put_cmd_filled put_int_filled put_byte_filled put_ndata_filled
  INTLEN_def CMDLEN_def BUFSIZ_def

lemma two_paths:
  assumes "online s" "if C then m = flushed err rest (filled s (bs @ concat (map arg_bytes as)))
      else m = put_overed err buflen as rest (filled s bs)"
    "int (length bs) + buflen = int BUFSIZ" "0 < buflen" "\<forall>a \<in> set as. arg_ok a"
  shows "\<exists>s'. request s (bs @ concat (map arg_bytes as)) s' \<and> m = rest s'"
  using flushed_request [OF assms(1), of "bs @ concat (map arg_bytes as)" err rest]
    put_overed_request [OF assms(1,3,4,5), of err rest] assms(2)
  by (cases C) auto

lemma open_dictionary_request:
  assumes "online s" "strlen dictname = Some n" "case password of None \<Rightarrow> m = 0 | Some p \<Rightarrow> strlen p = Some m"
  shows "\<exists>s'. request s (be32 SJ3_OPENDICT @ str_bytes dictname n @ arg_bytes (password, int m + 1)) s'
    \<and> sj3_open_dictionary dictname password s
       = get_status 0 (\<lambda>s. let (res, s) = get_int s in read_result res s) s'"
proof -
  have ok: "arg_ok (password, int m + 1)" using assms(3) by (cases password) auto
  have len: "int (length (arg_bytes (password, int m + 1))) = int m + 1" using length_arg_bytes [OF ok] by simp
  have pw: "(case password of None \<Rightarrow> Some 0 | Some p \<Rightarrow> strlen p) = Some m"
    using assms(3) by (cases password) auto
  have "\<exists>s'. request s (be32 SJ3_OPENDICT @ concat (map arg_bytes [(Some dictname, int n + 1), (password, int m + 1)])) s'
    \<and> sj3_open_dictionary dictname password s
       = get_status 0 (\<lambda>s. let (res, s) = get_int s in read_result res s) s'"
    by (rule two_paths [where C = "int n + 1 + (int m + 1) < int BUFSIZ - CMDLEN" and err = ERROR and buflen = "int BUFSIZ - CMDLEN"])
      (use assms ok len pw in \<open>simp_all add: sj3_open_dictionary_def request_simps Let_def\<close>)
  then show ?thesis by simp
qed

lemma cmd_only_request:
  assumes "online s"
  shows "\<exists>s'. request s (be32 cmd) s' \<and> client_init ERROR (cmd_only cmd body) s = body s'"
  using flushed_request [OF assms, of "be32 cmd" ERROR body] assms
  by (simp add: cmd_only_def request_simps)

lemma cmd_int_request:
  assumes "online s"
  shows "\<exists>s'. request s (be32 cmd @ be32 n) s'
    \<and> client_init err (\<lambda>s. do { s \<leftarrow> put_cmd cmd s; s \<leftarrow> put_int n s; flushed err body s }) s = body s'"
  using flushed_request [OF assms, of "be32 cmd @ be32 n" err body] assms
  by (simp add: request_simps)

lemma open_study_file_request:
  assumes "online s" "strlen stdyname = Some n" "strlen password = Some m"
  shows "\<exists>s'. request s (be32 SJ3_OPENSTDY @ str_bytes stdyname n @ str_bytes password m) s'
    \<and> sj3_open_study_file stdyname password s = get_status ERROR (read_result 0) s'"
proof -
  have "\<exists>s'. request s ((be32 SJ3_OPENSTDY) @ concat (map arg_bytes [(Some stdyname, int n + 1), (Some password, int m + 1)])) s'
    \<and> sj3_open_study_file stdyname password s = get_status ERROR (read_result 0) s'"
    by (rule two_paths [where C = "int n + 1 + (int m + 1) < int BUFSIZ - CMDLEN" and err = "ERROR" and buflen = "int BUFSIZ - CMDLEN"])
      (use assms  in \<open>simp_all add: sj3_open_study_file_def request_simps Let_def\<close>)
  then show ?thesis by simp
qed

lemma ikkatu_henkan_request:
  assumes "online s" "strlen src = Some n"
  shows "\<exists>s'. request s (be32 (if mb_flag = MBCODE_SJIS then SJ3_PH2KNJ else SJ3_PH2KNJ_EUC) @ str_bytes src n) s'
    \<and> sj3_ikkatu_henkan src dst dstsiz mb_flag s = (get_status (ERROR, dst) (\<lambda>s.
       let (_, s) = get_int s in ikkatu_loop (sint (stdy_size (cliptr s))) dst 0 dstsiz 0 s)) s'"
proof -
  have "\<exists>s'. request s ((be32 (if mb_flag = MBCODE_SJIS then SJ3_PH2KNJ else SJ3_PH2KNJ_EUC)) @ concat (map arg_bytes [(Some src, int n + 1)])) s'
    \<and> sj3_ikkatu_henkan src dst dstsiz mb_flag s = (get_status (ERROR, dst) (\<lambda>s.
       let (_, s) = get_int s in ikkatu_loop (sint (stdy_size (cliptr s))) dst 0 dstsiz 0 s)) s'"
    by (rule two_paths [where C = "int n + 1 < int BUFSIZ - CMDLEN" and err = "(ERROR, dst)" and buflen = "int BUFSIZ - CMDLEN"])
      (use assms  in \<open>simp_all add: sj3_ikkatu_henkan_def request_simps Let_def\<close>)
  then show ?thesis by simp
qed

lemma send_yomi_request:
  assumes "online s" "0 \<le> sint len" "sint len \<le> int (length yomi)"
  shows "\<exists>s'. request s (be32 cmd @ be32 len @ take (nat (sint len)) yomi @ [0]) s'
    \<and> client_init err (send_yomi err cmd yomi len rest) s = rest s'"
proof -
  have ok: "arg_ok (Some yomi, sint len)" using assms by (simp add: arg_ok_def)
  have len: "int (length (arg_bytes (Some yomi, sint len))) = sint len" using length_arg_bytes [OF ok] by simp
  have bytes: "arg_bytes (Some yomi, sint len) = take (nat (sint len)) yomi" by (simp add: arg_bytes_def)
  have "\<exists>s'. request s ((be32 cmd @ be32 len) @ concat (map arg_bytes [(Some yomi, sint len), (None, 1)])) s'
    \<and> client_init err (send_yomi err cmd yomi len rest) s = rest s'"
    by (rule two_paths [where C = "sint len + 1 \<le> int BUFSIZ - CMDLEN - INTLEN" and err = err and buflen = "int BUFSIZ - CMDLEN - INTLEN"])
      (use assms ok len in \<open>simp_all add: send_yomi_def request_simps Let_def\<close>)
  then show ?thesis by (simp add: bytes)
qed

lemma tango_gakusyuu_request:
  assumes "online s" "arg_ok (Some stdy, sint (stdy_size (cliptr s)))"
  shows "\<exists>s'. request s (be32 SJ3_STUDY @ arg_bytes (Some stdy, sint (stdy_size (cliptr s)))) s'
    \<and> sj3_tango_gakusyuu stdy s = get_status ERROR (read_result 0) s'"
proof -
  have "\<exists>s'. request s (be32 SJ3_STUDY @ concat (map arg_bytes [(Some stdy, sint (stdy_size (cliptr s)))])) s'
    \<and> sj3_tango_gakusyuu stdy s = get_status ERROR (read_result 0) s'"
    by (rule two_paths [where C = "sint (stdy_size (cliptr s)) \<le> int BUFSIZ - CMDLEN" and err = ERROR and buflen = "int BUFSIZ - CMDLEN"])
      (use assms length_arg_bytes [OF assms(2)] in \<open>simp_all add: sj3_tango_gakusyuu_def request_simps Let_def\<close>)
  then show ?thesis by simp
qed

lemma bunsetu_gakusyuu_request:
  assumes "online s" "strlen yomi1 = Some n" "strlen yomi2 = Some m"
    and ok: "arg_ok (Some stdy, sint (stdy_size (cliptr s)))"
  shows "\<exists>s'. request s (be32 (if mb_flag = MBCODE_SJIS then SJ3_CLSTUDY else SJ3_CLSTUDY_EUC) @ str_bytes yomi1 n
        @ str_bytes yomi2 m @ arg_bytes (Some stdy, sint (stdy_size (cliptr s)))) s'
    \<and> sj3_bunsetu_gakusyuu yomi1 yomi2 stdy mb_flag s = get_status ERROR (read_result 0) s'"
proof -
  let ?l = "sint (stdy_size (cliptr s))"
  have l0: "0 \<le> ?l" using ok by (simp add: arg_ok_def)
  have "\<exists>s'. request s (be32 (if mb_flag = MBCODE_SJIS then SJ3_CLSTUDY else SJ3_CLSTUDY_EUC) @ concat (map arg_bytes
       [(Some yomi1, int n + 1), (Some yomi2, int m + 1), (Some stdy, ?l)])) s'
    \<and> sj3_bunsetu_gakusyuu yomi1 yomi2 stdy mb_flag s = get_status ERROR (read_result 0) s'"
    by (rule two_paths [where C = "int n + 1 + (int m + 1) + ?l \<le> int BUFSIZ - CMDLEN" and err = ERROR and buflen = "int BUFSIZ - CMDLEN"])
      (use assms l0 length_arg_bytes [OF ok] in \<open>simp_all add: sj3_bunsetu_gakusyuu_def request_simps Let_def\<close>)
  then show ?thesis by simp
qed

lemma make_directory_request:
  assumes "online s" "strlen path = Some n"
  shows "\<exists>s'. request s (be32 SJ3_MAKEDIR @ str_bytes path n) s'
    \<and> sj3_make_directory path s = get_status ERROR (read_result 0) s'"
proof -
  have "\<exists>s'. request s ((be32 SJ3_MAKEDIR) @ concat (map arg_bytes [(Some path, int n + 1)])) s'
    \<and> sj3_make_directory path s = get_status ERROR (read_result 0) s'"
    by (rule two_paths [where C = "int n + 1 \<le> int BUFSIZ - CMDLEN" and err = "ERROR" and buflen = "int BUFSIZ - CMDLEN"])
      (use assms  in \<open>simp_all add: sj3_make_directory_def request_simps Let_def\<close>)
  then show ?thesis by simp
qed

text \<open>
  The requests that end in integers: the bytes of the integers depend on the path.
\<close>

lemma two_paths':
  assumes "online s" "if C then m = flushed err rest (filled s cs) else m = put_overed err buflen as rest (filled s bs)"
    "int (length bs) + buflen = int BUFSIZ" "0 < buflen" "\<forall>a \<in> set as. arg_ok a"
  shows "\<exists>s'. request s (if C then cs else bs @ concat (map arg_bytes as)) s' \<and> m = rest s'"
  using flushed_request [OF assms(1), of cs err rest] put_overed_request [OF assms(1,3,4,5), of err rest] assms(2)
  by (cases C) auto

lemma tango_touroku_request:
  assumes "online s" "strlen yomi = Some n" "strlen kanji = Some m"
  shows "\<exists>s'. request s (if int n + 1 + (int m + 1) + INTLEN \<le> int BUFSIZ - CMDLEN - INTLEN then be32 (if mb_flag = MBCODE_SJIS then SJ3_ADDDICT else SJ3_ADDDICT_EUC) @ be32 dicid @ str_bytes yomi n @ str_bytes kanji m @ be32 code else be32 (if mb_flag = MBCODE_SJIS then SJ3_ADDDICT else SJ3_ADDDICT_EUC) @ be32 dicid @ str_bytes yomi n @ str_bytes kanji m @ host_bytes code) s'
    \<and> sj3_tango_touroku dicid yomi kanji code mb_flag s = get_status ERROR (read_result 0) s'"
proof -
  have "\<exists>s'. request s (if int n + 1 + (int m + 1) + INTLEN \<le> int BUFSIZ - CMDLEN - INTLEN then be32 (if mb_flag = MBCODE_SJIS then SJ3_ADDDICT else SJ3_ADDDICT_EUC) @ be32 dicid @ str_bytes yomi n @ str_bytes kanji m @ be32 code else (be32 (if mb_flag = MBCODE_SJIS then SJ3_ADDDICT else SJ3_ADDDICT_EUC) @ be32 dicid) @ concat (map arg_bytes [(Some yomi, int n + 1), (Some kanji, int m + 1), (Some (host_bytes code), INTLEN)])) s'
    \<and> sj3_tango_touroku dicid yomi kanji code mb_flag s = get_status ERROR (read_result 0) s'"
    by (rule two_paths' [where err = ERROR and buflen = "int BUFSIZ - CMDLEN - INTLEN"])
      (use assms in \<open>simp_all add: sj3_tango_touroku_def request_simps Let_def\<close>)
  then show ?thesis
    by (simp only: list.map concat.simps arg_bytes_str arg_bytes_simps append_Nil2 append.assoc append_Nil)
qed

lemma tango_sakujo_request:
  assumes "online s" "strlen yomi = Some n" "strlen kanji = Some m"
  shows "\<exists>s'. request s (if int n + 1 + (int m + 1) + INTLEN \<le> int BUFSIZ - CMDLEN - INTLEN then be32 (if mb_flag = MBCODE_SJIS then SJ3_DELDICT else SJ3_DELDICT_EUC) @ be32 dicid @ str_bytes yomi n @ str_bytes kanji m @ be32 code else be32 (if mb_flag = MBCODE_SJIS then SJ3_DELDICT else SJ3_DELDICT_EUC) @ be32 dicid @ str_bytes yomi n @ str_bytes kanji m @ host_bytes code) s'
    \<and> sj3_tango_sakujo dicid yomi kanji code mb_flag s = get_status ERROR (read_result 0) s'"
proof -
  have "\<exists>s'. request s (if int n + 1 + (int m + 1) + INTLEN \<le> int BUFSIZ - CMDLEN - INTLEN then be32 (if mb_flag = MBCODE_SJIS then SJ3_DELDICT else SJ3_DELDICT_EUC) @ be32 dicid @ str_bytes yomi n @ str_bytes kanji m @ be32 code else (be32 (if mb_flag = MBCODE_SJIS then SJ3_DELDICT else SJ3_DELDICT_EUC) @ be32 dicid) @ concat (map arg_bytes [(Some yomi, int n + 1), (Some kanji, int m + 1), (Some (host_bytes code), INTLEN)])) s'
    \<and> sj3_tango_sakujo dicid yomi kanji code mb_flag s = get_status ERROR (read_result 0) s'"
    by (rule two_paths' [where err = ERROR and buflen = "int BUFSIZ - CMDLEN - INTLEN"])
      (use assms in \<open>simp_all add: sj3_tango_sakujo_def request_simps Let_def\<close>)
  then show ?thesis
    by (simp only: list.map concat.simps arg_bytes_str arg_bytes_simps append_Nil2 append.assoc append_Nil)
qed

lemma make_dict_file_request:
  assumes "online s" "strlen path = Some n"
  shows "\<exists>s'. request s (if int n + 1 + INTLEN + INTLEN + INTLEN \<le> int BUFSIZ - CMDLEN then be32 SJ3_MAKEDICT @ str_bytes path n @ be32 idxlen @ be32 seglen @ be32 segnum else be32 SJ3_MAKEDICT @ str_bytes path n @ host_bytes idxlen @ host_bytes seglen) s'
    \<and> sj3_make_dict_file path idxlen seglen segnum s = get_status ERROR (read_result 0) s'"
proof -
  have "\<exists>s'. request s (if int n + 1 + INTLEN + INTLEN + INTLEN \<le> int BUFSIZ - CMDLEN then be32 SJ3_MAKEDICT @ str_bytes path n @ be32 idxlen @ be32 seglen @ be32 segnum else (be32 SJ3_MAKEDICT) @ concat (map arg_bytes [(Some path, int n + 1), (Some (host_bytes idxlen), INTLEN), (Some (host_bytes seglen), INTLEN), (Some (host_bytes segnum), 0)])) s'
    \<and> sj3_make_dict_file path idxlen seglen segnum s = get_status ERROR (read_result 0) s'"
    by (rule two_paths' [where err = ERROR and buflen = "int BUFSIZ - CMDLEN"])
      (use assms in \<open>simp_all add: sj3_make_dict_file_def request_simps Let_def\<close>)
  then show ?thesis
    by (simp only: list.map concat.simps arg_bytes_str arg_bytes_simps append_Nil2 append.assoc append_Nil)
qed

lemma make_study_file_request:
  assumes "online s" "strlen path = Some n"
  shows "\<exists>s'. request s (if int n + 1 + INTLEN + INTLEN + INTLEN \<le> int BUFSIZ - CMDLEN then be32 SJ3_MAKESTDY @ str_bytes path n @ be32 stynum @ be32 clstep @ be32 cllen else be32 SJ3_MAKESTDY @ str_bytes path n @ host_bytes stynum @ host_bytes clstep) s'
    \<and> sj3_make_study_file path stynum clstep cllen s = get_status ERROR (read_result 0) s'"
proof -
  have "\<exists>s'. request s (if int n + 1 + INTLEN + INTLEN + INTLEN \<le> int BUFSIZ - CMDLEN then be32 SJ3_MAKESTDY @ str_bytes path n @ be32 stynum @ be32 clstep @ be32 cllen else (be32 SJ3_MAKESTDY) @ concat (map arg_bytes [(Some path, int n + 1), (Some (host_bytes stynum), INTLEN), (Some (host_bytes clstep), INTLEN), (Some (host_bytes cllen), 0)])) s'
    \<and> sj3_make_study_file path stynum clstep cllen s = get_status ERROR (read_result 0) s'"
    by (rule two_paths' [where err = ERROR and buflen = "int BUFSIZ - CMDLEN"])
      (use assms in \<open>simp_all add: sj3_make_study_file_def request_simps Let_def\<close>)
  then show ?thesis
    by (simp only: list.map concat.simps arg_bytes_str arg_bytes_simps append_Nil2 append.assoc append_Nil)
qed

lemma access_request:
  assumes "online s" "strlen path = Some n"
  shows "\<exists>s'. request s (if int n + 1 + INTLEN \<le> int BUFSIZ - CMDLEN then be32 SJ3_ACCESS @ str_bytes path n @ be32 mode else be32 SJ3_ACCESS @ str_bytes path n @ host_bytes mode) s'
    \<and> sj3_access path mode s = (\<lambda>s. let (result, s) = get_int (s\<lparr>sj3_error_number := 0\<rparr>) in read_result result s) s'"
proof -
  have "\<exists>s'. request s (if int n + 1 + INTLEN \<le> int BUFSIZ - CMDLEN then be32 SJ3_ACCESS @ str_bytes path n @ be32 mode else (be32 SJ3_ACCESS) @ concat (map arg_bytes [(Some path, int n + 1), (Some (host_bytes mode), INTLEN)])) s'
    \<and> sj3_access path mode s = (\<lambda>s. let (result, s) = get_int (s\<lparr>sj3_error_number := 0\<rparr>) in read_result result s) s'"
    by (rule two_paths' [where err = ERROR and buflen = "int BUFSIZ - CMDLEN"])
      (use assms in \<open>simp_all add: sj3_access_def request_simps Let_def\<close>)
  then show ?thesis
    by (simp only: list.map concat.simps arg_bytes_str arg_bytes_simps append_Nil2 append.assoc append_Nil)
qed

section \<open>What arrives\<close>

fun stream_of :: "rd_ans list \<Rightarrow> u8 list" where
  "stream_of (Chunk (b # bs) # q) = b # bs @ stream_of q"
| "stream_of _ = []"

definition incoming :: "cli \<Rightarrow> u8 list" where
  "incoming s = (if ReadErrorFlag s then [] else drop (c_getpos s) (c_getbuf s) @ stream_of (c_rq s))"

text \<open>Reading changes nothing but the input buffer.\<close>

definition only_reads :: "cli \<Rightarrow> cli \<Rightarrow> bool" where
  "only_reads s s' \<longleftrightarrow> (\<exists>b p q. s' = s\<lparr>c_getbuf := b, c_getpos := p, c_rq := q\<rparr>)"

lemma only_reads_refl: "only_reads s s"
  unfolding only_reads_def by (intro exI [of _ "c_getbuf s"] exI [of _ "c_getpos s"] exI [of _ "c_rq s"]) simp

lemma only_reads_trans: "only_reads s t \<Longrightarrow> only_reads t u \<Longrightarrow> only_reads s u"
  unfolding only_reads_def by (elim exE) (simp, blast)

lemma stream_of_sys_read:
  assumes "stream_of q = b # bs" "0 < n"
  obtains cs q' where "sys_read n q = (Chunk (b # cs), q')" "bs = cs @ stream_of q'"
  using assms
proof (cases q rule: stream_of.cases)
  case (1 c cs q0)
  show ?thesis
  proof (cases "length (c # cs) \<le> n")
    case True
    then show ?thesis using that [of cs q0] 1 assms by auto
  next
    case False
    obtain m where m: "n = Suc m" using assms(2) by (cases n) auto
    then have "drop m cs \<noteq> []" using False by auto
    then obtain d ds where d: "drop m cs = d # ds" by (cases "drop m cs") auto
    have "sys_read n q = (Chunk (b # take m cs), Chunk (drop m cs) # q0)"
      using 1 assms False m by auto
    moreover have "bs = take m cs @ stream_of (Chunk (drop m cs) # q0)"
      using 1 assms d append_take_drop_id [of m cs] by (auto simp del: append_take_drop_id)
    ultimately show ?thesis using that by blast
  qed
qed auto

lemma get_byte_avail:
  assumes "incoming s = b # bs"
  shows "\<exists>s'. get_byte s = (ucast b, s') \<and> incoming s' = bs \<and> only_reads s s'"
proof (cases "c_getpos s \<ge> length (c_getbuf s)")
  case True
  then have nf: "\<not> ReadErrorFlag s" and st: "stream_of (c_rq s) = b # bs"
    using assms by (auto simp: incoming_def split: if_splits)
  obtain cs q where r: "sys_read BUFSIZ (c_rq s) = (Chunk (b # cs), q)" "bs = cs @ stream_of q"
    using stream_of_sys_read [OF st, of BUFSIZ] by (auto simp: BUFSIZ_def)
  show ?thesis
  proof (cases rule: get_buffer_cases [of s])
    case (data b' bs' q')
    then have "b' = b" "bs' = cs" "q' = q" using r by auto
    let ?s = "s\<lparr>c_getpos := 1, c_rq := q, c_getbuf := b # cs\<rparr>"
    have "get_byte s = (ucast b, ?s)"
      using True data \<open>b' = b\<close> \<open>bs' = cs\<close> \<open>q' = q\<close> by (simp add: get_byte_def)
    moreover have "only_reads s ?s" unfolding only_reads_def
      by (intro exI [of _ "b # cs"] exI [of _ 1] exI [of _ q]) simp
    ultimately show ?thesis using nf r(2) by (auto simp: incoming_def)
  qed (use nf r in auto)
next
  case False
  then have "incoming s = c_getbuf s ! c_getpos s # drop (Suc (c_getpos s)) (c_getbuf s) @ stream_of (c_rq s)"
    using assms by (auto simp: incoming_def Cons_nth_drop_Suc [symmetric] split: if_splits)
  moreover have "\<not> ReadErrorFlag s" using assms by (auto simp: incoming_def)
  moreover have "only_reads s (s\<lparr>c_getpos := c_getpos s + 1\<rparr>)" unfolding only_reads_def
    by (intro exI [of _ "c_getbuf s"] exI [of _ "c_getpos s + 1"] exI [of _ "c_rq s"]) simp
  ultimately show ?thesis using False assms by (auto simp: get_byte_def incoming_def)
qed

interpretation cli: byte_reader "\<lambda>s. Some (get_byte s)" incoming only_reads
  by unfold_locales (auto intro: get_byte_avail only_reads_refl elim: only_reads_trans)

lemma get_int_read: "Some (get_int s) = read_int (\<lambda>s. Some (get_byte s)) s"
  by (simp add: get_int_def read_int_def split: prod.splits)

lemma get_int_avail:
  "incoming s = be32 c @ bs \<Longrightarrow> \<exists>s'. get_int s = (c, s') \<and> incoming s' = bs \<and> only_reads s s'"
  using cli.next_int [of s c bs] by (simp add: get_int_read [symmetric])

definition overlay :: "cbuf \<Rightarrow> nat \<Rightarrow> u8 list \<Rightarrow> cbuf" where
  "overlay p i xs = take i p @ xs @ drop (i + length xs) p"

lemma overlay_Nil [simp]: "overlay p i [] = p"
  by (simp add: overlay_def)

lemma length_overlay [simp]: "i + length xs \<le> length p \<Longrightarrow> length (overlay p i xs) = length p"
  by (simp add: overlay_def)

lemma wr_overlay: "i < length p \<Longrightarrow> wr p i x = Some (overlay p i [x])"
  by (simp add: wr_in overlay_def upd_conv_take_nth_drop)

lemma overlay_append:
  "i + length xs + length ys \<le> length p \<Longrightarrow> overlay (overlay p i xs) (i + length xs) ys = overlay p i (xs @ ys)"
  by (simp add: overlay_def ac_simps)

lemma get_ndata_avail:
  "incoming s = xs @ bs \<Longrightarrow> i + length xs \<le> length p \<Longrightarrow>
   \<exists>s'. get_ndata p i (length xs) s = Some (overlay p i xs, i + length xs, s')
     \<and> incoming s' = bs \<and> only_reads s s'"
proof (induction xs arbitrary: p i s)
  case Nil
  then show ?case using only_reads_refl by auto
next
  case (Cons x xs)
  obtain s1 where s1: "get_byte s = (ucast x, s1)" "incoming s1 = xs @ bs" "only_reads s s1"
    using get_byte_avail [of s x "xs @ bs"] Cons.prems by auto
  have w: "wr p i x = Some (overlay p i [x])" using Cons.prems by (intro wr_overlay) simp
  obtain s2 where "get_ndata (overlay p i [x]) (i + 1) (length xs) s1
      = Some (overlay (overlay p i [x]) (i + 1) xs, i + 1 + length xs, s2)" "incoming s2 = bs" "only_reads s1 s2"
    using Cons.IH [OF s1(2), of "i + 1" "overlay p i [x]"] Cons.prems by auto
  then show ?case
    using s1 w Cons.prems overlay_append [of i "[x]" xs p] only_reads_trans [OF s1(3), of s2] by auto
qed

lemma get_string_avail:
  "incoming s = xs @ 0 # bs \<Longrightarrow> 0 \<notin> set xs \<Longrightarrow> i + length xs < length p \<Longrightarrow>
   \<exists>s'. get_string p i s = Some (overlay p i (xs @ [0]), i + length xs + 1, s')
     \<and> incoming s' = bs \<and> only_reads s s'"
proof (induction xs arbitrary: p i s)
  case Nil
  then show ?case using get_byte_avail [of s 0 bs] wr_overlay [of i p 0]
    by (subst get_string.simps) auto
next
  case (Cons x xs)
  obtain s1 where s1: "get_byte s = (ucast x, s1)" "incoming s1 = xs @ 0 # bs" "only_reads s s1"
    using get_byte_avail [of s x "xs @ 0 # bs"] Cons.prems by auto
  have w: "wr p i x = Some (overlay p i [x])" using Cons.prems by (intro wr_overlay) simp
  have nz: "(ucast x :: u32) \<noteq> 0" using Cons.prems by (metis list.set_intros(1) ucast_u8_u32 unsigned_0)
  obtain s2 where "get_string (overlay p i [x]) (i + 1) s1
      = Some (overlay (overlay p i [x]) (i + 1) (xs @ [0]), i + 1 + length xs + 1, s2)" "incoming s2 = bs" "only_reads s1 s2"
    using Cons.IH [OF s1(2), of "i + 1" "overlay p i [x]"] Cons.prems by auto
  then show ?case
    using s1 w nz Cons.prems overlay_append [of i "[x]" "xs @ [0]" p] only_reads_trans [OF s1(3), of s2]
    by (subst get_string.simps) auto
qed

section \<open>The loops that fill a buffer\<close>

lemma get_ndata_in_bounds:
  "i + n \<le> length p \<Longrightarrow> \<exists>p' s'. get_ndata p i n s = Some (p', i + n, s') \<and> length p' = length p"
proof (induction n arbitrary: p i s)
  case (Suc n)
  obtain c s1 where g: "get_byte s = (c, s1)" by fastforce
  have w: "wr p i (ucast c) = Some (p[i := ucast c])" using Suc.prems by (simp add: wr_in)
  show ?case using Suc.IH [of "i + 1" "p[i := ucast c]" s1] Suc.prems g w by auto
qed simp

lemma ikkatu_inner_in_bounds:
  assumes "2 \<le> siz" "int i + siz \<le> int (length p)"
  shows "\<exists>ok p' j siz' s'. ikkatu_inner p i siz s = Some (ok, p', j, siz', s') \<and> length p' = length p
    \<and> i \<le> j \<and> (ok \<longrightarrow> 2 \<le> siz' \<and> int j + siz' = int i + siz)"
  using assms
proof (induction p i siz s rule: ikkatu_inner.induct)
  case (1 p i siz s)
  obtain c s1 where g: "get_byte s = (c, s1)" by fastforce
  show ?case
  proof (cases "c \<noteq> 0 \<and> \<not> siz < 3")
    case True
    then have w: "wr p i (ucast c) = Some (p[i := ucast c])" using 1 by (simp add: wr_in)
    have "\<exists>ok p' j siz' s'. ikkatu_inner (p[i := ucast c]) (i + 1) (siz - 1) s1 = Some (ok, p', j, siz', s')
      \<and> length p' = length (p[i := ucast c]) \<and> i + 1 \<le> j \<and> (ok \<longrightarrow> 2 \<le> siz' \<and> int j + siz' = int (i + 1) + (siz - 1))"
      by (rule "1.IH" [OF g [symmetric] refl]) (use True w "1.prems" in auto)
    then show ?thesis using True g w by (subst ikkatu_inner.simps) (auto simp: Suc_le_eq)
  next
    case False
    then show ?thesis using g "1.prems" by (subst ikkatu_inner.simps) auto
  qed
qed

lemma ikkatu_loop_in_bounds:
  assumes "1 \<le> siz" "int i + siz \<le> int (length p)" "0 \<le> stysiz"
  shows "\<exists>r p' s'. ikkatu_loop stysiz p i siz res s = Some ((r, p'), s') \<and> length p' = length p"
  using assms
proof (induction stysiz p i siz res s rule: ikkatu_loop.induct)
  case (1 stysiz p i siz res s)
  obtain c s1 where g: "get_byte s = (c, s1)" by fastforce
  have ip: "i < length p" using "1.prems" by simp
  then have w: "wr p i x = Some (p[i := x])" for x by (simp add: wr_in)
  show ?case
  proof (cases "c \<noteq> 0 \<and> \<not> siz < 1 + stysiz + 1 + 1")
    case True
    let ?p1 = "p[i := ucast c]"
    have "int (i + 1 + nat stysiz) \<le> int (length ?p1)" using True "1.prems" by simp
    then have b: "i + 1 + nat stysiz \<le> length ?p1" by (simp only: of_nat_le_iff)
    obtain p2 s2 where n: "get_ndata ?p1 (i + 1) (nat stysiz) s1 = Some (p2, i + 1 + nat stysiz, s2)" "length p2 = length p"
      using get_ndata_in_bounds [OF b, of s1] by auto
    let ?siz = "siz - (stysiz + 1)" and ?j = "i + 1 + nat stysiz"
    obtain ok p3 j siz3 s3 where k: "ikkatu_inner p2 ?j ?siz s2 = Some (ok, p3, j, siz3, s3)" "length p3 = length p2"
      "?j \<le> j" "ok \<longrightarrow> 2 \<le> siz3 \<and> int j + siz3 = int ?j + ?siz"
      using ikkatu_inner_in_bounds [of ?siz ?j p2 s2] True "1.prems" n(2) by auto
    show ?thesis
    proof (cases ok)
      case True
      then have j: "j < length p3" using k n(2) "1.prems" by auto
      then have w3: "wr p3 j 0 = Some (p3[j := 0])" by (simp add: wr_in)
      have "\<exists>r p' s'. ikkatu_loop stysiz (p3[j := 0]) (j + 1) (siz3 - 1) (res + c) s3 = Some ((r, p'), s') \<and> length p' = length (p3[j := 0])"
        by (rule "1.IH" [OF g [symmetric] refl _ _ w n(1) refl refl k(1) refl refl refl refl])
          (use True k n(2) w3 "1.prems" \<open>c \<noteq> 0 \<and> \<not> siz < 1 + stysiz + 1 + 1\<close> in auto)
      then show ?thesis
        using \<open>c \<noteq> 0 \<and> \<not> siz < 1 + stysiz + 1 + 1\<close> True g w n k w3 by (subst ikkatu_loop.simps) auto
    next
      case False
      have "wr p3 i 0 = Some (p3[i := 0])" using ip n(2) k(2) by (simp add: wr_in)
      then show ?thesis
        using \<open>c \<noteq> 0 \<and> \<not> siz < 1 + stysiz + 1 + 1\<close> False g w n k by (subst ikkatu_loop.simps) (auto simp: Let_def)
    qed
  next
    case False
    then show ?thesis using g w by (subst ikkatu_loop.simps) (auto simp: Let_def)
  qed
qed

lemma ikkatu_inner_avail:
  "incoming s = xs @ 0 # bs \<Longrightarrow> 0 \<notin> set xs \<Longrightarrow> int (length xs) + 2 \<le> siz \<Longrightarrow> int i + siz \<le> int (length p) \<Longrightarrow>
   \<exists>s'. ikkatu_inner p i siz s = Some (True, overlay p i xs, i + length xs, siz - int (length xs), s')
     \<and> incoming s' = bs \<and> only_reads s s'"
proof (induction xs arbitrary: p i siz s)
  case Nil
  then show ?case using get_byte_avail [of s 0 bs] by (subst ikkatu_inner.simps) auto
next
  case (Cons x xs)
  obtain s1 where s1: "get_byte s = (ucast x, s1)" "incoming s1 = xs @ 0 # bs" "only_reads s s1"
    using get_byte_avail [of s x "xs @ 0 # bs"] Cons.prems by auto
  have w: "wr p i x = Some (overlay p i [x])" using Cons.prems by (intro wr_overlay) simp
  have nz: "(ucast x :: u32) \<noteq> 0" using Cons.prems by (metis list.set_intros(1) ucast_u8_u32 unsigned_0)
  obtain s2 where "ikkatu_inner (overlay p i [x]) (i + 1) (siz - 1) s1
      = Some (True, overlay (overlay p i [x]) (i + 1) xs, i + 1 + length xs, siz - 1 - int (length xs), s2)"
      "incoming s2 = bs" "only_reads s1 s2"
    using Cons.IH [OF s1(2), of "siz - 1" "i + 1" "overlay p i [x]"] Cons.prems by auto
  then show ?case
    using s1 w nz Cons.prems overlay_append [of i "[x]" xs p] only_reads_trans [OF s1(3), of s2]
    by (subst ikkatu_inner.simps) (auto simp: algebra_simps)
qed

type_synonym segment = "u8 \<times> u8 list \<times> u8 list"

definition seg_bytes :: "segment \<Rightarrow> u8 list" where
  "seg_bytes g = (case g of (l, rec, str) \<Rightarrow> l # rec @ str @ [0])"

lemma seg_bytes_simp: "seg_bytes (l, rec, str) = l # rec @ str @ [0]"
  by (simp add: seg_bytes_def)

definition seg_ok :: "int \<Rightarrow> segment \<Rightarrow> bool" where
  "seg_ok stysiz g \<longleftrightarrow> (case g of (l, rec, str) \<Rightarrow> l \<noteq> 0 \<and> int (length rec) = stysiz \<and> 0 \<notin> set str)"

definition seg_sum :: "segment list \<Rightarrow> u32" where
  "seg_sum gs = sum_list (map (\<lambda>g. ucast (fst g)) gs)"

lemma ikkatu_loop_avail:
  "incoming s = concat (map seg_bytes gs) @ 0 # bs \<Longrightarrow> \<forall>g \<in> set gs. seg_ok stysiz g \<Longrightarrow>
   int (length (concat (map seg_bytes gs))) + 1 \<le> siz \<Longrightarrow> int i + siz \<le> int (length p) \<Longrightarrow> 
   \<exists>s'. ikkatu_loop stysiz p i siz res s
      = Some ((res + seg_sum gs, overlay p i (concat (map seg_bytes gs) @ [0])), s')
     \<and> incoming s' = bs \<and> only_reads s s'"
proof (induction gs arbitrary: p i siz res s)
  case Nil
  have nf: "\<not> ReadErrorFlag s" using Nil by (auto simp: incoming_def split: if_splits)
  obtain s' where "get_byte s = (0, s')" "incoming s' = bs" "only_reads s s'"
    using get_byte_avail [of s 0 bs] Nil by auto
  moreover have "\<not> ReadErrorFlag s'" using calculation nf by (auto simp: only_reads_def)
  moreover have "wr p i 0 = Some (overlay p i [0])" using Nil by (intro wr_overlay) simp
  ultimately show ?case by (subst ikkatu_loop.simps) (auto simp: seg_sum_def)
next
  case (Cons g gs)
  obtain l rec str where g: "g = (l, rec, str)" by (cases g)
  let ?R = "concat (map seg_bytes gs)"
  have ok: "l \<noteq> 0" "int (length rec) = stysiz" "0 \<notin> set str" using Cons.prems(2) g by (auto simp: seg_ok_def)
  have len: "int (length rec) + int (length str) + int (length ?R) + 3 \<le> siz"
    using Cons.prems(3) g by (simp add: seg_bytes_simp)
  obtain s1 where s1: "get_byte s = (ucast l, s1)" "incoming s1 = rec @ str @ 0 # ?R @ 0 # bs" "only_reads s s1"
    using get_byte_avail [of s l] Cons.prems(1) g by (auto simp: seg_bytes_simp)
  have nz: "(ucast l :: u32) \<noteq> 0" using ok by (metis ucast_u8_u32 unsigned_0)
  have w: "wr p i l = Some (overlay p i [l])" using Cons.prems len by (intro wr_overlay) simp
  obtain s2 where s2: "get_ndata (overlay p i [l]) (i + 1) (length rec) s1
      = Some (overlay p i (l # rec), i + 1 + length rec, s2)" "incoming s2 = str @ 0 # ?R @ 0 # bs" "only_reads s1 s2"
    using get_ndata_avail [OF s1(2), of "i + 1" "overlay p i [l]"] overlay_append [of i "[l]" rec p] len Cons.prems(4) by auto
  let ?p2 = "overlay p i (l # rec)"
  have l2: "length ?p2 = length p" using len Cons.prems(4) by simp
  obtain s3 where s3: "ikkatu_inner ?p2 (i + 1 + length rec) (siz - (stysiz + 1)) s2
      = Some (True, overlay p i (l # rec @ str), i + 1 + length rec + length str, siz - (stysiz + 1) - int (length str), s3)"
      "incoming s3 = ?R @ 0 # bs" "only_reads s2 s3"
    using ikkatu_inner_avail [OF s2(2) ok(3), of "siz - (stysiz + 1)" "i + 1 + length rec" ?p2]
      overlay_append [of i "l # rec" str p] len ok(2) Cons.prems(4) l2 by auto
  let ?p3 = "overlay p i (l # rec @ str)" and ?j = "i + 1 + length rec + length str"
  have l3: "length ?p3 = length p" using len Cons.prems(4) by simp
  have "?j < length ?p3" using l3 len Cons.prems(4) by linarith
  then have w3: "wr ?p3 ?j 0 = Some (overlay p i (seg_bytes g))"
    using wr_overlay [of ?j ?p3 0] overlay_append [of i "l # rec @ str" "[0]" p] l3 g
    by (simp add: seg_bytes_simp add.assoc)
  let ?p4 = "overlay p i (seg_bytes g)"
  have j: "?j + 1 = i + length (seg_bytes g)" using g by (simp add: seg_bytes_simp)
  obtain s4 where s4: "ikkatu_loop stysiz ?p4 (?j + 1) (siz - (stysiz + 1) - int (length str) - 1) (res + ucast l) s3
      = Some ((res + ucast l + seg_sum gs, overlay ?p4 (?j + 1) (?R @ [0])), s4)" "incoming s4 = bs" "only_reads s3 s4"
    using Cons.IH [OF s3(2), of "siz - (stysiz + 1) - int (length str) - 1" "?j + 1" ?p4 "res + ucast l"]
      Cons.prems(2,4) len ok(2) g by (auto simp: seg_bytes_simp)
  have ov: "overlay ?p4 (?j + 1) (?R @ [0]) = overlay p i (concat (map seg_bytes (g # gs)) @ [0])"
    unfolding j using overlay_append [of i "seg_bytes g" "?R @ [0]" p] Cons.prems(3,4) by simp
  have "ikkatu_loop stysiz p i siz res s
      = ikkatu_loop stysiz ?p4 (?j + 1) (siz - (stysiz + 1) - int (length str) - 1) (res + ucast l) s3"
    using s1(1) nz w s2(1) s3(1) w3 len ok(2) by (subst ikkatu_loop.simps) auto
  moreover have "only_reads s s4" using s1(3) s2(3) s3(3) s4(3) only_reads_trans by blast
  ultimately show ?case using s4 ov g by (auto simp: seg_sum_def add.assoc)
qed

section \<open>Whatever the kernel answers\<close>

lemma put_flush_loop_cases:
  "put_flush_loop p s = (r, s') \<Longrightarrow>
   (r = 0 \<and> c_putbuf s' = [] \<and> c_sent s' = c_sent s @ p \<and> cliptr s' = cliptr s \<and> sj3_error_number s' = sj3_error_number s)
   \<or> (r = ERROR \<and> (\<exists>k < length p. c_sent s' = c_sent s @ take k p) \<and> ce_fd (cliptr s') = - 1
       \<and> server_fd s' = - 1 \<and> sj3_error_number s' = SJ3_ServerDown)"
proof (induction p s rule: put_flush_loop.induct)
  case (1 p s)
  show ?case
  proof (cases "p = []")
    case True
    then show ?thesis using "1.prems" by (subst (asm) put_flush_loop.simps) auto
  next
    case False
    obtain j ws where w: "sys_write (length p) (c_wq s) = (j, ws)" by fastforce
    show ?thesis
    proof (cases "j \<le> 0")
      case True
      then show ?thesis using "1.prems" False w
        by (subst (asm) put_flush_loop.simps) (auto simp: server_down_def intro!: exI [of _ 0])
    next
      case pos: False
      let ?k = "nat j"
      let ?s2 = "s\<lparr>c_wq := ws, c_sent := c_sent s @ take ?k p\<rparr>"
      have "put_flush_loop (drop ?k p) ?s2 = (r, s')"
        using "1.prems" False w pos by (subst (asm) put_flush_loop.simps) auto
      with "1.IH" [OF False refl w [symmetric] refl pos] have
        "(r = 0 \<and> c_putbuf s' = [] \<and> c_sent s' = c_sent s @ p \<and> cliptr s' = cliptr s \<and> sj3_error_number s' = sj3_error_number s)
        \<or> (r = ERROR \<and> (\<exists>m < length (drop ?k p). c_sent s' = c_sent ?s2 @ take m (drop ?k p)) \<and> ce_fd (cliptr s') = - 1
           \<and> server_fd s' = - 1 \<and> sj3_error_number s' = SJ3_ServerDown)" by auto
      moreover have "\<exists>k < length p. c_sent s' = c_sent s @ take k p"
        if "m < length (drop ?k p)" "c_sent s' = c_sent ?s2 @ take m (drop ?k p)" for m
        using that by (intro exI [of _ "?k + m"]) (auto simp: take_add)
      ultimately show ?thesis by blast
    qed
  qed
qed

lemma put_flush_cases:
  obtains (ok) s' where "put_flush s = (0, s')" "c_putbuf s' = []"
  | (down) s' where "put_flush s = (ERROR, s')"
  using put_flush_loop_cases [of "c_putbuf s" s] by (cases "put_flush s") (auto simp: put_flush_def)

lemma put_ndata_safe:
  assumes "room buflen s" "n \<le> buflen" "arg_ok (p, n)"
  obtains s' where "put_ndata p n s = Some (advance p n, s')" "int (length (c_putbuf s')) + (buflen - n) = int BUFSIZ"
proof
  let ?s = "s\<lparr>c_putbuf := c_putbuf s @ arg_bytes (p, n)\<rparr>"
  show "put_ndata p n s = Some (advance p n, ?s)" using assms by (intro put_ndata_fits) (auto simp: room_def)
  show "int (length (c_putbuf ?s)) + (buflen - n) = int BUFSIZ"
    using assms(1) length_arg_bytes [OF assms(3)] by (auto simp: room_def)
qed

lemma put_over_big_safe:
  assumes "room buflen s" "arg_ok (p, len)"
  shows "\<exists>r s' b. put_over_big p len buflen s = Some (r, b, s') \<and> (r = ERROR \<or> room b s')"
  using assms
proof (induction p len buflen s rule: put_over_big.induct)
  case (1 p len buflen s)
  let ?k = "if len < buflen then len else buflen"
  show ?case
  proof (cases "len > 0")
    case True
    have k: "0 \<le> ?k" "?k \<le> len" "?k \<le> buflen" using True 1 by (auto simp: room_def)
    note sp = arg_split [OF "1.prems"(2) k(1,2)]
    obtain s1 where s1: "put_ndata p ?k s = Some (advance p ?k, s1)"
      using put_ndata_safe [OF "1.prems"(1) k(3) sp(1)] by blast
    show ?thesis
    proof (cases rule: put_flush_cases [of s1])
      case (ok s2)
      have r2: "room (int BUFSIZ) s2" using ok(2) by (simp add: room_def BUFSIZ_def)
      have step: "put_over_big p len buflen s = put_over_big (advance p ?k) (len - buflen) (int BUFSIZ) s2"
        using True s1 ok by (subst put_over_big.simps) simp
      show ?thesis
      proof (cases "len < buflen")
        case True
        then have "put_over_big (advance p ?k) (len - buflen) (int BUFSIZ) s2 = Some (0, int BUFSIZ, s2)"
          by (subst put_over_big.simps) simp
        with step r2 show ?thesis by auto
      next
        case False
        then show ?thesis unfolding step
          using "1.IH" [OF True s1 refl ok(1) [symmetric] refl] r2 sp(2) by simp
      qed
    next
      case (down s2)
      then show ?thesis using True s1 by (subst put_over_big.simps) simp
    qed
  next
    case False
    then show ?thesis using "1.prems" by (subst put_over_big.simps) simp
  qed
qed

lemma put_over_args_safe:
  "room buflen s \<Longrightarrow> \<forall>a \<in> set as. arg_ok a \<Longrightarrow> \<exists>r. put_over_args buflen as s = Some r"
proof (induction buflen as s rule: put_over_args.induct)
  case (2 buflen p len as s)
  have ok: "arg_ok (p, len)" using 2 by simp
  show ?case
  proof (cases "len < buflen")
    case True
    obtain s1 where s1: "put_ndata p len s = Some (advance p len, s1)"
      "int (length (c_putbuf s1)) + (buflen - len) = int BUFSIZ"
      using put_ndata_safe [OF "2.prems"(1) _ ok] True by auto
    have "room (buflen - len) s1" using s1(2) True by (simp add: room_def)
    from "2.IH"(1) [OF True s1(1) refl this] "2.prems"(2) show ?thesis using True s1(1) by auto
  next
    case False
    obtain s1 b r where s1: "put_over_big p len buflen s = Some (r, b, s1)" "r = ERROR \<or> room b s1"
      using put_over_big_safe [OF "2.prems"(1) ok] by blast
    show ?thesis
    proof (cases "r = ERROR")
      case True
      then show ?thesis using False s1 by simp
    next
      case nr: False
      then show ?thesis
        using "2.IH"(2) [OF False s1(1) refl refl nr] s1 False "2.prems"(2) by auto
    qed
  qed
qed simp

lemma version_inner_in_bounds:
  "0 \<le> siz \<Longrightarrow> int i + siz \<le> int (length p) \<Longrightarrow>
   \<exists>p' j siz' s'. version_inner p i siz c s = Some (p', j, siz', s') \<and> length p' = length p
     \<and> 0 \<le> siz' \<and> int j + siz' \<le> int (length p)"
proof (induction p i siz c s rule: version_inner.induct)
  case (1 p i siz c s)
  obtain c1 s1 where g: "get_byte s = (c1, s1)" by fastforce
  consider (stop) "c = 0" | (put) "c \<noteq> 0" "siz > 2" | (skip) "c \<noteq> 0" "\<not> siz > 2" by blast
  then show ?case
  proof cases
    case stop
    then show ?thesis using "1.prems" by (subst version_inner.simps) auto
  next
    case put
    then have w: "wr p i (ucast c) = Some (p[i := ucast c])" using "1.prems" by (simp add: wr_in)
    then show ?thesis
      using "1.IH"(1) [OF put w g [symmetric] refl] put g "1.prems" by (subst version_inner.simps) auto
  next
    case skip
    then show ?thesis
      using "1.IH"(2) [OF skip g [symmetric] refl] g "1.prems" by (subst version_inner.simps) auto
  qed
qed

lemma version_loop_in_bounds:
  "0 \<le> siz \<Longrightarrow> int i + siz \<le> int (length p) \<Longrightarrow>
   \<exists>p' j siz' s'. version_loop p i siz c s = Some (p', j, siz', s') \<and> length p' = length p
     \<and> 0 \<le> siz' \<and> int j + siz' \<le> int (length p)"
proof (induction p i siz c s rule: version_loop.induct)
  case (1 p i siz c s)
  show ?case
  proof (cases "c = 0")
    case True
    then show ?thesis using "1.prems" by (subst version_loop.simps) auto
  next
    case False
    obtain p1 j siz1 s1 where v: "version_inner p i siz c s = Some (p1, j, siz1, s1)" "length p1 = length p"
      "0 \<le> siz1" "int j + siz1 \<le> int (length p)" using version_inner_in_bounds "1.prems" by blast
    obtain c1 s2 where g: "get_byte s1 = (c1, s2)" by fastforce
    show ?thesis
    proof (cases "siz1 > 1")
      case True
      then have w: "wr p1 j 0 = Some (p1[j := 0])" using v by (simp add: wr_in)
      then show ?thesis
        using "1.IH"(1) [OF False v(1) refl refl refl True w g [symmetric] refl] False v g True
        by (subst version_loop.simps) auto
    next
      case f: False
      then show ?thesis
        using "1.IH"(2) [OF False v(1) refl refl refl f g [symmetric] refl] False v g
        by (subst version_loop.simps) auto
    qed
  qed
qed

lemma incoming_request: "request s bs s' \<Longrightarrow> incoming s' = stream_of (c_rq s)"
  by (auto simp: request_def incoming_def filled_def)

lemma get_status_ok:
  assumes "incoming s = be32 0 @ bs"
  shows "\<exists>s'. get_status err body s = body (s'\<lparr>sj3_error_number := 0\<rparr>) \<and> incoming (s'\<lparr>sj3_error_number := 0\<rparr>) = bs \<and> only_reads s s'"
  using get_int_avail [OF assms] by (auto simp: get_status_def incoming_def)

lemma get_status_err:
  assumes "incoming s = be32 n @ bs" "n \<noteq> 0"
  shows "\<exists>s'. get_status err body s = Some (err, s'\<lparr>sj3_error_number := n\<rparr>) \<and> only_reads s s'"
  using get_int_avail [OF assms(1)] assms(2) by (auto simp: get_status_def)

lemma request_fields: "request s bs s' \<Longrightarrow> c_sent s' = c_sent s @ bs \<and> cliptr s' = cliptr s"
  by (auto simp: request_def filled_def)

lemma only_reads_fields:
  "only_reads s s' \<Longrightarrow> c_sent s' = c_sent s \<and> cliptr s' = cliptr s \<and> ReadErrorFlag s' = ReadErrorFlag s
    \<and> sj3_error_number s' = sj3_error_number s"
  by (auto simp: only_reads_def)

lemma request_flag: "request s bs s' \<Longrightarrow> \<not> ReadErrorFlag s'"
  by (auto simp: request_def filled_def)

text \<open>Nothing but the connection reply sets the size of a study record.\<close>

abbreviation styv :: "cli \<Rightarrow> u32" where
  "styv s \<equiv> stdy_size (cliptr s)"

lemma styv_server_down [simp]: "styv (server_down s) = styv s"
  by (simp add: server_down_def)

lemma styv_put_flush: "put_flush s = (r, s') \<Longrightarrow> styv s' = styv s"
proof -
  have "put_flush_loop p s = (r, s') \<Longrightarrow> styv s' = styv s" for p
  proof (induction p s rule: put_flush_loop.induct)
    case (1 p s)
    obtain j ws where w: "sys_write (length p) (c_wq s) = (j, ws)" by fastforce
    show ?case
      using "1.prems" "1.IH" [OF _ refl w [symmetric] refl] w
      by (subst (asm) put_flush_loop.simps) (auto simp: Let_def split: if_splits)
  qed
  then show "put_flush s = (r, s') \<Longrightarrow> styv s' = styv s" by (simp add: put_flush_def)
qed

lemma styv_put_ndata_loop: "put_ndata_loop p n s = Some (p', s') \<Longrightarrow> styv s' = styv s"
  by (induction p n s rule: put_ndata_loop.induct) (auto simp: put_byte_def split: bind_splits if_splits)

lemma styv_put_ndata: "put_ndata p n s = Some (p', s') \<Longrightarrow> styv s' = styv s"
  unfolding put_ndata_def by (rule styv_put_ndata_loop)

lemma styv_put_over_big: "put_over_big p len buflen s = Some (r, b, s') \<Longrightarrow> styv s' = styv s"
proof (induction p len buflen s rule: put_over_big.induct)
  case (1 p len buflen s)
  show ?case
  proof (cases "len > 0")
    case True
    then obtain p1 s1 where n: "put_ndata p (if len < buflen then len else buflen) s = Some (p1, s1)"
      using "1.prems" by (subst (asm) put_over_big.simps) (auto split: bind_splits)
    obtain q s2 where f: "put_flush s1 = (q, s2)" by fastforce
    show ?thesis
      using "1.prems" "1.IH" [OF True n refl f [symmetric]] True n f styv_put_ndata [OF n] styv_put_flush [OF f]
      by (subst (asm) put_over_big.simps) (auto split: if_splits)
  next
    case False
    then show ?thesis using "1.prems" by (subst (asm) put_over_big.simps) auto
  qed
qed

lemma styv_put_over_args: "put_over_args buflen as s = Some (r, b, s') \<Longrightarrow> styv s' = styv s"
  by (induction buflen as s rule: put_over_args.induct)
    (auto split: bind_splits if_splits dest!: styv_put_ndata styv_put_over_big)

lemma styv_put_over: "put_over buflen as s = Some (r, s') \<Longrightarrow> styv s' = styv s"
  by (auto simp: put_over_def split: bind_splits if_splits prod.splits dest!: styv_put_over_args styv_put_flush)

lemma styv_get_byte: "get_byte s = (c, s') \<Longrightarrow> styv s' = styv s"
  by (auto simp: get_byte_def get_buffer_def Let_def split: if_splits prod.splits rd_ans.splits list.splits)

lemma styv_get_int: "get_int s = (c, s') \<Longrightarrow> styv s' = styv s"
  by (auto simp: get_int_def split: prod.splits dest!: styv_get_byte)

lemma flushed_safe:
  assumes "\<And>s'. styv s' = styv s \<Longrightarrow> \<exists>r. body s' = Some r"
  shows "\<exists>r. flushed err body s = Some r"
  using styv_put_flush [of s] assms by (cases "put_flush s") (auto simp: flushed_def)

lemma put_overed_safe:
  assumes "int (length bs) + buflen = int BUFSIZ" "0 < buflen" "\<forall>a \<in> set as. arg_ok a"
    and "\<And>s'. styv s' = styv s \<Longrightarrow> \<exists>r. body s' = Some r"
  shows "\<exists>r. put_overed err buflen as body (filled s bs) = Some r"
proof -
  have "\<exists>r. put_over buflen as (filled s bs) = Some r"
    using put_over_args_safe [of buflen "filled s bs" as] assms(1-3)
    by (auto simp: put_over_def room_def split: prod.splits)
  then obtain r s' where p: "put_over buflen as (filled s bs) = Some (r, s')" by auto
  show ?thesis using p assms(4) [of s'] styv_put_over [OF p] by (auto simp: put_overed_def)
qed

lemma client_init_safe: "(\<And>s. s = s0\<lparr>server_fd := ce_fd (cliptr s0)\<rparr> \<Longrightarrow> \<exists>r. body s = Some r) \<Longrightarrow> \<exists>r. client_init err body s0 = Some r"
  by (auto simp: client_init_def Let_def)

lemma get_status_safe:
  assumes "\<And>s'. styv s' = styv s \<Longrightarrow> \<exists>r. body s' = Some r"
  shows "\<exists>r. get_status err body s = Some r"
  using styv_get_int [of s] assms by (cases "get_int s") (auto simp: get_status_def Let_def)

section \<open>Properties\<close>

text \<open>
  C8. A complete exchange of \<^verbatim>\<open>sj3_ikkatu_henkan\<close>: whatever the length of the text
  and however the kernel splits the traffic, the request on the socket is the command
  and the text with its NUL, no buffer is overrun, and when the server answers with
  segments that fit into \<open>dst\<close>, the function returns the sum of their lengths and \<open>dst\<close>
  holds exactly the segments and the closing NUL.
\<close>

theorem ikkatu_exchange:
  assumes "online s" "strlen src = Some n" "\<forall>g \<in> set gs. seg_ok (sint (stdy_size (cliptr s))) g"
    and "stream_of (c_rq s) = be32 0 @ be32 r @ concat (map seg_bytes gs) @ 0 # bs"
    and "int (length (concat (map seg_bytes gs))) < dstsiz" "dstsiz \<le> int (length dst)"
  shows "\<exists>s'. sj3_ikkatu_henkan src dst dstsiz mb_flag s
        = Some ((seg_sum gs, overlay dst 0 (concat (map seg_bytes gs) @ [0])), s')
    \<and> c_sent s' = c_sent s @ be32 (if mb_flag = MBCODE_SJIS then SJ3_PH2KNJ else SJ3_PH2KNJ_EUC) @ take (Suc n) src
    \<and> incoming s' = bs \<and> sj3_error_number s' = 0"
proof -
  let ?rest = "\<lambda>s. let (_, s) = get_int s in ikkatu_loop (sint (stdy_size (cliptr s))) dst 0 dstsiz 0 s"
  obtain s1 where s1: "request s (be32 (if mb_flag = MBCODE_SJIS then SJ3_PH2KNJ else SJ3_PH2KNJ_EUC) @ str_bytes src n) s1"
    "sj3_ikkatu_henkan src dst dstsiz mb_flag s = get_status (ERROR, dst) ?rest s1"
    using ikkatu_henkan_request [OF assms(1,2)] by blast
  have inc: "incoming s1 = be32 0 @ be32 r @ concat (map seg_bytes gs) @ 0 # bs"
    using incoming_request [OF s1(1)] assms(4) by simp
  obtain s2 where s2: "get_status (ERROR, dst) ?rest s1 = ?rest (s2\<lparr>sj3_error_number := 0\<rparr>)"
    "incoming (s2\<lparr>sj3_error_number := 0\<rparr>) = be32 r @ concat (map seg_bytes gs) @ 0 # bs" "only_reads s1 s2"
    using get_status_ok [OF inc, of "(ERROR, dst)" ?rest] by blast
  let ?s2 = "s2\<lparr>sj3_error_number := 0\<rparr>"
  obtain s3 where s3: "get_int ?s2 = (r, s3)" "incoming s3 = concat (map seg_bytes gs) @ 0 # bs" "only_reads ?s2 s3"
    using get_int_avail [OF s2(2)] by blast
  have sz: "stdy_size (cliptr s3) = stdy_size (cliptr s)" "sj3_error_number s3 = 0" "c_sent s3 = c_sent s1"
    using only_reads_fields [OF s3(3)] only_reads_fields [OF s2(3)] request_fields [OF s1(1)] by simp_all
  have ok: "\<forall>g \<in> set gs. seg_ok (sint (stdy_size (cliptr s3))) g" using assms(3) sz by simp
  have fit: "int (length (concat (map seg_bytes gs))) + 1 \<le> dstsiz" "int 0 + dstsiz \<le> int (length dst)"
    using assms(5,6) by simp_all
  obtain s4 where s4: "ikkatu_loop (sint (stdy_size (cliptr s3))) dst 0 dstsiz 0 s3
      = Some ((0 + seg_sum gs, overlay dst 0 (concat (map seg_bytes gs) @ [0])), s4)" "incoming s4 = bs" "only_reads s3 s4"
    using ikkatu_loop_avail [OF s3(2) ok fit] by blast
  have run: "sj3_ikkatu_henkan src dst dstsiz mb_flag s
      = Some ((seg_sum gs, overlay dst 0 (concat (map seg_bytes gs) @ [0])), s4)"
    unfolding s1(2) s2(1) using s3(1) s4(1) by simp
  show ?thesis
    using run sz only_reads_fields [OF s4(3)] s4(2) request_fields [OF s1(1)] by (intro exI [of _ s4]) simp
qed


text \<open>
  C10. A complete exchange of \<^verbatim>\<open>sj3_open_dictionary\<close>: the server gets the command
  and the two strings whatever their length; the dictionary id of a successful reply is
  returned, a failure is 0 with the server's error number.
\<close>

theorem open_dictionary_exchange:
  assumes "online s" "strlen dictname = Some n" "strlen password = Some m"
    and "stream_of (c_rq s) = (if e = 0 then be32 0 @ be32 dicid else be32 e) @ bs"
  shows "\<exists>s'. sj3_open_dictionary dictname (Some password) s = Some (if e = 0 then dicid else 0, s')
    \<and> c_sent s' = c_sent s @ be32 SJ3_OPENDICT @ take (Suc n) dictname @ take (Suc m) password
    \<and> sj3_error_number s' = e"
proof -
  let ?rest = "\<lambda>s. let (res, s) = get_int s in read_result res s"
  obtain s1 where s1: "request s (be32 SJ3_OPENDICT @ str_bytes dictname n @ str_bytes password m) s1"
    "sj3_open_dictionary dictname (Some password) s = get_status 0 ?rest s1"
    using open_dictionary_request [OF assms(1,2), where password = "Some password" and m = m] assms(3) by auto
  note rf = request_fields [OF s1(1)] request_flag [OF s1(1)]
  show ?thesis
  proof (cases "e = 0")
    case True
    then have "incoming s1 = be32 0 @ be32 dicid @ bs" using incoming_request [OF s1(1)] assms(4) by simp
    from get_status_ok [OF this, of 0 ?rest] obtain s2 where
      s2: "get_status 0 ?rest s1 = ?rest (s2\<lparr>sj3_error_number := 0\<rparr>)"
        "incoming (s2\<lparr>sj3_error_number := 0\<rparr>) = be32 dicid @ bs" "only_reads s1 s2" by blast
    obtain s3 where s3: "get_int (s2\<lparr>sj3_error_number := 0\<rparr>) = (dicid, s3)" "only_reads (s2\<lparr>sj3_error_number := 0\<rparr>) s3"
      using get_int_avail [OF s2(2)] by blast
    show ?thesis
      using s1(2) s2(1) s3(1) True rf only_reads_fields [OF s2(3)] only_reads_fields [OF s3(2)]
      by (intro exI [of _ s3]) (simp add: read_result_def)
  next
    case False
    then have "incoming s1 = be32 e @ bs" using incoming_request [OF s1(1)] assms(4) by simp
    from get_status_err [OF this False, of 0 ?rest] obtain s2 where
      "get_status 0 ?rest s1 = Some (0, s2\<lparr>sj3_error_number := e\<rparr>)" "only_reads s1 s2" by blast
    then show ?thesis using s1(2) rf False only_reads_fields [of s1 s2] by auto
  qed
qed

text \<open>
  C11. \<^verbatim>\<open>put_flush\<close> sends the whole buffer or takes the connection down: with partial
  writes every byte is sent once and in order; after an error a proper prefix has been
  sent, the descriptor is closed and every later call of the library is refused without
  touching the socket.
\<close>

theorem flush_all_or_down:
  shows "(\<exists>s'. put_flush s = (0, s') \<and> c_putbuf s' = [] \<and> c_sent s' = c_sent s @ c_putbuf s)
    \<or> (\<exists>s' k. put_flush s = (ERROR, s') \<and> k < length (c_putbuf s)
         \<and> c_sent s' = c_sent s @ take k (c_putbuf s) \<and> sj3_error_number s' = SJ3_ServerDown
         \<and> client_init err body s' = Some (err, s'\<lparr>server_fd := - 1, sj3_error_number := SJ3_NotOpened\<rparr>))"
  using put_flush_loop_cases [of "c_putbuf s" s] by (cases "put_flush s") (auto simp: put_flush_def client_init_def)

text \<open>
  C12. The path of \<^verbatim>\<open>sj3_tango_touroku\<close> for long requests, marked \<^verbatim>\<open>XXX\<close> in the
  source, puts the code in the byte order of the host, that of \<^verbatim>\<open>sj3_make_dict_file\<close>
  leaves out the number of segments: on a little-endian host the server reads a code
  with its bytes reversed and waits for four bytes that never come.
\<close>

theorem long_requests_malformed:
  assumes "online s" "strlen yomi = Some n" "strlen kanji = Some m" "8178 < n + m" "strlen path = Some k" "8175 < k"
  shows "(\<exists>s'. request s (be32 (if mb_flag = MBCODE_SJIS then SJ3_ADDDICT else SJ3_ADDDICT_EUC) @ be32 dicid
          @ take (Suc n) yomi @ take (Suc m) kanji @ rev (be32 code)) s'
        \<and> sj3_tango_touroku dicid yomi kanji code mb_flag s = get_status ERROR (read_result 0) s')
    \<and> (\<exists>s'. request s (be32 SJ3_MAKEDICT @ take (Suc k) path @ rev (be32 idxlen) @ rev (be32 seglen)) s'
        \<and> sj3_make_dict_file path idxlen seglen segnum s = get_status ERROR (read_result 0) s')"
proof -
  have h: "host_bytes c = rev (be32 c)" for c by (simp add: host_bytes_def be32_def)
  have "\<not> int n + 1 + (int m + 1) + INTLEN \<le> int BUFSIZ - CMDLEN - INTLEN"
    "\<not> int k + 1 + INTLEN + INTLEN + INTLEN \<le> int BUFSIZ - CMDLEN"
    using assms(4,6) by (simp_all add: INTLEN_def CMDLEN_def BUFSIZ_def)
  then show ?thesis
    using tango_touroku_request [OF assms(1-3), of mb_flag dicid code] make_dict_file_request [OF assms(1,5), of idxlen seglen segnum]
    by (simp only: if_False h append.assoc)
qed


section \<open>Witnesses\<close>

definition ex_cli :: "rd_ans list \<Rightarrow> int list \<Rightarrow> cli" where
  "ex_cli q ws = \<lparr>c_putbuf = [], c_getbuf = [], c_getpos = 0, ReadErrorFlag = False, server_fd = 3,
     sj3_error_number = 0, cliptr = \<lparr>ce_fd = 3, stdy_size = 1, svr_version = 1, cli_version = 2, default_char = [0x81, 0x40]\<rparr>,
     c_sent = [], c_wq = ws, c_rq = q\<rparr>"

lemma ex_cli_online: "writable ws \<Longrightarrow> online (ex_cli q ws)"
  by (simp add: online_def ex_cli_def)

lemma ex_cli_sel [simp]: "stdy_size (cliptr (ex_cli q ws)) = 1" "c_rq (ex_cli q ws) = q" "c_sent (ex_cli q ws) = []"
  "c_wq (ex_cli q ws) = ws" "c_putbuf (ex_cli q ws) = []"
  by (simp_all add: ex_cli_def)

theorem ikkatu_exchange_witness:
  "\<exists>s'. sj3_ikkatu_henkan [0x61, 0] [9, 9, 9, 9, 9, 9, 9, 9] 8 1
        (ex_cli [Chunk [0, 0, 0], Chunk [0, 0, 0, 0, 5, 2, 7, 0x41], Chunk [0, 0]] [3, 1])
      = Some ((2, [2, 7, 0x41, 0, 0, 9, 9, 9]), s') \<and> c_sent s' = [0, 0, 0, 41, 0x61, 0]"
  using ikkatu_exchange [of "ex_cli [Chunk [0, 0, 0], Chunk [0, 0, 0, 0, 5, 2, 7, 0x41], Chunk [0, 0]] [3, 1]"
      "[0x61, 0]" 1 "[(2, [7], [0x41])]" 5 "[]" 8 "[9, 9, 9, 9, 9, 9, 9, 9]" 1]
  by (auto simp: ex_cli_online writable_def seg_ok_def seg_bytes_def seg_sum_def overlay_def be32_def byte3_def byte2_def
      byte1_def byte0_def drop_Cons')


theorem open_dictionary_exchange_witness:
  "\<exists>s'. sj3_open_dictionary [0x64, 0] (Some [0]) (ex_cli [Chunk [0, 0, 0, 0, 0, 0], Chunk [0, 7]] []) = Some (7, s')
    \<and> c_sent s' = [0, 0, 0, 11, 0x64, 0, 0]"
  using open_dictionary_exchange [of "ex_cli [Chunk [0, 0, 0, 0, 0, 0], Chunk [0, 7]] []" "[0x64, 0]" 1 "[0]" 0 0 7 "[]"]
  by (auto simp: ex_cli_online writable_def be32_def byte3_def byte2_def byte1_def byte0_def)

theorem long_requests_malformed_witness:
  "\<exists>s'. request (ex_cli [] []) (be32 SJ3_MAKEDICT @ replicate 8176 1 @ [0] @ [1, 0, 0, 0] @ [2, 0, 0, 0]) s'
     \<and> sj3_make_dict_file (replicate 8176 1 @ [0]) 1 2 3 (ex_cli [] []) = get_status ERROR (read_result 0) s'"
  using long_requests_malformed [of "ex_cli [] []" "replicate 8179 1 @ [0]" 8179 "[0]" 0 "replicate 8176 1 @ [0]" 8176 1 0 0 1 2 3]
  by (simp add: ex_cli_online writable_def be32_def byte3_def byte2_def byte1_def byte0_def)


end
