(* ===== verification/Sj_Comuni.thy ===== *)
theory Sj_Comuni
  imports Sj_Io
begin

text \<open>
  \<^verbatim>\<open>sj3serv/comuni.c\<close>, the part below the command handlers: the set of descriptors
  the server waits for, and the buffered input and output of the client being served.

  Code that may leave by \<^verbatim>\<open>longjmp\<close> is a function from a state to a state and either a
  result or a jump. The state is a record that extends \<open>chan\<close>, the static variables of
  the file with the socket's past and future. \<open>s_putbuf\<close> is the part of
  \<^verbatim>\<open>putbuf\<close> below \<^verbatim>\<open>putpos\<close>, \<open>s_getbuf\<close> that of \<^verbatim>\<open>getbuf\<close> below
  \<^verbatim>\<open>buflen\<close>.
\<close>

section \<open>Jumps\<close>

datatype jump =
    Client_dead
  | Error_ret u32
  | Exit
  | Ub
  | Hang

type_synonym ('s, 'a) sm = "'s \<Rightarrow> (jump + 'a) \<times> 's"

definition ret :: "'a \<Rightarrow> ('s, 'a) sm" where
  "ret x s = (Inr x, s)"

definition jump :: "jump \<Rightarrow> ('s, 'a) sm" where
  "jump e s = (Inl e, s)"

definition bnd :: "('s, 'a) sm \<Rightarrow> ('a \<Rightarrow> ('s, 'b) sm) \<Rightarrow> ('s, 'b) sm" where
  "bnd m f s = (case m s of (Inl e, s') \<Rightarrow> (Inl e, s') | (Inr x, s') \<Rightarrow> f x s')"

definition gets :: "('s \<Rightarrow> 'a) \<Rightarrow> ('s, 'a) sm" where
  "gets f s = (Inr (f s), s)"

definition upd :: "('s \<Rightarrow> 's) \<Rightarrow> ('s, unit) sm" where
  "upd f s = (Inr (), f s)"

definition unless :: "bool \<Rightarrow> jump \<Rightarrow> ('s, unit) sm" where
  "unless b e = (if b then ret () else jump e)"

definition need :: "'a option \<Rightarrow> ('s, 'a) sm" where
  "need m = (case m of None \<Rightarrow> jump Ub | Some x \<Rightarrow> ret x)"

primrec block :: "('s, unit) sm list \<Rightarrow> ('s, unit) sm" where
  "block [] = ret ()"
| "block (m # ms) = bnd m (\<lambda>_. block ms)"

text \<open>A \<^verbatim>\<open>while\<close> loop over values; one that does not end is \<open>Hang\<close>.\<close>

partial_function (option) sm_while ::
  "('a \<Rightarrow> bool) \<Rightarrow> ('a \<Rightarrow> ('s, 'a) sm) \<Rightarrow> 'a \<Rightarrow> 's \<Rightarrow> ((jump + 'a) \<times> 's) option" where
  "sm_while b f x s =
     (if b x then (case f x s of (Inl e, s') \<Rightarrow> Some (Inl e, s') | (Inr y, s') \<Rightarrow> sm_while b f y s')
      else Some (Inr x, s))"

definition loop :: "('a \<Rightarrow> bool) \<Rightarrow> ('a \<Rightarrow> ('s, 'a) sm) \<Rightarrow> 'a \<Rightarrow> ('s, 'a) sm" where
  "loop b f x s = (case sm_while b f x s of None \<Rightarrow> (Inl Hang, s) | Some r \<Rightarrow> r)"

lemma bnd_cong [fundef_cong]:
  "m = m' \<Longrightarrow> s = s' \<Longrightarrow> (\<And>x t. m' s' = (Inr x, t) \<Longrightarrow> f x t = g x t) \<Longrightarrow> bnd m f s = bnd m' g s'"
  by (auto simp: bnd_def split: prod.splits sum.splits)

lemma sm_simps [simp]:
  "bnd (ret x) f = f x" "bnd (jump e) f = jump e" "bnd (gets h) f s = f (h s) s" "bnd (upd u) k s = k () (u s)"
  "bnd (unless b e) k = (if b then k () else jump e)"
  "bnd (need None) f = jump Ub" "bnd (need (Some x)) f = f x"
  by (auto simp: fun_eq_iff bnd_def ret_def jump_def gets_def upd_def unless_def need_def)

lemma bnd_Inr: "m s = (Inr x, s') \<Longrightarrow> bnd m f s = f x s'"
  by (simp add: bnd_def)

lemma bnd_Inl: "m s = (Inl e, s') \<Longrightarrow> bnd m f s = (Inl e, s')"
  by (simp add: bnd_def)

lemma bnd_assoc: "bnd (bnd m f) g = bnd m (\<lambda>x. bnd (f x) g)"
  by (auto simp: fun_eq_iff bnd_def split: prod.splits sum.splits)

section \<open>The descriptors\<close>

record fds =
  fds_org :: "nat set"
  maxfds :: nat

definition socket_init :: fds where
  "socket_init = \<lparr>fds_org = {}, maxfds = 0\<rparr>"

definition set_fd :: "nat \<Rightarrow> fds \<Rightarrow> fds" where
  "set_fd fd s = s\<lparr>fds_org := insert fd (fds_org s), maxfds := (if fd \<ge> maxfds s then fd + 1 else maxfds s)\<rparr>"

text \<open>
  The loop of \<^verbatim>\<open>clr_fd\<close>: the value of \<open>fd + 1\<close> after the search below \<open>fd\<close>.
\<close>

fun top_below :: "nat set \<Rightarrow> nat \<Rightarrow> nat" where
  "top_below S 0 = 0"
| "top_below S (Suc fd) = (if fd \<in> S then Suc fd else top_below S fd)"

definition clr_fd :: "nat \<Rightarrow> fds \<Rightarrow> fds" where
  "clr_fd fd s =
     (let s = s\<lparr>fds_org := fds_org s - {fd}\<rparr> in
      if maxfds s = fd + 1 then s\<lparr>maxfds := top_below (fds_org s) fd\<rparr> else s)"

section \<open>Output\<close>

record chan =
  s_putbuf :: "u8 list"
  s_getbuf :: "u8 list"
  s_getpos :: nat
  s_sent :: "u8 list"
  s_wq :: "int list"
  s_rq :: "rd_ans list"

function put_flush_loop :: "u8 list \<Rightarrow> ('z chan_scheme, unit) sm" where
  "put_flush_loop p s =
     (if p = [] then (Inr (), s\<lparr>s_putbuf := []\<rparr>)
      else let (i, ws) = sys_write (length p) (s_wq s) in
        if i = - 1 then (Inl Client_dead, s\<lparr>s_wq := ws\<rparr>)
        else put_flush_loop (drop (nat i) p) (s\<lparr>s_wq := ws, s_sent := s_sent s @ take (nat i) p\<rparr>))"
  by pat_completeness auto
termination
proof (relation "measure (\<lambda>(p, s). length p + length (s_wq s))", goal_cases)
  case (2 p s x i ws)
  then show ?case by (cases "s_wq s") auto
qed simp

declare put_flush_loop.simps [simp del]

definition put_flush :: "('z chan_scheme, unit) sm" where
  "put_flush s = put_flush_loop (s_putbuf s) s"

definition put_byte :: "u32 \<Rightarrow> ('z chan_scheme, unit) sm" where
  "put_byte c = bnd (upd (\<lambda>s. s\<lparr>s_putbuf := s_putbuf s @ [ucast c]\<rparr>)) (\<lambda>_.
     bnd (gets (\<lambda>s. length (s_putbuf s))) (\<lambda>putpos.
     if putpos \<ge> BUFSIZ then put_flush else ret ()))"

definition put_work :: "u32 \<Rightarrow> ('z chan_scheme, unit) sm" where
  "put_work c = block [put_byte (drop_bit 8 c), put_byte (c AND 0xff)]"

definition put_int :: "u32 \<Rightarrow> ('z chan_scheme, unit) sm" where
  "put_int c = block [put_byte (drop_bit (8 * 3) c), put_byte (drop_bit (8 * 2) c),
     put_byte (drop_bit (8 * 1) c), put_byte c]"

text \<open>\<^verbatim>\<open>put_string\<close> and \<^verbatim>\<open>put_ndata\<close> return the advanced pointer.\<close>

fun put_string_loop :: "cbuf \<Rightarrow> ('z chan_scheme, cbuf) sm" where
  "put_string_loop [] = jump Ub"
| "put_string_loop (c # p) = bnd (put_byte (ucast c)) (\<lambda>_. if c \<noteq> 0 then put_string_loop p else ret p)"

definition put_string :: "cbuf option \<Rightarrow> ('z chan_scheme, cbuf option) sm" where
  "put_string p = (case p of
     Some p \<Rightarrow> bnd (put_string_loop p) (\<lambda>p. ret (Some p))
   | None \<Rightarrow> bnd (put_byte 0) (\<lambda>_. ret None))"

fun put_ndata :: "cbuf option \<Rightarrow> nat \<Rightarrow> ('z chan_scheme, cbuf option) sm" where
  "put_ndata p 0 = ret p"
| "put_ndata None (Suc n) = bnd (put_byte 0) (\<lambda>_. put_ndata None n)"
| "put_ndata (Some []) (Suc n) = jump Ub"
| "put_ndata (Some (c # p)) (Suc n) = bnd (put_byte (ucast c)) (\<lambda>_. put_ndata (Some p) n)"

section \<open>Input\<close>

function get_buf :: "('z chan_scheme, unit) sm" where
  "get_buf s =
     (let (a, q) = sys_read BUFSIZ (s_rq s); s' = s\<lparr>s_rq := q\<rparr> in
      case a of
        Chunk bs \<Rightarrow> if bs \<noteq> [] then (Inr (), s'\<lparr>s_getbuf := bs, s_getpos := 0\<rparr>) else (Inl Client_dead, s')
      | Eother \<Rightarrow> (Inl Client_dead, s')
      | _ \<Rightarrow> get_buf s')"
  by pat_completeness auto
termination
proof (relation "measure (\<lambda>s. script_size (s_rq s))", goal_cases)
  case (2 s x a q)
  then show ?case by (cases "(BUFSIZ, s_rq s)" rule: sys_read.cases) (auto split: if_splits)
next
  case (3 s x a q)
  then show ?case by (cases "(BUFSIZ, s_rq s)" rule: sys_read.cases) (auto split: if_splits)
qed simp

declare get_buf.simps [simp del]

definition get_byte :: "('z chan_scheme, u32) sm" where
  "get_byte = bnd (gets (\<lambda>s. s_getpos s \<ge> length (s_getbuf s))) (\<lambda>empty.
     bnd (if empty then get_buf else ret ()) (\<lambda>_.
     bnd (gets (\<lambda>s. ucast (s_getbuf s ! s_getpos s))) (\<lambda>c.
     bnd (upd (\<lambda>s. s\<lparr>s_getpos := s_getpos s + 1\<rparr>)) (\<lambda>_. ret c))))"

definition get_word :: "('z chan_scheme, u32) sm" where
  "get_word = bnd get_byte (\<lambda>i. bnd get_byte (\<lambda>j. ret (push_bit 8 i OR j)))"

definition get_int :: "('z chan_scheme, u32) sm" where
  "get_int = bnd get_byte (\<lambda>i0. bnd get_byte (\<lambda>i1. bnd get_byte (\<lambda>i2. bnd get_byte (\<lambda>i3.
     ret (push_bit (8 * 3) i0 OR push_bit (8 * 2) i1 OR push_bit (8 * 1) i2 OR i3)))))"

text \<open>Every byte read is taken from what is left, so the loops below end.\<close>

definition to_read :: "'z chan_scheme \<Rightarrow> nat" where
  "to_read s = (length (s_getbuf s) - s_getpos s) + script_size (s_rq s)"

lemma get_buf_to_read:
  "get_buf s = (Inr u, s') \<Longrightarrow> to_read s' \<le> script_size (s_rq s) \<and> s_getpos s' = 0 \<and> s_getbuf s' \<noteq> []"
proof (induction s rule: get_buf.induct)
  case (1 s)
  obtain a q where r: "sys_read BUFSIZ (s_rq s) = (a, q)" by fastforce
  note sz = sys_read_size [OF r]
  show ?case
  proof (cases a)
    case (Chunk bs)
    then obtain b bs' where "bs = b # bs'" using "1.prems" r by (subst (asm) get_buf.simps) (cases bs, auto)
    then show ?thesis
      using "1.prems" r Chunk sys_read_Chunk(1) [of BUFSIZ "s_rq s" b bs' q]
      by (subst (asm) get_buf.simps) (auto simp: to_read_def)
  next
    case Eintr
    then have "get_buf s = get_buf (s\<lparr>s_rq := q\<rparr>)" using r by (subst get_buf.simps) simp
    then show ?thesis using "1.IH"(1) [OF refl r [symmetric] refl Eintr] "1.prems" sz by auto
  next
    case Ewouldblock
    then have "get_buf s = get_buf (s\<lparr>s_rq := q\<rparr>)" using r by (subst get_buf.simps) simp
    then show ?thesis using "1.IH"(2) [OF refl r [symmetric] refl Ewouldblock] "1.prems" sz by auto
  next
    case Eother
    then show ?thesis using "1.prems" r by (subst (asm) get_buf.simps) auto
  qed
qed

lemma get_byte_to_read: "get_byte s = (Inr c, s') \<Longrightarrow> to_read s' < to_read s"
proof (cases "s_getpos s \<ge> length (s_getbuf s)")
  case True
  assume g: "get_byte s = (Inr c, s')"
  obtain r s1 where b: "get_buf s = (r, s1)" by fastforce
  with g True obtain u where u: "r = Inr u" by (cases r) (auto simp: get_byte_def bnd_def gets_def)
  have e: "s' = s1\<lparr>s_getpos := s_getpos s1 + 1\<rparr>" using g True b u by (auto simp: get_byte_def bnd_def gets_def upd_def ret_def)
  have le: "to_read s1 \<le> script_size (s_rq s)" "s_getpos s1 = 0" "s_getbuf s1 \<noteq> []"
    using get_buf_to_read b u by blast+
  have "to_read s' < to_read s1"
    using le(2,3) unfolding e by (cases "s_getbuf s1") (simp_all add: to_read_def)
  then show ?thesis using le(1) True by (simp add: to_read_def)
next
  case False
  assume "get_byte s = (Inr c, s')"
  then have "s' = s\<lparr>s_getpos := s_getpos s + 1\<rparr>" using False by (auto simp: get_byte_def ret_def)
  then show ?thesis using False by (simp add: to_read_def)
qed

text \<open>
  \<^verbatim>\<open>get_nstring\<close> fills an object of \<open>n\<close> bytes. The result is the return value and the
  bytes that were written: what lies behind them is not initialised, and a string that
  is too long has no NUL.
\<close>

function get_nstring_loop :: "int \<Rightarrow> cbuf \<Rightarrow> ('z chan_scheme, int \<times> cbuf) sm" where
  "get_nstring_loop n p s =
     bnd get_byte (\<lambda>c s'.
       let p' = (if n > 0 then p @ [ucast c] else p) in
       if c \<noteq> 0 then get_nstring_loop (n - 1) p' s' else (Inr (n - 1, p'), s')) s"
  by pat_completeness auto
termination
  by (relation "measure (\<lambda>(n, p, s). to_read s)") (auto dest: get_byte_to_read)

declare get_nstring_loop.simps [simp del]

definition get_nstring :: "int \<Rightarrow> ('z chan_scheme, u32 \<times> cbuf) sm" where
  "get_nstring n = bnd (get_nstring_loop n []) (\<lambda>(n, p). ret (if n < 0 then ERROR else 0, p))"

fun get_ndata :: "nat \<Rightarrow> ('z chan_scheme, cbuf) sm" where
  "get_ndata 0 = ret []"
| "get_ndata (Suc n) = bnd get_byte (\<lambda>c. bnd (get_ndata n) (\<lambda>p. ret (ucast c # p)))"

section \<open>The descriptor set\<close>

definition fds_wf :: "fds \<Rightarrow> bool" where
  "fds_wf s \<longleftrightarrow> maxfds s = (if fds_org s = {} then 0 else Max (fds_org s) + 1) \<and> finite (fds_org s)"

lemma fds_wf_init [simp]: "fds_wf socket_init"
  by (simp add: fds_wf_def socket_init_def)

lemma fds_wf_set_fd: "fds_wf s \<Longrightarrow> fds_wf (set_fd fd s)"
  by (auto simp: fds_wf_def set_fd_def max_def)

lemma top_below_spec:
  "(\<forall>k. top_below S n \<le> k \<and> k < n \<longrightarrow> k \<notin> S) \<and> top_below S n \<le> n \<and> (top_below S n = 0 \<or> top_below S n - 1 \<in> S)"
  by (induction n) (auto simp: less_Suc_eq)

lemma fds_wf_clr_fd:
  assumes "fds_wf s"
  shows "fds_wf (clr_fd fd s)"
proof (cases "maxfds s = fd + 1")
  case True
  let ?S = "fds_org s - {fd}"
  have fin: "finite (fds_org s)" using assms by (simp add: fds_wf_def)
  have top: "\<forall>k \<in> fds_org s. k \<le> fd" using assms True fin by (auto simp: fds_wf_def split: if_splits)
  note t = top_below_spec [of ?S fd]
  have "top_below ?S fd = (if ?S = {} then 0 else Max ?S + 1)"
  proof (cases "?S = {}")
    case True
    then show ?thesis using t by auto
  next
    case False
    then obtain k where k: "k \<in> ?S" by blast
    then have "k < fd" using top by (auto simp: le_less)
    then have pos: "top_below ?S fd \<noteq> 0" using t k by (metis le0)
    have "Max ?S = top_below ?S fd - 1"
    proof (rule Max_eqI)
      show "finite ?S" using fin by simp
      show "top_below ?S fd - 1 \<in> ?S" using t pos by blast
      fix y assume "y \<in> ?S"
      then have "y < fd" using top by (auto simp: le_less)
      then have "y < top_below ?S fd" using t \<open>y \<in> ?S\<close> by (metis not_less)
      then show "y \<le> top_below ?S fd - 1" by simp
    qed
    then show ?thesis using False pos by simp
  qed
  then show ?thesis using True fin by (simp add: clr_fd_def fds_wf_def)
next
  case False
  have "Max (fds_org s - {fd}) = Max (fds_org s)" "fds_org s - {fd} \<noteq> {}" if "fds_org s \<noteq> {}"
  proof -
    have m: "Max (fds_org s) \<noteq> fd" "Max (fds_org s) \<in> fds_org s" using assms False that by (auto simp: fds_wf_def)
    then show "fds_org s - {fd} \<noteq> {}" by blast
    show "Max (fds_org s - {fd}) = Max (fds_org s)"
      using assms m by (intro Max_eqI) (auto simp: fds_wf_def)
  qed
  then show ?thesis using assms False by (auto simp: clr_fd_def fds_wf_def)
qed

section \<open>Laws of the output\<close>

definition put_ok :: "'z chan_scheme \<Rightarrow> bool" where
  "put_ok s \<longleftrightarrow> writable (s_wq s) \<and> length (s_putbuf s) < BUFSIZ"

text \<open>From \<open>s\<close> to \<open>s'\<close> exactly the bytes \<open>bs\<close> are added to the output.\<close>

definition outputs :: "'z chan_scheme \<Rightarrow> u8 list \<Rightarrow> 'z chan_scheme \<Rightarrow> bool" where
  "outputs s bs s' \<longleftrightarrow> (\<exists>b w q. s' = s\<lparr>s_putbuf := b, s_sent := w, s_wq := q\<rparr>
     \<and> w @ b = s_sent s @ s_putbuf s @ bs \<and> writable q \<and> length b < BUFSIZ)"

lemma outputs_refl: "put_ok s \<Longrightarrow> outputs s [] s"
  unfolding outputs_def put_ok_def
  by (rule exI [of _ "s_putbuf s"], rule exI [of _ "s_sent s"], rule exI [of _ "s_wq s"]) simp

lemma outputs_trans: "outputs s bs t \<Longrightarrow> outputs t cs u \<Longrightarrow> outputs s (bs @ cs) u"
  unfolding outputs_def by (clarsimp, metis append.assoc)

lemma outputs_ok: "outputs s bs s' \<Longrightarrow> put_ok s'"
  by (auto simp: outputs_def put_ok_def)

lemma put_flush_loop_outputs:
  "writable (s_wq s) \<Longrightarrow> \<exists>q. writable q \<and> put_flush_loop p s = (Inr (), s\<lparr>s_putbuf := [], s_sent := s_sent s @ p, s_wq := q\<rparr>)"
proof (induction p s rule: put_flush_loop.induct)
  case (1 p s)
  show ?case
  proof (cases "p = []")
    case True
    then show ?thesis using 1 by (subst put_flush_loop.simps) (auto intro!: exI [of _ "s_wq s"])
  next
    case False
    then obtain j ws where j: "sys_write (length p) (s_wq s) = (j, ws)" "0 < j" "j \<le> int (length p)" "writable ws"
      using sys_write_ok [OF "1.prems", of "length p"] by auto
    let ?s2 = "s\<lparr>s_wq := ws, s_sent := s_sent s @ take (nat j) p\<rparr>"
    have "put_flush_loop p s = put_flush_loop (drop (nat j) p) ?s2"
      using False j by (subst put_flush_loop.simps) auto
    moreover obtain q where "writable q" "put_flush_loop (drop (nat j) p) ?s2
        = (Inr (), ?s2\<lparr>s_putbuf := [], s_sent := s_sent ?s2 @ drop (nat j) p, s_wq := q\<rparr>)"
      using "1.IH" [OF False refl j(1) [symmetric]] j by auto
    ultimately show ?thesis by (intro exI [of _ q]) simp
  qed
qed

lemma put_flush_outputs:
  assumes "writable (s_wq s)"
  shows "\<exists>s'. put_flush s = (Inr (), s') \<and> outputs s [] s' \<and> s_putbuf s' = []"
proof -
  obtain q where q: "writable q" "put_flush s = (Inr (), s\<lparr>s_putbuf := [], s_sent := s_sent s @ s_putbuf s, s_wq := q\<rparr>)"
    using put_flush_loop_outputs [OF assms, of "s_putbuf s"] by (auto simp: put_flush_def)
  have "outputs s [] (s\<lparr>s_putbuf := [], s_sent := s_sent s @ s_putbuf s, s_wq := q\<rparr>)"
    unfolding outputs_def using q(1) by (intro exI conjI) (rule refl, auto simp: BUFSIZ_def)
  then show ?thesis using q(2) by simp
qed

lemma put_byte_outputs:
  assumes "put_ok s"
  shows "\<exists>s'. put_byte c s = (Inr (), s') \<and> outputs s [ucast c] s'"
proof -
  let ?s1 = "s\<lparr>s_putbuf := s_putbuf s @ [ucast c]\<rparr>"
  show ?thesis
  proof (cases "length (s_putbuf ?s1) \<ge> BUFSIZ")
    case True
    obtain s' where s': "put_flush ?s1 = (Inr (), s')" "outputs ?s1 [] s'"
      using put_flush_outputs [of ?s1] assms by (auto simp: put_ok_def)
    have "outputs s [ucast c] s'" using s'(2) by (auto simp: outputs_def)
    then show ?thesis using s'(1) True by (auto simp: put_byte_def)
  next
    case False
    have "outputs s [ucast c] ?s1" unfolding outputs_def
      by (rule exI [of _ "s_putbuf s @ [ucast c]"], rule exI [of _ "s_sent s"], rule exI [of _ "s_wq s"])
        (use assms False in \<open>simp add: put_ok_def\<close>)
    then show ?thesis using False by (auto simp: put_byte_def ret_def)
  qed
qed

lemma bnd_outputs:
  assumes "m s = (Inr x, t)" "outputs s bs t" "\<exists>u. f x t = (Inr y, u) \<and> outputs t cs u"
  shows "\<exists>u. bnd m f s = (Inr y, u) \<and> outputs s (bs @ cs) u"
  using assms outputs_trans by (auto simp: bnd_def)

lemma bnd_put_byte:
  assumes "put_ok s" "\<And>t. put_ok t \<Longrightarrow> \<exists>u. f t = (Inr y, u) \<and> outputs t cs u"
  shows "\<exists>u. bnd (put_byte c) (\<lambda>_. f) s = (Inr y, u) \<and> outputs s (ucast c # cs) u"
proof -
  obtain t where t: "put_byte c s = (Inr (), t)" "outputs s [ucast c] t" using put_byte_outputs [OF assms(1)] by blast
  show ?thesis
    using bnd_outputs [where m = "put_byte c" and x = "()" and f = "\<lambda>_. f" and cs = cs, OF t assms(2) [OF outputs_ok [OF t(2)]]]
    by simp
qed

lemma ret_outputs: "put_ok s \<Longrightarrow> \<exists>u. ret x s = (Inr x, u) \<and> outputs s [] u"
  using outputs_refl by (auto simp: ret_def)

lemma put_int_outputs:
  assumes "put_ok s"
  shows "\<exists>s'. put_int c s = (Inr (), s') \<and> outputs s (be32 c) s'"
proof -
  have n: "(8 :: nat) * 3 = 24" "(8 :: nat) * 2 = 16" "(8 :: nat) * 1 = 8" by simp_all
  show ?thesis
    unfolding put_int_def block.simps n be32_def byte3_def byte2_def byte1_def byte0_def
    by (intro bnd_put_byte ret_outputs assms)
qed

lemma put_string_loop_outputs:
  "put_ok s \<Longrightarrow> 0 \<notin> set x \<Longrightarrow>
   \<exists>s'. put_string_loop (x @ 0 # r) s = (Inr r, s') \<and> outputs s (x @ [0]) s'"
proof (induction x arbitrary: s)
  case Nil
  then show ?case using bnd_put_byte [OF Nil(1) ret_outputs, of "0::u32"] by simp
next
  case (Cons c x)
  then show ?case using bnd_put_byte [OF Cons.prems(1) Cons.IH, of "ucast c"] by simp
qed

lemma put_string_outputs:
  assumes "put_ok s" "0 \<notin> set x"
  shows "\<exists>s'. put_string (Some (x @ 0 # r)) s = (Inr (Some r), s') \<and> outputs s (x @ [0]) s'"
  using put_string_loop_outputs [OF assms, of r] by (auto simp: put_string_def bnd_Inr ret_def)

lemma put_ndata_outputs:
  "put_ok s \<Longrightarrow> \<exists>s'. put_ndata (Some (x @ r)) (length x) s = (Inr (Some r), s') \<and> outputs s x s'"
proof (induction x arbitrary: s)
  case Nil
  then show ?case using ret_outputs by simp
next
  case (Cons c x)
  then show ?case using bnd_put_byte [OF Cons.prems(1) Cons.IH, of "ucast c"] by simp
qed

section \<open>Laws of the input\<close>

fun sstream :: "rd_ans list \<Rightarrow> u8 list" where
  "sstream (Chunk (b # bs) # q) = b # bs @ sstream q"
| "sstream (Eintr # q) = sstream q"
| "sstream (Ewouldblock # q) = sstream q"
| "sstream _ = []"

definition arriving :: "'z chan_scheme \<Rightarrow> u8 list" where
  "arriving s = drop (s_getpos s) (s_getbuf s) @ sstream (s_rq s)"

definition inputs :: "'z chan_scheme \<Rightarrow> 'z chan_scheme \<Rightarrow> bool" where
  "inputs s s' \<longleftrightarrow> (\<exists>b p q. s' = s\<lparr>s_getbuf := b, s_getpos := p, s_rq := q\<rparr>)"

lemma inputs_refl: "inputs s s"
  unfolding inputs_def by (rule exI [of _ "s_getbuf s"], rule exI [of _ "s_getpos s"], rule exI [of _ "s_rq s"]) simp

lemma inputs_trans: "inputs s t \<Longrightarrow> inputs t u \<Longrightarrow> inputs s u"
  unfolding inputs_def by (elim exE) (simp, blast)

lemma get_buf_arriving:
  "sstream (s_rq s) = b # bs \<Longrightarrow> \<exists>cs q. get_buf s = (Inr (), s\<lparr>s_rq := q, s_getbuf := b # cs, s_getpos := 0\<rparr>)
     \<and> bs = cs @ sstream q"
proof (induction "s_rq s" arbitrary: s rule: sstream.induct)
  case (1 c cs q)
  show ?case
  proof (cases "length (c # cs) \<le> BUFSIZ")
    case True
    then have "sys_read BUFSIZ (s_rq s) = (Chunk (c # cs), q)" unfolding 1(2) [symmetric] by simp
    then have "get_buf s = (Inr (), s\<lparr>s_rq := q, s_getbuf := c # cs, s_getpos := 0\<rparr>)"
      by (subst get_buf.simps) simp
    then show ?thesis using 1 by (metis list.inject sstream.simps(1))
  next
    case False
    obtain m where m: "BUFSIZ = Suc m" by (simp add: BUFSIZ_def)
    then obtain d ds where d: "drop m cs = d # ds" using False by (cases "drop m cs") auto
    have "sys_read BUFSIZ (s_rq s) = (Chunk (c # take m cs), Chunk (d # ds) # q)"
      unfolding 1(2) [symmetric] using False d by (simp add: m)
    then have g: "get_buf s = (Inr (), s\<lparr>s_rq := Chunk (d # ds) # q, s_getbuf := c # take m cs, s_getpos := 0\<rparr>)"
      by (subst get_buf.simps) simp
    have "cs = take m cs @ d # ds" using d by (metis append_take_drop_id)
    then have "bs = take m cs @ sstream (Chunk (d # ds) # q)" "c = b"
      using 1(3) unfolding 1(2) [symmetric] by (auto simp: append_assoc [symmetric] simp del: append_assoc)
    with g show ?thesis by blast
  qed
next
  case (2 q)
  then have "sys_read BUFSIZ (s_rq s) = (Eintr, q)" by (metis sys_read.simps(3))
  then have "get_buf s = get_buf (s\<lparr>s_rq := q\<rparr>)" by (subst get_buf.simps) simp
  then show ?case using 2(1) [of "s\<lparr>s_rq := q\<rparr>"] 2(2) [symmetric] 2(3) by simp
next
  case (3 q)
  then have "sys_read BUFSIZ (s_rq s) = (Ewouldblock, q)" by (metis sys_read.simps(4))
  then have "get_buf s = get_buf (s\<lparr>s_rq := q\<rparr>)" by (subst get_buf.simps) simp
  then show ?case using 3(1) [of "s\<lparr>s_rq := q\<rparr>"] 3(2) [symmetric] 3(3) by simp
qed (simp_all, (metis list.distinct(1) sstream.simps(5,6))+)

lemma get_byte_arriving:
  assumes "arriving s = b # bs"
  shows "\<exists>s'. get_byte s = (Inr (ucast b), s') \<and> arriving s' = bs \<and> inputs s s'"
proof (cases "s_getpos s \<ge> length (s_getbuf s)")
  case True
  then have "sstream (s_rq s) = b # bs" using assms by (simp add: arriving_def)
  then obtain cs q where g: "get_buf s = (Inr (), s\<lparr>s_rq := q, s_getbuf := b # cs, s_getpos := 0\<rparr>)" "bs = cs @ sstream q"
    using get_buf_arriving by blast
  let ?s = "s\<lparr>s_rq := q, s_getbuf := b # cs, s_getpos := 1\<rparr>"
  have "get_byte s = (Inr (ucast b), ?s)" using True g(1) by (simp add: get_byte_def bnd_Inr ret_def)
  moreover have "inputs s ?s" unfolding inputs_def
    by (rule exI [of _ "b # cs"], rule exI [of _ 1], rule exI [of _ q]) simp
  ultimately show ?thesis using g(2) by (auto simp: arriving_def)
next
  case False
  have "arriving s = s_getbuf s ! s_getpos s # drop (Suc (s_getpos s)) (s_getbuf s) @ sstream (s_rq s)"
    using False by (simp add: arriving_def Cons_nth_drop_Suc [symmetric])
  moreover have "inputs s (s\<lparr>s_getpos := s_getpos s + 1\<rparr>)" unfolding inputs_def
    by (rule exI [of _ "s_getbuf s"], rule exI [of _ "s_getpos s + 1"], rule exI [of _ "s_rq s"]) simp
  ultimately show ?thesis using False assms by (auto simp: get_byte_def ret_def arriving_def)
qed

definition took :: "('s, 'a) sm \<Rightarrow> 's \<Rightarrow> ('a \<times> 's) option" where
  "took m s = (case m s of (Inl e, s') \<Rightarrow> None | (Inr x, s') \<Rightarrow> Some (x, s'))"

lemma took_bnd: "took (bnd m f) s = do { (x, s) \<leftarrow> took m s; took (f x) s }"
  by (auto simp: took_def bnd_def split: prod.splits sum.splits)

lemma took_ret [simp]: "took (ret x) s = Some (x, s)"
  by (simp add: took_def ret_def)

lemma took_SomeD: "took m s = Some (x, s') \<Longrightarrow> m s = (Inr x, s')"
  by (auto simp: took_def split: prod.splits sum.splits)

interpretation srv: byte_reader "took get_byte" arriving inputs
proof unfold_locales
  fix s :: "'a chan_scheme" and b bs
  assume "arriving s = b # bs"
  then show "\<exists>s'. took get_byte s = Some (ucast b, s') \<and> arriving s' = bs \<and> inputs s s'"
    using get_byte_arriving [of s b bs] by (auto simp: took_def)
qed (auto intro: inputs_refl elim: inputs_trans)

lemma took_get_int: "took get_int s = read_int (took get_byte) s"
  by (simp add: get_int_def read_int_def took_bnd)

lemma get_int_arriving:
  assumes "arriving s = be32 c @ bs"
  shows "\<exists>s'. get_int s = (Inr c, s') \<and> arriving s' = bs \<and> inputs s s'"
  using srv.next_int [OF assms] by (auto simp: took_get_int [symmetric] dest: took_SomeD)

lemma get_nstring_loop_arriving:
  "arriving s = x @ 0 # bs \<Longrightarrow> 0 \<notin> set x \<Longrightarrow>
   \<exists>s'. get_nstring_loop n p s = (Inr (n - int (length x) - 1, p @ take (nat n) (x @ [0])), s')
     \<and> arriving s' = bs \<and> inputs s s'"
proof (induction x arbitrary: n p s)
  case Nil
  then obtain s' where "get_byte s = (Inr 0, s')" "arriving s' = bs" "inputs s s'"
    using get_byte_arriving [of s 0 bs] by auto
  then show ?case by (subst get_nstring_loop.simps) (auto simp: bnd_Inr take_Cons')
next
  case (Cons c x)
  obtain s1 where s1: "get_byte s = (Inr (ucast c), s1)" "arriving s1 = x @ 0 # bs" "inputs s s1"
    using get_byte_arriving [of s c "x @ 0 # bs"] Cons.prems by auto
  have nz: "(ucast c :: u32) \<noteq> 0" using Cons.prems by (metis list.set_intros(1) ucast_u8_u32 unsigned_0)
  let ?p = "if n > 0 then p @ [c] else p"
  obtain s2 where s2: "get_nstring_loop (n - 1) ?p s1
      = (Inr (n - 1 - int (length x) - 1, ?p @ take (nat (n - 1)) (x @ [0])), s2)" "arriving s2 = bs" "inputs s1 s2"
    using Cons.IH [OF s1(2), of "n - 1" ?p] Cons.prems by auto
  have e: "?p @ take (nat (n - 1)) (x @ [0]) = p @ take (nat n) ((c # x) @ [0])"
    by (cases "n > 0") (auto simp: take_Cons' nat_diff_distrib)
  have "get_nstring_loop n p s = get_nstring_loop (n - 1) ?p s1"
    using s1(1) nz by (subst get_nstring_loop.simps) (simp add: bnd_Inr)
  then show ?case using s2 e inputs_trans [OF s1(3) s2(3)] by auto
qed

lemma get_nstring_arriving:
  assumes "arriving s = x @ 0 # bs" "0 \<notin> set x"
  shows "\<exists>s'. get_nstring n s = (Inr (if n < int (length x) + 1 then ERROR else 0, take (nat n) (x @ [0])), s')
    \<and> arriving s' = bs \<and> inputs s s'"
  using get_nstring_loop_arriving [OF assms, of n "[]"] by (auto simp: get_nstring_def bnd_Inr ret_def)

lemma get_ndata_arriving:
  "arriving s = x @ bs \<Longrightarrow> \<exists>s'. get_ndata (length x) s = (Inr x, s') \<and> arriving s' = bs \<and> inputs s s'"
proof (induction x arbitrary: s)
  case Nil
  then show ?case using inputs_refl by (auto simp: ret_def)
next
  case (Cons c x)
  obtain s1 where s1: "get_byte s = (Inr (ucast c), s1)" "arriving s1 = x @ bs" "inputs s s1"
    using get_byte_arriving [of s c "x @ bs"] Cons.prems by auto
  obtain s2 where "get_ndata (length x) s1 = (Inr x, s2)" "arriving s2 = bs" "inputs s1 s2"
    using Cons.IH [OF s1(2)] by blast
  then show ?case using s1 inputs_trans by (auto simp: bnd_Inr ret_def)
qed

end
