(* ===== verification/Sj_Sdepend.thy ===== *)
theory Sj_Sdepend
  imports Sj_Comuni Sj_Study
begin

text \<open>
  \<^verbatim>\<open>lib/sj3core/sdepend.c\<close> and \<^verbatim>\<open>mkidxtbl\<close> of \<^verbatim>\<open>init.c\<close>: the dictionary and
  study files the server has open. \<^verbatim>\<open>dictlink\<close> and \<^verbatim>\<open>stdylink\<close> are lists of the
  open files, each with a reference count; a pointer to an open file is its inode number,
  which is the key the code searches by.

  The file system is part of the state: what \<^verbatim>\<open>stat\<close> answers for a name, the bytes and
  the access rights of every inode, and a script of failing writes and allocations. Seeking
  to a position of a regular file does not fail; writing behind the end leaves zeros.
\<close>

section \<open>The file system\<close>

type_synonym ino = "64 word"

datatype stat_ans = Found ino | Denied

datatype access_right = NoAccess | ReadOnly | ReadWrite

record DictFile =
  dicid :: ino
  idxlen :: nat
  seglen :: nat
  segunit :: int
  maxunit :: int
  df_refcnt :: int
  df_lock :: "nat set"
  df_buffer :: cbuf
  bufsiz :: nat
  idxstrt :: nat
  segstrt :: nat
  ofsptr :: "nat list"

record StdyFile =
  stdy_ino :: ino
  sf_refcnt :: int
  sf_header :: cbuf
  sf_stdy :: STDY

record sdep = chan +
  serv_errno :: u32
  dictlink :: "DictFile list"
  stdylink :: "StdyFile list"
  fs_name :: "u8 list \<Rightarrow> stat_ans option"
  fs_data :: "ino \<Rightarrow> u8 list"
  fs_right :: "ino \<Rightarrow> access_right"
  fs_creat :: "u8 list \<Rightarrow> ino option"
  fs_write_ok :: "bool list"
  fs_malloc_ok :: "bool list"

definition set_errno :: "u32 \<Rightarrow> 'a \<Rightarrow> ('z sdep_scheme, 'a) sm" where
  "set_errno e r s = (Inr r, s\<lparr>serv_errno := e\<rparr>)"

text \<open>Whether the next allocation succeeds; at the end of the script it does.\<close>

definition malloc :: "('z sdep_scheme, bool) sm" where
  "malloc s = (case fs_malloc_ok s of [] \<Rightarrow> (Inr True, s) | b # bs \<Rightarrow> (Inr b, s\<lparr>fs_malloc_ok := bs\<rparr>))"

definition patch :: "u8 list \<Rightarrow> nat \<Rightarrow> u8 list \<Rightarrow> u8 list" where
  "patch d pos p = take pos (d @ replicate (pos - length d) 0) @ p @ drop (pos + length p) d"

text \<open>\<^verbatim>\<open>fgetfile\<close>: \<^verbatim>\<open>fread\<close> of one item fails on a short file and for an empty item.\<close>

definition fgetfile :: "ino \<Rightarrow> nat \<Rightarrow> nat \<Rightarrow> ('z sdep_scheme, cbuf option) sm" where
  "fgetfile i pos len = bnd (gets (\<lambda>s. fs_data s i)) (\<lambda>d.
     if 0 < len \<and> pos + len \<le> length d then ret (Some (take len (drop pos d)))
     else set_errno SJ3_FileReadError None)"

definition putfile :: "ino \<Rightarrow> nat \<Rightarrow> cbuf \<Rightarrow> ('z sdep_scheme, u32) sm" where
  "putfile i pos p s =
     (case fs_write_ok s of
        False # bs \<Rightarrow> (Inr ERROR, s\<lparr>serv_errno := SJ3_FileWriteError, fs_write_ok := bs\<rparr>)
      | True # bs \<Rightarrow> (Inr SJ3_NormalEnd, s\<lparr>fs_write_ok := bs, fs_data := (fs_data s)(i := patch (fs_data s i) pos p)\<rparr>)
      | [] \<Rightarrow> (Inr SJ3_NormalEnd, s\<lparr>fs_data := (fs_data s)(i := patch (fs_data s i) pos p)\<rparr>))"

section \<open>Headers\<close>

definition get4byte :: "cbuf \<Rightarrow> nat \<Rightarrow> nat option" where
  "get4byte p i = do {
     a \<leftarrow> rd p i; b \<leftarrow> rd p (i + 1); c \<leftarrow> rd p (i + 2); d \<leftarrow> rd p (i + 3);
     Some (((unat a * 256 + unat b) * 256 + unat c) * 256 + unat d) }"

definition put4byte :: "cbuf \<Rightarrow> nat \<Rightarrow> nat \<Rightarrow> cbuf option" where
  "put4byte p i n = do {
     p \<leftarrow> wr p (i + 3) (of_nat n);
     p \<leftarrow> wr p (i + 2) (of_nat (n div 256));
     p \<leftarrow> wr p (i + 1) (of_nat (n div 256 div 256));
     wr p i (of_nat (n div 256 div 256 div 256)) }"

definition VERSIONPOS :: nat where "VERSIONPOS = 0"
definition PASSWDPOS :: nat where "PASSWDPOS = 16"
definition PASSWDLEN :: nat where "PASSWDLEN = 16"
definition HEADERLENGTH :: nat where "HEADERLENGTH = 128"
definition COMMENTLENGTH :: nat where "COMMENTLENGTH = 128"
definition DICTIDXPOS :: nat where "DICTIDXPOS = 32"
definition DICTIDXLEN :: nat where "DICTIDXLEN = 36"
definition DICTSEGPOS :: nat where "DICTSEGPOS = 48"
definition DICTSEGLEN :: nat where "DICTSEGLEN = 52"
definition DICTSEGNUM :: nat where "DICTSEGNUM = 56"
definition DICTSEGMAX :: nat where "DICTSEGMAX = 60"
definition STDYNORMPOS :: nat where "STDYNORMPOS = 32"
definition STDYNORMLEN :: nat where "STDYNORMLEN = 36"
definition STDYNORMNUM :: nat where "STDYNORMNUM = 40"
definition STDYNORMCNT :: nat where "STDYNORMCNT = 44"
definition STDYCLIDXPOS :: nat where "STDYCLIDXPOS = 48"
definition STDYCLIDXLEN :: nat where "STDYCLIDXLEN = 52"
definition STDYCLIDXSTEP :: nat where "STDYCLIDXSTEP = 56"
definition STDYCLSEGPOS :: nat where "STDYCLSEGPOS = 64"
definition STDYCLSEGLEN :: nat where "STDYCLSEGLEN = 68"
definition DICTVERSION :: nat where "DICTVERSION = 0x44020000"
definition STDYVERSION :: nat where "STDYVERSION = 0x53020000"

text \<open>\<^verbatim>\<open>strncmp\<close> as a test for equality.\<close>

fun strneq :: "nat \<Rightarrow> cbuf \<Rightarrow> cbuf \<Rightarrow> bool option" where
  "strneq 0 p q = Some True"
| "strneq (Suc n) (a # p) (b # q) = (if a \<noteq> b then Some False else if a = 0 then Some True else strneq n p q)"
| "strneq (Suc n) _ _ = None"

definition check_passwd :: "cbuf \<Rightarrow> cbuf \<Rightarrow> bool option" where
  "check_passwd buf passwd = do {
     c \<leftarrow> rd buf PASSWDPOS;
     if c \<noteq> 0 then strneq PASSWDLEN passwd (drop PASSWDPOS buf) else Some True }"

fun strncpy :: "nat \<Rightarrow> cbuf \<Rightarrow> cbuf option" where
  "strncpy 0 p = Some []"
| "strncpy (Suc n) [] = None"
| "strncpy (Suc n) (c # p) =
     (if c = 0 then Some (replicate (Suc n) 0) else do { r \<leftarrow> strncpy n p; Some (c # r) })"

definition set_passwd :: "cbuf \<Rightarrow> cbuf \<Rightarrow> cbuf option" where
  "set_passwd buf passwd = do {
     r \<leftarrow> strncpy PASSWDLEN passwd;
     if PASSWDPOS + PASSWDLEN \<le> length buf then Some (patch buf PASSWDPOS r) else None }"

definition strlcpy :: "nat \<Rightarrow> cbuf \<Rightarrow> u8 list option" where
  "strlcpy siz src = do {
     n \<leftarrow> strlen src;
     Some (if siz = 0 then [] else take (siz - 1) (take n src) @ [0]) }"

definition set_comment :: "cbuf \<Rightarrow> cbuf \<Rightarrow> cbuf option" where
  "set_comment buf comment = do {
     r \<leftarrow> strlcpy COMMENTLENGTH comment;
     if HEADERLENGTH + length r \<le> length buf then Some (patch buf HEADERLENGTH r) else None }"

definition check_dictfile :: "cbuf \<Rightarrow> bool option" where
  "check_dictfile buf = do { v \<leftarrow> get4byte buf VERSIONPOS; Some (v = DICTVERSION) }"

definition check_stdyfile :: "cbuf \<Rightarrow> bool option" where
  "check_stdyfile buf = do { v \<leftarrow> get4byte buf VERSIONPOS; Some (v = STDYVERSION) }"

section \<open>Dictionaries\<close>

definition to_ushort :: "nat \<Rightarrow> nat" where
  "to_ushort n = n mod 2 ^ 16"

definition search_same_dict :: "ino \<Rightarrow> DictFile list \<Rightarrow> DictFile option" where
  "search_same_dict i ds = find (\<lambda>d. dicid d = i) ds"

definition upd_dict :: "ino \<Rightarrow> (DictFile \<Rightarrow> DictFile) \<Rightarrow> DictFile list \<Rightarrow> DictFile list" where
  "upd_dict i f ds = map (\<lambda>d. if dicid d = i then f d else d) ds"

text \<open>
  \<^verbatim>\<open>mkidxtbl\<close>: the offsets of the index entries, each a NUL-terminated string.
\<close>

fun skip_nul :: "cbuf \<Rightarrow> nat option" where
  "skip_nul [] = None"
| "skip_nul (c # p) = (if c = 0 then Some 1 else do { n \<leftarrow> skip_nul p; Some (Suc n) })"

lemma skip_nul_pos: "skip_nul p = Some n \<Longrightarrow> 0 < n"
  by (cases p) (auto split: if_splits bind_splits)

function mkidx_loop :: "cbuf \<Rightarrow> nat \<Rightarrow> nat \<Rightarrow> int \<Rightarrow> int \<Rightarrow> nat list option" where
  "mkidx_loop idx len p seg unit =
     (if p < len \<and> seg < unit then do {
        n \<leftarrow> skip_nul (drop p idx);
        r \<leftarrow> mkidx_loop idx len (p + n) (seg + 1) unit;
        Some (to_ushort p # r) }
      else Some [])"
  by pat_completeness auto
termination
  by (relation "measure (\<lambda>(idx, len, p, seg, unit). len - p)") (auto dest: skip_nul_pos)

declare mkidx_loop.simps [simp del]

definition mkidxtbl :: "cbuf \<Rightarrow> nat \<Rightarrow> int \<Rightarrow> nat list option" where
  "mkidxtbl idx len unit = do {
     r \<leftarrow> mkidx_loop idx len 0 0 unit;
     Some (if r = [] then [0] else r) }"

definition open_dict_file :: "ino \<Rightarrow> bool \<Rightarrow> cbuf \<Rightarrow> DictFile option" where
  "open_dict_file i rw dp = do {
     il \<leftarrow> get4byte dp DICTIDXLEN;
     sl \<leftarrow> get4byte dp DICTSEGLEN;
     sn \<leftarrow> get4byte dp DICTSEGNUM;
     sm \<leftarrow> get4byte dp DICTSEGMAX;
     ip \<leftarrow> get4byte dp DICTIDXPOS;
     sp \<leftarrow> get4byte dp DICTSEGPOS;
     let unit = to_short (int sn);
     let maxu = (if rw then to_short (int sm) else 0);
     tbl \<leftarrow> mkidxtbl (drop ip dp) (to_ushort il) unit;
     Some \<lparr>dicid = i, idxlen = to_ushort il, seglen = to_ushort sl, segunit = unit, maxunit = maxu,
       df_refcnt = 1, df_lock = {}, df_buffer = dp, bufsiz = length dp, idxstrt = ip, segstrt = sp, ofsptr = tbl\<rparr> }"

text \<open>The part of \<^verbatim>\<open>opendict\<close> that reads the file.\<close>

definition opendict_load :: "ino \<Rightarrow> bool \<Rightarrow> ('z sdep_scheme, ino option) sm" where
  "opendict_load i rw =
     bnd malloc (\<lambda>m1. if \<not> m1 then set_errno SJ3_NotEnoughMemory None else
     bnd malloc (\<lambda>m2. if \<not> m2 then set_errno SJ3_NotEnoughMemory None else
     bnd (gets (\<lambda>s. length (fs_data s i))) (\<lambda>size.
     bnd (fgetfile i 0 size) (\<lambda>dp.
     case dp of None \<Rightarrow> ret None | Some dp \<Rightarrow>
     bnd malloc (\<lambda>m3. if \<not> m3 then set_errno SJ3_NotEnoughMemory None else
     bnd (need (open_dict_file i rw dp)) (\<lambda>dfp.
     bnd (upd (\<lambda>s. s\<lparr>dictlink := dfp # dictlink s\<rparr>)) (\<lambda>_. ret (Some i))))))))"

definition opendict_file :: "ino \<Rightarrow> cbuf \<Rightarrow> ('z sdep_scheme, ino option) sm" where
  "opendict_file i passwd =
     bnd (gets (\<lambda>s. fs_right s i)) (\<lambda>right.
     if right = NoAccess then set_errno SJ3_CannotOpenFile None else
     bnd (fgetfile i 0 HEADERLENGTH) (\<lambda>tmp.
     case tmp of None \<Rightarrow> ret None | Some tmp \<Rightarrow>
     bnd (need (check_dictfile tmp)) (\<lambda>ok. if \<not> ok then set_errno SJ3_IllegalDictFile None else
     bnd (need (check_passwd tmp passwd)) (\<lambda>ok. if \<not> ok then set_errno SJ3_IncorrectPasswd None else
     opendict_load i (right = ReadWrite)))))"

definition opendict :: "cbuf \<Rightarrow> cbuf \<Rightarrow> ('z sdep_scheme, ino option) sm" where
  "opendict name passwd = bnd (need (strlen name)) (\<lambda>n.
     bnd (gets (\<lambda>s. fs_name s (take n name))) (\<lambda>st.
     case st of
       None \<Rightarrow> set_errno SJ3_FileNotExist None
     | Some Denied \<Rightarrow> set_errno SJ3_CannotAccessFile None
     | Some (Found i) \<Rightarrow>
         bnd (gets (\<lambda>s. search_same_dict i (dictlink s))) (\<lambda>same.
         case same of
           Some d \<Rightarrow> bnd (upd (\<lambda>s. s\<lparr>dictlink := upd_dict i (\<lambda>d. d\<lparr>df_refcnt := df_refcnt d + 1\<rparr>) (dictlink s)\<rparr>))
                      (\<lambda>_. ret (Some i))
         | None \<Rightarrow> opendict_file i passwd)))"

text \<open>An operation on a pointer to an open dictionary; a dangling pointer is undefined.\<close>

definition on_dict :: "ino \<Rightarrow> (DictFile \<Rightarrow> DictFile list \<Rightarrow> DictFile list) \<Rightarrow> ('z sdep_scheme, unit) sm" where
  "on_dict i f = bnd (gets (\<lambda>s. search_same_dict i (dictlink s))) (\<lambda>p.
     bnd (need p) (\<lambda>d. upd (\<lambda>s. s\<lparr>dictlink := f d (dictlink s)\<rparr>)))"

definition closedict :: "ino \<Rightarrow> ('z sdep_scheme, unit) sm" where
  "closedict i = on_dict i (\<lambda>d ds.
     if df_refcnt d - 1 > 0 then upd_dict i (\<lambda>d. d\<lparr>df_refcnt := df_refcnt d - 1\<rparr>) ds
     else filter (\<lambda>d. dicid d \<noteq> i) ds)"

definition lock_dict :: "ino \<Rightarrow> nat \<Rightarrow> ('z sdep_scheme, unit) sm" where
  "lock_dict i fd = on_dict i (\<lambda>_. upd_dict i (\<lambda>d. d\<lparr>df_lock := insert fd (df_lock d)\<rparr>))"

definition unlock_dict :: "ino \<Rightarrow> nat \<Rightarrow> ('z sdep_scheme, unit) sm" where
  "unlock_dict i fd = on_dict i (\<lambda>_. upd_dict i (\<lambda>d. d\<lparr>df_lock := df_lock d - {fd}\<rparr>))"

definition is_dict_locked :: "DictFile \<Rightarrow> bool" where
  "is_dict_locked d = (df_lock d \<noteq> {})"

definition first_bytes :: "nat \<Rightarrow> cbuf \<Rightarrow> cbuf option" where
  "first_bytes n p = (if n \<le> length p then Some (take n p) else None)"

definition set_dictpass :: "ino \<Rightarrow> cbuf \<Rightarrow> ('z sdep_scheme, u32) sm" where
  "set_dictpass i pass =
     bnd (gets (\<lambda>s. search_same_dict i (dictlink s))) (\<lambda>p. bnd (need p) (\<lambda>d.
     bnd (need (set_passwd (df_buffer d) pass)) (\<lambda>b.
     bnd (on_dict i (\<lambda>_. upd_dict i (\<lambda>d. d\<lparr>df_buffer := b\<rparr>))) (\<lambda>_.
     bnd (need (first_bytes (HEADERLENGTH + COMMENTLENGTH) b)) (putfile i 0)))))"

definition set_dictcmnt :: "ino \<Rightarrow> cbuf \<Rightarrow> ('z sdep_scheme, u32) sm" where
  "set_dictcmnt i cmnt =
     bnd (gets (\<lambda>s. search_same_dict i (dictlink s))) (\<lambda>p. bnd (need p) (\<lambda>d.
     bnd (need (set_comment (df_buffer d) cmnt)) (\<lambda>b.
     bnd (on_dict i (\<lambda>_. upd_dict i (\<lambda>d. d\<lparr>df_buffer := b\<rparr>))) (\<lambda>_.
     bnd (need (first_bytes (HEADERLENGTH + COMMENTLENGTH) b)) (putfile i 0)))))"

section \<open>Study files\<close>

definition search_same_stdy :: "ino \<Rightarrow> StdyFile list \<Rightarrow> StdyFile option" where
  "search_same_stdy i ss = find (\<lambda>p. stdy_ino p = i) ss"

definition upd_stdy :: "ino \<Rightarrow> (StdyFile \<Rightarrow> StdyFile) \<Rightarrow> StdyFile list \<Rightarrow> StdyFile list" where
  "upd_stdy i f ss = map (\<lambda>p. if stdy_ino p = i then f p else p) ss"

definition on_stdy :: "ino \<Rightarrow> (StdyFile \<Rightarrow> StdyFile list \<Rightarrow> StdyFile list) \<Rightarrow> ('z sdep_scheme, unit) sm" where
  "on_stdy i f = bnd (gets (\<lambda>s. search_same_stdy i (stdylink s))) (\<lambda>p.
     bnd (need p) (\<lambda>d. upd (\<lambda>s. s\<lparr>stdylink := f d (stdylink s)\<rparr>)))"

definition closestdy :: "ino \<Rightarrow> ('z sdep_scheme, unit) sm" where
  "closestdy i = on_stdy i (\<lambda>p ss.
     if sf_refcnt p - 1 > 0 then upd_stdy i (\<lambda>p. p\<lparr>sf_refcnt := sf_refcnt p - 1\<rparr>) ss
     else filter (\<lambda>p. stdy_ino p \<noteq> i) ss)"

text \<open>
  A learning record in memory and in the file, as the compilers for 64-bit little-endian
  machines lay it out: 24 bytes, with two bytes of padding behind \<^verbatim>\<open>styno\<close> and four at
  the end.
\<close>

definition le :: "nat \<Rightarrow> nat \<Rightarrow> u8 list" where
  "le k n = map (\<lambda>i. of_nat (n div 256 ^ i)) [0..<k]"

definition le_val :: "u8 list \<Rightarrow> nat" where
  "le_val bs = foldr (\<lambda>b a. unat b + 256 * a) bs 0"

definition SIZEOF_STDYIN :: nat where "SIZEOF_STDYIN = 24"
definition SIZEOF_STDYOUT :: nat where "SIZEOF_STDYOUT = 32"

definition ushort_of :: "int \<Rightarrow> nat" where
  "ushort_of x = nat (x mod 2 ^ 16)"

definition enc_STDYIN :: "STDYIN \<Rightarrow> u8 list" where
  "enc_STDYIN e = le 2 (st_offset e) @ le 2 (ushort_of (st_seg e)) @ le 2 (ushort_of (styno e)) @ [0, 0]
     @ le 8 (st_dicid e)
     @ [of_nat ((if sttkj e then 1 else 0) + (if ka_kj e then 2 else 0) + (if nmflg e then 4 else 0)), 0, 0, 0]
     @ [0, 0, 0, 0]"

definition dec_STDYIN :: "u8 list \<Rightarrow> STDYIN" where
  "dec_STDYIN p = (let f = unat (p ! 16) in
     \<lparr>st_offset = le_val (take 2 p), st_seg = to_short (int (le_val (take 2 (drop 2 p)))),
      styno = to_short (int (le_val (take 2 (drop 4 p)))), st_dicid = le_val (take 8 (drop 8 p)),
      sttkj = (f mod 2 = 1), ka_kj = (f div 2 mod 2 = 1), nmflg = (f div 4 mod 2 = 1)\<rparr>)"

fun dec_STDYINs :: "nat \<Rightarrow> u8 list \<Rightarrow> STDYIN list" where
  "dec_STDYINs 0 p = []"
| "dec_STDYINs (Suc n) p = dec_STDYIN p # dec_STDYINs n (drop SIZEOF_STDYIN p)"

fun dec_ushorts :: "u8 list \<Rightarrow> u16 list" where
  "dec_ushorts (a # b # p) = mk16 b a # dec_ushorts p"
| "dec_ushorts _ = []"

definition enc_ushorts :: "u16 list \<Rightarrow> u8 list" where
  "enc_ushorts xs = concat (map (\<lambda>x. [lo8 x, hi8 x]) xs)"

text \<open>
  The records of a study area whose part of the file cannot be read: the memory is not
  initialised, and no record counts.
\<close>

definition blank_STDYIN :: STDYIN where
  "blank_STDYIN = dec_STDYIN (replicate 24 0)"

definition open_stdy_file :: "ino \<Rightarrow> cbuf \<Rightarrow> ('z sdep_scheme, ino option) sm" where
  "open_stdy_file i hdr =
     bnd (need (get4byte hdr STDYNORMCNT)) (\<lambda>cnt.
     bnd (need (get4byte hdr STDYNORMPOS)) (\<lambda>pos.
     bnd (need (get4byte hdr STDYNORMNUM)) (\<lambda>mx.
     bnd (need (get4byte hdr STDYCLIDXPOS)) (\<lambda>clidxpos.
     bnd (need (get4byte hdr STDYCLIDXLEN)) (\<lambda>clidxlen.
     bnd (need (get4byte hdr STDYCLSEGPOS)) (\<lambda>clpos.
     bnd (need (get4byte hdr STDYCLSEGLEN)) (\<lambda>cllen.
     bnd (need (get4byte hdr STDYCLIDXSTEP)) (\<lambda>step.
     let nomem = set_errno SJ3_NotEnoughMemory None in
     bnd malloc (\<lambda>m. if \<not> m then nomem else
     bnd malloc (\<lambda>m. if \<not> m then nomem else
     bnd malloc (\<lambda>m. if \<not> m then nomem else
     bnd malloc (\<lambda>m. if \<not> m then nomem else
     bnd (fgetfile i clidxpos clidxlen) (\<lambda>cip. case cip of None \<Rightarrow> ret None | Some cip \<Rightarrow>
     bnd (fgetfile i clpos cllen) (\<lambda>clp. case clp of None \<Rightarrow> ret None | Some clp \<Rightarrow>
     bnd (fgetfile i pos (SIZEOF_STDYIN * mx)) (\<lambda>sp.
     let st = \<lparr>stdycnt = (if sp = None then 0 else to_short (int cnt)), stdymax = to_short (int mx),
               stdydic = (case sp of None \<Rightarrow> replicate mx blank_STDYIN | Some sp \<Rightarrow> dec_STDYINs mx sp),
               clstdystep = to_short (int step), clstdyidx = dec_ushorts cip,
               clstdylen = to_short (int cllen), clstdydic = clp\<rparr> in
     bnd (upd (\<lambda>s. s\<lparr>stdylink := \<lparr>stdy_ino = i, sf_refcnt = 1, sf_header = hdr, sf_stdy = st\<rparr> # stdylink s\<rparr>))
       (\<lambda>_. ret (Some i)))))))))))))))))"

definition openstdy :: "cbuf \<Rightarrow> cbuf \<Rightarrow> ('z sdep_scheme, ino option) sm" where
  "openstdy name passwd = bnd (need (strlen name)) (\<lambda>n.
     bnd (gets (\<lambda>s. fs_name s (take n name))) (\<lambda>st.
     case st of
       None \<Rightarrow> set_errno SJ3_FileNotExist None
     | Some Denied \<Rightarrow> set_errno SJ3_CannotAccessFile None
     | Some (Found i) \<Rightarrow>
         bnd (gets (\<lambda>s. search_same_stdy i (stdylink s))) (\<lambda>same.
         case same of
           Some p \<Rightarrow> bnd (upd (\<lambda>s. s\<lparr>stdylink := upd_stdy i (\<lambda>p. p\<lparr>sf_refcnt := sf_refcnt p + 1\<rparr>) (stdylink s)\<rparr>))
                      (\<lambda>_. ret (Some i))
         | None \<Rightarrow>
             bnd malloc (\<lambda>m. if \<not> m then set_errno SJ3_NotEnoughMemory None else
             bnd (gets (\<lambda>s. fs_right s i)) (\<lambda>right.
             if right \<noteq> ReadWrite then set_errno SJ3_CannotOpenFile None else
             bnd (fgetfile i 0 (HEADERLENGTH + COMMENTLENGTH)) (\<lambda>hdr.
             case hdr of None \<Rightarrow> ret None | Some hdr \<Rightarrow>
             bnd (need (check_stdyfile hdr)) (\<lambda>ok. if \<not> ok then set_errno SJ3_IllegalStdyFile None else
             bnd (need (check_passwd hdr passwd)) (\<lambda>ok. if \<not> ok then set_errno SJ3_IncorrectPasswd None else
             open_stdy_file i hdr))))))))"

text \<open>
  \<^verbatim>\<open>putstydic\<close> and \<^verbatim>\<open>putcldic\<close> write the area of the study file \<open>i\<close> back.
\<close>

definition putstydic :: "ino \<Rightarrow> ('z sdep_scheme, u32) sm" where
  "putstydic i =
     bnd (gets (\<lambda>s. search_same_stdy i (stdylink s))) (\<lambda>p. bnd (need p) (\<lambda>sf.
     bnd (need (put4byte (sf_header sf) STDYNORMCNT (nat (stdycnt (sf_stdy sf))))) (\<lambda>hdr.
     bnd (need (put4byte hdr STDYNORMLEN (SIZEOF_STDYIN * nat (stdymax (sf_stdy sf))))) (\<lambda>hdr.
     bnd (on_stdy i (\<lambda>_. upd_stdy i (\<lambda>p. p\<lparr>sf_header := hdr\<rparr>))) (\<lambda>_.
     bnd (need (first_bytes (HEADERLENGTH + COMMENTLENGTH) hdr)) (\<lambda>h.
     bnd (putfile i 0 h) (\<lambda>r. if r \<noteq> 0 then ret ERROR else
     bnd (need (get4byte hdr STDYNORMPOS)) (\<lambda>pos.
     bnd (need (first_bytes (SIZEOF_STDYIN * nat (stdymax (sf_stdy sf))) (concat (map enc_STDYIN (stdydic (sf_stdy sf))))))
       (putfile i pos)))))))))"

definition putcldic :: "ino \<Rightarrow> ('z sdep_scheme, u32) sm" where
  "putcldic i =
     bnd (gets (\<lambda>s. search_same_stdy i (stdylink s))) (\<lambda>p. bnd (need p) (\<lambda>sf.
     let hdr = sf_header sf in
     bnd (need (get4byte hdr STDYCLIDXPOS)) (\<lambda>ipos. bnd (need (get4byte hdr STDYCLIDXLEN)) (\<lambda>ilen.
     bnd (need (first_bytes ilen (enc_ushorts (clstdyidx (sf_stdy sf))))) (\<lambda>idx.
     bnd (putfile i ipos idx) (\<lambda>r. if r \<noteq> 0 then ret ERROR else
     bnd (need (get4byte hdr STDYCLSEGPOS)) (\<lambda>spos. bnd (need (get4byte hdr STDYCLSEGLEN)) (\<lambda>slen.
     bnd (need (first_bytes slen (clstdydic (sf_stdy sf)))) (putfile i spos)))))))))"

definition set_stdypass :: "ino \<Rightarrow> cbuf \<Rightarrow> ('z sdep_scheme, u32) sm" where
  "set_stdypass i pass =
     bnd (gets (\<lambda>s. search_same_stdy i (stdylink s))) (\<lambda>p. bnd (need p) (\<lambda>sf.
     bnd (need (set_passwd (sf_header sf) pass)) (\<lambda>b.
     bnd (on_stdy i (\<lambda>_. upd_stdy i (\<lambda>p. p\<lparr>sf_header := b\<rparr>))) (\<lambda>_.
     bnd (need (first_bytes (HEADERLENGTH + COMMENTLENGTH) b)) (putfile i 0)))))"

definition set_stdycmnt :: "ino \<Rightarrow> cbuf \<Rightarrow> ('z sdep_scheme, u32) sm" where
  "set_stdycmnt i cmnt =
     bnd (gets (\<lambda>s. search_same_stdy i (stdylink s))) (\<lambda>p. bnd (need p) (\<lambda>sf.
     bnd (need (set_comment (sf_header sf) cmnt)) (\<lambda>b.
     bnd (on_stdy i (\<lambda>_. upd_stdy i (\<lambda>p. p\<lparr>sf_header := b\<rparr>))) (\<lambda>_.
     bnd (need (first_bytes (HEADERLENGTH + COMMENTLENGTH) b)) (putfile i 0)))))"

definition get_stdysize :: "STDY \<Rightarrow> u32 \<times> u32 \<times> u32" where
  "get_stdysize st = (word_of_int (stdymax st), word_of_int (clstdystep st), word_of_int (clstdylen st))"

definition sj_closeall :: "'z sdep_scheme \<Rightarrow> 'z sdep_scheme" where
  "sj_closeall s = s\<lparr>dictlink := [], stdylink := []\<rparr>"

section \<open>New files\<close>

text \<open>
  \<^verbatim>\<open>fopen(path, "w")\<close>: the inode the file gets, or \<open>None\<close>; the file is empty.
\<close>

definition fopen_w :: "u8 list \<Rightarrow> ('z sdep_scheme, ino option) sm" where
  "fopen_w path = bnd (gets (\<lambda>s. fs_creat s path)) (\<lambda>c.
     case c of None \<Rightarrow> ret None
     | Some i \<Rightarrow> bnd (upd (\<lambda>s. s\<lparr>fs_name := (fs_name s)(path := Some (Found i)),
         fs_data := (fs_data s)(i := []), fs_right := (fs_right s)(i := ReadWrite)\<rparr>)) (\<lambda>_. ret (Some i)))"

definition unlink :: "u8 list \<Rightarrow> ('z sdep_scheme, unit) sm" where
  "unlink path = upd (\<lambda>s. s\<lparr>fs_name := (fs_name s)(path := None)\<rparr>)"

text \<open>
  The writes of a new file in order: each block of bytes goes to its position, and the
  first that fails ends the work; then the file is removed.
\<close>

fun put_blocks :: "ino \<Rightarrow> (nat \<times> u8 list) list \<Rightarrow> ('z sdep_scheme, u32) sm" where
  "put_blocks i [] = ret SJ3_NormalEnd"
| "put_blocks i ((pos, p) # bs) = bnd (putfile i pos p) (\<lambda>r. if r \<noteq> SJ3_NormalEnd then ret ERROR else put_blocks i bs)"

definition write_new :: "u8 list \<Rightarrow> (nat \<times> u8 list) list \<Rightarrow> ('z sdep_scheme, u32) sm" where
  "write_new path bs = bnd (fopen_w path) (\<lambda>f.
     case f of None \<Rightarrow> set_errno SJ3_CannotCreateFile ERROR
     | Some i \<Rightarrow> bnd (put_blocks i bs) (\<lambda>r.
         if r \<noteq> SJ3_NormalEnd then bnd (unlink path) (\<lambda>_. ret r) else ret r))"

definition header :: "(nat \<times> nat) list \<Rightarrow> cbuf option" where
  "header fs = fold (\<lambda>(pos, n) h. do { h \<leftarrow> h; put4byte h pos n }) fs (Some (replicate (HEADERLENGTH + COMMENTLENGTH) 0))"

abbreviation MINIDXLEN :: int where "MINIDXLEN \<equiv> 512"
abbreviation MINSEGLEN :: int where "MINSEGLEN \<equiv> 512"
abbreviation MINSEGNUM :: int where "MINSEGNUM \<equiv> 1"
abbreviation MINSTYNUM :: int where "MINSTYNUM \<equiv> 512"
abbreviation MAXSTYNUM :: int where "MAXSTYNUM \<equiv> 0x7fff"
abbreviation MINCLSTEP :: int where "MINCLSTEP \<equiv> 1"
abbreviation MAXCLSTEP :: int where "MAXCLSTEP \<equiv> 256"
abbreviation MINCLLEN :: int where "MINCLLEN \<equiv> 512"
abbreviation MAXCLLEN :: int where "MAXCLLEN \<equiv> 0x7fff"

definition dict_header :: "nat \<Rightarrow> nat \<Rightarrow> nat \<Rightarrow> cbuf option" where
  "dict_header il sl sn =
     (let pos = HEADERLENGTH + COMMENTLENGTH in
      header [(VERSIONPOS, DICTVERSION), (DICTIDXPOS, pos), (DICTIDXLEN, il), (DICTSEGPOS, pos + il),
        (DICTSEGLEN, sl), (DICTSEGNUM, 1), (DICTSEGMAX, sn)])"

definition makedict :: "u8 list \<Rightarrow> int \<Rightarrow> int \<Rightarrow> int \<Rightarrow> ('z sdep_scheme, u32) sm" where
  "makedict path il sl sn =
     (if il < MINIDXLEN \<or> sl < MINSEGLEN \<or> sn < MINSEGNUM then set_errno SJ3_IllegalParameter ERROR
      else let pos = HEADERLENGTH + COMMENTLENGTH in
        bnd (need (dict_header (nat il) (nat sl) (nat sn))) (\<lambda>tmp.
        write_new path [(pos, replicate (nat il) 0), (pos + nat il, 0 # replicate (nat sl - 1) 0xff), (0, tmp)]))"

definition stdy_header :: "nat \<Rightarrow> nat \<Rightarrow> nat \<Rightarrow> cbuf option" where
  "stdy_header stynum clstep cllen =
     (let pos = HEADERLENGTH + COMMENTLENGTH; j = 512 in
      header [(VERSIONPOS, STDYVERSION), (STDYCLIDXPOS, pos), (STDYCLIDXLEN, j), (STDYCLIDXSTEP, clstep),
        (STDYCLSEGPOS, pos + j), (STDYCLSEGLEN, cllen), (STDYNORMPOS, pos + j + cllen),
        (STDYNORMLEN, SIZEOF_STDYIN * stynum), (STDYNORMNUM, stynum), (STDYNORMCNT, 0)])"

definition makestdy :: "u8 list \<Rightarrow> int \<Rightarrow> int \<Rightarrow> int \<Rightarrow> ('z sdep_scheme, u32) sm" where
  "makestdy path stynum clstep cllen =
     (let stynum = (if stynum = 0 then MINSTYNUM else stynum);
          clstep = (if clstep = 0 then MINCLSTEP else clstep);
          cllen = (if cllen = 0 then MINCLLEN else cllen) in
      if stynum < MINSTYNUM \<or> clstep < MINCLSTEP \<or> cllen < MINCLLEN then set_errno SJ3_IllegalParameter ERROR
      else if stynum > MAXSTYNUM \<or> clstep > MAXCLSTEP \<or> cllen > MAXCLLEN then set_errno SJ3_IllegalParameter ERROR
      else let pos = HEADERLENGTH + COMMENTLENGTH; j = 512 in
        bnd (need (stdy_header (nat stynum) (nat clstep) (nat cllen))) (\<lambda>tmp.
        write_new path [(pos, replicate j 0), (pos + j, replicate (nat cllen) 0),
          (pos + j + nat cllen, replicate (SIZEOF_STDYIN * nat stynum) 0), (0, tmp)]))"

end
