(* ===== verification/Sj_Sdepend_Laws.thy ===== *)
theory Sj_Sdepend_Laws
  imports Sj_Sdepend
begin

text \<open>
  Laws of \<^verbatim>\<open>lib/sj3core/sdepend.c\<close>: the header fields do not disturb each other, a
  dictionary or study file that \<^verbatim>\<open>makedict\<close> or \<^verbatim>\<open>makestdy\<close> has written is one that
  \<^verbatim>\<open>opendict\<close> or \<^verbatim>\<open>openstdy\<close> accepts, with the sizes asked for, and what
  \<^verbatim>\<open>putstydic\<close> and \<^verbatim>\<open>putcldic\<close> have written is read again on the next
  \<^verbatim>\<open>openstdy\<close>.
\<close>

section \<open>Headers\<close>

lemma patch_in: "pos + length p \<le> length d \<Longrightarrow> patch d pos p = take pos d @ p @ drop (pos + length p) d"
  by (simp add: patch_def)

lemma length_patch: "pos + length p \<le> length d \<Longrightarrow> length (patch d pos p) = length d"
  by (simp add: patch_in)

lemma patch_end: "pos = length d \<Longrightarrow> patch d pos p = d @ p"
  by (simp add: patch_def)

lemma patch_0: "length p \<le> length d \<Longrightarrow> patch d 0 p = p @ drop (length p) d"
  by (simp add: patch_def)

definition set4 :: "cbuf \<Rightarrow> nat \<Rightarrow> nat \<Rightarrow> cbuf" where
  "set4 p i n = p[i + 3 := of_nat n, i + 2 := of_nat (n div 256), i + 1 := of_nat (n div 256 div 256),
     i := of_nat (n div 256 div 256 div 256)]"

lemma length_set4 [simp]: "length (set4 p i n) = length p"
  by (simp add: set4_def)

lemma put4byte_in: "i + 3 < length p \<Longrightarrow> put4byte p i n = Some (set4 p i n)"
  by (simp add: put4byte_def wr_in set4_def)

lemma get4byte_in: "i + 3 < length p \<Longrightarrow> get4byte p i =
    Some (((unat (p ! i) * 256 + unat (p ! (i + 1))) * 256 + unat (p ! (i + 2))) * 256 + unat (p ! (i + 3)))"
  by (simp add: get4byte_def rd_in)

lemma nat_bytes: "(n :: nat) < 2 ^ 32 \<Longrightarrow>
   ((n div 256 div 256 div 256 mod 256 * 256 + n div 256 div 256 mod 256) * 256 + n div 256 mod 256) * 256 + n mod 256 = n"
proof -
  assume "n < 2 ^ 32"
  then have "n div 256 div 256 div 256 mod 256 = n div 256 div 256 div 256" by (simp add: div_mult2_eq [symmetric])
  then show ?thesis by (metis div_mult_mod_eq)
qed

lemma get4byte_set4: "i + 3 < length p \<Longrightarrow> n < 2 ^ 32 \<Longrightarrow> get4byte (set4 p i n) i = Some n"
  using nat_bytes [of n] by (simp add: get4byte_in set4_def unat_of_nat nth_list_update)

lemma nth_set4_other: "k < i \<or> i + 3 < k \<Longrightarrow> set4 p i n ! k = p ! k"
  by (auto simp: set4_def)

lemma get4byte_set4_other:
  assumes "i + 3 < j \<or> j + 3 < i" "i + 3 < length p" "j + 3 < length p"
  shows "get4byte (set4 p i n) j = get4byte p j"
proof -
  have "set4 p i n ! (j + k) = p ! (j + k)" if "k \<le> 3" for k
    using assms(1) that by (intro nth_set4_other) auto
  from this [of 0] this [of 1] this [of 2] this [of 3] show ?thesis
    using assms by (simp add: get4byte_in)
qed

lemma get4byte_append: "i + 3 < length p \<Longrightarrow> get4byte (p @ q) i = get4byte p i"
  by (simp add: get4byte_in nth_append)

lemma get4byte_take: "i + 3 < n \<Longrightarrow> n \<le> length p \<Longrightarrow> get4byte (take n p) i = get4byte p i"
  by (simp add: get4byte_in)

fun apart :: "nat list \<Rightarrow> bool" where
  "apart [] = True"
| "apart (i # is) = ((\<forall>j \<in> set is. i + 3 < j \<or> j + 3 < i) \<and> apart is)"

definition put4s :: "(nat \<times> nat) list \<Rightarrow> cbuf \<Rightarrow> cbuf" where
  "put4s fs h = fold (\<lambda>(pos, n) h. set4 h pos n) fs h"

lemma length_put4s [simp]: "length (put4s fs h) = length h"
  unfolding put4s_def by (induction fs arbitrary: h) auto

lemma put4s_Cons: "put4s ((pos, n) # fs) h = put4s fs (set4 h pos n)"
  by (simp add: put4s_def)

lemma header_fold:
  "\<forall>(pos, n) \<in> set fs. pos + 3 < length h \<Longrightarrow>
   fold (\<lambda>(pos, n) h. do { h \<leftarrow> h; put4byte h pos n }) fs (Some h) = Some (put4s fs h)"
  by (induction fs arbitrary: h) (auto simp: put4s_def put4byte_in)

lemma get4byte_put4s_other:
  "\<forall>j \<in> fst ` set fs. i + 3 < j \<or> j + 3 < i \<Longrightarrow> \<forall>j \<in> fst ` set fs. j + 3 < length h \<Longrightarrow> i + 3 < length h \<Longrightarrow>
   get4byte (put4s fs h) i = get4byte h i"
proof (induction fs arbitrary: h)
  case (Cons f fs)
  obtain j n where f: "f = (j, n)" by (cases f)
  have "get4byte (put4s (f # fs) h) i = get4byte (set4 h j n) i"
    using Cons.IH [of "set4 h j n"] Cons.prems f by (simp add: put4s_Cons)
  also have "\<dots> = get4byte h i" using Cons.prems f by (intro get4byte_set4_other) auto
  finally show ?case .
qed (simp add: put4s_def)

lemma get4byte_put4s:
  "(i, n) \<in> set fs \<Longrightarrow> apart (map fst fs) \<Longrightarrow> \<forall>j \<in> fst ` set fs. j + 3 < length h \<Longrightarrow> n < 2 ^ 32 \<Longrightarrow>
   get4byte (put4s fs h) i = Some n"
proof (induction fs arbitrary: h)
  case (Cons f fs)
  obtain j m where f: "f = (j, m)" by (cases f)
  show ?case
  proof (cases "(i, n) = (j, m)")
    case True
    have "get4byte (put4s (f # fs) h) i = get4byte (set4 h i n) i"
      using Cons.prems f True unfolding f put4s_Cons by (subst get4byte_put4s_other) auto
    then show ?thesis using Cons.prems f True by (simp add: get4byte_set4)
  next
    case False
    then show ?thesis using Cons f by (auto simp: put4s_Cons)
  qed
qed simp

lemma header_get:
  assumes "apart (map fst fs)" "\<forall>j \<in> fst ` set fs. j + 3 < 256"
  shows "\<exists>h. header fs = Some h \<and> length h = 256 \<and> (\<forall>(i, n) \<in> set fs. n < 2 ^ 32 \<longrightarrow> get4byte h i = Some n)
    \<and> (\<forall>i < 256. (\<forall>j \<in> fst ` set fs. i < j \<or> j + 3 < i) \<longrightarrow> h ! i = 0)"
proof -
  let ?z = "replicate 256 0 :: cbuf"
  have h: "header fs = Some (put4s fs ?z)"
    using header_fold [of fs ?z] assms(2) by (force simp: header_def HEADERLENGTH_def COMMENTLENGTH_def)
  have other: "put4s fs z ! i = z ! i" if "\<forall>j \<in> fst ` set fs. i < j \<or> j + 3 < i" for i and z :: cbuf
    using that
  proof (induction fs arbitrary: z)
    case (Cons f fs)
    obtain j m where f: "f = (j, m)" by (cases f)
    have "put4s (f # fs) z ! i = set4 z j m ! i" using Cons f by (simp add: put4s_Cons)
    also have "\<dots> = z ! i" using Cons.prems f by (auto simp: set4_def)
    finally show ?case .
  qed (simp add: put4s_def)
  have "\<forall>(i, n) \<in> set fs. n < 2 ^ 32 \<longrightarrow> get4byte (put4s fs ?z) i = Some n"
    using get4byte_put4s [of _ _ fs ?z] assms by auto
  then show ?thesis using h other by auto
qed

lemma putfile_ok_data:
  "putfile i pos p s = (Inr 0, s') \<Longrightarrow> fs_data s' i = patch (fs_data s i) pos p \<and> fs_name s' = fs_name s
     \<and> fs_right s' = fs_right s \<and> dictlink s' = dictlink s \<and> stdylink s' = stdylink s \<and> fs_malloc_ok s' = fs_malloc_ok s"
  by (auto simp: putfile_def split: list.splits bool.splits)

lemma putfile_result: "\<exists>r s'. putfile i pos p s = (Inr r, s')"
  by (auto simp: putfile_def split: list.splits bool.splits)

lemma put_blocks_ok:
  "put_blocks i bs s = (Inr 0, s') \<Longrightarrow>
   fs_data s' i = fold (\<lambda>(pos, p) d. patch d pos p) bs (fs_data s i) \<and> fs_name s' = fs_name s
     \<and> fs_right s' = fs_right s \<and> dictlink s' = dictlink s \<and> stdylink s' = stdylink s \<and> fs_malloc_ok s' = fs_malloc_ok s"
proof (induction bs arbitrary: s)
  case Nil
  then show ?case by (simp add: ret_def)
next
  case (Cons b bs)
  obtain pos p where b: "b = (pos, p)" by (cases b)
  obtain r s1 where p: "putfile i pos p s = (Inr r, s1)" using putfile_result by blast
  then have "r = 0" "put_blocks i bs s1 = (Inr 0, s')"
    using Cons.prems b by (auto simp: bnd_Inr ret_def split: if_splits)
  then show ?case using Cons.IH [of s1] putfile_ok_data [of i pos p s s1] p b by simp
qed

lemma write_new_ok:
  assumes "write_new path bs s = (Inr 0, s')"
  shows "\<exists>i. fs_creat s path = Some i \<and> fs_name s' path = Some (Found i) \<and> fs_right s' i = ReadWrite
    \<and> fs_data s' i = fold (\<lambda>(pos, p) d. patch d pos p) bs [] \<and> dictlink s' = dictlink s \<and> stdylink s' = stdylink s
    \<and> fs_malloc_ok s' = fs_malloc_ok s"
proof (cases "fs_creat s path")
  case None
  then show ?thesis using assms by (simp add: write_new_def fopen_w_def bnd_assoc set_errno_def)
next
  case (Some i)
  let ?s1 = "s\<lparr>fs_name := (fs_name s)(path \<mapsto> Found i), fs_data := (fs_data s)(i := []), fs_right := (fs_right s)(i := ReadWrite)\<rparr>"
  obtain r s2 where p: "put_blocks i bs ?s1 = (r, s2)" by fastforce
  have w: "write_new path bs s = bnd (put_blocks i bs) (\<lambda>r. if r \<noteq> SJ3_NormalEnd then bnd (unlink path) (\<lambda>_. ret r) else ret r) ?s1"
    using Some by (simp add: write_new_def fopen_w_def bnd_assoc)
  have "r = Inr 0 \<and> s' = s2"
    using assms p unfolding w by (cases r) (auto simp: bnd_def unlink_def upd_def ret_def split: if_splits)
  then show ?thesis using put_blocks_ok [of i bs ?s1 s2] p Some by auto
qed

lemma dict_header_get:
  assumes "il < 2 ^ 16" "sl < 2 ^ 16" "sn < 2 ^ 15"
  shows "\<exists>h. dict_header il sl sn = Some h \<and> length h = 256 \<and> get4byte h VERSIONPOS = Some DICTVERSION
    \<and> get4byte h DICTIDXPOS = Some 256 \<and> get4byte h DICTIDXLEN = Some il \<and> get4byte h DICTSEGPOS = Some (256 + il)
    \<and> get4byte h DICTSEGLEN = Some sl \<and> get4byte h DICTSEGNUM = Some 1 \<and> get4byte h DICTSEGMAX = Some sn
    \<and> h ! PASSWDPOS = 0"
proof -
  let ?fs = "[(VERSIONPOS, DICTVERSION), (DICTIDXPOS, 256), (DICTIDXLEN, il), (DICTSEGPOS, 256 + il),
        (DICTSEGLEN, sl), (DICTSEGNUM, 1), (DICTSEGMAX, sn)]"
  have "apart (map fst ?fs)" "\<forall>j \<in> fst ` set ?fs. j + 3 < 256"
    by (simp_all add: VERSIONPOS_def DICTIDXPOS_def DICTIDXLEN_def DICTSEGPOS_def DICTSEGLEN_def DICTSEGNUM_def DICTSEGMAX_def)
  from header_get [OF this] obtain h where
    h: "header ?fs = Some h" "length h = 256" "\<forall>(i, n) \<in> set ?fs. n < 2 ^ 32 \<longrightarrow> get4byte h i = Some n"
      "\<forall>i < 256. (\<forall>j \<in> fst ` set ?fs. i < j \<or> j + 3 < i) \<longrightarrow> h ! i = 0" by blast
  have d: "dict_header il sl sn = header ?fs"
    by (simp add: dict_header_def Let_def HEADERLENGTH_def COMMENTLENGTH_def)
  have pw: "h ! PASSWDPOS = 0" using h(4)
    by (simp add: PASSWDPOS_def VERSIONPOS_def DICTIDXPOS_def DICTIDXLEN_def DICTSEGPOS_def DICTSEGLEN_def DICTSEGNUM_def DICTSEGMAX_def)
  show ?thesis using h(3) assms pw unfolding d h(1) using h(2) by (auto simp: DICTVERSION_def)
qed

lemma makedict_data:
  assumes "makedict path (int il) (int sl) (int sn) s = (Inr 0, s')" "il < 2 ^ 16" "sl < 2 ^ 16" "sn < 2 ^ 15"
  shows "\<exists>i h. fs_creat s path = Some i \<and> fs_name s' path = Some (Found i) \<and> fs_right s' i = ReadWrite
    \<and> dict_header il sl sn = Some h \<and> fs_data s' i = h @ replicate il 0 @ 0 # replicate (sl - 1) 0xff
    \<and> dictlink s' = dictlink s \<and> fs_malloc_ok s' = fs_malloc_ok s \<and> 512 \<le> il \<and> 512 \<le> sl \<and> 1 \<le> sn"
proof -
  obtain h where h: "dict_header il sl sn = Some h" "length h = 256" using dict_header_get [OF assms(2-4)] by blast
  have g: "512 \<le> il" "512 \<le> sl" "1 \<le> sn"
    using assms(1) by (auto simp: makedict_def set_errno_def split: if_splits)
  let ?b = "[(256, replicate il 0), (256 + il, 0 # replicate (sl - 1) 0xff), (0, h)]"
  have "write_new path ?b s = (Inr 0, s')"
    using assms(1) g h(1) by (simp add: makedict_def Let_def HEADERLENGTH_def COMMENTLENGTH_def)
  from write_new_ok [OF this] obtain i where
    i: "fs_creat s path = Some i" "fs_name s' path = Some (Found i)" "fs_right s' i = ReadWrite"
      "fs_data s' i = fold (\<lambda>(pos, p) d. patch d pos p) ?b []" "dictlink s' = dictlink s" "fs_malloc_ok s' = fs_malloc_ok s"
    by blast
  have "patch [] 256 (replicate il 0) = replicate 256 0 @ replicate il 0" by (simp add: patch_def)
  then have "fs_data s' i = h @ replicate il 0 @ 0 # replicate (sl - 1) 0xff"
    using i(4) h(2) by (simp add: patch_end patch_0)
  then show ?thesis using i h(1) g by blast
qed

lemma makedict_opens:
  assumes mk: "makedict path (int il) (int sl) (int sn) s = (Inr 0, s')" "il < 2 ^ 16" "sl < 2 ^ 16" "sn < 2 ^ 15"
    and p: "0 \<notin> set path" "fs_malloc_ok s = []" "\<forall>d \<in> set (dictlink s). fs_creat s path \<noteq> Some (dicid d)"
  shows "\<exists>d. opendict (path @ [0]) pw s' = (Inr (fs_creat s path), s'\<lparr>dictlink := d # dictlink s'\<rparr>)
    \<and> fs_creat s path = Some (dicid d) \<and> idxlen d = il \<and> seglen d = sl \<and> segunit d = 1 \<and> maxunit d = int sn
    \<and> idxstrt d = 256 \<and> segstrt d = 256 + il \<and> ofsptr d = [0] \<and> df_refcnt d = 1 \<and> df_lock d = {}
    \<and> df_buffer d = fs_data s' (dicid d)"
proof -
  from makedict_data [OF mk] obtain i h where
    i: "fs_creat s path = Some i" "fs_name s' path = Some (Found i)" "fs_right s' i = ReadWrite"
      "dict_header il sl sn = Some h" "fs_data s' i = h @ replicate il 0 @ 0 # replicate (sl - 1) 0xff"
      "dictlink s' = dictlink s" "fs_malloc_ok s' = fs_malloc_ok s" "512 \<le> il" "512 \<le> sl" "1 \<le> sn" by blast
  from dict_header_get [OF mk(2-4)] i(4) have
    h: "length h = 256" "get4byte h VERSIONPOS = Some DICTVERSION" "get4byte h DICTIDXPOS = Some 256"
      "get4byte h DICTIDXLEN = Some il" "get4byte h DICTSEGPOS = Some (256 + il)" "get4byte h DICTSEGLEN = Some sl"
      "get4byte h DICTSEGNUM = Some 1" "get4byte h DICTSEGMAX = Some sn" "h ! PASSWDPOS = 0" by auto
  let ?d = "h @ replicate il 0 @ 0 # replicate (sl - 1) 0xff"
  have t: "take HEADERLENGTH ?d = take 128 h" using h(1) by (simp add: HEADERLENGTH_def)
  have c: "check_dictfile (take 128 h) = Some True"
    using h(1,2) by (simp add: check_dictfile_def get4byte_take VERSIONPOS_def)
  have pw: "check_passwd (take 128 h) pw = Some True"
    using h(1,9) by (simp add: check_passwd_def rd_in PASSWDPOS_def)
  obtain m where m: "il = Suc m" using i(8) by (cases il) auto
  have tbl: "mkidxtbl (drop 256 ?d) (to_ushort il) 1 = Some [0]"
  proof -
    have dr: "drop 256 ?d = 0 # replicate m 0 @ 0 # replicate (sl - 1) 0xff" using h(1) m by simp
    have "mkidx_loop (drop 256 ?d) il 1 1 1 = Some []" by (subst mkidx_loop.simps) simp
    then have "mkidx_loop (drop 256 ?d) il 0 0 1 = Some [0]"
      unfolding dr using m by (subst mkidx_loop.simps) (simp add: to_ushort_def)
    then show ?thesis using mk(2) by (simp add: mkidxtbl_def to_ushort_def)
  qed
  let ?dd = "\<lparr>dicid = i, idxlen = il, seglen = sl, segunit = 1, maxunit = int sn, df_refcnt = 1, df_lock = {},
      df_buffer = ?d, bufsiz = length ?d, idxstrt = 256, segstrt = 256 + il, ofsptr = [0]\<rparr>"
  have sn: "to_short (int sn) = int sn" using mk(4) by (intro to_short_id) auto
  have pos: "DICTIDXLEN + 3 < 256" "DICTSEGLEN + 3 < 256" "DICTSEGNUM + 3 < 256" "DICTSEGMAX + 3 < 256" "DICTIDXPOS + 3 < 256" "DICTSEGPOS + 3 < 256"
    by (simp_all add: DICTIDXLEN_def DICTSEGLEN_def DICTSEGNUM_def DICTSEGMAX_def DICTIDXPOS_def DICTSEGPOS_def)
  have o: "open_dict_file i True ?d = Some ?dd"
    unfolding open_dict_file_def using h pos mk(2,3) tbl sn
    by (simp add: get4byte_append to_ushort_def)
  have nf: "search_same_dict i (dictlink s') = None"
    unfolding search_same_dict_def find_None_iff using p(3) i(1,6) by auto
  have "strlen (path @ [0]) = Some (length path)" using p(1) by simp
  then have "opendict (path @ [0]) pw s' = (Inr (Some i), s'\<lparr>dictlink := ?dd # dictlink s'\<rparr>)"
    using i p(2) nf t c pw o h(1)
    by (simp add: opendict_def opendict_file_def opendict_load_def fgetfile_def malloc_def bnd_Inr ret_def upd_def HEADERLENGTH_def)
  then show ?thesis using i(1,5) by (intro exI [of _ ?dd]) simp
qed

section \<open>Records\<close>

lemma le_val_Cons [simp]: "le_val [] = 0" "le_val (b # bs) = unat b + 256 * le_val bs"
  by (simp_all add: le_val_def)

lemma length_le [simp]: "length (le k n) = k"
  by (simp add: le_def)

lemma le_Suc: "le (Suc k) n = of_nat n # le k (n div 256)"
proof -
  have "[0..<Suc k] = 0 # map Suc [0..<k]" by (simp add: upt_conv_Cons map_Suc_upt del: upt_Suc)
  then show ?thesis unfolding le_def by (simp add: comp_def div_mult2_eq del: upt_Suc)
qed

lemma le_val_le: "n < 256 ^ k \<Longrightarrow> le_val (le k n) = n"
proof (induction k arbitrary: n)
  case 0
  then show ?case by (simp add: le_def)
next
  case (Suc k)
  then have "n div 256 < 256 ^ k" by (simp add: less_mult_imp_div_less)
  then show ?case using Suc.IH [of "n div 256"] by (simp add: le_Suc unat_of_nat)
qed

definition stdyin_ok :: "STDYIN \<Rightarrow> bool" where
  "stdyin_ok e \<longleftrightarrow> st_offset e < 2 ^ 16 \<and> - (2 ^ 15) \<le> st_seg e \<and> st_seg e < 2 ^ 15
     \<and> - (2 ^ 15) \<le> styno e \<and> styno e < 2 ^ 15 \<and> st_dicid e < 2 ^ 64"

lemma to_short_ushort_of: "- (2 ^ 15) \<le> x \<Longrightarrow> x < 2 ^ 15 \<Longrightarrow> to_short (int (ushort_of x)) = x"
  by (simp add: to_short_def ushort_of_def mod_add_left_eq)

lemma ushort_of_less: "ushort_of x < 256 ^ 2"
  by (simp add: ushort_of_def nat_less_iff)

lemma le_val_ushort_of: "le_val (le 2 (ushort_of x)) = ushort_of x"
  by (rule le_val_le [OF ushort_of_less])

lemma length_enc_STDYIN [simp]: "length (enc_STDYIN e) = 24"
  by (simp add: enc_STDYIN_def)

lemma dec_enc_STDYIN:
  assumes "stdyin_ok e"
  shows "dec_STDYIN (enc_STDYIN e @ r) = e"
proof -
  let ?p = "enc_STDYIN e @ r"
  define f :: nat where "f = (if sttkj e then 1 else 0) + (if ka_kj e then 2 else 0) + (if nmflg e then 4 else 0)"
  have p: "?p = le 2 (st_offset e) @ le 2 (ushort_of (st_seg e)) @ le 2 (ushort_of (styno e)) @ [0, 0]
     @ le 8 (st_dicid e) @ [of_nat f, 0, 0, 0] @ [0, 0, 0, 0] @ r"
    by (simp add: enc_STDYIN_def f_def)
  have "f < 8" by (simp add: f_def)
  then have f: "unat (?p ! 16) = f" unfolding p by (simp add: nth_append unat_of_nat)
  have "take 2 ?p = le 2 (st_offset e)" "take 2 (drop 2 ?p) = le 2 (ushort_of (st_seg e))"
    "take 2 (drop 4 ?p) = le 2 (ushort_of (styno e))" "take 8 (drop 8 ?p) = le 8 (st_dicid e)"
    unfolding p by simp_all
  moreover have "st_offset e < 256 ^ 2" "st_dicid e < 256 ^ 8" using assms by (simp_all add: stdyin_ok_def)
  moreover have "(f mod 2 = 1) = sttkj e" "(f div 2 mod 2 = 1) = ka_kj e" "(f div 4 mod 2 = 1) = nmflg e"
    by (simp_all add: f_def)
  ultimately show ?thesis
    using assms unfolding dec_STDYIN_def Let_def f
    by (simp add: le_val_le le_val_ushort_of to_short_ushort_of stdyin_ok_def)
qed

lemma dec_enc_STDYINs:
  "\<forall>e \<in> set es. stdyin_ok e \<Longrightarrow> dec_STDYINs (length es) (concat (map enc_STDYIN es) @ r) = es"
  by (induction es) (simp_all add: dec_enc_STDYIN SIZEOF_STDYIN_def)

lemma length_encs: "length (concat (map enc_STDYIN es)) = 24 * length es"
  by (induction es) simp_all

text \<open>What \<^verbatim>\<open>putstydic\<close> has written is what \<^verbatim>\<open>openstdy\<close> reads.\<close>

lemma patch_read_grow: "take (length p) (drop pos (patch d pos p)) = p"
  by (simp add: patch_def)

lemma opendict_same:
  assumes "strlen name = Some n" "fs_name s (take n name) = Some (Found i)" "search_same_dict i (dictlink s) = Some d"
  shows "opendict name passwd s =
    (Inr (Some i), s\<lparr>dictlink := upd_dict i (\<lambda>d. d\<lparr>df_refcnt := df_refcnt d + 1\<rparr>) (dictlink s)\<rparr>)"
  using assms by (simp add: opendict_def upd_def ret_def)

lemma fgetfile_in:
  "0 < len \<Longrightarrow> pos + len \<le> length (fs_data s i) \<Longrightarrow>
   fgetfile i pos len s = (Inr (Some (take len (drop pos (fs_data s i)))), s)"
  by (simp add: fgetfile_def ret_def)

lemma HEADERLENGTH_pos: "0 < HEADERLENGTH"
  by (simp add: HEADERLENGTH_def)

lemma opendict_passwd:
  assumes "strlen name = Some n" "fs_name s (take n name) = Some (Found i)" "search_same_dict i (dictlink s) = None"
    and "opendict name passwd s = (Inr (Some j), s')"
  shows "j = i \<and> check_passwd (take HEADERLENGTH (fs_data s i)) passwd = Some True
    \<and> check_dictfile (take HEADERLENGTH (fs_data s i)) = Some True \<and> HEADERLENGTH \<le> length (fs_data s i)"
proof -
  have o: "opendict_file i passwd s = (Inr (Some j), s')" using assms by (simp add: opendict_def)
  have f: "HEADERLENGTH \<le> length (fs_data s i)"
    using o by (auto simp: opendict_file_def fgetfile_def set_errno_def ret_def bnd_def gets_def split: if_splits)
  let ?h = "take HEADERLENGTH (fs_data s i)"
  have o2: "bnd (need (check_dictfile ?h)) (\<lambda>ok. if \<not> ok then set_errno SJ3_IllegalDictFile None else
     bnd (need (check_passwd ?h passwd)) (\<lambda>ok. if \<not> ok then set_errno SJ3_IncorrectPasswd None else
     opendict_load i (fs_right s i = ReadWrite))) s = (Inr (Some j), s')"
    using o f HEADERLENGTH_pos by (cases "fs_right s i = NoAccess")
      (simp_all add: opendict_file_def bnd_Inr fgetfile_in set_errno_def)
  have c: "check_dictfile ?h = Some True"
    using o2 by (cases "check_dictfile ?h") (auto simp: need_def set_errno_def jump_def ret_def bnd_def split: if_splits)
  have p: "check_passwd ?h passwd = Some True"
    using o2 c by (cases "check_passwd ?h passwd") (auto simp: need_def set_errno_def jump_def ret_def bnd_def split: if_splits)
  have "opendict_load i (fs_right s i = ReadWrite) s = (Inr (Some j), s')" using o2 c p by simp
  then have "j = i"
    by (auto simp: opendict_load_def bnd_def malloc_def set_errno_def ret_def gets_def fgetfile_def need_def jump_def upd_def
       split: if_splits list.splits option.splits sum.splits prod.splits)
  then show ?thesis using f c p by simp
qed

lemma read_patch:
  assumes "pos + length p \<le> length d" "a + m \<le> pos \<or> pos + length p \<le> a"
  shows "take m (drop a (patch d pos p)) = take m (drop a d)"
proof (cases "a + m \<le> pos")
  case True
  then show ?thesis using assms(1) by (simp add: patch_in take_drop)
next
  case False
  then have le: "pos + length p \<le> a" using assms(2) by simp
  have "drop a (patch d pos p) = drop (a - pos - length p) (drop (pos + length p) d)"
    using assms(1) le by (simp add: patch_in)
  then show ?thesis using le by simp
qed

definition stdy_file_ok :: "StdyFile \<Rightarrow> nat \<Rightarrow> bool" where
  "stdy_file_ok sf n \<longleftrightarrow>
     (let h = sf_header sf; st = sf_stdy sf in
      length h = 256 \<and> get4byte h VERSIONPOS = Some STDYVERSION
      \<and> 0 \<le> stdycnt st \<and> stdycnt st \<le> stdymax st \<and> 0 < stdymax st \<and> stdymax st \<le> 0x7fff
      \<and> length (stdydic st) = nat (stdymax st) \<and> list_all stdyin_ok (stdydic st)
      \<and> clstdylen st = int (length (clstdydic st)) \<and> clstdydic st \<noteq> [] \<and> clstdylen st \<le> 0x7fff
      \<and> 0 \<le> clstdystep st \<and> clstdystep st \<le> 0x7fff \<and> clstdyidx st \<noteq> []
      \<and> get4byte h STDYNORMNUM = Some (nat (stdymax st))
      \<and> get4byte h STDYCLIDXLEN = Some (2 * length (clstdyidx st))
      \<and> get4byte h STDYCLSEGLEN = Some (length (clstdydic st))
      \<and> get4byte h STDYCLIDXSTEP = Some (nat (clstdystep st))
      \<and> (case (get4byte h STDYCLIDXPOS, get4byte h STDYCLSEGPOS, get4byte h STDYNORMPOS) of
           (Some ip, Some sp, Some np) \<Rightarrow> 256 \<le> ip \<and> ip + 2 * length (clstdyidx st) \<le> sp
             \<and> sp + length (clstdydic st) \<le> np \<and> np + 24 * nat (stdymax st) \<le> n
         | _ \<Rightarrow> False))"

lemma dec_enc_ushorts: "dec_ushorts (enc_ushorts xs) = xs"
  by (induction xs) (simp_all add: enc_ushorts_def)

lemma length_enc_ushorts: "length (enc_ushorts xs) = 2 * length xs"
  by (induction xs) (simp_all add: enc_ushorts_def)

lemma search_upd_stdy:
  "search_same_stdy i ss = Some p \<Longrightarrow> (\<And>p. stdy_ino (f p) = stdy_ino p) \<Longrightarrow>
   search_same_stdy i (upd_stdy i f ss) = Some (f p)"
  by (induction ss) (auto simp: search_same_stdy_def upd_stdy_def)

lemma putstydic_eq:
  assumes sf: "search_same_stdy i (stdylink s) = Some sf"
    and h: "length (sf_header sf) = 256" "get4byte (sf_header sf) STDYNORMPOS = Some pos"
    and st: "length (stdydic (sf_stdy sf)) = nat (stdymax (sf_stdy sf))"
    and h2: "h2 = set4 (set4 (sf_header sf) STDYNORMCNT (nat (stdycnt (sf_stdy sf)))) STDYNORMLEN (SIZEOF_STDYIN * nat (stdymax (sf_stdy sf)))"
  shows "putstydic i s = bnd (putfile i 0 h2)
    (\<lambda>r. if r \<noteq> 0 then ret ERROR else putfile i pos (concat (map enc_STDYIN (stdydic (sf_stdy sf)))))
    (s\<lparr>stdylink := upd_stdy i (\<lambda>p. p\<lparr>sf_header := h2\<rparr>) (stdylink s)\<rparr>)"
proof -
  let ?st = "sf_stdy sf" and ?n = "nat (stdymax (sf_stdy sf))"
  let ?h1 = "set4 (sf_header sf) STDYNORMCNT (nat (stdycnt ?st))"
  let ?R = "concat (map enc_STDYIN (stdydic ?st))"
  note pos = STDYNORMCNT_def STDYNORMLEN_def STDYNORMPOS_def
  have p4: "put4byte (sf_header sf) STDYNORMCNT (nat (stdycnt ?st)) = Some ?h1"
    "put4byte ?h1 STDYNORMLEN (SIZEOF_STDYIN * ?n) = Some h2" "length h2 = 256"
    using h(1) h2 by (simp_all add: put4byte_in pos)
  have hp: "get4byte h2 STDYNORMPOS = Some pos"
    using h h2 by (simp add: get4byte_set4_other pos)
  have fb: "first_bytes (HEADERLENGTH + COMMENTLENGTH) h2 = Some h2"
    using p4(3) by (simp add: first_bytes_def HEADERLENGTH_def COMMENTLENGTH_def)
  have fr: "first_bytes (SIZEOF_STDYIN * ?n) ?R = Some ?R"
    using st by (simp add: first_bytes_def length_encs SIZEOF_STDYIN_def)
  show ?thesis using sf p4 fb fr hp by (simp add: putstydic_def on_stdy_def bnd_Inr upd_def cong: if_cong)
qed

lemma putcldic_eq:
  assumes "search_same_stdy i (stdylink s) = Some sf"
    and "get4byte (sf_header sf) STDYCLIDXPOS = Some ip" "get4byte (sf_header sf) STDYCLIDXLEN = Some (2 * length (clstdyidx (sf_stdy sf)))"
      "get4byte (sf_header sf) STDYCLSEGPOS = Some sp" "get4byte (sf_header sf) STDYCLSEGLEN = Some (length (clstdydic (sf_stdy sf)))"
  shows "putcldic i s = bnd (putfile i ip (enc_ushorts (clstdyidx (sf_stdy sf))))
    (\<lambda>r. if r \<noteq> 0 then ret ERROR else putfile i sp (clstdydic (sf_stdy sf))) s"
  using assms by (simp add: putcldic_def first_bytes_def length_enc_ushorts Let_def cong: if_cong)

lemma two_writes:
  assumes "bnd (putfile i a p) (\<lambda>r. if r \<noteq> 0 then ret ERROR else putfile i b q) s = (Inr 0, s')"
  shows "fs_data s' i = patch (patch (fs_data s i) a p) b q \<and> stdylink s' = stdylink s \<and> fs_name s' = fs_name s
    \<and> fs_right s' = fs_right s \<and> fs_malloc_ok s' = fs_malloc_ok s"
proof -
  obtain r s2 where 1: "putfile i a p s = (Inr r, s2)" using putfile_result by blast
  then have "r = 0" and 2: "putfile i b q s2 = (Inr 0, s')" using assms by (auto simp: bnd_Inr ret_def split: if_splits)
  then show ?thesis using putfile_ok_data [of i a p s s2] 1 putfile_ok_data [OF 2] by simp
qed

lemma two_writes_succeed:
  "fs_write_ok s = [] \<Longrightarrow> \<exists>s'. bnd (putfile i a p) (\<lambda>r. if r \<noteq> 0 then ret ERROR else putfile i b q) s = (Inr 0, s') \<and> fs_write_ok s' = []"
  by (simp add: putfile_def bnd_def)

lemma putstydic_run:
  assumes "search_same_stdy i (stdylink s) = Some sf" and "putstydic i s = (Inr 0, s')"
    and "length (sf_header sf) = 256" "get4byte (sf_header sf) STDYNORMPOS = Some pos"
    and "length (stdydic (sf_stdy sf)) = nat (stdymax (sf_stdy sf))"
    and "h2 = set4 (set4 (sf_header sf) STDYNORMCNT (nat (stdycnt (sf_stdy sf)))) STDYNORMLEN (SIZEOF_STDYIN * nat (stdymax (sf_stdy sf)))"
  shows "fs_data s' i = patch (patch (fs_data s i) 0 h2) pos (concat (map enc_STDYIN (stdydic (sf_stdy sf))))
    \<and> stdylink s' = upd_stdy i (\<lambda>p. p\<lparr>sf_header := h2\<rparr>) (stdylink s) \<and> fs_name s' = fs_name s \<and> fs_right s' = fs_right s
    \<and> fs_malloc_ok s' = fs_malloc_ok s"
  using two_writes [OF assms(2) [unfolded putstydic_eq [OF assms(1,3-6)]]] by simp

lemma putcldic_run:
  assumes "search_same_stdy i (stdylink s) = Some sf" and "putcldic i s = (Inr 0, s')"
    and "get4byte (sf_header sf) STDYCLIDXPOS = Some ip" "get4byte (sf_header sf) STDYCLIDXLEN = Some (2 * length (clstdyidx (sf_stdy sf)))"
      "get4byte (sf_header sf) STDYCLSEGPOS = Some sp" "get4byte (sf_header sf) STDYCLSEGLEN = Some (length (clstdydic (sf_stdy sf)))"
  shows "fs_data s' i = patch (patch (fs_data s i) ip (enc_ushorts (clstdyidx (sf_stdy sf)))) sp (clstdydic (sf_stdy sf))
    \<and> stdylink s' = stdylink s \<and> fs_name s' = fs_name s \<and> fs_right s' = fs_right s \<and> fs_malloc_ok s' = fs_malloc_ok s"
  using two_writes [OF assms(2) [unfolded putcldic_eq [OF assms(1,3-6)]]] .

lemma four_patches:
  assumes "length h = 256" "256 \<le> ip" "ip + length I \<le> sp" "sp + length C \<le> np" "np + length R \<le> length d"
    and e: "e = patch (patch (patch (patch d 0 h) np R) ip I) sp C"
  shows "take 256 e = h" "take (length I) (drop ip e) = I" "take (length C) (drop sp e) = C"
    "take (length R) (drop np e) = R" "length e = length d"
proof -
  let ?d1 = "patch d 0 h" let ?d2 = "patch ?d1 np R" let ?d3 = "patch ?d2 ip I"
  have l: "length ?d1 = length d" "length ?d2 = length d" "length ?d3 = length d" using assms by (simp_all add: length_patch)
  show "length e = length d" using assms l by (simp add: length_patch)
  have "take 256 e = take 256 ?d1" using assms l by (simp add: read_patch [where a = 0, simplified])
  also have "\<dots> = h" using patch_read_grow [of h 0 d] assms by simp
  finally show "take 256 e = h" .
  have "take (length I) (drop ip e) = take (length I) (drop ip ?d3)" using assms l by (simp add: read_patch)
  then show "take (length I) (drop ip e) = I" by (simp add: patch_read_grow)
  show "take (length C) (drop sp e) = C" using e by (simp add: patch_read_grow)
  have "take (length R) (drop np e) = take (length R) (drop np ?d2)" using assms l by (simp add: read_patch)
  then show "take (length R) (drop np e) = R" by (simp add: patch_read_grow)
qed

lemma to_short_nat: "0 \<le> n \<Longrightarrow> n \<le> 0x7fff \<Longrightarrow> to_short (int (nat n)) = n"
  by (simp add: to_short_id)

lemma openstdy_reads:
  assumes n: "strlen name = Some n" "fs_name s (take n name) = Some (Found i)" "search_same_stdy i (stdylink s) = None"
      "fs_malloc_ok s = []" "fs_right s i = ReadWrite" "check_passwd h pw = Some True"
    and h: "256 \<le> length (fs_data s i)" "h = take 256 (fs_data s i)" "get4byte h VERSIONPOS = Some STDYVERSION"
    and p: "get4byte h STDYNORMCNT = Some cnt" "get4byte h STDYNORMPOS = Some np" "get4byte h STDYNORMNUM = Some mx"
      "get4byte h STDYCLIDXPOS = Some ip" "get4byte h STDYCLIDXLEN = Some il" "get4byte h STDYCLSEGPOS = Some sp"
      "get4byte h STDYCLSEGLEN = Some sl" "get4byte h STDYCLIDXSTEP = Some step"
    and l: "0 < il" "ip + il \<le> length (fs_data s i)" "0 < sl" "sp + sl \<le> length (fs_data s i)"
      "0 < mx" "np + SIZEOF_STDYIN * mx \<le> length (fs_data s i)"
    and st: "st = \<lparr>stdycnt = to_short (int cnt), stdymax = to_short (int mx),
               stdydic = dec_STDYINs mx (take (SIZEOF_STDYIN * mx) (drop np (fs_data s i))),
               clstdystep = to_short (int step), clstdyidx = dec_ushorts (take il (drop ip (fs_data s i))),
               clstdylen = to_short (int sl), clstdydic = take sl (drop sp (fs_data s i))\<rparr>"
  shows "openstdy name pw s = (Inr (Some i), s\<lparr>stdylink := \<lparr>stdy_ino = i, sf_refcnt = 1, sf_header = h, sf_stdy = st\<rparr> # stdylink s\<rparr>)"
proof -
  have m: "malloc s = (Inr True, s)" using n(4) by (simp add: malloc_def)
  have g: "fgetfile i 0 (HEADERLENGTH + COMMENTLENGTH) s = (Inr (Some h), s)"
    using h(1,2) by (simp add: fgetfile_in HEADERLENGTH_def COMMENTLENGTH_def)
  have c: "check_stdyfile h = Some True" using h(3) by (simp add: check_stdyfile_def)
  have o: "openstdy name pw s = open_stdy_file i h s"
    using n m g c by (simp add: openstdy_def bnd_Inr)
  have sz: "0 < SIZEOF_STDYIN * mx" using l(5) by (simp add: SIZEOF_STDYIN_def)
  show ?thesis unfolding o open_stdy_file_def Let_def
    using p m fgetfile_in [OF l(1,2)] fgetfile_in [OF l(3,4)] fgetfile_in [OF sz l(6)]
    by (simp add: bnd_Inr upd_def ret_def st)
qed

lemma strneq_prefix: "n \<le> m \<Longrightarrow> strneq n p (take m q) = strneq n p q"
  by (induction n p q arbitrary: m rule: strneq.induct) (auto simp: take_Cons' Suc_le_eq)

lemma check_passwd_cong:
  assumes "take 16 (drop 16 h) = take 16 (drop 16 g)" "16 < length h" "16 < length g"
  shows "check_passwd h pw = check_passwd g pw"
proof -
  have "h ! 16 = g ! 16" using assms nth_take [of 0 16 "drop 16 h"] nth_take [of 0 16 "drop 16 g"] by simp
  moreover have "strneq 16 pw (drop 16 h) = strneq 16 pw (drop 16 g)"
    using assms(1) strneq_prefix [of 16 16 pw "drop 16 h"] strneq_prefix [of 16 16 pw "drop 16 g"] by simp
  ultimately show ?thesis using assms by (simp add: check_passwd_def rd_in PASSWDPOS_def PASSWDLEN_def)
qed

lemma read_set4: "a + m \<le> i \<Longrightarrow> take m (drop a (set4 p i n)) = take m (drop a p)"
  by (rule nth_equalityI) (auto simp: nth_set4_other)

lemma stdy_file_okD:
  assumes "stdy_file_ok sf n"
  shows "length (sf_header sf) = 256" "get4byte (sf_header sf) VERSIONPOS = Some STDYVERSION"
    "0 \<le> stdycnt (sf_stdy sf)" "stdycnt (sf_stdy sf) \<le> stdymax (sf_stdy sf)" "0 < stdymax (sf_stdy sf)"
    "stdymax (sf_stdy sf) \<le> 0x7fff" "length (stdydic (sf_stdy sf)) = nat (stdymax (sf_stdy sf))"
    "\<forall>e \<in> set (stdydic (sf_stdy sf)). stdyin_ok e" "clstdylen (sf_stdy sf) = int (length (clstdydic (sf_stdy sf)))"
    "clstdydic (sf_stdy sf) \<noteq> []" "clstdylen (sf_stdy sf) \<le> 0x7fff" "0 \<le> clstdystep (sf_stdy sf)"
    "clstdystep (sf_stdy sf) \<le> 0x7fff" "clstdyidx (sf_stdy sf) \<noteq> []"
    "get4byte (sf_header sf) STDYNORMNUM = Some (nat (stdymax (sf_stdy sf)))"
    "get4byte (sf_header sf) STDYCLIDXLEN = Some (2 * length (clstdyidx (sf_stdy sf)))"
    "get4byte (sf_header sf) STDYCLSEGLEN = Some (length (clstdydic (sf_stdy sf)))"
    "get4byte (sf_header sf) STDYCLIDXSTEP = Some (nat (clstdystep (sf_stdy sf)))"
  using assms by (simp_all add: stdy_file_ok_def Let_def list_all_iff)

lemma stdy_file_okE:
  assumes "stdy_file_ok sf n"
  obtains ip sp np where "get4byte (sf_header sf) STDYCLIDXPOS = Some ip" "get4byte (sf_header sf) STDYCLSEGPOS = Some sp"
      "get4byte (sf_header sf) STDYNORMPOS = Some np" "256 \<le> ip" "ip + 2 * length (clstdyidx (sf_stdy sf)) \<le> sp"
      "sp + length (clstdydic (sf_stdy sf)) \<le> np" "np + 24 * nat (stdymax (sf_stdy sf)) \<le> n"
  using assms by (auto simp: stdy_file_ok_def Let_def split: option.splits)

definition stored :: "StdyFile \<Rightarrow> u8 list \<Rightarrow> bool" where
  "stored sf d \<longleftrightarrow>
     stdy_file_ok sf (length d) \<and> take 256 d = sf_header sf
     \<and> get4byte (sf_header sf) STDYNORMCNT = Some (nat (stdycnt (sf_stdy sf)))
     \<and> take (2 * length (clstdyidx (sf_stdy sf))) (drop (the (get4byte (sf_header sf) STDYCLIDXPOS)) d) = enc_ushorts (clstdyidx (sf_stdy sf))
     \<and> take (length (clstdydic (sf_stdy sf))) (drop (the (get4byte (sf_header sf) STDYCLSEGPOS)) d) = clstdydic (sf_stdy sf)
     \<and> take (24 * nat (stdymax (sf_stdy sf))) (drop (the (get4byte (sf_header sf) STDYNORMPOS)) d) = concat (map enc_STDYIN (stdydic (sf_stdy sf)))"

lemma stored_opens:
  assumes st: "stored sf (fs_data s i)"
    and n: "strlen name = Some n" "fs_name s (take n name) = Some (Found i)" "search_same_stdy i (stdylink s) = None"
      "fs_malloc_ok s = []" "fs_right s i = ReadWrite" "check_passwd (sf_header sf) pw = Some True"
  shows "openstdy name pw s = (Inr (Some i), s\<lparr>stdylink := \<lparr>stdy_ino = i, sf_refcnt = 1, sf_header = sf_header sf, sf_stdy = sf_stdy sf\<rparr> # stdylink s\<rparr>)"
proof -
  let ?st = "sf_stdy sf" and ?h = "sf_header sf" and ?d = "fs_data s i"
  have ok: "stdy_file_ok sf (length ?d)" using st by (simp add: stored_def)
  note D = stdy_file_okD [OF ok]
  from ok obtain ip sp np where P: "get4byte ?h STDYCLIDXPOS = Some ip" "get4byte ?h STDYCLSEGPOS = Some sp"
      "get4byte ?h STDYNORMPOS = Some np" "256 \<le> ip" "ip + 2 * length (clstdyidx ?st) \<le> sp"
      "sp + length (clstdydic ?st) \<le> np" "np + 24 * nat (stdymax ?st) \<le> length ?d" by (rule stdy_file_okE)
  have S: "take 256 ?d = ?h" "get4byte ?h STDYNORMCNT = Some (nat (stdycnt ?st))"
      "take (2 * length (clstdyidx ?st)) (drop ip ?d) = enc_ushorts (clstdyidx ?st)"
      "take (length (clstdydic ?st)) (drop sp ?d) = clstdydic ?st"
      "take (SIZEOF_STDYIN * nat (stdymax ?st)) (drop np ?d) = concat (map enc_STDYIN (stdydic ?st))"
    using st P by (simp_all add: stored_def SIZEOF_STDYIN_def)
  have "dec_STDYINs (nat (stdymax ?st)) (concat (map enc_STDYIN (stdydic ?st))) = stdydic ?st"
    using dec_enc_STDYINs [of "stdydic ?st" "[]"] D(7,8) by simp
  then have "?st = \<lparr>stdycnt = to_short (int (nat (stdycnt ?st))), stdymax = to_short (int (nat (stdymax ?st))),
               stdydic = dec_STDYINs (nat (stdymax ?st)) (take (SIZEOF_STDYIN * nat (stdymax ?st)) (drop np ?d)),
               clstdystep = to_short (int (nat (clstdystep ?st))), clstdyidx = dec_ushorts (take (2 * length (clstdyidx ?st)) (drop ip ?d)),
               clstdylen = to_short (int (length (clstdydic ?st))), clstdydic = take (length (clstdydic ?st)) (drop sp ?d)\<rparr>"
    unfolding S using D(3-6,9,11-13) by (intro STDY.equality) (simp_all add: to_short_nat to_short_id dec_enc_ushorts)
  then show ?thesis
    using openstdy_reads [OF n(1-5) n(6) _ S(1) [symmetric] D(2) S(2) P(3) D(15) P(1) D(16) P(2) D(17,18) _ _ _ _ _ _ ] P(4-7) D(5,10,14)
    by (simp add: SIZEOF_STDYIN_def)
qed

lemma writes_store:
  assumes sf: "search_same_stdy i (stdylink s) = Some sf" "stdy_file_ok sf (length (fs_data s i))"
    and w: "putstydic i s = (Inr 0, s1)" "putcldic i s1 = (Inr 0, s2)"
    and h2: "h2 = set4 (set4 (sf_header sf) STDYNORMCNT (nat (stdycnt (sf_stdy sf)))) STDYNORMLEN (SIZEOF_STDYIN * nat (stdymax (sf_stdy sf)))"
  shows "stored (sf\<lparr>sf_header := h2\<rparr>) (fs_data s2 i) \<and> stdylink s2 = upd_stdy i (\<lambda>p. p\<lparr>sf_header := h2\<rparr>) (stdylink s)
    \<and> fs_name s2 = fs_name s \<and> fs_right s2 = fs_right s \<and> fs_malloc_ok s2 = fs_malloc_ok s"
proof -
  let ?st = "sf_stdy sf" and ?h = "sf_header sf" and ?d = "fs_data s i"
  let ?R = "concat (map enc_STDYIN (stdydic ?st))" and ?I = "enc_ushorts (clstdyidx ?st)" and ?C = "clstdydic ?st"
  note D = stdy_file_okD [OF sf(2)]
  from sf(2) obtain ip sp np where P: "get4byte ?h STDYCLIDXPOS = Some ip" "get4byte ?h STDYCLSEGPOS = Some sp"
      "get4byte ?h STDYNORMPOS = Some np" "256 \<le> ip" "ip + 2 * length (clstdyidx ?st) \<le> sp"
      "sp + length (clstdydic ?st) \<le> np" "np + 24 * nat (stdymax ?st) \<le> length ?d" by (rule stdy_file_okE)
  note pos = VERSIONPOS_def STDYNORMPOS_def STDYNORMLEN_def STDYNORMNUM_def STDYNORMCNT_def STDYCLIDXPOS_def
        STDYCLIDXLEN_def STDYCLIDXSTEP_def STDYCLSEGPOS_def STDYCLSEGLEN_def
  have keep: "get4byte h2 k = get4byte ?h k" if "k + 3 < 36 \<or> 47 < k \<or> k = 40" "k + 3 < 256" for k
    unfolding h2 using that D(1) by (auto simp: get4byte_set4_other pos)
  have cnt: "get4byte h2 STDYNORMCNT = Some (nat (stdycnt ?st))"
    unfolding h2 using D by (simp add: pos get4byte_set4_other get4byte_set4)
  have H: "get4byte h2 STDYCLIDXPOS = Some ip" "get4byte h2 STDYCLSEGPOS = Some sp" "get4byte h2 STDYNORMPOS = Some np"
      "get4byte h2 STDYCLIDXLEN = Some (2 * length (clstdyidx ?st))" "get4byte h2 STDYCLSEGLEN = Some (length ?C)"
      "get4byte h2 STDYNORMNUM = Some (nat (stdymax ?st))" "get4byte h2 STDYCLIDXSTEP = Some (nat (clstdystep ?st))"
      "get4byte h2 VERSIONPOS = Some STDYVERSION" "length h2 = 256"
    using P(1-3) D(1,2,15-18) by (simp_all add: keep pos) (simp add: h2)
  note 1 = putstydic_run [OF sf(1) w(1) D(1) P(3) D(7) h2]
  have sf1: "search_same_stdy i (stdylink s1) = Some (sf\<lparr>sf_header := h2\<rparr>)"
    using 1 search_upd_stdy [OF sf(1), of "\<lambda>p. p\<lparr>sf_header := h2\<rparr>"] by simp
  have 2: "fs_data s2 i = patch (patch (fs_data s1 i) ip ?I) sp ?C" "stdylink s2 = stdylink s1" "fs_name s2 = fs_name s1"
     "fs_right s2 = fs_right s1" "fs_malloc_ok s2 = fs_malloc_ok s1"
    using putcldic_run [OF sf1 w(2), of ip sp] H by simp_all
  have e: "fs_data s2 i = patch (patch (patch (patch ?d 0 h2) np ?R) ip ?I) sp ?C" using 1 2(1) by simp
  have l: "length ?R = 24 * nat (stdymax ?st)" "length ?I = 2 * length (clstdyidx ?st)"
    using D(7) by (simp_all add: length_encs length_enc_ushorts)
  have "ip + length ?I \<le> sp" "np + length ?R \<le> length ?d" using P l by simp_all
  note F = four_patches [OF H(9) P(4) this(1) P(6) this(2) e]
  have "stdy_file_ok (sf\<lparr>sf_header := h2\<rparr>) (length (fs_data s2 i))"
    using D P(4-7) H F(5) by (simp add: stdy_file_ok_def Let_def list_all_iff)
  then show ?thesis using F H cnt l 1 2(2-5) by (simp add: stored_def)
qed

lemma writes_then_open:
  assumes sf: "search_same_stdy i (stdylink s) = Some sf" "stdy_file_ok sf (length (fs_data s i))" "sf_refcnt sf = 1"
    and w: "putstydic i s = (Inr 0, s1)" "putcldic i s1 = (Inr 0, s2)" "closestdy i s2 = (Inr (), s3)"
    and n: "strlen name = Some n" "fs_name s (take n name) = Some (Found i)" "fs_malloc_ok s = []" "fs_right s i = ReadWrite"
    and pw: "check_passwd (sf_header sf) pw = Some True"
  shows "\<exists>h s4. openstdy name pw s3 = (Inr (Some i), s4)
    \<and> search_same_stdy i (stdylink s4) = Some \<lparr>stdy_ino = i, sf_refcnt = 1, sf_header = h, sf_stdy = sf_stdy sf\<rparr>"
proof -
  define h2 where "h2 = set4 (set4 (sf_header sf) STDYNORMCNT (nat (stdycnt (sf_stdy sf)))) STDYNORMLEN (SIZEOF_STDYIN * nat (stdymax (sf_stdy sf)))"
  note W = writes_store [OF sf(1,2) w(1,2) h2_def]
  have sf2: "search_same_stdy i (stdylink s2) = Some (sf\<lparr>sf_header := h2\<rparr>)"
    using W search_upd_stdy [OF sf(1), of "\<lambda>p. p\<lparr>sf_header := h2\<rparr>"] by simp
  have 3: "s3 = s2\<lparr>stdylink := filter (\<lambda>p. stdy_ino p \<noteq> i) (stdylink s2)\<rparr>"
    using w(3) sf2 sf(3) by (simp add: closestdy_def on_stdy_def upd_def)
  then have "search_same_stdy i (stdylink s3) = None" unfolding search_same_stdy_def find_None_iff by simp
  moreover have "check_passwd h2 pw = Some True"
    using pw check_passwd_cong [of h2 "sf_header sf" pw] stdy_file_okD(1) [OF sf(2)]
    by (simp add: h2_def read_set4 STDYNORMCNT_def STDYNORMLEN_def)
  ultimately show ?thesis
    using stored_opens [of "sf\<lparr>sf_header := h2\<rparr>" s3 i name n pw] W n 3 by (auto simp: search_same_stdy_def)
qed

lemma put_blocks_run:
  "fs_write_ok s = [] \<Longrightarrow> fst (put_blocks i bs s) = Inr 0"
proof (induction bs arbitrary: s)
  case (Cons b bs)
  then show ?case by (cases b) (simp add: putfile_def bnd_def)
qed (simp add: ret_def)

lemma write_new_run:
  assumes "fs_write_ok s = []" "fs_creat s path = Some i"
  shows "fst (write_new path bs s) = Inr 0"
proof -
  let ?s1 = "s\<lparr>fs_name := (fs_name s)(path \<mapsto> Found i), fs_data := (fs_data s)(i := []), fs_right := (fs_right s)(i := ReadWrite)\<rparr>"
  obtain r s2 where p: "put_blocks i bs ?s1 = (r, s2)" by fastforce
  then have "r = Inr 0" using put_blocks_run [of ?s1 i bs] assms(1) by simp
  then show ?thesis using p assms(2) by (simp add: write_new_def fopen_w_def bnd_assoc bnd_Inr ret_def)
qed

text \<open>A new study area.\<close>

definition new_area :: "nat \<Rightarrow> nat \<Rightarrow> nat \<Rightarrow> STDY" where
  "new_area stynum clstep cllen =
     \<lparr>stdycnt = 0, stdymax = int stynum, stdydic = replicate stynum blank_STDYIN, clstdystep = int clstep,
      clstdyidx = replicate 256 0, clstdylen = int cllen, clstdydic = replicate cllen 0\<rparr>"

lemma stdy_header_get:
  assumes "stynum \<le> 0x7fff" "clstep \<le> 256" "cllen \<le> 0x7fff"
  shows "\<exists>h. stdy_header stynum clstep cllen = Some h \<and> length h = 256 \<and> get4byte h VERSIONPOS = Some STDYVERSION
    \<and> get4byte h STDYCLIDXPOS = Some 256 \<and> get4byte h STDYCLIDXLEN = Some 512 \<and> get4byte h STDYCLIDXSTEP = Some clstep
    \<and> get4byte h STDYCLSEGPOS = Some 768 \<and> get4byte h STDYCLSEGLEN = Some cllen
    \<and> get4byte h STDYNORMPOS = Some (768 + cllen) \<and> get4byte h STDYNORMNUM = Some stynum \<and> get4byte h STDYNORMCNT = Some 0
    \<and> h ! PASSWDPOS = 0"
proof -
  let ?fs = "[(VERSIONPOS, STDYVERSION), (STDYCLIDXPOS, 256), (STDYCLIDXLEN, 512), (STDYCLIDXSTEP, clstep),
        (STDYCLSEGPOS, 768), (STDYCLSEGLEN, cllen), (STDYNORMPOS, 768 + cllen),
        (STDYNORMLEN, SIZEOF_STDYIN * stynum), (STDYNORMNUM, stynum), (STDYNORMCNT, 0)]"
  note pos = VERSIONPOS_def STDYNORMPOS_def STDYNORMLEN_def STDYNORMNUM_def STDYNORMCNT_def STDYCLIDXPOS_def
        STDYCLIDXLEN_def STDYCLIDXSTEP_def STDYCLSEGPOS_def STDYCLSEGLEN_def
  have "apart (map fst ?fs)" "\<forall>j \<in> fst ` set ?fs. j + 3 < 256" by (simp_all add: pos)
  from header_get [OF this] obtain h where
    h: "header ?fs = Some h" "length h = 256" "\<forall>(i, n) \<in> set ?fs. n < 2 ^ 32 \<longrightarrow> get4byte h i = Some n"
      "\<forall>i < 256. (\<forall>j \<in> fst ` set ?fs. i < j \<or> j + 3 < i) \<longrightarrow> h ! i = 0" by blast
  have d: "stdy_header stynum clstep cllen = header ?fs"
    by (simp add: stdy_header_def Let_def HEADERLENGTH_def COMMENTLENGTH_def)
  have pw: "h ! PASSWDPOS = 0" using h(4) by (simp add: PASSWDPOS_def pos)
  show ?thesis using h(3) assms pw unfolding d h(1) using h(2) by (auto simp: STDYVERSION_def)
qed

lemma le_val_0: "le_val (replicate k 0) = 0"
  by (induction k) simp_all

lemma le_0: "le k 0 = replicate k 0"
  by (induction k) (simp_all add: le_Suc, simp add: le_def)

lemma blank_eq: "blank_STDYIN = \<lparr>st_offset = 0, st_seg = 0, styno = 0, st_dicid = 0, sttkj = False, ka_kj = False, nmflg = False\<rparr>"
  by (simp add: blank_STDYIN_def dec_STDYIN_def Let_def le_val_0 to_short_def)

lemma enc_blank: "enc_STDYIN blank_STDYIN = replicate 24 0"
  by (simp add: enc_STDYIN_def blank_eq le_0 ushort_of_def eval_nat_numeral)

lemma blank_ok: "stdyin_ok blank_STDYIN"
  by (simp add: stdyin_ok_def blank_eq)

lemma concat_replicate_0: "concat (replicate n (enc_STDYIN blank_STDYIN)) = replicate (24 * n) 0"
  by (induction n) (simp_all add: enc_blank replicate_add)

lemma makestdy_stored:
  assumes mk: "makestdy path (int stynum) (int clstep) (int cllen) s = (Inr 0, s')" "stynum \<noteq> 0" "clstep \<noteq> 0" "cllen \<noteq> 0"
  shows "\<exists>i h. fs_creat s path = Some i \<and> fs_name s' path = Some (Found i) \<and> fs_right s' i = ReadWrite
    \<and> h ! PASSWDPOS = 0 \<and> length h = 256 \<and> stdylink s' = stdylink s \<and> fs_malloc_ok s' = fs_malloc_ok s
    \<and> stored \<lparr>stdy_ino = i, sf_refcnt = 1, sf_header = h, sf_stdy = new_area stynum clstep cllen\<rparr> (fs_data s' i)"
proof -
  have g: "512 \<le> stynum" "stynum \<le> 0x7fff" "1 \<le> clstep" "clstep \<le> 256" "512 \<le> cllen" "cllen \<le> 0x7fff"
    using mk by (auto simp: makestdy_def Let_def set_errno_def split: if_splits)
  from stdy_header_get [OF g(2,4,6)] obtain h where
    h: "stdy_header stynum clstep cllen = Some h" "length h = 256" "get4byte h VERSIONPOS = Some STDYVERSION"
      "get4byte h STDYCLIDXPOS = Some 256" "get4byte h STDYCLIDXLEN = Some 512" "get4byte h STDYCLIDXSTEP = Some clstep"
      "get4byte h STDYCLSEGPOS = Some 768" "get4byte h STDYCLSEGLEN = Some cllen" "get4byte h STDYNORMPOS = Some (768 + cllen)"
      "get4byte h STDYNORMNUM = Some stynum" "get4byte h STDYNORMCNT = Some 0" "h ! PASSWDPOS = 0" by blast
  let ?b = "[(256, replicate 512 0), (768, replicate cllen 0), (768 + cllen, replicate (24 * stynum) 0), (0, h)]"
  have "write_new path ?b s = (Inr 0, s')"
    using mk(1) g h(1) by (simp add: makestdy_def Let_def HEADERLENGTH_def COMMENTLENGTH_def SIZEOF_STDYIN_def)
  from write_new_ok [OF this] obtain i where
    i: "fs_creat s path = Some i" "fs_name s' path = Some (Found i)" "fs_right s' i = ReadWrite"
      "fs_data s' i = fold (\<lambda>(pos, p) d. patch d pos p) ?b []" "stdylink s' = stdylink s" "fs_malloc_ok s' = fs_malloc_ok s"
    by blast
  have "patch [] 256 (replicate 512 0) = replicate 256 0 @ replicate 512 0" by (simp add: patch_def)
  then have d: "fs_data s' i = h @ replicate 512 0 @ replicate cllen 0 @ replicate (24 * stynum) 0"
    using i(4) h(2) by (simp add: patch_end patch_0)
  let ?sf = "\<lparr>stdy_ino = i, sf_refcnt = 1, sf_header = h, sf_stdy = new_area stynum clstep cllen\<rparr>"
  have "stdy_file_ok ?sf (length (fs_data s' i))"
    using h g d by (simp add: stdy_file_ok_def Let_def new_area_def list_all_iff blank_ok)
  moreover have "enc_ushorts (replicate 256 0) = replicate 512 0" by code_simp
  ultimately have "stored ?sf (fs_data s' i)"
    using h d by (simp add: stored_def new_area_def concat_replicate_0)
  then show ?thesis using i h(2,12) by blast
qed

lemma makestdy_opens:
  assumes mk: "makestdy path (int stynum) (int clstep) (int cllen) s = (Inr 0, s')" "stynum \<noteq> 0" "clstep \<noteq> 0" "cllen \<noteq> 0"
    and p: "0 \<notin> set path" "fs_malloc_ok s = []" "\<forall>p \<in> set (stdylink s). fs_creat s path \<noteq> Some (stdy_ino p)"
  shows "\<exists>i h. fs_creat s path = Some i
    \<and> openstdy (path @ [0]) pw s' = (Inr (Some i), s'\<lparr>stdylink := \<lparr>stdy_ino = i, sf_refcnt = 1, sf_header = h, sf_stdy = new_area stynum clstep cllen\<rparr> # stdylink s'\<rparr>)
    \<and> stdy_file_ok \<lparr>stdy_ino = i, sf_refcnt = 1, sf_header = h, sf_stdy = new_area stynum clstep cllen\<rparr> (length (fs_data s' i))"
proof -
  from makestdy_stored [OF mk] obtain i h where
    i: "fs_creat s path = Some i" "fs_name s' path = Some (Found i)" "fs_right s' i = ReadWrite"
      "h ! PASSWDPOS = 0" "length h = 256" "stdylink s' = stdylink s" "fs_malloc_ok s' = fs_malloc_ok s"
      "stored \<lparr>stdy_ino = i, sf_refcnt = 1, sf_header = h, sf_stdy = new_area stynum clstep cllen\<rparr> (fs_data s' i)" by blast
  have "search_same_stdy i (stdylink s') = None"
    unfolding search_same_stdy_def find_None_iff using p(3) i(1,6) by auto
  moreover have "check_passwd h pw = Some True" using i(4,5) by (simp add: check_passwd_def rd_in PASSWDPOS_def)
  ultimately show ?thesis
    using stored_opens [OF i(8), of "path @ [0]" "length path" pw] i p by (auto simp: stored_def)
qed

section \<open>Properties\<close>

text \<open>A server without open files whose directory has one name, \<open>''d''\<close>, of inode 7.\<close>

definition sample_fs :: "cbuf \<Rightarrow> sdep" where
  "sample_fs d = \<lparr>s_putbuf = [], s_getbuf = [], s_getpos = 0, s_sent = [], s_wq = [], s_rq = [],
     serv_errno = 0, dictlink = [], stdylink = [], fs_name = (\<lambda>p. if p = [0x64] then Some (Found 7) else None),
     fs_data = (\<lambda>i. if i = 7 then d else []), fs_right = (\<lambda>_. ReadWrite), fs_creat = (\<lambda>p. Some 8),
     fs_write_ok = [], fs_malloc_ok = []\<rparr>"

text \<open>
  C15. A dictionary file that \<^verbatim>\<open>makedict\<close> has made is one \<^verbatim>\<open>opendict\<close> opens, with any
  password: it has the index length, segment length and number of segments asked for, one
  segment in use, an index table with one entry, one reference and no lock, and the buffer
  is the file. The sizes have to fit the 16-bit fields of the open dictionary.
\<close>

theorem makedict_then_open:
  assumes "makedict path (int il) (int sl) (int sn) s = (Inr 0, s')" "il < 2 ^ 16" "sl < 2 ^ 16" "sn < 2 ^ 15"
    and "0 \<notin> set path" "fs_malloc_ok s = []" "\<forall>d \<in> set (dictlink s). fs_creat s path \<noteq> Some (dicid d)"
  shows "\<exists>d. opendict (path @ [0]) pw s' = (Inr (fs_creat s path), s'\<lparr>dictlink := d # dictlink s'\<rparr>)
    \<and> fs_creat s path = Some (dicid d) \<and> idxlen d = il \<and> seglen d = sl \<and> segunit d = 1 \<and> maxunit d = int sn
    \<and> idxstrt d = 256 \<and> segstrt d = 256 + il \<and> ofsptr d = [0] \<and> df_refcnt d = 1 \<and> df_lock d = {}
    \<and> df_buffer d = fs_data s' (dicid d)"
  by (rule makedict_opens [OF assms])

theorem makedict_then_open_witness:
  "\<exists>s' d. makedict [0x61] 2048 2048 16 (sample_fs []) = (Inr 0, s')
     \<and> opendict [0x61, 0] [0] s' = (Inr (Some 8), s'\<lparr>dictlink := [d]\<rparr>) \<and> idxlen d = 2048 \<and> maxunit d = 16"
proof -
  let ?s = "sample_fs []"
  have s: "fs_write_ok ?s = []" "fs_creat ?s [0x61] = Some 8" "fs_malloc_ok ?s = []" "dictlink ?s = []"
    by (simp_all add: sample_fs_def)
  have "fst (makedict [0x61] 2048 2048 16 ?s) = Inr 0"
    using dict_header_get [of 2048 2048 16] write_new_run [OF s(1,2)] by (auto simp: makedict_def Let_def)
  then obtain s' where m: "makedict [0x61] 2048 2048 16 ?s = (Inr 0, s')" by (metis prod.collapse)
  have m2: "makedict [0x61] (int 2048) (int 2048) (int 16) ?s = (Inr 0, s')" using m by simp
  have "dictlink s' = []" using makedict_data [OF m2] s by auto
  then show ?thesis using makedict_then_open [OF m2, of "[0]"] m s by fastforce
qed

text \<open>
  C16. A study file that \<^verbatim>\<open>makestdy\<close> has made is one \<^verbatim>\<open>openstdy\<close> opens, with any
  password: no learned word, the number of records, step and clause area asked for, and
  a header whose fields keep the three areas apart and inside the file.
\<close>

theorem makestdy_then_open:
  assumes "makestdy path (int stynum) (int clstep) (int cllen) s = (Inr 0, s')" "stynum \<noteq> 0" "clstep \<noteq> 0" "cllen \<noteq> 0"
    and "0 \<notin> set path" "fs_malloc_ok s = []" "\<forall>p \<in> set (stdylink s). fs_creat s path \<noteq> Some (stdy_ino p)"
  shows "\<exists>i h. fs_creat s path = Some i
    \<and> openstdy (path @ [0]) pw s' = (Inr (Some i), s'\<lparr>stdylink := \<lparr>stdy_ino = i, sf_refcnt = 1, sf_header = h, sf_stdy = new_area stynum clstep cllen\<rparr> # stdylink s'\<rparr>)
    \<and> stdy_file_ok \<lparr>stdy_ino = i, sf_refcnt = 1, sf_header = h, sf_stdy = new_area stynum clstep cllen\<rparr> (length (fs_data s' i))"
  by (rule makestdy_opens [OF assms])

theorem makestdy_then_open_witness:
  "\<exists>s' h. makestdy [0x61] 600 1 512 (sample_fs []) = (Inr 0, s')
     \<and> openstdy [0x61, 0] [0] s' = (Inr (Some 8), s'\<lparr>stdylink := [\<lparr>stdy_ino = 8, sf_refcnt = 1, sf_header = h, sf_stdy = new_area 600 1 512\<rparr>]\<rparr>)"
proof -
  let ?s = "sample_fs []"
  have s: "fs_write_ok ?s = []" "fs_creat ?s [0x61] = Some 8" "fs_malloc_ok ?s = []" "stdylink ?s = []"
    by (simp_all add: sample_fs_def)
  have "fst (makestdy [0x61] 600 1 512 ?s) = Inr 0"
    using stdy_header_get [of 600 1 512] write_new_run [OF s(1,2)] by (auto simp: makestdy_def Let_def)
  then obtain s' where m: "makestdy [0x61] 600 1 512 ?s = (Inr 0, s')" by (metis prod.collapse)
  have m2: "makestdy [0x61] (int 600) (int 1) (int 512) ?s = (Inr 0, s')" using m by simp
  have "stdylink s' = []" using makestdy_stored [OF m2] s by auto
  then show ?thesis using makestdy_then_open [OF m2, of "[0]"] m s by fastforce
qed

text \<open>
  C14. Learning survives a restart. When both parts of the study area have been written,
  and the file is closed and opened again, the area is the one that was closed: every
  record in its place, the count, and the clause index and records.
\<close>

theorem study_file_reopens:
  assumes "search_same_stdy i (stdylink s) = Some sf" "stdy_file_ok sf (length (fs_data s i))" "sf_refcnt sf = 1"
    and "putstydic i s = (Inr 0, s1)" "putcldic i s1 = (Inr 0, s2)" "closestdy i s2 = (Inr (), s3)"
    and "strlen name = Some n" "fs_name s (take n name) = Some (Found i)" "fs_malloc_ok s = []" "fs_right s i = ReadWrite"
    and "check_passwd (sf_header sf) pw = Some True"
  shows "\<exists>h s4. openstdy name pw s3 = (Inr (Some i), s4)
    \<and> search_same_stdy i (stdylink s4) = Some \<lparr>stdy_ino = i, sf_refcnt = 1, sf_header = h, sf_stdy = sf_stdy sf\<rparr>"
  by (rule writes_then_open [OF assms])

text \<open>A small area: one record, one index entry, two clause bytes.\<close>

definition sample_area :: STDY where
  "sample_area = \<lparr>stdycnt = 1, stdymax = 1,
     stdydic = [\<lparr>st_offset = 300, st_seg = 5, styno = 0, st_dicid = 77, sttkj = True, ka_kj = False, nmflg = False\<rparr>],
     clstdystep = 1, clstdyidx = [0x1234], clstdylen = 2, clstdydic = [1, 2]\<rparr>"

definition sample_header :: "cbuf option" where
  "sample_header = header [(VERSIONPOS, STDYVERSION), (STDYCLIDXPOS, 256), (STDYCLIDXLEN, 2), (STDYCLIDXSTEP, 1),
     (STDYCLSEGPOS, 258), (STDYCLSEGLEN, 2), (STDYNORMPOS, 260), (STDYNORMLEN, 24), (STDYNORMNUM, 1), (STDYNORMCNT, 0)]"

lemma sample_header_get:
  "\<exists>h. sample_header = Some h \<and> length h = 256 \<and> get4byte h VERSIONPOS = Some STDYVERSION
    \<and> get4byte h STDYCLIDXPOS = Some 256 \<and> get4byte h STDYCLIDXLEN = Some 2 \<and> get4byte h STDYCLIDXSTEP = Some 1
    \<and> get4byte h STDYCLSEGPOS = Some 258 \<and> get4byte h STDYCLSEGLEN = Some 2
    \<and> get4byte h STDYNORMPOS = Some 260 \<and> get4byte h STDYNORMNUM = Some 1 \<and> h ! PASSWDPOS = 0"
proof -
  let ?fs = "[(VERSIONPOS, STDYVERSION), (STDYCLIDXPOS, 256), (STDYCLIDXLEN, 2), (STDYCLIDXSTEP, 1),
     (STDYCLSEGPOS, 258), (STDYCLSEGLEN, 2), (STDYNORMPOS, 260), (STDYNORMLEN, 24), (STDYNORMNUM, 1), (STDYNORMCNT, 0)]"
  note pos = VERSIONPOS_def STDYNORMPOS_def STDYNORMLEN_def STDYNORMNUM_def STDYNORMCNT_def STDYCLIDXPOS_def
        STDYCLIDXLEN_def STDYCLIDXSTEP_def STDYCLSEGPOS_def STDYCLSEGLEN_def
  have "apart (map fst ?fs)" "\<forall>j \<in> fst ` set ?fs. j + 3 < 256" by (simp_all add: pos)
  from header_get [OF this] obtain h where
    h: "header ?fs = Some h" "length h = 256" "\<forall>(i, n) \<in> set ?fs. n < 2 ^ 32 \<longrightarrow> get4byte h i = Some n"
      "\<forall>i < 256. (\<forall>j \<in> fst ` set ?fs. i < j \<or> j + 3 < i) \<longrightarrow> h ! i = 0" by blast
  have pw: "h ! PASSWDPOS = 0" using h(4) by (simp add: PASSWDPOS_def pos)
  show ?thesis using h(3) pw unfolding sample_header_def h(1) using h(2) by (auto simp: STDYVERSION_def)
qed

theorem study_file_reopens_witness:
  "\<exists>h s s1 s2 s3 h' s4. sample_header = Some h
     \<and> s = (sample_fs (replicate 284 0))\<lparr>stdylink := [\<lparr>stdy_ino = 7, sf_refcnt = 1, sf_header = h, sf_stdy = sample_area\<rparr>]\<rparr>
     \<and> putstydic 7 s = (Inr 0, s1) \<and> putcldic 7 s1 = (Inr 0, s2) \<and> closestdy 7 s2 = (Inr (), s3)
     \<and> openstdy [0x64, 0] [0] s3 = (Inr (Some 7), s4)
     \<and> search_same_stdy 7 (stdylink s4) = Some \<lparr>stdy_ino = 7, sf_refcnt = 1, sf_header = h', sf_stdy = sample_area\<rparr>"
proof -
  from sample_header_get obtain h where
    h: "sample_header = Some h" "length h = 256" "get4byte h VERSIONPOS = Some STDYVERSION"
      "get4byte h STDYCLIDXPOS = Some 256" "get4byte h STDYCLIDXLEN = Some 2" "get4byte h STDYCLIDXSTEP = Some 1"
      "get4byte h STDYCLSEGPOS = Some 258" "get4byte h STDYCLSEGLEN = Some 2" "get4byte h STDYNORMPOS = Some 260"
      "get4byte h STDYNORMNUM = Some 1" "h ! PASSWDPOS = 0" by blast
  let ?sf = "\<lparr>stdy_ino = 7, sf_refcnt = 1, sf_header = h, sf_stdy = sample_area\<rparr>"
  let ?s = "(sample_fs (replicate 284 0))\<lparr>stdylink := [?sf]\<rparr>"
  have s: "search_same_stdy 7 (stdylink ?s) = Some ?sf" by (simp add: search_same_stdy_def)
  have ok: "stdy_file_ok ?sf (length (fs_data ?s 7))"
    using h by (simp add: stdy_file_ok_def Let_def sample_area_def sample_fs_def stdyin_ok_def)
  have pw: "check_passwd h [0] = Some True" using h(2,11) by (simp add: check_passwd_def rd_in PASSWDPOS_def)
  define h2 where "h2 = set4 (set4 (sf_header ?sf) STDYNORMCNT (nat (stdycnt (sf_stdy ?sf)))) STDYNORMLEN (SIZEOF_STDYIN * nat (stdymax (sf_stdy ?sf)))"
  note pos = STDYNORMPOS_def STDYNORMLEN_def STDYNORMCNT_def STDYCLIDXPOS_def STDYCLIDXLEN_def STDYCLSEGPOS_def STDYCLSEGLEN_def
  have np: "get4byte (sf_header ?sf) STDYNORMPOS = Some 260" using h by simp
  note eq1 = putstydic_eq [OF s stdy_file_okD(1) [OF ok] np stdy_file_okD(7) [OF ok] h2_def]
  have "fs_write_ok (?s\<lparr>stdylink := upd_stdy 7 (\<lambda>p. p\<lparr>sf_header := h2\<rparr>) (stdylink ?s)\<rparr>) = []" by (simp add: sample_fs_def)
  then obtain s1 where 1: "putstydic 7 ?s = (Inr 0, s1)" "fs_write_ok s1 = []"
    unfolding eq1 using two_writes_succeed by blast
  have sf1: "search_same_stdy 7 (stdylink s1) = Some (?sf\<lparr>sf_header := h2\<rparr>)"
    using putstydic_run [OF s 1(1) stdy_file_okD(1) [OF ok] np stdy_file_okD(7) [OF ok] h2_def]
    by (simp add: search_same_stdy_def upd_stdy_def)
  have "get4byte h2 STDYCLIDXPOS = Some 256" "get4byte h2 STDYCLIDXLEN = Some 2" "get4byte h2 STDYCLSEGPOS = Some 258" "get4byte h2 STDYCLSEGLEN = Some 2"
    using h by (simp_all add: h2_def pos get4byte_set4_other)
  then have "putcldic 7 s1 = bnd (putfile 7 256 (enc_ushorts (clstdyidx sample_area))) (\<lambda>r. if r \<noteq> 0 then ret ERROR else putfile 7 258 (clstdydic sample_area)) s1"
    using putcldic_eq [OF sf1, of 256 258] by (simp add: sample_area_def cong: if_cong)
  then obtain s2 where 2: "putcldic 7 s1 = (Inr 0, s2)" using two_writes_succeed [OF 1(2)] by metis
  have "search_same_stdy 7 (stdylink s2) = Some (?sf\<lparr>sf_header := h2\<rparr>)"
    using writes_store [OF s ok 1(1) 2 h2_def] by (simp add: search_same_stdy_def upd_stdy_def)
  then obtain s3 where 3: "closestdy 7 s2 = (Inr (), s3)" by (simp add: closestdy_def on_stdy_def upd_def)
  have "strlen [0x64, 0] = Some 1" "fs_name ?s (take 1 [0x64, 0]) = Some (Found 7)" "fs_malloc_ok ?s = []" "fs_right ?s 7 = ReadWrite"
    by (simp_all add: sample_fs_def)
  from study_file_reopens [OF s ok _ 1(1) 2 3 this, of "[0]"] show ?thesis using h(1) pw 1(1) 2 3 by auto
qed

text \<open>
  C17. A dictionary that is not open yet is opened only when the file is a dictionary and
  the password is the one in its header, where it has one. A dictionary that is already
  open is opened again with every password: the check is skipped.
\<close>

theorem password_checked_by_first_open:
  assumes "strlen name = Some n" "fs_name s (take n name) = Some (Found i)"
  shows "(search_same_dict i (dictlink s) = None \<longrightarrow> opendict name passwd s = (Inr (Some j), s') \<longrightarrow>
      j = i \<and> check_passwd (take HEADERLENGTH (fs_data s i)) passwd = Some True
      \<and> check_dictfile (take HEADERLENGTH (fs_data s i)) = Some True)
    \<and> (\<forall>d. search_same_dict i (dictlink s) = Some d \<longrightarrow> opendict name passwd s =
      (Inr (Some i), s\<lparr>dictlink := upd_dict i (\<lambda>d. d\<lparr>df_refcnt := df_refcnt d + 1\<rparr>) (dictlink s)\<rparr>))"
  using opendict_passwd [OF assms] opendict_same [OF assms] by blast

text \<open>The password in the header is \<open>x\<close>; the dictionary is open, and the password given is \<open>y\<close>.\<close>

definition sample_dict :: DictFile where
  "sample_dict = \<lparr>dicid = 7, idxlen = 0, seglen = 0, segunit = 0, maxunit = 0, df_refcnt = 1, df_lock = {},
     df_buffer = replicate 16 0 @ [0x78], bufsiz = 17, idxstrt = 0, segstrt = 0, ofsptr = []\<rparr>"

theorem password_checked_by_first_open_witness:
  "check_passwd (df_buffer sample_dict) [0x79, 0] = Some False
   \<and> opendict [0x64, 0] [0x79, 0] ((sample_fs (df_buffer sample_dict))\<lparr>dictlink := [sample_dict]\<rparr>) =
     (Inr (Some 7), (sample_fs (df_buffer sample_dict))\<lparr>dictlink := [sample_dict\<lparr>df_refcnt := 2\<rparr>]\<rparr>)"
proof -
  let ?s = "(sample_fs (df_buffer sample_dict))\<lparr>dictlink := [sample_dict]\<rparr>"
  have "strlen [0x64, 0] = Some 1" "fs_name ?s (take 1 [0x64, 0]) = Some (Found 7)" by (simp_all add: sample_fs_def)
  note P = password_checked_by_first_open [OF this, of "[0x79, 0]"]
  have "search_same_dict 7 (dictlink ?s) = Some sample_dict" by (simp add: search_same_dict_def sample_dict_def)
  moreover have "check_passwd (df_buffer sample_dict) [0x79, 0] = Some False" by code_simp
  ultimately show ?thesis using P by (simp add: upd_dict_def sample_dict_def)
qed

end
