(* ===== verification/Sj_Setup.thy ===== *)
theory Sj_Setup
  imports Sj_Sdepend
begin

text \<open>
  Who may connect and which files a request may name: \<^verbatim>\<open>str_match\<close> and
  \<^verbatim>\<open>check_user\<close> of \<^verbatim>\<open>src/sj3serv/setup.c\<close>, and \<^verbatim>\<open>make_full_path\<close> of
  \<^verbatim>\<open>execute.c\<close>. Configuration strings (patterns and \<^verbatim>\<open>dict_dir\<close>) are lists
  without their NUL.
\<close>

section \<open>Patterns\<close>

definition star :: u8 where "star = 0x2a"
definition quest :: u8 where "quest = 0x3f"
definition slash :: u8 where "slash = 0x2f"

text \<open>
  \<^verbatim>\<open>str_match(s, d)\<close>. Its inner loop tries the pattern behind the stars on every
  non-empty rest of \<open>d\<close>.
\<close>

function str_match :: "u8 list \<Rightarrow> u8 list \<Rightarrow> bool" and str_match_rest :: "u8 list \<Rightarrow> u8 list \<Rightarrow> bool" where
  "str_match s [] = (s = [])"
| "str_match s (c # d) =
     (case s of
        [] \<Rightarrow> True
      | p # s' \<Rightarrow>
          if p = star then
            (let s = dropWhile (\<lambda>c. c = star) s in if s = [] then True else str_match_rest s (c # d))
          else if p \<noteq> quest \<and> p \<noteq> c then False
          else str_match s' d)"
| "str_match_rest s [] = False"
| "str_match_rest s (c # d) = (str_match s (c # d) \<or> str_match_rest s d)"
  by pat_completeness auto
termination
  by (relation "measures [\<lambda>x. case x of Inl (s, d) \<Rightarrow> length s | Inr (s, d) \<Rightarrow> length s,
        \<lambda>x. case x of Inl (s, d) \<Rightarrow> 2 * length d | Inr (s, d) \<Rightarrow> 2 * length d + 1]")
     (auto simp: less_Suc_eq_le length_dropWhile_le)

definition check_user :: "(u8 list \<times> u8 list) list \<Rightarrow> u8 list \<Rightarrow> u8 list \<Rightarrow> bool" where
  "check_user allow user host \<longleftrightarrow>
     allow = [] \<or> (\<exists>(u, h) \<in> set allow. str_match u user \<and> str_match h host)"

section \<open>Paths\<close>

abbreviation MAXPATHLEN :: nat where "MAXPATHLEN \<equiv> 4096"

text \<open>The tokens of \<^verbatim>\<open>strtok(tmp, "/")\<close>.\<close>

fun tokens :: "u8 list \<Rightarrow> u8 list \<Rightarrow> u8 list list" where
  "tokens w [] = (if w = [] then [] else [w])"
| "tokens w (c # p) = (if c = slash then (if w = [] then tokens [] p else w # tokens [] p) else tokens (w @ [c]) p)"

text \<open>
  The result is \<open>None\<close> when the string has no end, \<open>Some None\<close> for \<^verbatim>\<open>ERROR\<close>, and
  else the path the request goes on with.
\<close>

definition make_full_path :: "u8 list \<Rightarrow> cbuf \<Rightarrow> nat \<Rightarrow> cbuf option option" where
  "make_full_path dict_dir path pathlen = do {
     c \<leftarrow> rd path 0;
     if c = 0 then Some None else do {
       n \<leftarrow> strlen path;
       if length dict_dir + 1 + n + 1 > MAXPATHLEN then Some None
       else if [0x2e, 0x2e] \<in> set (tokens [] (take n path)) then Some None
       else if c = slash then do {
         same \<leftarrow> strneq (length dict_dir) path (dict_dir @ [0]);
         Some (if same then Some path else None) }
       else
         (let tmp = take (pathlen - 1) dict_dir;
              tmp = take (pathlen - 1) (tmp @ [slash]);
              tmp = take (pathlen - 1) (tmp @ take n path)
          in Some (Some (tmp @ [0]))) } }"

end
