(* ===== verification/Sj_Setup_Laws.thy ===== *)
theory Sj_Setup_Laws
  imports Sj_Setup
begin

text \<open>
  What the patterns of the user table mean, and where the paths of a request lead.
\<close>

section \<open>Patterns\<close>

text \<open>The usual meaning of a pattern: a star stands for any string, a question mark for one character.\<close>

fun glob :: "u8 list \<Rightarrow> u8 list \<Rightarrow> bool" where
  "glob [] d = (d = [])"
| "glob (p # s) [] = (p = star \<and> glob s [])"
| "glob (p # s) (c # d) = (if p = star then glob s (c # d) \<or> glob (p # s) d else (p = quest \<or> p = c) \<and> glob s d)"

text \<open>Stars at the end of a pattern count as one question mark.\<close>

fun norm :: "u8 list \<Rightarrow> u8 list" where
  "norm [] = []"
| "norm (p # s) = (if dropWhile (\<lambda>c. c = star) (p # s) = [] then [quest] else p # norm s)"

definition starts :: "u8 list \<Rightarrow> u8 list \<Rightarrow> bool" where
  "starts s d \<longleftrightarrow> (\<exists>x y. d = x @ y \<and> glob s x)"

lemma starts_Nil [simp]: "starts [] d"
  by (simp add: starts_def)

lemma glob_char: "p \<noteq> star \<Longrightarrow> glob (p # s) x \<longleftrightarrow> (\<exists>c x'. x = c # x' \<and> (p = quest \<or> p = c) \<and> glob s x')"
  by (cases x) auto

lemma starts_char: "p \<noteq> star \<Longrightarrow> starts (p # s) d \<longleftrightarrow> (\<exists>c d'. d = c # d' \<and> (p = quest \<or> p = c) \<and> starts s d')"
  unfolding starts_def by (cases d) (auto simp: glob_char Cons_eq_append_conv)

lemma glob_star: "glob (star # s) x \<longleftrightarrow> (\<exists>u v. x = u @ v \<and> glob s v)"
proof (induction x)
  case (Cons c x)
  have "glob (star # s) (c # x) \<longleftrightarrow> glob s (c # x) \<or> (\<exists>u v. x = u @ v \<and> glob s v)" using Cons by simp
  also have "\<dots> \<longleftrightarrow> (\<exists>u v. c # x = u @ v \<and> glob s v)" by (auto simp: Cons_eq_append_conv)
  finally show ?case .
qed simp

lemma starts_star: "starts (star # s) d \<longleftrightarrow> (\<exists>u v. d = u @ v \<and> starts s v)"
  unfolding starts_def glob_star by (metis append.assoc)

lemma starts_star_Cons: "starts (star # s) (c # d) \<longleftrightarrow> starts s (c # d) \<or> starts (star # s) d"
  unfolding starts_star by (auto simp: Cons_eq_append_conv)

lemma starts_stars: "starts (star # star # s) d \<longleftrightarrow> starts (star # s) d"
  unfolding starts_star by (metis append.assoc append_Nil)

lemma norm_stars:
  "dropWhile (\<lambda>c. c = star) s = t \<Longrightarrow> t \<noteq> [] \<Longrightarrow> starts (star # norm s) d \<longleftrightarrow> starts (star # norm t) d"
  by (induction s) (auto simp: starts_stars split: if_splits)

lemma norm_head: "s \<noteq> [] \<Longrightarrow> s ! 0 \<noteq> star \<Longrightarrow> norm s = s ! 0 # norm (tl s)"
  by (cases s) auto

lemma quest_not_star [simp]: "quest \<noteq> star"
  by (simp add: quest_def star_def)

lemma not_starts_Nil: "s \<noteq> [] \<Longrightarrow> \<not> starts (norm s) []"
proof (induction s)
  case (Cons p s)
  show ?case
  proof (cases "dropWhile (\<lambda>c. c = star) (p # s) = []")
    case True
    then show ?thesis by (simp add: starts_char)
  next
    case False
    then have "p = star \<Longrightarrow> s \<noteq> []" by auto
    then show ?thesis using Cons False by (cases "p = star") (auto simp: starts_char starts_star)
  qed
qed simp

lemma dropWhile_nth0: "dropWhile (\<lambda>c. c = x) s \<noteq> [] \<Longrightarrow> dropWhile (\<lambda>c. c = x) s ! 0 \<noteq> x"
  using hd_dropWhile [of "\<lambda>c. c = x" s] by (simp add: hd_conv_nth)

lemma norm_quest: "starts [quest] (c # d)"
  by (simp add: starts_char)

lemma str_match_starts:
  "str_match s d \<longleftrightarrow> starts (norm s) d"
  "s \<noteq> [] \<Longrightarrow> s ! 0 \<noteq> star \<Longrightarrow> str_match_rest s d \<longleftrightarrow> starts (star # norm s) d"
proof (induction s d and s d rule: str_match_str_match_rest.induct)
  case (1 s)
  show ?case using not_starts_Nil [of s] by (cases "s = []") simp_all
next
  case (2 s c d)
  show ?case
  proof (cases s)
    case Nil
    then show ?thesis by simp
  next
    case (Cons p s')
    show ?thesis
    proof (cases "p = star")
      case True
      let ?t = "dropWhile (\<lambda>c. c = star) s"
      have t: "?t = dropWhile (\<lambda>c. c = star) s'" using Cons True by simp
      show ?thesis
      proof (cases "?t = []")
        case True
        then show ?thesis using Cons \<open>p = star\<close> by (simp add: norm_quest)
      next
        case False
        then have n: "norm s = star # norm s'" using Cons True t by simp
        have "str_match s (c # d) = str_match_rest ?t (c # d)"
          unfolding Cons str_match.simps(2) list.case Let_def using True False [unfolded Cons] by (simp only: if_True if_False simp_thms)
        also have "\<dots> = starts (star # norm ?t) (c # d)"
          by (rule "2.IH"(1) [OF Cons True refl False False dropWhile_nth0 [OF False]])
        also have "\<dots> = starts (norm s) (c # d)" unfolding n using norm_stars [OF t [symmetric] False] by (rule sym)
        finally show ?thesis .
      qed
    next
      case False
      then have n: "norm s = p # norm s'" using Cons by simp
      have "str_match s (c # d) = ((p = quest \<or> p = c) \<and> str_match s' d)" using Cons False by simp
      also have "\<dots> = ((p = quest \<or> p = c) \<and> starts (norm s') d)" using "2.IH"(2) [OF Cons False] by blast
      finally show ?thesis unfolding n using False by (simp add: starts_char)
    qed
  qed
next
  case (3 s)
  then show ?case using not_starts_Nil [of s] by (simp add: starts_star)
next
  case (4 s c d)
  then show ?case by (simp add: starts_star_Cons)
qed

section \<open>Paths\<close>

lemma tokens_append: "tokens w (p @ slash # q) = tokens w p @ tokens [] q"
  by (induction w p rule: tokens.induct) auto

lemma tokens_slash_first: "tokens [] (slash # q) = tokens [] q"
  by simp

lemma strneq_take:
  "strneq (length q) p (q @ [0]) = Some True \<Longrightarrow> 0 \<notin> set q \<Longrightarrow> take (length q) p = q"
proof (induction q arbitrary: p)
  case (Cons c q)
  then show ?case by (cases p) (auto split: if_splits)
qed simp

definition good_path :: "u8 list \<Rightarrow> u8 list \<Rightarrow> bool" where
  "good_path dir p \<longleftrightarrow> take (length dir) p = dir \<and> [0x2e, 0x2e] \<notin> set (tokens [] p) \<and> 0 \<notin> set p"

lemma strlen_take: "strlen p = Some n \<Longrightarrow> 0 \<notin> set (take n p) \<and> n < length p \<and> p ! n = 0"
  by (simp add: strlen_Some_iff)

lemma make_full_path_good:
  assumes mk: "make_full_path dir path MAXPATHLEN = Some (Some path')"
    and dir: "0 \<notin> set dir" "[0x2e, 0x2e] \<notin> set (tokens [] dir)"
  shows "\<exists>n. strlen path' = Some n \<and> n < MAXPATHLEN \<and> good_path dir (take n path')"
proof -
  obtain c n where c: "rd path 0 = Some c" "c \<noteq> 0" and n: "strlen path = Some n"
    using mk by (auto simp: make_full_path_def split: bind_splits if_splits)
  have l: "length dir + 1 + n + 1 \<le> MAXPATHLEN" and t: "[0x2e, 0x2e] \<notin> set (tokens [] (take n path))"
    using mk c n by (auto simp: make_full_path_def split: if_splits)
  show ?thesis
  proof (cases "c = slash")
    case True
    then have "strneq (length dir) path (dir @ [0]) = Some True" "path' = path"
      using mk c n l t by (auto simp: make_full_path_def split: if_splits bind_splits)
    moreover from this have d: "take (length dir) path = dir" using strneq_take dir(1) by blast
    moreover have "length dir \<le> n"
    proof (rule ccontr)
      assume "\<not> length dir \<le> n"
      then have "dir ! n = 0" "n < length dir" using strlen_take [OF n] nth_take [of n "length dir" path] d by simp_all
      then show False using dir(1) nth_mem [of n dir] by simp
    qed
    ultimately show ?thesis using n l t strlen_take [OF n] by (auto simp: good_path_def min_absorb1)
  next
    case False
    have p: "path' = dir @ slash # take n path @ [0]"
      using mk c n l t False by (auto simp: make_full_path_def Let_def split: if_splits)
    have z: "0 \<notin> set (dir @ slash # take n path)" using dir(1) strlen_take [OF n] by (auto simp: slash_def)
    have "strlen path' = Some (length dir + 1 + n)"
      using strlen_string [OF z, of "[]"] strlen_take [OF n] p by simp
    moreover have "take (length dir + 1 + n) path' = dir @ slash # take n path" using p strlen_take [OF n] by simp
    moreover have "take (length dir) path' = dir" using p by simp
    ultimately show ?thesis using z t dir(2) l by (auto simp: good_path_def tokens_append)
  qed
qed

section \<open>Properties\<close>


text \<open>
  C20. A connection is refused by the table only when no entry admits it, and an entry for
  a name without wildcards admits every name that continues it.
\<close>

theorem check_user_prefix:
  assumes "(u, h) \<in> set allow" "star \<notin> set u" "star \<notin> set h"
  shows "check_user allow (u @ w) (h @ w')"
proof -
  have "glob (norm p) p" if "star \<notin> set p" for p using that by (induction p) auto
  then have "str_match u (u @ w)" "str_match h (h @ w')"
    using assms(2,3) by (auto simp: str_match_starts starts_def)
  then show ?thesis using assms(1) by (auto simp: check_user_def)
qed

theorem check_user_prefix_witness:
  "check_user [([0x62, 0x6f, 0x62], [0x68])] [0x62, 0x6f, 0x62, 0x62, 0x79] [0x68, 0x32]"
  using check_user_prefix [of "[0x62, 0x6f, 0x62]" "[0x68]" "[([0x62, 0x6f, 0x62], [0x68])]" "[0x62, 0x79]" "[0x32]"]
  by (simp add: star_def)

text \<open>
  C18. A path the server accepts is a string that fits its buffer, begins with the
  characters of the dictionary directory, and has no component \<open>..\<close>. The
  directory itself is a prefix of characters only: \<open>/dx\<close> is accepted below \<open>/d\<close>.
\<close>

theorem path_confined:
  assumes "make_full_path dir path MAXPATHLEN = Some (Some path')" "0 \<notin> set dir" "[0x2e, 0x2e] \<notin> set (tokens [] dir)"
  shows "\<exists>n. strlen path' = Some n \<and> n < MAXPATHLEN \<and> good_path dir (take n path')"
  by (rule make_full_path_good [OF assms])

theorem path_confined_witness:
  "make_full_path [0x2f, 0x64] [0x61, 0] MAXPATHLEN = Some (Some [0x2f, 0x64, 0x2f, 0x61, 0])
   \<and> make_full_path [0x2f, 0x64] [0x2f, 0x64, 0x78, 0] MAXPATHLEN = Some (Some [0x2f, 0x64, 0x78, 0])
   \<and> make_full_path [0x2f, 0x64] [0x61, 0x2f, 0x2e, 0x2e, 0] MAXPATHLEN = Some None
   \<and> good_path [0x2f, 0x64] [0x2f, 0x64, 0x78]"
proof -
  have 1: "make_full_path [0x2f, 0x64] [0x61, 0] MAXPATHLEN = Some (Some [0x2f, 0x64, 0x2f, 0x61, 0])" by code_simp
  have 2: "make_full_path [0x2f, 0x64] [0x2f, 0x64, 0x78, 0] MAXPATHLEN = Some (Some [0x2f, 0x64, 0x78, 0])" by code_simp
  have 3: "make_full_path [0x2f, 0x64] [0x61, 0x2f, 0x2e, 0x2e, 0] MAXPATHLEN = Some None" by code_simp
  have "[0x2e, 0x2e] \<notin> set (tokens [] [0x2f, 0x64])" by code_simp
  then show ?thesis using path_confined [OF 2] 1 2 3 by simp
qed

end
