(* ===== verification/Sj_Execute.thy ===== *)
theory Sj_Execute
  imports Sj_Setup Sj_String
begin

text \<open>
  \<^verbatim>\<open>src/sj3serv/execute.c\<close>, the handlers that keep the books of the server:
  connecting, dictionaries and study files of a client, locks, new files, passwords, and
  the administration commands.

  The state extends \<open>sdep\<close> by the clients, their work areas and the static buffers. A
  client is named by its descriptor, a work area by a number that stands for its address,
  and \<^verbatim>\<open>work_base\<close> is the work area of the client being served. The conversion engine
  keeps its variables in the work area; here they are a value of a type \<open>'e\<close> that no
  handler looks into.

  \<^verbatim>\<open>longjmp(error_ret, e)\<close> is \<open>Error_ret e\<close>. The label \<^verbatim>\<open>CCONVERR\<close> of the
  handlers has the same effect, since \<^verbatim>\<open>execute_cmd\<close> sends the number as that label
  does.
\<close>

section \<open>The state\<close>

record 'e WorkArea =
  wa_refcnt :: int
  wa_lock :: int
  Jdictlist :: "ino list"
  wa_global :: 'e

record client =
  cl_fd :: nat
  cl_host :: "u8 list"
  cl_user :: "u8 list"
  cl_prog :: "u8 list"
  cl_work :: "nat option"
  cl_stdy :: "ino option"
  cl_version :: int
  def_char :: "u8 \<times> u8"
  cl_uid :: nat

datatype mkdir_ans = Made | Exists | Failed

text \<open>The configuration and the answers of the operating system.\<close>

record conf =
  dict_dir :: "u8 list"
  allow_user :: "(u8 list \<times> u8 list) list"
  max_client :: int
  strict_auth :: bool
  time_stamp :: "u8 list"
  os_ugid :: "u8 list \<Rightarrow> (nat \<times> nat) option"
  os_peer :: "nat \<Rightarrow> nat \<times> nat"
  os_access :: "u8 list \<Rightarrow> u32 \<Rightarrow> u32"
  os_mkdir :: "u8 list \<Rightarrow> mkdir_ans"
  os_beyond :: STDYIN

record bufs =
  buf1 :: cbuf
  buf2 :: cbuf
  buf3 :: cbuf
  buf4 :: cbuf
  kbuf :: cbuf
  skbuf :: cbuf

text \<open>
  A connection: what the client is going to send, what the next writes do, and what has
  been sent to it.
\<close>

record conn =
  c_rq :: "rd_ans list"
  c_wq :: "int list"
  c_sent :: "u8 list"

record 'e srv = sdep +
  worklist :: "(nat \<times> 'e WorkArea) list"
  next_work :: nat
  clients :: "client list"
  client_num :: int
  cur_cli :: nat
  global_dicts :: "ino list option"
  srv_fds :: fds
  srv_conf :: conf
  srv_bufs :: bufs
  conns :: "nat \<Rightarrow> conn"
  fd_unix :: nat

abbreviation NOTLOCKED :: int where "NOTLOCKED \<equiv> - 1"
abbreviation SJ3SERV_VERSION_NO :: u32 where "SJ3SERV_VERSION_NO \<equiv> 2"
abbreviation MAXHOSTNAMELEN :: nat where "MAXHOSTNAMELEN \<equiv> 256"
abbreviation MAXLOGNAME :: nat where "MAXLOGNAME \<equiv> 32"
abbreviation FILENAME_MAX :: nat where "FILENAME_MAX \<equiv> 4096"
abbreviation PASSWORDLEN :: nat where "PASSWORDLEN \<equiv> 16"
abbreviation YOMIBUFSIZE :: nat where "YOMIBUFSIZE \<equiv> 1024"
abbreviation KANJIBUFSIZE :: nat where "KANJIBUFSIZE \<equiv> 2048"

type_synonym ('e, 'a) handler = "('e srv, 'a) sm"

definition fail :: "u32 \<Rightarrow> ('e, 'a) handler" where
  "fail e = jump (Error_ret e)"

definition check :: "bool \<Rightarrow> u32 \<Rightarrow> ('e, unit) handler" where
  "check b e = unless b (Error_ret e)"

text \<open>A C string; one without an end is read behind its object.\<close>

definition cstr :: "cbuf \<Rightarrow> ('e, u8 list) handler" where
  "cstr p = bnd (need (strlen p)) (\<lambda>n. ret (take n p))"

definition the_cli :: "('e, client) handler" where
  "the_cli = bnd (gets (\<lambda>s. find (\<lambda>c. cl_fd c = cur_cli s) (clients s))) need"

definition upd_cli :: "(client \<Rightarrow> client) \<Rightarrow> ('e, unit) handler" where
  "upd_cli f = upd (\<lambda>s. s\<lparr>clients := map (\<lambda>c. if cl_fd c = cur_cli s then f c else c) (clients s)\<rparr>)"

definition the_work :: "nat \<Rightarrow> ('e, 'e WorkArea) handler" where
  "the_work w = bnd (gets (\<lambda>s. map_of (worklist s) w)) need"

definition upd_work :: "nat \<Rightarrow> ('e WorkArea \<Rightarrow> 'e WorkArea) \<Rightarrow> ('e, unit) handler" where
  "upd_work w f = upd (\<lambda>s. s\<lparr>worklist := map (\<lambda>(a, p). (a, if a = w then f p else p)) (worklist s)\<rparr>)"

text \<open>\<^verbatim>\<open>if (!work_base) longjmp(error_ret, SJ3_NotConnected)\<close>.\<close>

definition connected :: "('e, nat) handler" where
  "connected = bnd the_cli (\<lambda>c. case cl_work c of None \<Rightarrow> fail SJ3_NotConnected | Some w \<Rightarrow> ret w)"

definition the_dict :: "ino \<Rightarrow> ('e, DictFile) handler" where
  "the_dict i = bnd (gets (\<lambda>s. search_same_dict i (dictlink s))) need"

section \<open>Work areas\<close>

definition alloc_workarea :: "'e \<Rightarrow> ('e, nat option) handler" where
  "alloc_workarea g = bnd malloc (\<lambda>m. if \<not> m then ret None else
     bnd (gets next_work) (\<lambda>w.
     bnd (upd (\<lambda>s. s\<lparr>worklist := (w, \<lparr>wa_refcnt = 1, wa_lock = NOTLOCKED, Jdictlist = [], wa_global = g\<rparr>) # worklist s,
                     next_work := w + 1\<rparr>)) (\<lambda>_. ret (Some w))))"

fun close_dictlist :: "ino list \<Rightarrow> ('e, unit) handler" where
  "close_dictlist [] = ret ()"
| "close_dictlist (i # is) = bnd (gets cur_cli) (\<lambda>fd.
     bnd (unlock_dict i fd) (\<lambda>_. bnd (closedict i) (\<lambda>_. close_dictlist is)))"

definition free_workarea :: "nat \<Rightarrow> ('e, unit) handler" where
  "free_workarea w = bnd (the_work w) (\<lambda>p.
     if wa_refcnt p - 1 \<noteq> 0 then upd_work w (\<lambda>p. p\<lparr>wa_refcnt := wa_refcnt p - 1\<rparr>)
     else bnd (upd (\<lambda>s. s\<lparr>worklist := filter (\<lambda>(a, p). a \<noteq> w) (worklist s)\<rparr>)) (\<lambda>_.
       close_dictlist (Jdictlist p)))"

section \<open>Connections\<close>

text \<open>The test of \<^verbatim>\<open>check_user\<close> reads the strings only when there is a table.\<close>

definition user_allowed :: "cbuf \<Rightarrow> cbuf \<Rightarrow> ('e, bool) handler" where
  "user_allowed username hostname = bnd (gets (\<lambda>s. allow_user (srv_conf s))) (\<lambda>allow.
     if allow = [] then ret True
     else bnd (cstr username) (\<lambda>u. bnd (cstr hostname) (\<lambda>h. ret (check_user allow u h))))"

definition exec_connect :: "'e \<Rightarrow> ('e, unit) handler" where
  "exec_connect g =
     bnd get_int (\<lambda>version.
     bnd (get_nstring (int MAXHOSTNAMELEN)) (\<lambda>(_, hostname).
     bnd (get_nstring (int MAXLOGNAME)) (\<lambda>(_, username).
     bnd (get_nstring (int MAXPATHLEN)) (\<lambda>(_, progname).
     bnd the_cli (\<lambda>c.
     bnd (check (cl_work c = None) SJ3_AlreadyConnected) (\<lambda>_.
     bnd (check (\<not> sint version < 0) SJ3_DifferentVersion) (\<lambda>_.
     bnd (need (rd hostname 0)) (\<lambda>h0. bnd (check (h0 \<noteq> 0) SJ3_NoHostName) (\<lambda>_.
     bnd (need (rd username 0)) (\<lambda>u0. bnd (check (u0 \<noteq> 0) SJ3_NoUserName) (\<lambda>_.
     bnd (user_allowed username hostname) (\<lambda>ok. bnd (check ok SJ3_NotAllowedUser) (\<lambda>_.
     bnd (alloc_workarea g) (\<lambda>wp.
     case wp of None \<Rightarrow> fail SJ3_NotEnoughMemory | Some w \<Rightarrow>
     bnd (cstr username) (\<lambda>u.
     bnd (gets srv_conf) (\<lambda>cf.
     case os_ugid cf u of None \<Rightarrow> fail SJ3_NotAllowedUser | Some (uid, gid) \<Rightarrow>
     bnd (check (\<not> (strict_auth cf \<and> os_peer cf (cl_fd c) \<noteq> (uid, gid))) SJ3_NotAllowedUser) (\<lambda>_.
     bnd (cstr hostname) (\<lambda>h. bnd (cstr progname) (\<lambda>p.
     bnd (upd_cli (\<lambda>c. c\<lparr>cl_host := take (MAXHOSTNAMELEN - 1) h, cl_user := take (MAXLOGNAME - 1) u,
       cl_prog := take (FILENAME_MAX - 1) p, cl_work := Some w, cl_version := to_short (sint version),
       def_char := (0x81, 0x40), cl_uid := uid\<rparr>)) (\<lambda>_.
     put_int (if version = 1 then SJ3_NormalEnd else - SJ3SERV_VERSION_NO)))))))))))))))))))))"

definition exec_disconnect :: "('e, unit) handler" where
  "exec_disconnect = bnd the_cli (\<lambda>c.
     bnd (case cl_stdy c of None \<Rightarrow> ret ()
          | Some i \<Rightarrow> bnd (closestdy i) (\<lambda>_. upd_cli (\<lambda>c. c\<lparr>cl_stdy := None\<rparr>))) (\<lambda>_.
     case cl_work c of None \<Rightarrow> fail SJ3_NotConnected
     | Some w \<Rightarrow> bnd (free_workarea w) (\<lambda>_. bnd (upd_cli (\<lambda>c. c\<lparr>cl_work := None\<rparr>)) (\<lambda>_.
         put_int SJ3_NormalEnd))))"

section \<open>Dictionaries of a client\<close>

text \<open>
  The copy of the global list: one allocation per entry, and one more reference to the
  dictionary. Without memory the code goes through a null pointer.
\<close>

fun copy_dictlist :: "ino list \<Rightarrow> ('e, unit) handler" where
  "copy_dictlist [] = ret ()"
| "copy_dictlist (i # is) = bnd malloc (\<lambda>m. bnd (need (if m then Some () else None)) (\<lambda>_.
     bnd (on_dict i (\<lambda>_. upd_dict i (\<lambda>d. d\<lparr>df_refcnt := df_refcnt d + 1\<rparr>))) (\<lambda>_. copy_dictlist is)))"

definition get_path :: "cbuf \<Rightarrow> ('e, cbuf) handler" where
  "get_path filename = bnd (gets (\<lambda>s. dict_dir (srv_conf s))) (\<lambda>dir.
     bnd (need (make_full_path dir filename MAXPATHLEN)) (\<lambda>r.
     case r of None \<Rightarrow> fail SJ3_TooLongParameter | Some p \<Rightarrow> ret p))"

definition fail_errno :: "('e, 'a) handler" where
  "fail_errno = bnd (gets serv_errno) fail"

text \<open>The dictionary \<open>i\<close> goes into the list of the work area \<open>w\<close>.\<close>

definition add_dictl :: "nat \<Rightarrow> ino \<Rightarrow> ('e, unit) handler" where
  "add_dictl w i = bnd (the_work w) (\<lambda>p.
     if i \<in> set (Jdictlist p) then ret ()
     else bnd malloc (\<lambda>m.
       if \<not> m then bnd (closedict i) (\<lambda>_. fail SJ3_NotEnoughMemory)
       else upd_work w (\<lambda>p. p\<lparr>Jdictlist := i # Jdictlist p\<rparr>)))"

definition exec_opendict :: "('e, unit) handler" where
  "exec_opendict =
     bnd (get_nstring (int MAXPATHLEN)) (\<lambda>(_, filename).
     bnd (get_nstring (int PASSWORDLEN)) (\<lambda>(_, password).
     bnd connected (\<lambda>w.
     bnd (get_path filename) (\<lambda>path.
     bnd (opendict path password) (\<lambda>dict.
     case dict of None \<Rightarrow> fail_errno | Some i \<Rightarrow>
     bnd (the_work w) (\<lambda>p.
     bnd (gets global_dicts) (\<lambda>g.
     bnd (case (Jdictlist p, g) of
            ([], Some ds) \<Rightarrow> bnd (copy_dictlist ds) (\<lambda>_. upd_work w (\<lambda>p. p\<lparr>Jdictlist := ds\<rparr>))
          | _ \<Rightarrow> ret ()) (\<lambda>_.
     bnd (add_dictl w i) (\<lambda>_.
     bnd (gets cur_cli) (\<lambda>fd.
     bnd (the_dict i) (\<lambda>d.
     bnd (if wa_lock p = int fd \<and> maxunit d \<noteq> 0 then lock_dict i fd else ret ()) (\<lambda>_.
     bnd (put_int SJ3_NormalEnd) (\<lambda>_. put_int (ucast (dicid d)))))))))))))))"

text \<open>The entry of the list whose dictionary has the identifier; the number is sign-extended.\<close>

definition find_dictl :: "nat \<Rightarrow> u32 \<Rightarrow> u32 \<Rightarrow> ('e, ino) handler" where
  "find_dictl w n e = bnd (the_work w) (\<lambda>p.
     if scast n \<in> set (Jdictlist p) then ret (scast n) else fail e)"

definition exec_closedict :: "('e, unit) handler" where
  "exec_closedict =
     bnd get_int (\<lambda>n.
     bnd connected (\<lambda>w.
     bnd (find_dictl w n SJ3_BadDictID) (\<lambda>i.
     bnd (gets cur_cli) (\<lambda>fd.
     bnd (unlock_dict i fd) (\<lambda>_.
     bnd (closedict i) (\<lambda>_.
     bnd (upd_work w (\<lambda>p. p\<lparr>Jdictlist := remove1 i (Jdictlist p)\<rparr>)) (\<lambda>_.
     put_int SJ3_NormalEnd)))))))"

section \<open>Study files of a client\<close>

definition exec_openstdy :: "('e, unit) handler" where
  "exec_openstdy =
     bnd (get_nstring (int MAXPATHLEN)) (\<lambda>(_, filename).
     bnd (get_nstring (int PASSWORDLEN)) (\<lambda>(_, password).
     bnd the_cli (\<lambda>c.
     bnd (check (cl_stdy c = None) SJ3_StdyAlreadyOpened) (\<lambda>_.
     bnd (get_path filename) (\<lambda>path.
     bnd (openstdy path password) (\<lambda>stdy.
     case stdy of None \<Rightarrow> fail_errno | Some i \<Rightarrow>
     bnd (upd_cli (\<lambda>c. c\<lparr>cl_stdy := Some i\<rparr>)) (\<lambda>_. put_int SJ3_NormalEnd)))))))"

definition exec_closestdy :: "('e, unit) handler" where
  "exec_closestdy = bnd the_cli (\<lambda>c.
     case cl_stdy c of None \<Rightarrow> fail SJ3_StdyFileNotOpened
     | Some i \<Rightarrow> bnd (closestdy i) (\<lambda>_. bnd (upd_cli (\<lambda>c. c\<lparr>cl_stdy := None\<rparr>)) (\<lambda>_. put_int SJ3_NormalEnd)))"

definition exec_stdysize :: "('e, unit) handler" where
  "exec_stdysize = bnd (put_int SJ3_NormalEnd) (\<lambda>_. put_int (of_nat SIZEOF_STDYOUT))"

section \<open>Locks\<close>

text \<open>The loops of \<^verbatim>\<open>exec_lock\<close> and \<^verbatim>\<open>exec_unlock\<close> over the writable dictionaries of the list.\<close>

fun each_writable :: "(ino \<Rightarrow> ('e, unit) handler) \<Rightarrow> ino list \<Rightarrow> ('e, unit) handler" where
  "each_writable f [] = ret ()"
| "each_writable f (i # is) = bnd (the_dict i) (\<lambda>d.
     bnd (if maxunit d = 0 then ret () else f i) (\<lambda>_. each_writable f is))"

definition exec_lock :: "('e, unit) handler" where
  "exec_lock = bnd connected (\<lambda>w. bnd (the_work w) (\<lambda>p. bnd (gets cur_cli) (\<lambda>fd.
     bnd (check (\<not> (wa_lock p \<noteq> NOTLOCKED \<and> wa_lock p \<noteq> int fd)) SJ3_LockedByOther) (\<lambda>_.
     bnd (upd_work w (\<lambda>p. p\<lparr>wa_lock := int fd\<rparr>)) (\<lambda>_.
     bnd (each_writable (\<lambda>i. lock_dict i fd) (Jdictlist p)) (\<lambda>_.
     put_int SJ3_NormalEnd))))))"

definition exec_unlock :: "('e, unit) handler" where
  "exec_unlock = bnd connected (\<lambda>w. bnd (the_work w) (\<lambda>p. bnd (gets cur_cli) (\<lambda>fd.
     bnd (check (wa_lock p \<noteq> NOTLOCKED) SJ3_NotLocked) (\<lambda>_.
     bnd (check (wa_lock p = int fd) SJ3_LockedByOther) (\<lambda>_.
     bnd (upd_work w (\<lambda>p. p\<lparr>wa_lock := NOTLOCKED\<rparr>)) (\<lambda>_.
     bnd (each_writable (\<lambda>i. unlock_dict i fd) (Jdictlist p)) (\<lambda>_.
     put_int SJ3_NormalEnd)))))))"

definition lock_check_for_read :: "nat \<Rightarrow> ('e, unit) handler" where
  "lock_check_for_read w = bnd (the_work w) (\<lambda>p. bnd (gets cur_cli) (\<lambda>fd.
     if wa_lock p = NOTLOCKED then ret () else check (wa_lock p = int fd) SJ3_LockedByOther))"

section \<open>Learning\<close>

definition dec_STDYOUT :: "u8 list \<Rightarrow> STDYOUT" where
  "dec_STDYOUT p = (let f = unat (p ! 26) in
     \<lparr>stdy1 = dec_STDYIN p, st_hinshi = p ! 24, st_len = unat (p ! 25), sttlen = f mod 4,
      sttfg = (f div 4 mod 2 = 1), ka_fg = (f div 8 mod 2 = 1)\<rparr>)"

text \<open>\<^verbatim>\<open>if (!stdy_base) longjmp(error_ret, SJ3_StdyFileNotOpened)\<close>.\<close>

definition studying :: "('e, ino) handler" where
  "studying = bnd the_cli (\<lambda>c. case cl_stdy c of None \<Rightarrow> fail SJ3_StdyFileNotOpened | Some i \<Rightarrow> ret i)"

definition the_stdy :: "ino \<Rightarrow> ('e, STDY) handler" where
  "the_stdy i = bnd (gets (\<lambda>s. search_same_stdy i (stdylink s))) (\<lambda>p. bnd (need p) (\<lambda>sf. ret (sf_stdy sf)))"

definition set_stdy :: "ino \<Rightarrow> STDY \<Rightarrow> ('e, unit) handler" where
  "set_stdy i st = upd (\<lambda>s. s\<lparr>stdylink := upd_stdy i (\<lambda>p. p\<lparr>sf_stdy := st\<rparr>) (stdylink s)\<rparr>)"

text \<open>\<^verbatim>\<open>study\<close> on the open study file, with its write to the file.\<close>

definition call_study :: "ino \<Rightarrow> STDYOUT \<Rightarrow> ('e, study_result) handler" where
  "call_study i outp = bnd (the_stdy i) (\<lambda>st. bnd (gets (\<lambda>s. os_beyond (srv_conf s))) (\<lambda>beyond.
     bnd (need (study beyond (Some st) outp)) (\<lambda>(r, st', save).
     bnd (case st' of None \<Rightarrow> ret () | Some st' \<Rightarrow> set_stdy i st') (\<lambda>_.
     bnd (if save then bnd (putstydic i) (\<lambda>_. ret ()) else ret ()) (\<lambda>_. ret r)))))"

definition exec_study :: "('e, unit) handler" where
  "exec_study =
     bnd (get_ndata SIZEOF_STDYOUT) (\<lambda>stdy.
     bnd connected (\<lambda>w. bnd studying (\<lambda>i.
     bnd (lock_check_for_read w) (\<lambda>_.
     bnd (call_study i (dec_STDYOUT stdy)) (\<lambda>r.
     let err = (case r of STUDYNODICT \<Rightarrow> SJ3_StdyFileNotOpened | STUDYERROR \<Rightarrow> SJ3_InternalError | _ \<Rightarrow> SJ3_NormalEnd) in
     if err \<noteq> SJ3_NormalEnd then fail err else put_int err)))))"

section \<open>Files\<close>

definition path_of :: "cbuf \<Rightarrow> ('e, u8 list) handler" where
  "path_of p = bnd (get_path p) cstr"

definition exec_makedict :: "('e, unit) handler" where
  "exec_makedict =
     bnd (get_nstring (int MAXPATHLEN)) (\<lambda>(err, path).
     bnd get_int (\<lambda>il. bnd get_int (\<lambda>sl. bnd get_int (\<lambda>sn.
     bnd (check (err = 0) SJ3_TooLongParameter) (\<lambda>_.
     bnd (path_of path) (\<lambda>path.
     bnd (gets (\<lambda>s. fs_name s path)) (\<lambda>st.
     bnd (check (st = None) SJ3_IllegalDictFile) (\<lambda>_.
     bnd (makedict path (sint il) (sint sl) (sint sn)) (\<lambda>err.
     if err \<noteq> SJ3_NormalEnd then fail err else put_int err)))))))))"

definition exec_makestdy :: "('e, unit) handler" where
  "exec_makestdy =
     bnd (get_nstring (int MAXPATHLEN)) (\<lambda>(err, path).
     bnd get_int (\<lambda>stynum. bnd get_int (\<lambda>clstep. bnd get_int (\<lambda>cllen.
     bnd (check (err = 0) SJ3_TooLongParameter) (\<lambda>_.
     bnd (path_of path) (\<lambda>path.
     bnd (gets (\<lambda>s. fs_name s path)) (\<lambda>st.
     bnd (check (st = None) SJ3_IllegalStdyFile) (\<lambda>_.
     bnd (makestdy path (sint stynum) (sint clstep) (sint cllen)) (\<lambda>err.
     if err \<noteq> SJ3_NormalEnd then fail err else put_int err)))))))))"

definition exec_access :: "('e, unit) handler" where
  "exec_access =
     bnd (get_nstring (int MAXPATHLEN)) (\<lambda>(i, path).
     bnd get_int (\<lambda>mode.
     bnd (check (i = 0) SJ3_TooLongParameter) (\<lambda>_.
     bnd (path_of path) (\<lambda>path.
     bnd (gets (\<lambda>s. os_access (srv_conf s) path mode)) put_int))))"

definition exec_makedir :: "('e, unit) handler" where
  "exec_makedir =
     bnd (get_nstring (int MAXPATHLEN)) (\<lambda>(i, path).
     bnd (check (i = 0) SJ3_TooLongParameter) (\<lambda>_.
     bnd (path_of path) (\<lambda>path.
     bnd (gets (\<lambda>s. os_mkdir (srv_conf s) path)) (\<lambda>r.
     case r of Exists \<Rightarrow> fail SJ3_DirAlreadyExist | Failed \<Rightarrow> fail SJ3_CannotCreateDir
     | Made \<Rightarrow> put_int SJ3_NormalEnd))))"

section \<open>Administration\<close>

fun put_who :: "client list \<Rightarrow> ('e, unit) handler" where
  "put_who [] = ret ()"
| "put_who (c # cs) = bnd (put_int (of_nat (cl_fd c))) (\<lambda>_.
     bnd (put_string (Some (cl_host c @ [0]))) (\<lambda>_. bnd (put_string (Some (cl_user c @ [0]))) (\<lambda>_.
     bnd (put_string (Some (cl_prog c @ [0]))) (\<lambda>_. put_who cs))))"

definition exec_who :: "('e, unit) handler" where
  "exec_who = bnd (gets clients) (\<lambda>cs. bnd (gets client_num) (\<lambda>n.
     let i = min (int (length cs)) (max 0 (n + 1)) in
     bnd (put_int (word_of_int (if i < n then i else n))) (\<lambda>_. put_who (take (nat n) cs))))"

text \<open>\<^verbatim>\<open>server_terminate\<close>: every file is closed and the process ends.\<close>

definition server_terminate :: "('e, unit) handler" where
  "server_terminate = bnd (upd sj_closeall) (\<lambda>_. jump Exit)"

definition exec_kill :: "('e, unit) handler" where
  "exec_kill = bnd (put_int SJ3_NormalEnd) (\<lambda>_. bnd put_flush (\<lambda>_. server_terminate))"

definition exec_quit :: "('e, unit) handler" where
  "exec_quit = bnd (gets client_num) (\<lambda>n. bnd (check (\<not> n > 1) SJ3_UserConnected) (\<lambda>_. exec_kill))"

text \<open>\<open>version : \<close>, \<open>times-stamp : \<close> and \<open>2.08.99\<close>.\<close>

definition str_Version :: cbuf where
  "str_Version = [0x76, 0x65, 0x72, 0x73, 0x69, 0x6f, 0x6e, 0x20, 0x3a, 0x20]"

definition str_TimeStamp :: cbuf where
  "str_TimeStamp = [0x74, 0x69, 0x6d, 0x65, 0x73, 0x2d, 0x73, 0x74, 0x61, 0x6d, 0x70, 0x20, 0x3a, 0x20]"

definition version_number :: cbuf where
  "version_number = [0x32, 0x2e, 0x30, 0x38, 0x2e, 0x39, 0x39]"

definition exec_version :: "('e, unit) handler" where
  "exec_version = bnd (put_int SJ3_NormalEnd) (\<lambda>_.
     bnd (put_ndata (Some str_Version) (length str_Version)) (\<lambda>_.
     bnd (put_string (Some (version_number @ [0]))) (\<lambda>_.
     bnd (put_ndata (Some str_TimeStamp) (length str_TimeStamp)) (\<lambda>_.
     bnd (gets (\<lambda>s. time_stamp (srv_conf s))) (\<lambda>t.
     bnd (put_string (Some (t @ [0]))) (\<lambda>_.
     bnd (put_string None) (\<lambda>_. ret ())))))))"

definition exec_dictpass :: "('e, unit) handler" where
  "exec_dictpass =
     bnd get_int (\<lambda>n. bnd (get_nstring (int (PASSWDLEN + 1))) (\<lambda>(err, buf).
     bnd connected (\<lambda>w. bnd (check (err = 0) SJ3_TooLongPasswd) (\<lambda>_.
     bnd (find_dictl w n SJ3_NoSuchDict) (\<lambda>i.
     bnd (set_dictpass i buf) (\<lambda>r. if r \<noteq> 0 then fail_errno else put_int SJ3_NormalEnd))))))"

definition exec_dictcmnt :: "('e, unit) handler" where
  "exec_dictcmnt =
     bnd get_int (\<lambda>n. bnd (get_nstring (int (COMMENTLENGTH + 1))) (\<lambda>(err, buf).
     bnd connected (\<lambda>w. bnd (check (err = 0) SJ3_TooLongComment) (\<lambda>_.
     bnd (find_dictl w n SJ3_NoSuchDict) (\<lambda>i.
     bnd (set_dictcmnt i buf) (\<lambda>r. if r \<noteq> 0 then fail_errno else put_int SJ3_NormalEnd))))))"

definition exec_stdypass :: "('e, unit) handler" where
  "exec_stdypass =
     bnd (get_nstring (int (PASSWDLEN + 1))) (\<lambda>(err, buf).
     bnd connected (\<lambda>_. bnd studying (\<lambda>i. bnd (check (err = 0) SJ3_TooLongPasswd) (\<lambda>_.
     bnd (set_stdypass i buf) (\<lambda>r. if r \<noteq> 0 then fail_errno else put_int SJ3_NormalEnd)))))"

definition exec_stdycmnt :: "('e, unit) handler" where
  "exec_stdycmnt =
     bnd (get_nstring (int (COMMENTLENGTH + 1))) (\<lambda>(err, buf).
     bnd connected (\<lambda>_. bnd studying (\<lambda>i. bnd (check (err = 0) SJ3_TooLongComment) (\<lambda>_.
     bnd (set_stdycmnt i buf) (\<lambda>r. if r \<noteq> 0 then fail_errno else put_int SJ3_NormalEnd)))))"

definition exec_stdypara :: "('e, unit) handler" where
  "exec_stdypara = bnd connected (\<lambda>_. bnd studying (\<lambda>i. bnd (the_stdy i) (\<lambda>st.
     case get_stdysize st of (stynum, clstep, cllen) \<Rightarrow>
     block [put_int SJ3_NormalEnd, put_int stynum, put_int clstep, put_int cllen])))"

end
