(* ===== verification/Sj_Convert.thy ===== *)
theory Sj_Convert
  imports Sj_Execute
begin

text \<open>
  \<^verbatim>\<open>src/sj3serv/execute.c\<close>, the handlers that call the conversion engine, each in its
  Shift JIS and its EUC form, and those that register, delete and list words.

  The engine (\<^verbatim>\<open>ph2knj\<close>, \<^verbatim>\<open>cl2knj\<close>, \<^verbatim>\<open>nextcl\<close> and so on) is an argument of the
  handlers. An engine function gets its variables, the dictionaries of the client and the
  study area, and the buffer it writes to; it yields its return value, the buffer and its
  new variables. Registering and deleting a word also yields the new content of the
  dictionary and what is written to the files.
\<close>

section \<open>The engine\<close>

record 'e edit =
  ed_err :: u32
  ed_global :: 'e
  ed_buffer :: cbuf
  ed_segunit :: int
  ed_ofsptr :: "nat list"
  ed_writes :: "(nat \<times> u8 list) list"
  ed_stdy :: "STDY option"
  ed_putstydic :: bool
  ed_putcldic :: bool

type_synonym 'e view = "'e \<times> DictFile list \<times> STDY option"

record 'e engine =
  e_init :: 'e
  e_ph2knj :: "'e view \<Rightarrow> cbuf \<Rightarrow> cbuf \<Rightarrow> int \<times> cbuf \<times> 'e"
  e_cl2knj :: "'e view \<Rightarrow> cbuf \<Rightarrow> int \<Rightarrow> cbuf \<Rightarrow> int \<times> cbuf \<times> 'e"
  e_nextcl :: "'e view \<Rightarrow> int \<Rightarrow> cbuf \<Rightarrow> int \<times> cbuf \<times> 'e"
  e_prevcl :: "'e view \<Rightarrow> int \<Rightarrow> cbuf \<Rightarrow> int \<times> cbuf \<times> 'e"
  e_getusr :: "'e view \<Rightarrow> ino \<Rightarrow> cbuf \<Rightarrow> int \<times> cbuf \<times> 'e"
  e_nextusr :: "'e view \<Rightarrow> ino \<Rightarrow> cbuf \<Rightarrow> int \<times> cbuf \<times> 'e"
  e_prevusr :: "'e view \<Rightarrow> ino \<Rightarrow> cbuf \<Rightarrow> int \<times> cbuf \<times> 'e"
  e_adddic :: "'e view \<Rightarrow> ino \<Rightarrow> cbuf \<Rightarrow> cbuf \<Rightarrow> u8 \<Rightarrow> 'e edit"
  e_deldic :: "'e view \<Rightarrow> ino \<Rightarrow> cbuf \<Rightarrow> cbuf \<Rightarrow> u8 \<Rightarrow> 'e edit"
  e_clstudy :: "STDY \<Rightarrow> cbuf \<Rightarrow> cbuf \<Rightarrow> STDYOUT \<Rightarrow> int \<times> STDY \<times> bool"

text \<open>The dictionaries behind a list of pointers.\<close>

definition open_dicts :: "ino list \<Rightarrow> DictFile list \<Rightarrow> DictFile list option" where
  "open_dicts is ds = those (map (\<lambda>i. search_same_dict i ds) is)"

definition cur_stdy :: "('e, STDY option) handler" where
  "cur_stdy = bnd the_cli (\<lambda>c. case cl_stdy c of None \<Rightarrow> ret None | Some i \<Rightarrow> bnd (the_stdy i) (\<lambda>st. ret (Some st)))"

definition view :: "nat \<Rightarrow> ('e, 'e view) handler" where
  "view w = bnd (the_work w) (\<lambda>p.
     bnd (gets (\<lambda>s. open_dicts (Jdictlist p) (dictlink s))) (\<lambda>ds. bnd (need ds) (\<lambda>ds.
     bnd cur_stdy (\<lambda>st. ret (wa_global p, ds, st)))))"

definition call :: "nat \<Rightarrow> ('e view \<Rightarrow> int \<times> cbuf \<times> 'e) \<Rightarrow> ('e, int \<times> cbuf) handler" where
  "call w f = bnd (view w) (\<lambda>v. case f v of (r, b, g) \<Rightarrow>
     bnd (upd_work w (\<lambda>p. p\<lparr>wa_global := g\<rparr>)) (\<lambda>_. ret (r, b)))"

section \<open>Buffers\<close>

definition set_bufs :: "(bufs \<Rightarrow> bufs) \<Rightarrow> ('e, unit) handler" where
  "set_bufs f = upd (\<lambda>s. s\<lparr>srv_bufs := f (srv_bufs s)\<rparr>)"

definition get_bufs :: "(bufs \<Rightarrow> 'a) \<Rightarrow> ('e, 'a) handler" where
  "get_bufs f = gets (\<lambda>s. f (srv_bufs s))"

text \<open>An engine function that writes to \<^verbatim>\<open>kbuf\<close>, and one that writes to \<^verbatim>\<open>buf4\<close>.\<close>

definition call_k :: "nat \<Rightarrow> ('e view \<Rightarrow> cbuf \<Rightarrow> int \<times> cbuf \<times> 'e) \<Rightarrow> ('e, int) handler" where
  "call_k w f = bnd (get_bufs kbuf) (\<lambda>k. bnd (call w (\<lambda>v. f v k)) (\<lambda>(r, b).
     bnd (set_bufs (\<lambda>x. x\<lparr>kbuf := b\<rparr>)) (\<lambda>_. ret r)))"

definition call_4 :: "nat \<Rightarrow> ('e view \<Rightarrow> cbuf \<Rightarrow> int \<times> cbuf \<times> 'e) \<Rightarrow> ('e, int) handler" where
  "call_4 w f = bnd (get_bufs buf4) (\<lambda>k. bnd (call w (\<lambda>v. f v k)) (\<lambda>(r, b).
     bnd (set_bufs (\<lambda>x. x\<lparr>buf4 := b\<rparr>)) (\<lambda>_. ret r)))"

text \<open>\<^verbatim>\<open>get_nstring\<close> into a static buffer: what lies behind the bytes read stays.\<close>

definition over :: "cbuf \<Rightarrow> cbuf \<Rightarrow> cbuf" where
  "over p old = p @ drop (length p) old"

definition get_buf1 :: "('e, u32) handler" where
  "get_buf1 = bnd (get_nstring (int YOMIBUFSIZE)) (\<lambda>(e, p). bnd (set_bufs (\<lambda>x. x\<lparr>buf1 := over p (buf1 x)\<rparr>)) (\<lambda>_. ret e))"

definition get_buf2 :: "('e, u32) handler" where
  "get_buf2 = bnd (get_nstring (int YOMIBUFSIZE)) (\<lambda>(e, p). bnd (set_bufs (\<lambda>x. x\<lparr>buf2 := over p (buf2 x)\<rparr>)) (\<lambda>_. ret e))"

definition cconverr :: "('e, 'a) handler" where
  "cconverr = fail SJ3_CannotCodeConvert"

text \<open>\<^verbatim>\<open>sj3_str_sjistoeuc\<close> from one buffer to another.\<close>

definition to_euc :: "(cbuf \<Rightarrow> bufs \<Rightarrow> bufs) \<Rightarrow> cbuf \<Rightarrow> cbuf \<Rightarrow> ('e, cbuf) handler" where
  "to_euc put out inp = bnd the_cli (\<lambda>c.
     bnd (need (sj3_str_sjistoeuc out (int YOMIBUFSIZE) (Some inp) (def_char c))) (\<lambda>(r, out, _).
     bnd (set_bufs (put out)) (\<lambda>_. if r < 0 then cconverr else ret out)))"

definition buf1_to_buf2 :: "('e, cbuf) handler" where
  "buf1_to_buf2 = bnd (get_bufs buf1) (\<lambda>b1. bnd (get_bufs buf2) (\<lambda>b2. to_euc (\<lambda>b x. x\<lparr>buf2 := b\<rparr>) b2 b1))"

definition buf1_to_buf3 :: "('e, cbuf) handler" where
  "buf1_to_buf3 = bnd (get_bufs buf1) (\<lambda>b1. bnd (get_bufs buf3) (\<lambda>b3. to_euc (\<lambda>b x. x\<lparr>buf3 := b\<rparr>) b3 b1))"

definition buf2_to_buf4 :: "('e, cbuf) handler" where
  "buf2_to_buf4 = bnd (get_bufs buf2) (\<lambda>b2. bnd (get_bufs buf4) (\<lambda>b4. to_euc (\<lambda>b x. x\<lparr>buf4 := b\<rparr>) b4 b2))"

text \<open>
  \<^verbatim>\<open>sj3_str_euctosjis(skbuf + q, buf_size, inp)\<close>: the return value and the number of
  characters without a code.
\<close>

definition to_sjis :: "nat \<Rightarrow> int \<Rightarrow> cbuf \<Rightarrow> ('e, int \<times> int) handler" where
  "to_sjis q len inp = bnd the_cli (\<lambda>c. bnd (get_bufs skbuf) (\<lambda>sk.
     bnd (need (sj3_str_euctosjis (drop q sk) len (Some inp) (def_char c))) (\<lambda>(r, out, defuse).
     bnd (set_bufs (\<lambda>x. x\<lparr>skbuf := take q sk @ out\<rparr>)) (\<lambda>_. ret (r, defuse)))))"

text \<open>The same where a negative result ends the request.\<close>

definition to_sjis_ok :: "nat \<Rightarrow> int \<Rightarrow> cbuf \<Rightarrow> ('e, int \<times> int) handler" where
  "to_sjis_ok q len inp = bnd (to_sjis q len inp) (\<lambda>(l, d). if l < 0 then cconverr else ret (l, d))"

text \<open>\<^verbatim>\<open>memcpy(skbuf + q, src, n)\<close>.\<close>

definition copy_sk :: "nat \<Rightarrow> cbuf \<Rightarrow> nat \<Rightarrow> ('e, unit) handler" where
  "copy_sk q src n = bnd (get_bufs skbuf) (\<lambda>sk.
     bnd (need (if n \<le> length src \<and> q + n \<le> length sk then Some (take q sk @ take n src @ drop (q + n) sk) else None)) (\<lambda>sk.
     set_bufs (\<lambda>x. x\<lparr>skbuf := sk\<rparr>)))"

text \<open>The reply with one candidate.\<close>

definition put_candidate :: "int \<Rightarrow> cbuf \<Rightarrow> ('e, unit) handler" where
  "put_candidate i p = bnd (put_int (word_of_int i)) (\<lambda>_.
     bnd (put_ndata (Some p) SIZEOF_STDYOUT) (\<lambda>p. bnd (put_string p) (\<lambda>_. ret ())))"

text \<open>The start of a request with a reading: connection, length and lock.\<close>

definition ready :: "u32 \<Rightarrow> ('e, nat) handler" where
  "ready i = bnd connected (\<lambda>w. bnd (check (i = 0) SJ3_TooLongParameter) (\<lambda>_.
     bnd (lock_check_for_read w) (\<lambda>_. ret w)))"

datatype proto = SJIS_PROTO | EUC_PROTO

section \<open>Conversion of a text\<close>

text \<open>
  A clause whose candidate has characters without a Shift JIS code: other candidates are
  tried, and then the reading itself. \<open>q\<close> is the place in \<^verbatim>\<open>skbuf\<close>, \<open>off\<close> that of
  the reading in \<^verbatim>\<open>buf2\<close>.
\<close>

definition stdy_size1 :: nat where "stdy_size1 = SIZEOF_STDYOUT + 1"

definition ph_retry :: "'e engine \<Rightarrow> nat \<Rightarrow> nat \<Rightarrow> int \<Rightarrow> nat \<Rightarrow> nat \<Rightarrow> ('e, int) handler" where
  "ph_retry eng w q bs off srclen =
     bnd (get_bufs buf2) (\<lambda>b2. bnd (get_bufs buf3) (\<lambda>b3.
     bnd (need (if off + srclen \<le> length b2 \<and> srclen < length b3
                then Some (over (take srclen (drop off b2) @ [0]) b3) else None)) (\<lambda>b3.
     bnd (set_bufs (\<lambda>x. x\<lparr>buf3 := b3\<rparr>)) (\<lambda>_.
     bnd (call_4 w (\<lambda>v. e_cl2knj eng v b3 (int srclen))) (\<lambda>j.
     bnd (get_bufs buf4) (\<lambda>b4. bnd (to_sjis q bs (drop stdy_size1 b4)) (\<lambda>(l, d).
     bnd (loop (\<lambda>(j, l, d). d \<noteq> 0 \<and> j = int srclen)
           (\<lambda>_. bnd (call_4 w (\<lambda>v. e_nextcl eng v 0)) (\<lambda>j.
                bnd (get_bufs buf4) (\<lambda>b4. bnd (to_sjis_ok q bs (drop stdy_size1 b4)) (\<lambda>(l, d). ret (j, l, d)))))
           (j, l, d)) (\<lambda>(j, l, d).
     if d = 0 \<and> j = int srclen
     then bnd (get_bufs buf4) (\<lambda>b4. bnd (copy_sk (q - stdy_size1) b4 stdy_size1) (\<lambda>_. ret l))
     else bnd (to_sjis q bs b3) (\<lambda>(l, d). if l < 0 \<or> d \<noteq> 0 then cconverr else ret l)))))))))"

text \<open>One turn of the loop over the clauses; the first component is the byte at \<^verbatim>\<open>p\<close>.\<close>

definition ph_clause :: "'e engine \<Rightarrow> nat \<Rightarrow> u8 \<times> nat \<times> nat \<times> int \<times> nat \<Rightarrow> ('e, u8 \<times> nat \<times> nat \<times> int \<times> nat) handler" where
  "ph_clause eng w x = (case x of (c, p, q, bs, srchead) \<Rightarrow>
     let srclen = unat c; bs = bs - int stdy_size1 in
     if bs \<le> 0 then cconverr else
     bnd (get_bufs kbuf) (\<lambda>k.
     bnd (copy_sk q (drop p k) stdy_size1) (\<lambda>_.
     let p = p + stdy_size1; q = q + stdy_size1 in
     bnd (to_sjis_ok q bs (drop p k)) (\<lambda>(l, d).
     bnd (if d \<noteq> 0 then ph_retry eng w q bs srchead srclen else ret l) (\<lambda>l.
     bnd (need (strlen (drop p k))) (\<lambda>n.
     bnd (need (rd k (p + n + 1))) (\<lambda>c.
     ret (c, p + n + 1, nat (int q + l + 1), bs - (l + 1), srchead + srclen))))))))"

definition put_clauses :: "cbuf \<Rightarrow> ('e, unit) handler" where
  "put_clauses p = bnd (loop (\<lambda>p. p = [] \<or> p ! 0 \<noteq> 0)
       (\<lambda>p. case p of [] \<Rightarrow> jump Ub
          | c # p \<Rightarrow> bnd (put_byte (ucast c)) (\<lambda>_.
              bnd (put_ndata (Some p) SIZEOF_STDYOUT) (\<lambda>p. bnd (put_string p) need))) p)
     (\<lambda>_. put_byte 0)"

definition exec_ph2knj :: "'e engine \<Rightarrow> proto \<Rightarrow> ('e, unit) handler" where
  "exec_ph2knj eng mb =
     bnd get_buf1 (\<lambda>i. bnd (ready i) (\<lambda>w. bnd (get_bufs buf1) (\<lambda>b1.
     bnd (case mb of
         SJIS_PROTO \<Rightarrow>
           bnd buf1_to_buf2 (\<lambda>b2.
           bnd (call_k w (\<lambda>v. e_ph2knj eng v b2)) (\<lambda>i.
           bnd (get_bufs kbuf) (\<lambda>k. bnd (need (rd k 0)) (\<lambda>c.
           bnd (loop (\<lambda>(c, _). c \<noteq> 0) (ph_clause eng w) (c, 0, 0, int KANJIBUFSIZE, 0)) (\<lambda>(_, _, q, _, _).
           bnd (get_bufs skbuf) (\<lambda>sk. bnd (need (wr sk q 0)) (\<lambda>sk.
           bnd (set_bufs (\<lambda>x. x\<lparr>skbuf := sk\<rparr>)) (\<lambda>_. ret (i, sk)))))))))
       | EUC_PROTO \<Rightarrow>
           bnd (call_k w (\<lambda>v. e_ph2knj eng v b1)) (\<lambda>i. bnd (get_bufs kbuf) (\<lambda>k. ret (i, k)))) (\<lambda>(i, p).
     bnd (put_int SJ3_NormalEnd) (\<lambda>_. bnd (put_int (word_of_int i)) (\<lambda>_. put_clauses p))))))"

section \<open>Conversion of a clause\<close>

text \<open>
  The head of the Shift JIS reply: the record in \<^verbatim>\<open>kbuf\<close> is copied to \<^verbatim>\<open>skbuf\<close> and
  the text behind it converted.
\<close>

definition room :: int where "room = int KANJIBUFSIZE - int SIZEOF_STDYOUT"

definition sk_from_kbuf :: "('e, int \<times> int) handler" where
  "sk_from_kbuf = bnd (get_bufs kbuf) (\<lambda>k. bnd (copy_sk 0 k SIZEOF_STDYOUT) (\<lambda>_.
     to_sjis_ok SIZEOF_STDYOUT room (drop SIZEOF_STDYOUT k)))"

text \<open>The text behind the record in \<^verbatim>\<open>kbuf\<close>, or in \<^verbatim>\<open>buf4\<close>, converted to its place.\<close>

definition sk_text_k :: "('e, int \<times> int) handler" where
  "sk_text_k = bnd (get_bufs kbuf) (\<lambda>k. to_sjis_ok SIZEOF_STDYOUT room (drop SIZEOF_STDYOUT k))"

definition sk_text_4 :: "('e, int \<times> int) handler" where
  "sk_text_4 = bnd (get_bufs buf4) (\<lambda>k. to_sjis_ok SIZEOF_STDYOUT room (drop SIZEOF_STDYOUT k))"

text \<open>
  \<^verbatim>\<open>while (defuse && ok(i)) { i = f(kbuf); convert }\<close>: the candidates are skipped until
  one can be written in Shift JIS.
\<close>

definition skip_k :: "nat \<Rightarrow> ('e view \<Rightarrow> cbuf \<Rightarrow> int \<times> cbuf \<times> 'e) \<Rightarrow> (int \<Rightarrow> bool) \<Rightarrow> int \<times> int \<Rightarrow> ('e, int \<times> int) handler" where
  "skip_k w f ok x = loop (\<lambda>(i, d). d \<noteq> 0 \<and> ok i)
     (\<lambda>_. bnd (call_k w f) (\<lambda>i. bnd sk_text_k (\<lambda>(_, d). ret (i, d)))) x"

definition skip_4 :: "nat \<Rightarrow> ('e view \<Rightarrow> cbuf \<Rightarrow> int \<times> cbuf \<times> 'e) \<Rightarrow> (int \<Rightarrow> bool) \<Rightarrow> int \<times> int \<Rightarrow> ('e, int \<times> int) handler" where
  "skip_4 w f ok x = loop (\<lambda>(i, d). d \<noteq> 0 \<and> ok i)
     (\<lambda>_. bnd (call_4 w f) (\<lambda>i. bnd sk_text_4 (\<lambda>(_, d). ret (i, d)))) x"

definition exec_cl2knj :: "'e engine \<Rightarrow> proto \<Rightarrow> ('e, unit) handler" where
  "exec_cl2knj eng mb =
     bnd get_int (\<lambda>len. bnd get_buf1 (\<lambda>i. bnd (ready i) (\<lambda>w. bnd (get_bufs buf1) (\<lambda>b1.
     bnd (case mb of
         SJIS_PROTO \<Rightarrow>
           bnd buf1_to_buf2 (\<lambda>b2.
           bnd (need (strlen b2)) (\<lambda>j. let j = int j in
           bnd (call_k w (\<lambda>v. e_cl2knj eng v b2 j)) (\<lambda>i.
           bnd sk_from_kbuf (\<lambda>(_, d).
           bnd (if d = 0 then ret i else
                bnd (skip_4 w (\<lambda>v. e_nextcl eng v 0) (\<lambda>i. i = j) (i, d)) (\<lambda>(i, d).
                if d = 0 \<and> j = i then bnd (get_bufs buf4) (\<lambda>b4. bnd (copy_sk 0 b4 SIZEOF_STDYOUT) (\<lambda>_. ret i))
                else bnd (to_sjis SIZEOF_STDYOUT room b2) (\<lambda>(l, d). if l < 0 \<or> d \<noteq> 0 then cconverr else ret l))) (\<lambda>i.
           bnd (get_bufs skbuf) (\<lambda>sk. ret (i, sk)))))))
       | EUC_PROTO \<Rightarrow>
           bnd (call_k w (\<lambda>v. e_cl2knj eng v b1 (sint len))) (\<lambda>i. bnd (get_bufs kbuf) (\<lambda>k. ret (i, k)))) (\<lambda>(i, p).
     bnd (put_int SJ3_NormalEnd) (\<lambda>_. put_candidate i p))))))"

text \<open>
  \<^verbatim>\<open>exec_nextcl\<close> and \<^verbatim>\<open>exec_prevcl\<close> differ only in the engine function.
\<close>

definition exec_step :: "('e view \<Rightarrow> int \<Rightarrow> cbuf \<Rightarrow> int \<times> cbuf \<times> 'e) \<Rightarrow> proto \<Rightarrow> ('e, unit) handler" where
  "exec_step f mb =
     bnd get_int (\<lambda>mode. bnd (ready 0) (\<lambda>w.
     bnd (call_k w (\<lambda>v. f v (sint mode))) (\<lambda>i.
     case mb of
       SJIS_PROTO \<Rightarrow>
         bnd sk_from_kbuf (\<lambda>(_, d).
         bnd (skip_k w (\<lambda>v. f v (sint mode)) (\<lambda>i. i \<noteq> 0) (i, d)) (\<lambda>(i, d).
         if d = 0 \<and> i \<noteq> 0
         then bnd (get_bufs kbuf) (\<lambda>k. bnd (copy_sk 0 k SIZEOF_STDYOUT) (\<lambda>_. bnd (get_bufs skbuf) (\<lambda>sk.
              bnd (put_int SJ3_NormalEnd) (\<lambda>_. put_candidate i sk))))
         else put_int SJ3_NoMoreDouonWord))
     | EUC_PROTO \<Rightarrow> bnd (get_bufs kbuf) (\<lambda>k. bnd (put_int SJ3_NormalEnd) (\<lambda>_. put_candidate i k)))))"

definition exec_nextcl :: "'e engine \<Rightarrow> proto \<Rightarrow> ('e, unit) handler" where
  "exec_nextcl eng = exec_step (e_nextcl eng)"

definition exec_prevcl :: "'e engine \<Rightarrow> proto \<Rightarrow> ('e, unit) handler" where
  "exec_prevcl eng = exec_step (e_prevcl eng)"

definition exec_cl2knj_cnt :: "'e engine \<Rightarrow> proto \<Rightarrow> ('e, unit) handler" where
  "exec_cl2knj_cnt eng mb =
     bnd get_int (\<lambda>len. bnd get_buf1 (\<lambda>i. bnd (ready i) (\<lambda>w. bnd (get_bufs buf1) (\<lambda>b1.
     bnd (case mb of
         SJIS_PROTO \<Rightarrow>
           buf1_to_buf2
       | EUC_PROTO \<Rightarrow> ret b1) (\<lambda>b.
     bnd (call_k w (\<lambda>v. e_cl2knj eng v b (sint len))) (\<lambda>i.
     bnd (if i = 0 then ret (i, 0) else
       loop (\<lambda>(i, cnt). i = sint len)
         (\<lambda>(i, cnt). bnd (case mb of
              SJIS_PROTO \<Rightarrow> bnd (get_bufs kbuf) (\<lambda>k. bnd (to_sjis_ok 0 room (drop SIZEOF_STDYOUT k)) (\<lambda>(_, d).
                ret (if d = 0 then cnt + 1 else cnt)))
            | EUC_PROTO \<Rightarrow> ret (cnt + 1)) (\<lambda>cnt.
            bnd (call_k w (\<lambda>v. e_nextcl eng v 0)) (\<lambda>i. ret (i, cnt))))
         (i, 0 :: int)) (\<lambda>(_, cnt).
     bnd (put_int SJ3_NormalEnd) (\<lambda>_. put_int (word_of_int cnt)))))))))"

text \<open>
  In \<^verbatim>\<open>exec_cl2knj_all\<close> the next candidate is prepared before the loop looks at its
  length. An error in the middle of the list is sent as one more number.
\<close>

definition next_candidate :: "'e engine \<Rightarrow> nat \<Rightarrow> proto \<Rightarrow> int \<Rightarrow> ('e, int \<times> cbuf) handler" where
  "next_candidate eng w mb len =
     bnd (call_k w (\<lambda>v. e_nextcl eng v 0)) (\<lambda>i.
     case mb of
       SJIS_PROTO \<Rightarrow>
         bnd sk_from_kbuf (\<lambda>(_, d).
         bnd (if d = 0 then ret i else
              bnd (skip_k w (\<lambda>v. e_nextcl eng v 0) (\<lambda>i. i = len) (i, d)) (\<lambda>(i, d).
              bnd (if d = 0 \<and> len = i then bnd (get_bufs kbuf) (\<lambda>k. copy_sk 0 k SIZEOF_STDYOUT) else ret ()) (\<lambda>_. ret i))) (\<lambda>i.
         bnd (get_bufs skbuf) (\<lambda>sk. ret (i, sk))))
     | EUC_PROTO \<Rightarrow> bnd (get_bufs kbuf) (\<lambda>k. ret (i, k)))"

definition exec_cl2knj_all :: "'e engine \<Rightarrow> proto \<Rightarrow> ('e, unit) handler" where
  "exec_cl2knj_all eng mb =
     bnd get_int (\<lambda>len. bnd get_buf1 (\<lambda>i. bnd (ready i) (\<lambda>w. bnd (get_bufs buf1) (\<lambda>b1.
     bnd (case mb of
         SJIS_PROTO \<Rightarrow>
           bnd buf1_to_buf2 (\<lambda>b2.
           bnd (need (strlen b2)) (\<lambda>n. let len = int n in
           bnd (call_k w (\<lambda>v. e_cl2knj eng v b2 len)) (\<lambda>i.
           bnd sk_from_kbuf (\<lambda>(_, d).
           bnd (if d = 0 then ret (Some i) else
                bnd (skip_k w (\<lambda>v. e_nextcl eng v 0) (\<lambda>i. i = len) (i, d)) (\<lambda>(i, d).
                if d = 0 \<and> i = len then bnd (get_bufs kbuf) (\<lambda>k. bnd (copy_sk 0 k SIZEOF_STDYOUT) (\<lambda>_. ret (Some i)))
                else ret None)) (\<lambda>r.
           bnd (get_bufs skbuf) (\<lambda>sk. ret (len, r, sk)))))))
       | EUC_PROTO \<Rightarrow>
           bnd (call_k w (\<lambda>v. e_cl2knj eng v b1 (sint len))) (\<lambda>i.
           bnd (get_bufs kbuf) (\<lambda>k. ret (sint len, Some i, k)))) (\<lambda>(len, r, p).
     case r of None \<Rightarrow> put_int SJ3_NoMoreDouonWord
     | Some i \<Rightarrow>
         bnd (put_int SJ3_NormalEnd) (\<lambda>_.
         bnd (if i = 0 then ret (i, p) else
              loop (\<lambda>(i, p). i = len) (\<lambda>(i, p). bnd (put_candidate i p) (\<lambda>_. next_candidate eng w mb len)) (i, p)) (\<lambda>_.
         put_int 0)))))))"

section \<open>Learning of a clause\<close>

definition CLSTUDYNORMEND :: int where "CLSTUDYNORMEND = 0"
definition CLSTUDYNODICT :: int where "CLSTUDYNODICT = 1"
definition CLSTUDYPARAERR :: int where "CLSTUDYPARAERR = 2"
definition CLSTUDYYOMIERR :: int where "CLSTUDYYOMIERR = 3"
definition CLSTUDYNOAREA :: int where "CLSTUDYNOAREA = 4"

definition call_clstudy :: "'e engine \<Rightarrow> ino \<Rightarrow> cbuf \<Rightarrow> cbuf \<Rightarrow> STDYOUT \<Rightarrow> ('e, int) handler" where
  "call_clstudy eng i y1 y2 outp = bnd (the_stdy i) (\<lambda>st. case e_clstudy eng st y1 y2 outp of (r, st', save) \<Rightarrow>
     bnd (set_stdy i st') (\<lambda>_. bnd (if save then bnd (putcldic i) (\<lambda>_. ret ()) else ret ()) (\<lambda>_. ret r)))"

definition exec_clstudy :: "'e engine \<Rightarrow> proto \<Rightarrow> ('e, unit) handler" where
  "exec_clstudy eng mb =
     bnd get_buf1 (\<lambda>e1. bnd get_buf2 (\<lambda>e2. bnd (get_ndata SIZEOF_STDYOUT) (\<lambda>stdy.
     bnd connected (\<lambda>w. bnd studying (\<lambda>i. bnd (check (e1 = 0 \<and> e2 = 0) SJ3_TooLongParameter) (\<lambda>_.
     bnd (lock_check_for_read w) (\<lambda>_.
     bnd (case mb of
         SJIS_PROTO \<Rightarrow> bnd buf1_to_buf3 (\<lambda>b3. bnd buf2_to_buf4 (\<lambda>b4. call_clstudy eng i b3 b4 (dec_STDYOUT stdy)))
       | EUC_PROTO \<Rightarrow> bnd (get_bufs buf1) (\<lambda>b1. bnd (get_bufs buf2) (\<lambda>b2. call_clstudy eng i b1 b2 (dec_STDYOUT stdy)))) (\<lambda>err.
     let err = (if err = CLSTUDYNODICT then SJ3_StdyFileNotOpened else if err = CLSTUDYNORMEND then SJ3_NormalEnd
       else if err = CLSTUDYPARAERR \<or> err = CLSTUDYYOMIERR then SJ3_IllegalParameter
       else if err = CLSTUDYNOAREA then SJ3_TooSmallStdyArea else SJ3_InternalError) in
     if err \<noteq> SJ3_NormalEnd then fail err else put_int err))))))))"

section \<open>Words\<close>

text \<open>The effect of registering or deleting a word in the dictionary \<open>i\<close>.\<close>

definition apply_edit :: "nat \<Rightarrow> ino \<Rightarrow> 'e edit \<Rightarrow> ('e, u32) handler" where
  "apply_edit w i ed =
     bnd (upd_work w (\<lambda>p. p\<lparr>wa_global := ed_global ed\<rparr>)) (\<lambda>_.
     bnd (on_dict i (\<lambda>_. upd_dict i (\<lambda>d. d\<lparr>df_buffer := ed_buffer ed, segunit := ed_segunit ed, ofsptr := ed_ofsptr ed\<rparr>))) (\<lambda>_.
     bnd (put_blocks i (ed_writes ed)) (\<lambda>_.
     bnd the_cli (\<lambda>c.
     bnd (case (cl_stdy c, ed_stdy ed) of
            (Some j, Some st) \<Rightarrow> bnd (set_stdy j st) (\<lambda>_.
              bnd (if ed_putstydic ed then bnd (putstydic j) (\<lambda>_. ret ()) else ret ()) (\<lambda>_.
              if ed_putcldic ed then bnd (putcldic j) (\<lambda>_. ret ()) else ret ()))
          | _ \<Rightarrow> ret ()) (\<lambda>_. ret (ed_err ed))))))"

text \<open>The common part of \<^verbatim>\<open>exec_adddict\<close> and \<^verbatim>\<open>exec_deldict\<close>: all but the table of errors.\<close>

definition edit_word :: "('e view \<Rightarrow> ino \<Rightarrow> cbuf \<Rightarrow> cbuf \<Rightarrow> u8 \<Rightarrow> 'e edit) \<Rightarrow> proto \<Rightarrow> ('e, u32) handler" where
  "edit_word f mb =
     bnd get_int (\<lambda>n. bnd get_buf1 (\<lambda>err. bnd get_buf2 (\<lambda>err1. bnd get_int (\<lambda>gram.
     bnd connected (\<lambda>w.
     bnd (check (err = 0) SJ3_BadYomiString) (\<lambda>_. bnd (check (err1 = 0) SJ3_BadKanjiString) (\<lambda>_.
     bnd (find_dictl w n SJ3_NoSuchDict) (\<lambda>i.
     bnd (the_dict i) (\<lambda>d.
     bnd (check (maxunit d \<noteq> 0) SJ3_ReadOnlyDict) (\<lambda>_.
     bnd (check (\<not> is_dict_locked d) SJ3_DictLocked) (\<lambda>_.
     bnd (case mb of
         SJIS_PROTO \<Rightarrow> bnd buf1_to_buf3 (\<lambda>b3. bnd buf2_to_buf4 (\<lambda>b4. ret (b3, b4)))
       | EUC_PROTO \<Rightarrow> bnd (get_bufs buf1) (\<lambda>b1. bnd (get_bufs buf2) (\<lambda>b2. ret (b1, b2)))) (\<lambda>(y, k).
     bnd (view w) (\<lambda>v. apply_edit w i (f v i y k (ucast gram)))))))))))))))"

definition add_error :: "u32 \<Rightarrow> u32" where
  "add_error err =
     (if err AND 0x0001 \<noteq> 0 then SJ3_ReadOnlyDict
      else if err AND 0x0002 \<noteq> 0 then SJ3_BadYomiString
      else if err AND 0x0004 \<noteq> 0 then SJ3_BadKanjiString
      else if err AND 0x0008 \<noteq> 0 then SJ3_BadHinsiCode
      else if err AND 0x0010 \<noteq> 0 then SJ3_AlreadyExistWord
      else if err AND 0x0020 \<noteq> 0 then SJ3_NoMoreDouonWord
      else if err AND 0x0040 \<noteq> 0 then SJ3_NoMoreDouonWord
      else if err AND 0x0080 \<noteq> 0 then SJ3_NoMoreUserDict
      else if err AND 0x0100 \<noteq> 0 then SJ3_NoMoreIndexBlock
      else if err \<noteq> 0 then SJ3_AddDictFailed else SJ3_NormalEnd)"

definition del_error :: "u32 \<Rightarrow> u32" where
  "del_error err =
     (if err AND 0x0001 \<noteq> 0 then SJ3_ReadOnlyDict
      else if err AND 0x0002 \<noteq> 0 then SJ3_BadYomiString
      else if err AND 0x0004 \<noteq> 0 then SJ3_BadKanjiString
      else if err AND 0x0008 \<noteq> 0 then SJ3_BadHinsiCode
      else if err AND 0x0010 \<noteq> 0 then SJ3_NoSuchWord
      else if err AND 0x0020 \<noteq> 0 then SJ3_NoSuchWord
      else if err AND 0x0040 \<noteq> 0 then SJ3_NoSuchWord
      else if err \<noteq> 0 then SJ3_DelDictFailed else SJ3_NormalEnd)"

definition exec_adddict :: "'e engine \<Rightarrow> proto \<Rightarrow> ('e, unit) handler" where
  "exec_adddict eng mb = bnd (edit_word (e_adddic eng) mb) (\<lambda>err.
     let err = add_error err in if err \<noteq> SJ3_NormalEnd then fail err else put_int err)"

definition exec_deldict :: "'e engine \<Rightarrow> proto \<Rightarrow> ('e, unit) handler" where
  "exec_deldict eng mb = bnd (edit_word (e_deldic eng) mb) (\<lambda>err.
     let err = del_error err in if err \<noteq> SJ3_NormalEnd then fail err else put_int err)"

text \<open>
  A word of the dictionary in \<^verbatim>\<open>kbuf\<close> is a reading, a text and a byte. Both strings are
  converted one behind the other: the places of the second in \<^verbatim>\<open>skbuf\<close> and in
  \<^verbatim>\<open>kbuf\<close>, its length, and whether a character has no code.
\<close>

definition word_to_sjis :: "('e, nat \<times> nat \<times> int \<times> bool) handler" where
  "word_to_sjis = bnd (get_bufs kbuf) (\<lambda>k.
     bnd (to_sjis_ok 0 (int KANJIBUFSIZE) k) (\<lambda>(l, d1).
     bnd (need (strlen k)) (\<lambda>n. let ptr = n + 1; q = nat (l + 1) in
     bnd (to_sjis_ok q (int KANJIBUFSIZE - (l + 1)) (drop ptr k)) (\<lambda>(l, d2).
     ret (q, ptr, l, d1 \<noteq> 0 \<or> d2 \<noteq> 0)))))"

text \<open>
  \<^verbatim>\<open>exec_getdict\<close>, \<^verbatim>\<open>exec_nextdict\<close> and \<^verbatim>\<open>exec_prevdict\<close> differ in the engine
  function that gets the word and the one that gets another when it cannot be converted.
\<close>

definition exec_word :: "('e view \<Rightarrow> ino \<Rightarrow> cbuf \<Rightarrow> int \<times> cbuf \<times> 'e) \<Rightarrow> ('e view \<Rightarrow> ino \<Rightarrow> cbuf \<Rightarrow> int \<times> cbuf \<times> 'e)
    \<Rightarrow> proto \<Rightarrow> ('e, unit) handler" where
  "exec_word get again mb =
     bnd get_int (\<lambda>n. bnd connected (\<lambda>w. bnd (find_dictl w n SJ3_NoSuchDict) (\<lambda>i.
     bnd (lock_check_for_read w) (\<lambda>_.
     bnd (call_k w (\<lambda>v. get v i)) (\<lambda>err.
     if err = 0 then fail SJ3_NoMoreDictData else
     bnd (case mb of
         SJIS_PROTO \<Rightarrow>
           bnd word_to_sjis (\<lambda>x.
           bnd (loop (\<lambda>(_, _, _, bad). bad)
                 (\<lambda>_. bnd (call_k w (\<lambda>v. again v i)) (\<lambda>err. if err = 0 then fail SJ3_NoMoreDictData else word_to_sjis)) x)
             (\<lambda>(q, ptr, l, _).
           bnd (get_bufs kbuf) (\<lambda>k. bnd (need (strlen (drop ptr k))) (\<lambda>m.
           bnd (need (rd k (ptr + m + 1))) (\<lambda>g.
           bnd (get_bufs skbuf) (\<lambda>sk. bnd (need (wr sk (nat (int q + l + 1)) g)) (\<lambda>sk.
           bnd (set_bufs (\<lambda>x. x\<lparr>skbuf := sk\<rparr>)) (\<lambda>_. ret sk))))))))
       | EUC_PROTO \<Rightarrow> get_bufs kbuf) (\<lambda>p.
     bnd (put_int SJ3_NormalEnd) (\<lambda>_.
     bnd (put_string (Some p)) (\<lambda>p. bnd (put_string p) (\<lambda>p. bnd (need p) (\<lambda>p.
     bnd (need (rd p 0)) (\<lambda>g. put_int (ucast g))))))))))))"

definition exec_getdict :: "'e engine \<Rightarrow> proto \<Rightarrow> ('e, unit) handler" where
  "exec_getdict eng = exec_word (e_getusr eng) (e_nextusr eng)"

definition exec_nextdict :: "'e engine \<Rightarrow> proto \<Rightarrow> ('e, unit) handler" where
  "exec_nextdict eng = exec_word (e_nextusr eng) (e_nextusr eng)"

definition exec_prevdict :: "'e engine \<Rightarrow> proto \<Rightarrow> ('e, unit) handler" where
  "exec_prevdict eng = exec_word (e_prevusr eng) (e_prevusr eng)"

end
