(* ===== verification/Sj_Server.thy ===== *)
theory Sj_Server
  imports Sj_Convert
begin

text \<open>
  The dispatcher \<^verbatim>\<open>execute_cmd\<close> of \<^verbatim>\<open>execute.c\<close>, and the part of \<^verbatim>\<open>comuni.c\<close> above
  it: accepting and dropping clients, and the main loop \<^verbatim>\<open>communicate\<close>.
\<close>

section \<open>Commands\<close>

definition dispatch :: "'e engine \<Rightarrow> u32 \<Rightarrow> ('e, unit) handler" where
  "dispatch eng i =
     (if i = SJ3_CONNECT then exec_connect (e_init eng)
      else if i = SJ3_DISCONNECT then exec_disconnect
      else if i = SJ3_OPENDICT then exec_opendict
      else if i = SJ3_CLOSEDICT then exec_closedict
      else if i = SJ3_OPENSTDY then exec_openstdy
      else if i = SJ3_CLOSESTDY then exec_closestdy
      else if i = SJ3_STDYSIZE then exec_stdysize
      else if i = SJ3_LOCK then exec_lock
      else if i = SJ3_UNLOCK then exec_unlock
      else if i = SJ3_PH2KNJ then exec_ph2knj eng SJIS_PROTO
      else if i = SJ3_PH2KNJ_EUC then exec_ph2knj eng EUC_PROTO
      else if i = SJ3_CL2KNJ then exec_cl2knj eng SJIS_PROTO
      else if i = SJ3_CL2KNJ_EUC then exec_cl2knj eng EUC_PROTO
      else if i = SJ3_NEXTCL then exec_nextcl eng SJIS_PROTO
      else if i = SJ3_NEXTCL_EUC then exec_nextcl eng EUC_PROTO
      else if i = SJ3_PREVCL then exec_prevcl eng SJIS_PROTO
      else if i = SJ3_PREVCL_EUC then exec_prevcl eng EUC_PROTO
      else if i = SJ3_CL2KNJ_CNT then exec_cl2knj_cnt eng SJIS_PROTO
      else if i = SJ3_CL2KNJ_CNT_EUC then exec_cl2knj_cnt eng EUC_PROTO
      else if i = SJ3_CL2KNJ_ALL then exec_cl2knj_all eng SJIS_PROTO
      else if i = SJ3_CL2KNJ_ALL_EUC then exec_cl2knj_all eng EUC_PROTO
      else if i = SJ3_STUDY then exec_study
      else if i = SJ3_CLSTUDY then exec_clstudy eng SJIS_PROTO
      else if i = SJ3_CLSTUDY_EUC then exec_clstudy eng EUC_PROTO
      else if i = SJ3_ADDDICT then exec_adddict eng SJIS_PROTO
      else if i = SJ3_ADDDICT_EUC then exec_adddict eng EUC_PROTO
      else if i = SJ3_DELDICT then exec_deldict eng SJIS_PROTO
      else if i = SJ3_DELDICT_EUC then exec_deldict eng EUC_PROTO
      else if i = SJ3_GETDICT then exec_getdict eng SJIS_PROTO
      else if i = SJ3_GETDICT_EUC then exec_getdict eng EUC_PROTO
      else if i = SJ3_NEXTDICT then exec_nextdict eng SJIS_PROTO
      else if i = SJ3_NEXTDICT_EUC then exec_nextdict eng EUC_PROTO
      else if i = SJ3_PREVDICT then exec_prevdict eng SJIS_PROTO
      else if i = SJ3_PREVDICT_EUC then exec_prevdict eng EUC_PROTO
      else if i = SJ3_MAKEDICT then exec_makedict
      else if i = SJ3_MAKESTDY then exec_makestdy
      else if i = SJ3_ACCESS then exec_access
      else if i = SJ3_MAKEDIR then exec_makedir
      else if i = SJ3_WHO then exec_who
      else if i = SJ3_QUIT then exec_quit
      else if i = SJ3_KILL then exec_kill
      else if i = SJ3_VERSION then exec_version
      else if i = SJ3_DICTPASS then exec_dictpass
      else if i = SJ3_DICTCMNT then exec_dictcmnt
      else if i = SJ3_STDYPASS then exec_stdypass
      else if i = SJ3_STDYCMNT then exec_stdycmnt
      else fail SJ3_IllegalCommand)"

text \<open>\<^verbatim>\<open>setjmp(error_ret)\<close>; a jump with the number 0 arrives as 1.\<close>

definition catch_error :: "('e, unit) handler \<Rightarrow> ('e, unit) handler" where
  "catch_error m s = (case m s of
     (Inl (Error_ret e), s') \<Rightarrow> put_int (if e = 0 then 1 else e) s'
   | r \<Rightarrow> r)"

definition execute_cmd :: "'e engine \<Rightarrow> ('e, unit) handler" where
  "execute_cmd eng = bnd (catch_error (bnd get_int (dispatch eng))) (\<lambda>_. put_flush)"

section \<open>Clients\<close>

abbreviation MAXCLIENTNUM :: int where "MAXCLIENTNUM \<equiv> 512"

definition new_client :: "nat \<Rightarrow> client" where
  "new_client fd = \<lparr>cl_fd = fd, cl_host = [], cl_user = [], cl_prog = [], cl_work = None, cl_stdy = None,
     cl_version = 0, def_char = (0, 0), cl_uid = 0\<rparr>"

text \<open>
  \<^verbatim>\<open>connect_client\<close> after \<^verbatim>\<open>accept\<close> has answered: the descriptor and the new
  connection, or nothing. A connection that is refused is closed at once.
\<close>

definition connect_client :: "(nat \<times> conn) option \<Rightarrow> ('e, unit) handler" where
  "connect_client acc = (case acc of None \<Rightarrow> ret ()
     | Some (fd, cn) \<Rightarrow>
         bnd (gets client_num) (\<lambda>n. bnd (gets (\<lambda>s. max_client (srv_conf s))) (\<lambda>m.
         if n \<ge> MAXCLIENTNUM \<or> n \<ge> m then ret ()
         else bnd malloc (\<lambda>ok.
           if ok then upd (\<lambda>s. s\<lparr>clients := new_client fd # clients s, client_num := client_num s + 1,
             srv_fds := set_fd fd (srv_fds s), conns := (conns s)(fd := cn)\<rparr>)
           else ret ()))))"

definition disconnect_client :: "nat \<Rightarrow> ('e, unit) handler" where
  "disconnect_client fd = bnd (gets (\<lambda>s. find (\<lambda>c. cl_fd c = fd) (clients s))) (\<lambda>c. bnd (need c) (\<lambda>c.
     bnd (case cl_stdy c of None \<Rightarrow> ret () | Some i \<Rightarrow> closestdy i) (\<lambda>_.
     bnd (case cl_work c of None \<Rightarrow> ret () | Some w \<Rightarrow> free_workarea w) (\<lambda>_.
     upd (\<lambda>s. s\<lparr>clients := filter (\<lambda>c. cl_fd c \<noteq> fd) (clients s), client_num := client_num s - 1,
                srv_fds := clr_fd fd (srv_fds s)\<rparr>)))))"

section \<open>The main loop\<close>

text \<open>
  A command is served on the connection of its client, with empty buffers: what was read
  beyond the previous command is lost.
\<close>

definition load_conn :: "nat \<Rightarrow> 'e srv \<Rightarrow> 'e srv" where
  "load_conn fd s = s\<lparr>s_putbuf := [], s_getbuf := [], s_getpos := 0, s_sent := c_sent (conns s fd),
     s_wq := c_wq (conns s fd), s_rq := c_rq (conns s fd), cur_cli := fd\<rparr>"

definition store_conn :: "nat \<Rightarrow> 'e srv \<Rightarrow> 'e srv" where
  "store_conn fd s = s\<lparr>conns := (conns s)(fd := \<lparr>c_rq = s_rq s, c_wq = s_wq s, c_sent = s_sent s\<rparr>)\<rparr>"

definition serve :: "'e engine \<Rightarrow> nat \<Rightarrow> ('e, unit) handler" where
  "serve eng fd s = (case execute_cmd eng (load_conn fd s) of
     (Inl Client_dead, s') \<Rightarrow> disconnect_client fd (store_conn fd s')
   | (r, s') \<Rightarrow> (r, store_conn fd s'))"

text \<open>
  One turn of \<^verbatim>\<open>communicate\<close>: \<open>readfds\<close> is the answer of \<^verbatim>\<open>select\<close>. Only the client
  being served can leave the list, so the loop meets the clients of the list it starts
  with.
\<close>

fun serve_all :: "'e engine \<Rightarrow> nat set \<Rightarrow> nat list \<Rightarrow> ('e, unit) handler" where
  "serve_all eng readfds [] = ret ()"
| "serve_all eng readfds (fd # fds) =
     bnd (if fd \<in> readfds then serve eng fd else ret ()) (\<lambda>_. serve_all eng readfds fds)"

definition communicate :: "'e engine \<Rightarrow> nat set \<Rightarrow> (nat \<times> conn) option \<Rightarrow> ('e, unit) handler" where
  "communicate eng readfds acc =
     bnd (gets (\<lambda>s. map cl_fd (clients s))) (\<lambda>fds.
     bnd (serve_all eng readfds fds) (\<lambda>_.
     bnd (gets fd_unix) (\<lambda>u. if u \<in> readfds then connect_client acc else ret ())))"

section \<open>Starting\<close>

text \<open>\<^verbatim>\<open>preload_dict\<close> opens the configured dictionaries and keeps no pointer to them.\<close>

fun preload_loop :: "(cbuf \<times> cbuf) list \<Rightarrow> ('e, unit) handler" where
  "preload_loop [] = ret ()"
| "preload_loop ((filename, passwd) # np) =
     bnd (gets (\<lambda>s. dict_dir (srv_conf s))) (\<lambda>dir. bnd (need (make_full_path dir filename MAXPATHLEN)) (\<lambda>r.
     bnd (case r of None \<Rightarrow> ret () | Some p \<Rightarrow> bnd (opendict p passwd) (\<lambda>_. ret ())) (\<lambda>_. preload_loop np)))"

definition preload_dict :: "(cbuf \<times> cbuf) list \<Rightarrow> ('e, unit) handler" where
  "preload_dict np = bnd malloc (\<lambda>m. if \<not> m then ret () else preload_loop np)"

text \<open>
  \<^verbatim>\<open>preopen_dict\<close> puts them on the list of \<^verbatim>\<open>global_work_base\<close>, which a client without
  dictionaries copies. The value is that list.
\<close>

fun preopen_loop :: "(cbuf \<times> cbuf) list \<Rightarrow> ino list \<Rightarrow> ('e, ino list) handler" where
  "preopen_loop [] ds = ret ds"
| "preopen_loop ((filename, passwd) # np) ds =
     bnd (gets (\<lambda>s. dict_dir (srv_conf s))) (\<lambda>dir. bnd (need (make_full_path dir filename MAXPATHLEN)) (\<lambda>r.
     bnd (case r of None \<Rightarrow> ret ds
          | Some p \<Rightarrow> bnd (opendict p passwd) (\<lambda>d.
              case d of None \<Rightarrow> ret ds
              | Some i \<Rightarrow> bnd malloc (\<lambda>m. if m then ret (i # ds) else bnd (closedict i) (\<lambda>_. ret ds)))) (\<lambda>ds.
     preopen_loop np ds)))"

definition preopen_dict :: "(cbuf \<times> cbuf) list \<Rightarrow> ('e, unit) handler" where
  "preopen_dict np = bnd malloc (\<lambda>m. if \<not> m then ret ()
     else bnd (preopen_loop np []) (\<lambda>ds. upd (\<lambda>s. s\<lparr>global_dicts := Some ds\<rparr>)))"

end
