(* ===== verification/Sj_Books.thy ===== *)
theory Sj_Books
  imports Sj_Comuni Sj_Sdepend
begin

text \<open>
  The books of the server as an abstract machine: which client has which descriptor, work
  area and study file; what a work area locks and which dictionaries it lists; how often
  every open file is counted and which descriptors lock it. The operations are those that
  change the books; everything else the handlers do leaves them alone.

  The invariant has two arguments. \<open>L\<close> lists references to dictionaries that the running
  handler holds beside those of the lists, and \<open>X\<close> the dictionaries whose lock by the
  client being served may be left over for the moment.
\<close>

section \<open>Books\<close>

record wk =
  wk_lock :: int
  wk_list :: "ino list"
  wk_ref :: int

record dk =
  dk_id :: ino
  dk_ref :: int
  dk_lock :: "nat set"
  dk_rw :: bool

record ck =
  ck_fd :: nat
  ck_work :: "nat option"
  ck_stdy :: "ino option"

record books =
  b_cli :: "ck list"
  b_num :: int
  b_cur :: nat
  b_work :: "(nat \<times> wk) list"
  b_next :: nat
  b_glob :: "ino list"
  b_dict :: "dk list"
  b_stdy :: "(ino \<times> int) list"
  b_fds :: fds
  b_unix :: nat

definition works_refs :: "(nat \<times> wk) list \<Rightarrow> ino \<Rightarrow> nat" where
  "works_refs ws i = sum_list (map (\<lambda>(a, k). count_list (wk_list k) i) ws)"

definition refs :: "ino list \<Rightarrow> books \<Rightarrow> ino \<Rightarrow> nat" where
  "refs L b i = works_refs (b_work b) i + count_list (b_glob b) i + count_list L i"

definition srefs :: "ino list \<Rightarrow> books \<Rightarrow> ino \<Rightarrow> nat" where
  "srefs M b i = length (filter (\<lambda>c. ck_stdy c = Some i) (b_cli b)) + count_list M i"

definition cli_ok :: "books \<Rightarrow> bool" where
  "cli_ok b \<longleftrightarrow> distinct (map ck_fd (b_cli b)) \<and> b_num b = int (length (b_cli b)) \<and> b_num b \<le> 512
     \<and> b_unix b \<notin> ck_fd ` set (b_cli b) \<and> fds_org (b_fds b) = insert (b_unix b) (ck_fd ` set (b_cli b)) \<and> fds_wf (b_fds b)"

definition work_ok :: "books \<Rightarrow> bool" where
  "work_ok b \<longleftrightarrow> distinct (map fst (b_work b)) \<and> (\<forall>(a, k) \<in> set (b_work b). a < b_next b \<and> wk_ref k = 1)
     \<and> (\<forall>c \<in> set (b_cli b). \<forall>w. ck_work c = Some w \<longrightarrow> w \<in> fst ` set (b_work b))
     \<and> (\<forall>c \<in> set (b_cli b). \<forall>c' \<in> set (b_cli b). \<forall>w. ck_work c = Some w \<longrightarrow> ck_work c' = Some w \<longrightarrow> ck_fd c = ck_fd c')"

lemma work_okD:
  assumes "work_ok b"
  shows "distinct (map fst (b_work b))" "(a, k) \<in> set (b_work b) \<Longrightarrow> a < b_next b \<and> wk_ref k = 1"
    "c \<in> set (b_cli b) \<Longrightarrow> ck_work c = Some w \<Longrightarrow> w \<in> fst ` set (b_work b)"
    "c \<in> set (b_cli b) \<Longrightarrow> c' \<in> set (b_cli b) \<Longrightarrow> ck_work c = Some w \<Longrightarrow> ck_work c' = Some w \<Longrightarrow> ck_fd c = ck_fd c'"
  using assms unfolding work_ok_def by blast+

lemma work_okI:
  assumes "distinct (map fst (b_work b))" "\<And>a k. (a, k) \<in> set (b_work b) \<Longrightarrow> a < b_next b \<and> wk_ref k = 1"
    "\<And>c w. c \<in> set (b_cli b) \<Longrightarrow> ck_work c = Some w \<Longrightarrow> w \<in> fst ` set (b_work b)"
    "\<And>c c' w. c \<in> set (b_cli b) \<Longrightarrow> c' \<in> set (b_cli b) \<Longrightarrow> ck_work c = Some w \<Longrightarrow> ck_work c' = Some w \<Longrightarrow> ck_fd c = ck_fd c'"
  shows "work_ok b"
  using assms unfolding work_ok_def by blast

definition dict_ok :: "ino list \<Rightarrow> books \<Rightarrow> bool" where
  "dict_ok L b \<longleftrightarrow> distinct (map dk_id (b_dict b)) \<and> (\<forall>d \<in> set (b_dict b). 1 \<le> dk_ref d)
     \<and> (\<forall>i. 0 < refs L b i \<longrightarrow> (\<exists>d \<in> set (b_dict b). dk_id d = i \<and> int (refs L b i) \<le> dk_ref d))"

definition stdy_ok :: "ino list \<Rightarrow> books \<Rightarrow> bool" where
  "stdy_ok M b \<longleftrightarrow> distinct (map fst (b_stdy b)) \<and> (\<forall>(i, n) \<in> set (b_stdy b). 1 \<le> n)
     \<and> (\<forall>i. 0 < srefs M b i \<longrightarrow> (\<exists>n. (i, n) \<in> set (b_stdy b) \<and> int (srefs M b i) \<le> n))"

text \<open>The client with descriptor \<open>f\<close> holds the lock of its work area, which lists \<open>i\<close>.\<close>

definition holds :: "books \<Rightarrow> nat \<Rightarrow> ino \<Rightarrow> bool" where
  "holds b f i \<longleftrightarrow> (\<exists>a k. (a, k) \<in> set (b_work b) \<and> wk_lock k = int f \<and> i \<in> set (wk_list k))"

definition owners_ok :: "books \<Rightarrow> bool" where
  "owners_ok b \<longleftrightarrow> (\<forall>a k. (a, k) \<in> set (b_work b) \<longrightarrow> wk_lock k = - 1
     \<or> (\<exists>c \<in> set (b_cli b). ck_work c = Some a \<and> wk_lock k = int (ck_fd c)))"

definition dlock_ok :: "ino set \<Rightarrow> books \<Rightarrow> dk \<Rightarrow> bool" where
  "dlock_ok X b d \<longleftrightarrow> (dk_lock d \<noteq> {} \<longrightarrow> dk_rw d)
     \<and> (\<forall>f \<in> dk_lock d. f = b_cur b \<and> dk_id d \<in> X \<or> holds b f (dk_id d))"

definition lock_ok :: "ino set \<Rightarrow> books \<Rightarrow> bool" where
  "lock_ok X b \<longleftrightarrow> owners_ok b \<and> (\<forall>d \<in> set (b_dict b). dlock_ok X b d)"

definition books_ok :: "ino list \<Rightarrow> ino set \<Rightarrow> books \<Rightarrow> bool" where
  "books_ok L X b \<longleftrightarrow> cli_ok b \<and> work_ok b \<and> dict_ok L b \<and> stdy_ok [] b \<and> lock_ok X b"

section \<open>Operations\<close>

definition b_dmap :: "ino \<Rightarrow> (dk \<Rightarrow> dk) \<Rightarrow> books \<Rightarrow> books" where
  "b_dmap i f b = b\<lparr>b_dict := map (\<lambda>d. if dk_id d = i then f d else d) (b_dict b)\<rparr>"

definition b_inc :: "ino \<Rightarrow> books \<Rightarrow> books" where
  "b_inc i = b_dmap i (\<lambda>d. d\<lparr>dk_ref := dk_ref d + 1\<rparr>)"

definition b_new :: "ino \<Rightarrow> bool \<Rightarrow> books \<Rightarrow> books" where
  "b_new i rw b = b\<lparr>b_dict := \<lparr>dk_id = i, dk_ref = 1, dk_lock = {}, dk_rw = rw\<rparr> # b_dict b\<rparr>"

definition b_lock :: "ino \<Rightarrow> nat \<Rightarrow> books \<Rightarrow> books" where
  "b_lock i fd = b_dmap i (\<lambda>d. d\<lparr>dk_lock := insert fd (dk_lock d)\<rparr>)"

definition b_unlock :: "ino \<Rightarrow> nat \<Rightarrow> books \<Rightarrow> books" where
  "b_unlock i fd = b_dmap i (\<lambda>d. d\<lparr>dk_lock := dk_lock d - {fd}\<rparr>)"

definition b_close :: "ino \<Rightarrow> books \<Rightarrow> books" where
  "b_close i b = b\<lparr>b_dict := map (\<lambda>d. if dk_id d = i then d\<lparr>dk_ref := dk_ref d - 1\<rparr> else d)
     (filter (\<lambda>d. dk_id d = i \<longrightarrow> dk_ref d - 1 > 0) (b_dict b))\<rparr>"

definition b_wmap :: "nat \<Rightarrow> (wk \<Rightarrow> wk) \<Rightarrow> books \<Rightarrow> books" where
  "b_wmap w f b = b\<lparr>b_work := map (\<lambda>(a, k). (a, if a = w then f k else k)) (b_work b)\<rparr>"

definition b_wdel :: "nat \<Rightarrow> books \<Rightarrow> books" where
  "b_wdel w b = b\<lparr>b_work := filter (\<lambda>(a, k). a \<noteq> w) (b_work b)\<rparr>"

definition b_cmap :: "(ck \<Rightarrow> ck) \<Rightarrow> books \<Rightarrow> books" where
  "b_cmap f b = b\<lparr>b_cli := map (\<lambda>c. if ck_fd c = b_cur b then f c else c) (b_cli b)\<rparr>"

section \<open>Dictionaries\<close>

lemma dict_ok_weaken: "dict_ok (i # L) b \<Longrightarrow> dict_ok L b"
  unfolding dict_ok_def refs_def by (fastforce split: if_splits)

lemma refs_dict [simp]: "refs L (b\<lparr>b_dict := ds\<rparr>) = refs L b"
  by (simp add: refs_def fun_eq_iff)

lemma refs_Cons: "refs (i # L) b j = refs L b j + (if i = j then 1 else 0)"
  by (simp add: refs_def)

lemma dict_okD:
  assumes "dict_ok L b" "0 < refs L b i"
  obtains d where "d \<in> set (b_dict b)" "dk_id d = i" "int (refs L b i) \<le> dk_ref d"
  using assms unfolding dict_ok_def by blast

lemma distinct_map_same:
  "(\<And>d. dk_id (f d) = dk_id d) \<Longrightarrow> map dk_id (map (\<lambda>d. if dk_id d = i then f d else d) ds) = map dk_id ds"
  by (induction ds) simp_all

lemma dict_ok_inc:
  assumes "dict_ok L b" "i \<in> dk_id ` set (b_dict b)"
  shows "dict_ok (i # L) (b_inc i b)"
proof -
  let ?g = "\<lambda>d. if dk_id d = i then d\<lparr>dk_ref := dk_ref d + 1\<rparr> else d"
  have e: "b_dict (b_inc i b) = map ?g (b_dict b)" "refs (i # L) (b_inc i b) = refs (i # L) b"
    by (simp_all add: b_inc_def b_dmap_def)
  have "distinct (map dk_id (map ?g (b_dict b)))"
    using assms(1) by (subst distinct_map_same) (simp_all add: dict_ok_def)
  moreover have "\<exists>d \<in> set (map ?g (b_dict b)). dk_id d = j \<and> int (refs (i # L) b j) \<le> dk_ref d"
    if p: "0 < refs (i # L) b j" for j
  proof (cases "0 < refs L b j")
    case True
    with assms(1) obtain d where d: "d \<in> set (b_dict b)" "dk_id d = j" "int (refs L b j) \<le> dk_ref d" by (rule dict_okD)
    then have "?g d \<in> set (map ?g (b_dict b))" by simp
    then show ?thesis using d by (intro bexI [of _ "?g d"]) (auto simp: refs_Cons)
  next
    case False
    then have "i = j" "refs (i # L) b j = 1" using p by (auto simp: refs_Cons split: if_splits)
    moreover obtain d where d: "d \<in> set (b_dict b)" "dk_id d = i" using assms(2) by auto
    moreover have "1 \<le> dk_ref d" using assms(1) d by (simp add: dict_ok_def)
    ultimately show ?thesis by (intro bexI [of _ "?g d"]) auto
  qed
  ultimately show ?thesis using assms(1) unfolding dict_ok_def e by (auto simp: dict_ok_def)
qed

lemma dict_ok_new:
  assumes "dict_ok L b" "i \<notin> dk_id ` set (b_dict b)"
  shows "dict_ok (i # L) (b_new i rw b)"
proof -
  have "refs L b i = 0"
    using assms by (metis dict_okD image_eqI neq0_conv)
  then show ?thesis using assms unfolding dict_ok_def by (auto simp: b_new_def refs_Cons)
qed

lemma dict_ok_close:
  assumes ok: "dict_ok (i # L) b"
  shows "dict_ok L (b_close i b)"
proof -
  let ?g = "\<lambda>d. if dk_id d = i then d\<lparr>dk_ref := dk_ref d - 1\<rparr> else d"
  let ?P = "\<lambda>d. dk_id d = i \<longrightarrow> dk_ref d - 1 > 0"
  have e: "b_dict (b_close i b) = map ?g (filter ?P (b_dict b))" "refs L (b_close i b) = refs L b"
    by (simp_all add: b_close_def)
  have m: "map dk_id (map ?g ds) = map dk_id ds" for ds by (induction ds) simp_all
  have "distinct (map dk_id (map ?g (filter ?P (b_dict b))))"
    unfolding m using ok by (simp add: dict_ok_def distinct_map_filter)
  moreover have "\<forall>d \<in> set (map ?g (filter ?P (b_dict b))). 1 \<le> dk_ref d" using ok by (auto simp: dict_ok_def)
  moreover have "\<exists>d \<in> set (map ?g (filter ?P (b_dict b))). dk_id d = j \<and> int (refs L b j) \<le> dk_ref d"
    if p: "0 < refs L b j" for j
  proof -
    have "0 < refs (i # L) b j" using p by (simp add: refs_Cons)
    with ok obtain d where d: "d \<in> set (b_dict b)" "dk_id d = j" "int (refs (i # L) b j) \<le> dk_ref d" by (rule dict_okD)
    then have "?g d \<in> set (map ?g (filter ?P (b_dict b)))" using p by (auto simp: refs_Cons)
    then show ?thesis using d by (intro bexI [of _ "?g d"]) (auto simp: refs_Cons)
  qed
  ultimately show ?thesis unfolding dict_ok_def e by blast
qed

lemma dict_ok_dmap:
  assumes "\<And>d. dk_id (f d) = dk_id d" "\<And>d. dk_ref (f d) = dk_ref d"
  shows "dict_ok L b \<Longrightarrow> dict_ok L (b_dmap i f b)"
proof -
  assume ok: "dict_ok L b"
  let ?g = "\<lambda>d. if dk_id d = i then f d else d"
  have "distinct (map dk_id (map ?g (b_dict b)))"
    using ok by (subst distinct_map_same [OF assms(1)]) (simp add: dict_ok_def)
  moreover have "\<exists>d \<in> set (map ?g (b_dict b)). dk_id d = j \<and> int (refs L b j) \<le> dk_ref d" if "0 < refs L b j" for j
  proof -
    from ok that obtain d where d: "d \<in> set (b_dict b)" "dk_id d = j" "int (refs L b j) \<le> dk_ref d" by (rule dict_okD)
    then have "?g d \<in> set (map ?g (b_dict b))" by simp
    then show ?thesis using d by (intro bexI [of _ "?g d"]) (auto simp: assms)
  qed
  ultimately show ?thesis using ok unfolding dict_ok_def by (auto simp: b_dmap_def assms)
qed

lemma dict_ok_cong: "b_work b' = b_work b \<Longrightarrow> b_glob b' = b_glob b \<Longrightarrow> b_dict b' = b_dict b \<Longrightarrow> dict_ok L b' = dict_ok L b"
  by (simp add: dict_ok_def refs_def)

section \<open>Lists of work areas\<close>

lemma works_refs_map:
  assumes "distinct (map fst ws)" "(w, k) \<in> set ws"
  shows "works_refs (map (\<lambda>(a, k). (a, if a = w then f k else k)) ws) i + count_list (wk_list k) i
    = works_refs ws i + count_list (wk_list (f k)) i"
  using assms
proof (induction ws)
  case (Cons x ws)
  obtain a k' where x: "x = (a, k')" by (cases x)
  have same: "map (\<lambda>(a, k). (a, if a = w then f k else k)) ws = ws" if "w \<notin> fst ` set ws"
    using that by (intro map_idI) (force simp: image_iff)
  show ?case
  proof (cases "a = w")
    case True
    then have "k' = k" "w \<notin> fst ` set ws" using Cons.prems x by (auto simp: image_iff)
    then show ?thesis using same x True by (simp add: works_refs_def)
  next
    case False
    then show ?thesis using Cons x by (simp add: works_refs_def)
  qed
qed simp

lemma works_refs_filter:
  assumes "distinct (map fst ws)" "(w, k) \<in> set ws"
  shows "works_refs (filter (\<lambda>(a, k). a \<noteq> w) ws) i + count_list (wk_list k) i = works_refs ws i"
  using assms
proof (induction ws)
  case (Cons x ws)
  obtain a k' where x: "x = (a, k')" by (cases x)
  have same: "filter (\<lambda>(a, k). a \<noteq> w) ws = ws" if "w \<notin> fst ` set ws"
    using that by (force simp: filter_id_conv image_iff)
  show ?case
  proof (cases "a = w")
    case True
    then have "k' = k" "w \<notin> fst ` set ws" using Cons.prems x by (auto simp: image_iff)
    then show ?thesis using same x True by (simp add: works_refs_def)
  next
    case False
    then show ?thesis using Cons x by (simp add: works_refs_def)
  qed
qed simp

lemma dict_ok_refs:
  assumes "dict_ok L b" "b_dict b' = b_dict b" "\<And>i. refs L' b' i \<le> refs L b i"
  shows "dict_ok L' b'"
proof -
  have "\<exists>d \<in> set (b_dict b). dk_id d = i \<and> int (refs L' b' i) \<le> dk_ref d" if "0 < refs L' b' i" for i
  proof -
    have "0 < refs L b i" using that assms(3) [of i] by simp
    with assms(1) obtain d where "d \<in> set (b_dict b)" "dk_id d = i" "int (refs L b i) \<le> dk_ref d" by (rule dict_okD)
    then show ?thesis using assms(3) [of i] by force
  qed
  then show ?thesis using assms(1,2) by (simp add: dict_ok_def)
qed

text \<open>A held reference goes into the list of a work area.\<close>

lemma refs_wmap:
  assumes "work_ok b" "(w, k) \<in> set (b_work b)"
  shows "refs L (b_wmap w f b) i + count_list (wk_list k) i = refs L b i + count_list (wk_list (f k)) i"
proof -
  have "distinct (map fst (b_work b))" using assms(1) by (simp add: work_ok_def)
  from works_refs_map [OF this assms(2), of f i] show ?thesis by (simp add: refs_def b_wmap_def)
qed

lemma dict_ok_wmap:
  assumes "work_ok b" "(w, k) \<in> set (b_work b)" "dict_ok L b"
    and "\<And>i. count_list (wk_list (f k)) i + count_list L' i \<le> count_list (wk_list k) i + count_list L i"
  shows "dict_ok L' (b_wmap w f b)"
proof (rule dict_ok_refs [OF assms(3)])
  show "b_dict (b_wmap w f b) = b_dict b" by (simp add: b_wmap_def)
  show "refs L' (b_wmap w f b) i \<le> refs L b i" for i
    using refs_wmap [OF assms(1,2), of L f i] assms(4) [of i] by (simp add: refs_def)
qed

lemma dict_ok_wdel:
  assumes "work_ok b" "(w, k) \<in> set (b_work b)" "dict_ok L b"
  shows "dict_ok (wk_list k @ L) (b_wdel w b)"
proof (rule dict_ok_refs [OF assms(3)])
  have "distinct (map fst (b_work b))" using assms(1) by (simp add: work_ok_def)
  from works_refs_filter [OF this assms(2)]
  show "refs (wk_list k @ L) (b_wdel w b) i \<le> refs L b i" for i by (simp add: refs_def b_wdel_def)
qed (simp add: b_wdel_def)

section \<open>Locks\<close>

lemma holds_cong [simp]: "holds (b\<lparr>b_dict := ds\<rparr>) = holds b" "owners_ok (b\<lparr>b_dict := ds\<rparr>) = owners_ok b"
  by (simp_all add: holds_def owners_ok_def fun_eq_iff)

lemma dlock_cong: "holds b' = holds b \<Longrightarrow> b_cur b' = b_cur b \<Longrightarrow> dlock_ok X b' = dlock_ok X b"
  by (simp add: dlock_ok_def fun_eq_iff)

lemma lock_ok_mono: "lock_ok X b \<Longrightarrow> X \<subseteq> Y \<Longrightarrow> lock_ok Y b"
  unfolding lock_ok_def dlock_ok_def by blast

lemma lock_ok_dmap:
  assumes "lock_ok X b" "\<And>d. d \<in> set (b_dict b) \<Longrightarrow> dk_id d = i \<Longrightarrow> dlock_ok X b d \<Longrightarrow> dlock_ok Y b (f d)"
    and "\<And>d. dk_id d \<noteq> i \<Longrightarrow> dlock_ok X b d \<Longrightarrow> dlock_ok Y b d"
  shows "lock_ok Y (b_dmap i f b)"
  using assms unfolding lock_ok_def b_dmap_def by (auto simp: dlock_cong [of "b\<lparr>b_dict := ds\<rparr>" b for ds])

lemma lock_ok_filter: "lock_ok X b \<Longrightarrow> lock_ok X (b\<lparr>b_dict := filter P (b_dict b)\<rparr>)"
  unfolding lock_ok_def by (auto simp: dlock_cong [of "b\<lparr>b_dict := ds\<rparr>" b for ds])

lemma lock_ok_inc: "lock_ok X b \<Longrightarrow> lock_ok X (b_inc i b)"
  unfolding b_inc_def by (erule lock_ok_dmap) (simp_all add: dlock_ok_def)

lemma b_close_dmap: "b_close i b = b_dmap i (\<lambda>d. d\<lparr>dk_ref := dk_ref d - 1\<rparr>)
    (b\<lparr>b_dict := filter (\<lambda>d. dk_id d = i \<longrightarrow> dk_ref d - 1 > 0) (b_dict b)\<rparr>)"
  by (simp add: b_close_def b_dmap_def)

lemma lock_ok_close: "lock_ok X b \<Longrightarrow> lock_ok X (b_close i b)"
  unfolding b_close_dmap by (rule lock_ok_dmap [OF lock_ok_filter]) (simp_all add: dlock_ok_def)

lemma lock_ok_new: "lock_ok X b \<Longrightarrow> lock_ok X (b_new i rw b)"
  unfolding lock_ok_def b_new_def by (auto simp: dlock_cong [of "b\<lparr>b_dict := ds\<rparr>" b for ds]) (simp add: dlock_ok_def)

lemma lock_ok_unlock: "lock_ok X b \<Longrightarrow> lock_ok (X - {i}) (b_unlock i (b_cur b) b)"
  unfolding b_unlock_def by (erule lock_ok_dmap) (auto simp: dlock_ok_def)

lemma lock_ok_lock:
  assumes "lock_ok X b" "holds b fd i" "\<forall>d \<in> set (b_dict b). dk_id d = i \<longrightarrow> dk_rw d"
  shows "lock_ok X (b_lock i fd b)"
  unfolding b_lock_def using assms by (intro lock_ok_dmap [OF assms(1)]) (auto simp: dlock_ok_def)

text \<open>The lists and locks of the work areas.\<close>

lemma in_wmap: "(a, k') \<in> set (b_work (b_wmap w f b)) \<longleftrightarrow> (\<exists>k. (a, k) \<in> set (b_work b) \<and> k' = (if a = w then f k else k))"
  by (force simp: b_wmap_def)

lemma work_unique: "work_ok b \<Longrightarrow> (w, k) \<in> set (b_work b) \<Longrightarrow> (w, k') \<in> set (b_work b) \<Longrightarrow> k = k'"
  unfolding work_ok_def by (metis eq_key_imp_eq_value)

lemma lock_ok_wmap:
  assumes ok: "lock_ok X b" "work_ok b" and w: "(w, k) \<in> set (b_work b)"
    and owner: "wk_lock (f k) = - 1 \<or> (\<exists>c \<in> set (b_cli b). ck_work c = Some w \<and> wk_lock (f k) = int (ck_fd c))"
    and keep: "\<And>fd i. wk_lock k = int fd \<Longrightarrow> i \<in> set (wk_list k) \<Longrightarrow>
      wk_lock (f k) = int fd \<and> i \<in> set (wk_list (f k)) \<or> fd = b_cur b \<and> i \<in> Y"
    and XY: "X \<subseteq> Y"
  shows "lock_ok Y (b_wmap w f b)"
proof -
  have cli: "b_cli (b_wmap w f b) = b_cli b" "b_cur (b_wmap w f b) = b_cur b" "b_dict (b_wmap w f b) = b_dict b"
    by (simp_all add: b_wmap_def)
  have "owners_ok (b_wmap w f b)" unfolding owners_ok_def in_wmap cli
  proof (intro allI impI)
    fix a k'' assume "\<exists>k. (a, k) \<in> set (b_work b) \<and> k'' = (if a = w then f k else k)"
    then obtain k' where a: "(a, k') \<in> set (b_work b)" "k'' = (if a = w then f k' else k')" by blast
    show "wk_lock k'' = - 1 \<or> (\<exists>c \<in> set (b_cli b). ck_work c = Some a \<and> wk_lock k'' = int (ck_fd c))"
    proof (cases "a = w")
      case True
      then show ?thesis using owner work_unique [OF ok(2) w] a by simp
    next
      case False
      then show ?thesis using ok(1) a unfolding lock_ok_def owners_ok_def by simp
    qed
  qed
  moreover have h: "holds (b_wmap w f b) fd i \<or> fd = b_cur b \<and> i \<in> Y" if "holds b fd i" for fd i
  proof -
    from that obtain a k' where a: "(a, k') \<in> set (b_work b)" "wk_lock k' = int fd" "i \<in> set (wk_list k')"
      unfolding holds_def by blast
    have in': "(a, if a = w then f k' else k') \<in> set (b_work (b_wmap w f b))" using a(1) in_wmap by blast
    show ?thesis
    proof (cases "a = w")
      case True
      then have "k' = k" using work_unique [OF ok(2) w] a(1) by simp
      then show ?thesis using keep a(2,3) in' True unfolding holds_def by auto
    next
      case False
      then show ?thesis using a(2,3) in' unfolding holds_def by auto
    qed
  qed
  ultimately show ?thesis using ok(1) XY unfolding lock_ok_def dlock_ok_def cli by blast
qed

lemma lock_ok_wdel:
  assumes ok: "lock_ok X b" "work_ok b" and w: "(w, k) \<in> set (b_work b)"
    and cur: "wk_lock k = - 1 \<or> wk_lock k = int (b_cur b)"
    and cli: "\<And>a c. a \<noteq> w \<Longrightarrow> c \<in> set (b_cli b) \<Longrightarrow> ck_work c = Some a \<Longrightarrow> g c \<in> set cs \<and> ck_work (g c) = Some a \<and> ck_fd (g c) = ck_fd c"
  shows "lock_ok (X \<union> set (wk_list k)) ((b_wdel w b)\<lparr>b_cli := cs\<rparr>)"
proof -
  let ?b = "(b_wdel w b)\<lparr>b_cli := cs\<rparr>"
  have in': "(a, k') \<in> set (b_work ?b) \<longleftrightarrow> (a, k') \<in> set (b_work b) \<and> a \<noteq> w" for a k' by (auto simp: b_wdel_def)
  have eq: "b_cli ?b = cs" "b_cur ?b = b_cur b" "b_dict ?b = b_dict b" by (simp_all add: b_wdel_def)
  have "owners_ok ?b" unfolding owners_ok_def in' eq
  proof (intro allI impI)
    fix a k' assume a: "(a, k') \<in> set (b_work b) \<and> a \<noteq> w"
    then have "wk_lock k' = - 1 \<or> (\<exists>c \<in> set (b_cli b). ck_work c = Some a \<and> wk_lock k' = int (ck_fd c))"
      using ok(1) unfolding lock_ok_def owners_ok_def by blast
    then show "wk_lock k' = - 1 \<or> (\<exists>c \<in> set cs. ck_work c = Some a \<and> wk_lock k' = int (ck_fd c))"
      using cli a by metis
  qed
  moreover have "holds ?b fd i \<or> fd = b_cur b \<and> i \<in> set (wk_list k)" if "holds b fd i" for fd i
  proof -
    from that obtain a k' where a: "(a, k') \<in> set (b_work b)" "wk_lock k' = int fd" "i \<in> set (wk_list k')"
      unfolding holds_def by blast
    show ?thesis
    proof (cases "a = w")
      case True
      then have "k' = k" using work_unique [OF ok(2) w] a(1) by simp
      then show ?thesis using cur a(2,3) by auto
    next
      case False
      then show ?thesis using a in' unfolding holds_def by blast
    qed
  qed
  ultimately show ?thesis using ok(1) unfolding lock_ok_def dlock_ok_def eq by blast
qed

lemma lock_ok_done:
  assumes "lock_ok X b" "\<And>d. d \<in> set (b_dict b) \<Longrightarrow> dk_id d \<in> X \<Longrightarrow> b_cur b \<notin> dk_lock d"
  shows "lock_ok {} b"
proof -
  have "holds b f (dk_id d)" if "d \<in> set (b_dict b)" "f \<in> dk_lock d" for d f
    using assms that unfolding lock_ok_def dlock_ok_def by metis
  then show ?thesis using assms(1) unfolding lock_ok_def dlock_ok_def by auto
qed

section \<open>The current client\<close>

definition cur_ck :: "books \<Rightarrow> ck option" where
  "cur_ck b = find (\<lambda>c. ck_fd c = b_cur b) (b_cli b)"

lemma cur_ckD: "cur_ck b = Some c \<Longrightarrow> c \<in> set (b_cli b) \<and> ck_fd c = b_cur b"
  by (auto simp: cur_ck_def find_Some_iff)

lemma cur_unique: "cli_ok b \<Longrightarrow> c \<in> set (b_cli b) \<Longrightarrow> c' \<in> set (b_cli b) \<Longrightarrow> ck_fd c = ck_fd c' \<Longrightarrow> c = c'"
  by (auto simp: cli_ok_def distinct_map inj_on_def)

text \<open>The lock of the work area of a client is free or its own.\<close>

lemma own_lock:
  assumes "work_ok b" "lock_ok X b" "c \<in> set (b_cli b)" "ck_work c = Some w" "(w, k) \<in> set (b_work b)"
  shows "wk_lock k = - 1 \<or> wk_lock k = int (ck_fd c)"
proof -
  have o: "wk_lock k = - 1 \<or> (\<exists>c' \<in> set (b_cli b). ck_work c' = Some w \<and> wk_lock k = int (ck_fd c'))"
    using assms(2,5) by (simp add: lock_ok_def owners_ok_def)
  have fd: "ck_fd c' = ck_fd c" if "c' \<in> set (b_cli b)" "ck_work c' = Some w" for c'
    by (rule work_okD(4) [OF assms(1) that(1) assms(3) that(2) assms(4)])
  from o show ?thesis
  proof
    assume "\<exists>c' \<in> set (b_cli b). ck_work c' = Some w \<and> wk_lock k = int (ck_fd c')"
    then obtain c' where "c' \<in> set (b_cli b)" "ck_work c' = Some w" "wk_lock k = int (ck_fd c')" by blast
    then show ?thesis using fd by simp
  qed simp
qed

section \<open>The invariant under the operations\<close>

lemma books_okI: "cli_ok b \<Longrightarrow> work_ok b \<Longrightarrow> dict_ok L b \<Longrightarrow> stdy_ok [] b \<Longrightarrow> lock_ok X b \<Longrightarrow> books_ok L X b"
  by (simp add: books_ok_def)

lemma books_okD:
  assumes "books_ok L X b"
  shows "cli_ok b" "work_ok b" "dict_ok L b" "stdy_ok [] b" "lock_ok X b"
  using assms by (simp_all add: books_ok_def)

lemma frame_dict [simp]:
  "cli_ok (b\<lparr>b_dict := ds\<rparr>) = cli_ok b" "work_ok (b\<lparr>b_dict := ds\<rparr>) = work_ok b" "stdy_ok M (b\<lparr>b_dict := ds\<rparr>) = stdy_ok M b"
  by (simp_all add: cli_ok_def work_ok_def stdy_ok_def srefs_def)

lemmas dict_ops = b_inc_def b_lock_def b_unlock_def b_dmap_def b_new_def b_close_def

lemma ok_inc: "books_ok L X b \<Longrightarrow> i \<in> dk_id ` set (b_dict b) \<Longrightarrow> books_ok (i # L) X (b_inc i b)"
  using dict_ok_inc [of L b i] lock_ok_inc [of X b i] by (auto simp: books_ok_def dict_ops)

lemma ok_new: "books_ok L X b \<Longrightarrow> i \<notin> dk_id ` set (b_dict b) \<Longrightarrow> books_ok (i # L) X (b_new i rw b)"
  using dict_ok_new [of L b i rw] lock_ok_new [of X b i rw] by (auto simp: books_ok_def b_new_def)

lemma ok_close: "books_ok (i # L) X b \<Longrightarrow> books_ok L X (b_close i b)"
  using dict_ok_close [of i L b] lock_ok_close [of X b i] by (auto simp: books_ok_def b_close_def)

lemma ok_unlock: "books_ok L X b \<Longrightarrow> books_ok L (X - {i}) (b_unlock i (b_cur b) b)"
  using lock_ok_unlock [of X b i] dict_ok_dmap [of "\<lambda>d. d\<lparr>dk_lock := dk_lock d - {b_cur b}\<rparr>" L b i]
  by (auto simp: books_ok_def b_unlock_def b_dmap_def)

lemma ok_lock:
  "books_ok L X b \<Longrightarrow> holds b fd i \<Longrightarrow> \<forall>d \<in> set (b_dict b). dk_id d = i \<longrightarrow> dk_rw d \<Longrightarrow> books_ok L X (b_lock i fd b)"
  using lock_ok_lock [of X b fd i] dict_ok_dmap [of "\<lambda>d. d\<lparr>dk_lock := insert fd (dk_lock d)\<rparr>" L b i]
  by (auto simp: books_ok_def b_lock_def b_dmap_def)

lemma ok_weaken: "books_ok (i # L) X b \<Longrightarrow> books_ok L X b"
  by (auto simp: books_ok_def intro: dict_ok_weaken)

lemma frame_wmap:
  assumes "\<And>k. wk_ref (f k) = wk_ref k"
  shows "cli_ok (b_wmap w f b) = cli_ok b" "work_ok b \<Longrightarrow> work_ok (b_wmap w f b)" "stdy_ok M (b_wmap w f b) = stdy_ok M b"
proof -
  have m: "map fst (map (\<lambda>(a, k). (a, if a = w then f k else k)) ws) = map fst ws" for ws by (induction ws) auto
  then have s: "fst ` set (map (\<lambda>(a, k). (a, if a = w then f k else k)) ws) = fst ` set ws" for ws by (metis set_map)
  have e: "b_work (b_wmap w f b) = map (\<lambda>(a, k). (a, if a = w then f k else k)) (b_work b)" "b_cli (b_wmap w f b) = b_cli b"
    "b_next (b_wmap w f b) = b_next b" by (simp_all add: b_wmap_def)
  show "work_ok (b_wmap w f b)" if ok: "work_ok b"
  proof -
    have "\<forall>(a, k) \<in> set (map (\<lambda>(a, k). (a, if a = w then f k else k)) (b_work b)). a < b_next b \<and> wk_ref k = 1"
      using ok by (auto simp: work_ok_def assms)
    then show ?thesis using ok unfolding work_ok_def e m s by (elim conjE) (intro conjI)
  qed
qed (simp_all add: cli_ok_def stdy_ok_def srefs_def b_wmap_def)

text \<open>The work area of the client being served.\<close>

definition cur_work :: "books \<Rightarrow> nat \<Rightarrow> wk \<Rightarrow> bool" where
  "cur_work b w k \<longleftrightarrow> (\<exists>c \<in> set (b_cli b). ck_fd c = b_cur b \<and> ck_work c = Some w) \<and> (w, k) \<in> set (b_work b)"

lemma cur_work_lock: "books_ok L X b \<Longrightarrow> cur_work b w k \<Longrightarrow> wk_lock k = - 1 \<or> wk_lock k = int (b_cur b)"
  using own_lock books_okD unfolding cur_work_def by metis

lemma cur_work_owner:
  assumes "books_ok L X b" "cur_work b w k"
  shows "wk_lock k = - 1 \<or> (\<exists>c \<in> set (b_cli b). ck_work c = Some w \<and> wk_lock k = int (ck_fd c))"
    "\<exists>c \<in> set (b_cli b). ck_work c = Some w \<and> int (b_cur b) = int (ck_fd c)"
  using cur_work_lock [OF assms] assms(2) unfolding cur_work_def by auto

lemma ok_wmap:
  assumes ok: "books_ok L X b" and w: "cur_work b w k" and f: "\<And>k. wk_ref (f k) = wk_ref k"
    and l: "\<And>i. count_list (wk_list (f k)) i + count_list L' i \<le> count_list (wk_list k) i + count_list L i"
    and lk: "wk_lock (f k) = - 1 \<or> wk_lock (f k) = int (b_cur b)"
    and keep: "\<And>i. wk_lock k = int (b_cur b) \<Longrightarrow> i \<in> set (wk_list k) \<Longrightarrow>
       wk_lock (f k) = int (b_cur b) \<and> i \<in> set (wk_list (f k)) \<or> i \<in> Y" "X \<subseteq> Y"
  shows "books_ok L' Y (b_wmap w f b)"
proof (rule books_okI)
  note D = books_okD [OF ok]
  have wk: "(w, k) \<in> set (b_work b)" using w by (simp add: cur_work_def)
  show "cli_ok (b_wmap w f b)" "work_ok (b_wmap w f b)" "stdy_ok [] (b_wmap w f b)"
    using D frame_wmap [of f, OF f] by simp_all
  show "dict_ok L' (b_wmap w f b)" using l by (intro dict_ok_wmap [OF D(2) wk D(3)])
  have "wk_lock (f k) = - 1 \<or> (\<exists>c \<in> set (b_cli b). ck_work c = Some w \<and> wk_lock (f k) = int (ck_fd c))"
    using lk cur_work_owner(2) [OF ok w] by auto
  moreover have "wk_lock (f k) = int fd \<and> i \<in> set (wk_list (f k)) \<or> fd = b_cur b \<and> i \<in> Y"
    if "wk_lock k = int fd" "i \<in> set (wk_list k)" for fd i
    using cur_work_lock [OF ok w] keep(1) that by auto
  ultimately show "lock_ok Y (b_wmap w f b)" by (rule lock_ok_wmap [OF D(5) D(2) wk _ _ keep(2)])
qed

lemma ok_list_add:
  assumes "books_ok (i # L) X b" "cur_work b w k"
  shows "books_ok L X (b_wmap w (\<lambda>k. k\<lparr>wk_list := i # wk_list k\<rparr>) b)"
  using cur_work_lock [OF assms] by (intro ok_wmap [OF assms]) auto

lemma ok_list_copy:
  assumes "books_ok (ds @ L) X b" "cur_work b w k" "wk_list k = []"
  shows "books_ok L X (b_wmap w (\<lambda>k. k\<lparr>wk_list := ds\<rparr>) b)"
  using cur_work_lock [OF assms(1,2)] assms(3) by (intro ok_wmap [OF assms(1,2)]) auto

lemma ok_list_remove:
  assumes "books_ok L X b" "cur_work b w k" "i \<in> set (wk_list k)"
  shows "books_ok (i # L) (insert i X) (b_wmap w (\<lambda>k. k\<lparr>wk_list := remove1 i (wk_list k)\<rparr>) b)"
proof (rule ok_wmap [OF assms(1,2)])
  have "0 < count_list (wk_list k) i" using assms(3) count_list_0_iff [of "wk_list k" i] by auto
  then show "count_list (wk_list (k\<lparr>wk_list := remove1 i (wk_list k)\<rparr>)) j + count_list (i # L) j \<le> count_list (wk_list k) j + count_list L j" for j
    by (cases "i = j") auto
  show "wk_lock (k\<lparr>wk_list := remove1 i (wk_list k)\<rparr>) = int (b_cur b) \<and> j \<in> set (wk_list (k\<lparr>wk_list := remove1 i (wk_list k)\<rparr>)) \<or> j \<in> insert i X"
    if "wk_lock k = int (b_cur b)" "j \<in> set (wk_list k)" for j
    using that by (cases "j = i") (simp_all add: in_set_remove1)
qed (use cur_work_lock [OF assms(1,2)] in auto)

lemma ok_lock_work:
  assumes "books_ok L X b" "cur_work b w k"
  shows "books_ok L X (b_wmap w (\<lambda>k. k\<lparr>wk_lock := int (b_cur b)\<rparr>) b)"
  using cur_work_lock [OF assms] by (intro ok_wmap [OF assms]) auto

lemma ok_unlock_work:
  assumes "books_ok L X b" "cur_work b w k"
  shows "books_ok L (X \<union> set (wk_list k)) (b_wmap w (\<lambda>k. k\<lparr>wk_lock := - 1\<rparr>) b)"
  using cur_work_lock [OF assms] by (intro ok_wmap [OF assms]) auto

section \<open>Clients\<close>

text \<open>
  The entry of the client being served under a function \<open>h\<close> that forgets its work area or
  study file: the operations on files do not look at it.
\<close>

lemma cmap_ops:
  "b_close i (b_cmap h b) = b_cmap h (b_close i b)" "b_unlock i fd (b_cmap h b) = b_cmap h (b_unlock i fd b)"
  "b_wdel w (b_cmap h b) = b_cmap h (b_wdel w b)" "b_cur (b_cmap h b) = b_cur b" "b_dict (b_cmap h b) = b_dict b"
  by (simp_all add: b_close_def b_cmap_def b_unlock_def b_dmap_def b_wdel_def)

lemma cmap_fds:
  assumes "\<And>c. ck_fd (h c) = ck_fd c"
  shows "map ck_fd (b_cli (b_cmap h b)) = map ck_fd (b_cli b)"
proof -
  have "map ck_fd (map (\<lambda>c. if ck_fd c = n then h c else c) cs) = map ck_fd cs" for cs n by (induction cs) (auto simp: assms)
  then show ?thesis by (simp add: b_cmap_def)
qed

lemma cli_ok_cong:
  assumes "map ck_fd (b_cli b') = map ck_fd (b_cli b)" "b_num b' = b_num b" "b_unix b' = b_unix b" "b_fds b' = b_fds b"
  shows "cli_ok b' = cli_ok b"
proof -
  have "ck_fd ` set (b_cli b') = ck_fd ` set (b_cli b)" using assms(1) by (metis set_map)
  moreover have "length (b_cli b') = length (b_cli b)" using assms(1) by (metis length_map)
  ultimately show ?thesis using assms by (simp add: cli_ok_def)
qed

text \<open>A client lets its work area go: the references and locks of its list are left.\<close>

lemma work_ok_detach:
  assumes ok: "work_ok b" and h: "\<And>c. ck_fd (h c) = ck_fd c" "\<And>c. ck_work (h c) = None"
    and c: "\<And>c. c \<in> set (b_cli b) \<Longrightarrow> ck_work c = Some w \<Longrightarrow> ck_fd c = b_cur b"
  shows "work_ok (b_cmap h (b_wdel w b))"
proof -
  let ?b = "b_cmap h (b_wdel w b)"
  have e: "b_cli ?b = map (\<lambda>c. if ck_fd c = b_cur b then h c else c) (b_cli b)"
    "b_work ?b = filter (\<lambda>(a, k). a \<noteq> w) (b_work b)" "b_next ?b = b_next b" by (simp_all add: b_cmap_def b_wdel_def)
  have old: "x \<in> set (b_cli b) \<and> ck_fd x \<noteq> b_cur b" if "x \<in> set (b_cli ?b)" "ck_work x \<noteq> None" for x
    using that h unfolding e by auto
  show ?thesis
  proof (rule work_okI)
    show "distinct (map fst (b_work ?b))" unfolding e using work_okD(1) [OF ok] by (simp add: distinct_map_filter)
    show "a < b_next ?b \<and> wk_ref k = 1" if "(a, k) \<in> set (b_work ?b)" for a k
      using work_okD(2) [OF ok, of a k] that unfolding e by auto
    fix x u assume x: "x \<in> set (b_cli ?b)" "ck_work x = Some u"
    then have o: "x \<in> set (b_cli b)" "ck_fd x \<noteq> b_cur b" using old [of x] by simp_all
    have "u \<noteq> w" using c [OF o(1)] o(2) x(2) by auto
    then show "u \<in> fst ` set (b_work ?b)" using work_okD(3) [OF ok o(1) x(2)] unfolding e by (force simp: image_iff)
    fix y assume y: "y \<in> set (b_cli ?b)" "ck_work y = Some u"
    then have "y \<in> set (b_cli b)" using old [of y] by simp
    then show "ck_fd x = ck_fd y" by (rule work_okD(4) [OF ok o(1) _ x(2) y(2)])
  qed
qed

lemma stdy_ok_cmap:
  assumes "stdy_ok [] b" "\<And>c. ck_stdy (h c) = ck_stdy c"
  shows "stdy_ok [] (b_cmap h b)"
proof -
  have "length (filter (\<lambda>c. ck_stdy c = Some i) (map (\<lambda>c. if ck_fd c = n then h c else c) cs)) = length (filter (\<lambda>c. ck_stdy c = Some i) cs)" for cs i n
    by (induction cs) (auto simp: assms(2))
  then have "srefs [] (b_cmap h b) = srefs [] b" by (simp add: srefs_def b_cmap_def fun_eq_iff)
  then show ?thesis using assms(1) by (simp add: stdy_ok_def) (simp add: b_cmap_def)
qed

lemma ok_detach:
  assumes ok: "books_ok [] {} b" and w: "cur_work b w k"
    and h: "h = (\<lambda>c. c\<lparr>ck_work := None\<rparr>)"
  shows "books_ok (wk_list k) (set (wk_list k)) (b_cmap h (b_wdel w b))"
proof (rule books_okI)
  note D = books_okD [OF ok]
  let ?b = "b_cmap h (b_wdel w b)"
  have wk: "(w, k) \<in> set (b_work b)" using w by (simp add: cur_work_def)
  obtain c0 where c0: "c0 \<in> set (b_cli b)" "ck_fd c0 = b_cur b" "ck_work c0 = Some w" using w by (auto simp: cur_work_def)
  have u: "ck_fd c = b_cur b" if "c \<in> set (b_cli b)" "ck_work c = Some w" for c
    using work_okD(4) [OF D(2) that(1) c0(1) that(2) c0(3)] c0(2) by simp
  show "work_ok ?b" by (rule work_ok_detach [OF D(2) _ _ u]) (simp_all add: h)
  show "cli_ok ?b"
    using D(1) cli_ok_cong [of ?b b] cmap_fds [of h "b_wdel w b"] by (simp add: h b_wdel_def b_cmap_def)
  have "stdy_ok [] (b_wdel w b)" using D(4) by (simp add: stdy_ok_def srefs_def b_wdel_def)
  then show "stdy_ok [] ?b" by (rule stdy_ok_cmap) (simp add: h)
  have "dict_ok (wk_list k) (b_wdel w b)" using dict_ok_wdel [OF D(2) wk D(3)] by simp
  then show "dict_ok (wk_list k) ?b" using dict_ok_cong [of ?b "b_wdel w b"] by (simp add: b_cmap_def)
  have "lock_ok ({} \<union> set (wk_list k)) ((b_wdel w b)\<lparr>b_cli := b_cli ?b\<rparr>)"
  proof (rule lock_ok_wdel [OF D(5) D(2) wk cur_work_lock [OF ok w], where g = "\<lambda>c. c"])
    fix a c assume a: "a \<noteq> w" "c \<in> set (b_cli b)" "ck_work c = Some a"
    then have "ck_fd c \<noteq> b_cur b" using cur_unique [OF D(1) a(2) c0(1)] c0(2,3) by auto
    then show "c \<in> set (b_cli ?b) \<and> ck_work c = Some a \<and> ck_fd c = ck_fd c"
      using a by (force simp: b_cmap_def b_wdel_def)
  qed
  then show "lock_ok (set (wk_list k)) ?b" by (simp add: b_cmap_def)
qed

section \<open>Study files\<close>

definition b_sinc :: "ino \<Rightarrow> books \<Rightarrow> books" where
  "b_sinc i b = b\<lparr>b_stdy := map (\<lambda>(a, n). (a, if a = i then n + 1 else n)) (b_stdy b)\<rparr>"

definition b_snew :: "ino \<Rightarrow> books \<Rightarrow> books" where
  "b_snew i b = b\<lparr>b_stdy := (i, 1) # b_stdy b\<rparr>"

definition b_sclose :: "ino \<Rightarrow> books \<Rightarrow> books" where
  "b_sclose i b = b\<lparr>b_stdy := map (\<lambda>(a, n). (a, if a = i then n - 1 else n))
     (filter (\<lambda>(a, n). a = i \<longrightarrow> n - 1 > 0) (b_stdy b))\<rparr>"

lemma fst_map_snd: "map fst (map (\<lambda>(a, n). (a, f a n)) xs) = map fst xs"
  by (induction xs) auto

lemma stdy_okD:
  assumes "stdy_ok M b" "0 < srefs M b i"
  obtains n where "(i, n) \<in> set (b_stdy b)" "int (srefs M b i) \<le> n"
  using assms unfolding stdy_ok_def by blast

lemma srefs_Cons: "srefs (i # M) b j = srefs M b j + (if i = j then 1 else 0)"
  by (simp add: srefs_def)

lemma stdy_ok_sinc:
  assumes "stdy_ok M b" "i \<in> fst ` set (b_stdy b)"
  shows "stdy_ok (i # M) (b_sinc i b)"
proof -
  have e: "b_stdy (b_sinc i b) = map (\<lambda>(a, n). (a, if a = i then n + 1 else n)) (b_stdy b)" "srefs (i # M) (b_sinc i b) = srefs (i # M) b"
    by (simp_all add: b_sinc_def srefs_def fun_eq_iff)
  have "\<exists>n. (j, n) \<in> set (b_stdy (b_sinc i b)) \<and> int (srefs (i # M) b j) \<le> n" if p: "0 < srefs (i # M) b j" for j
  proof (cases "0 < srefs M b j")
    case True
    with assms(1) obtain n where "(j, n) \<in> set (b_stdy b)" "int (srefs M b j) \<le> n" by (rule stdy_okD)
    then show ?thesis by (intro exI [of _ "if j = i then n + 1 else n"]) (auto simp: srefs_Cons b_sinc_def intro: rev_image_eqI)
  next
    case False
    then have "i = j" "srefs (i # M) b j = 1" using p by (auto simp: srefs_Cons split: if_splits)
    moreover obtain n where "(i, n) \<in> set (b_stdy b)" using assms(2) by auto
    moreover from this have "1 \<le> n" using assms(1) by (auto simp: stdy_ok_def)
    ultimately show ?thesis by (intro exI [of _ "n + 1"]) (auto simp: b_sinc_def intro: rev_image_eqI)
  qed
  moreover have "distinct (map fst (b_stdy (b_sinc i b)))" unfolding e fst_map_snd using assms(1) by (simp add: stdy_ok_def)
  moreover have "\<forall>(a, n) \<in> set (b_stdy (b_sinc i b)). 1 \<le> n" using assms(1) unfolding stdy_ok_def e by fastforce
  ultimately show ?thesis unfolding stdy_ok_def e(2) by blast
qed

lemma stdy_ok_snew:
  assumes "stdy_ok M b" "i \<notin> fst ` set (b_stdy b)"
  shows "stdy_ok (i # M) (b_snew i b)"
proof -
  have "srefs M b i = 0" using assms stdy_okD [OF assms(1), of i] by (metis fst_conv image_eqI neq0_conv)
  moreover have "srefs (i # M) (b_snew i b) = srefs (i # M) b" by (simp add: b_snew_def srefs_def fun_eq_iff)
  ultimately show ?thesis using assms unfolding stdy_ok_def by (auto simp: b_snew_def srefs_Cons)
qed

lemma stdy_ok_sclose:
  assumes ok: "stdy_ok (i # M) b"
  shows "stdy_ok M (b_sclose i b)"
proof -
  let ?l = "map (\<lambda>(a, n). (a, if a = i then n - 1 else n)) (filter (\<lambda>(a, n). a = i \<longrightarrow> n - 1 > 0) (b_stdy b))"
  have e: "b_stdy (b_sclose i b) = ?l" "srefs M (b_sclose i b) = srefs M b" by (simp_all add: b_sclose_def srefs_def fun_eq_iff)
  have "\<exists>n. (j, n) \<in> set ?l \<and> int (srefs M b j) \<le> n" if p: "0 < srefs M b j" for j
  proof -
    have "0 < srefs (i # M) b j" using p by (simp add: srefs_Cons)
    with ok obtain n where "(j, n) \<in> set (b_stdy b)" "int (srefs (i # M) b j) \<le> n" by (rule stdy_okD)
    then show ?thesis using p by (intro exI [of _ "if j = i then n - 1 else n"]) (auto simp: srefs_Cons intro: rev_image_eqI)
  qed
  moreover have "distinct (map fst ?l)" unfolding fst_map_snd using ok by (simp add: stdy_ok_def distinct_map_filter)
  moreover have "\<forall>(a, n) \<in> set ?l. 1 \<le> n" using ok by (auto simp: stdy_ok_def)
  ultimately show ?thesis unfolding stdy_ok_def e by blast
qed

text \<open>The entry of the client takes a held reference over, or gives its own up.\<close>

lemma filter_at:
  assumes "distinct (map ck_fd cs)" "c \<in> set cs"
  shows "length (filter P (map (\<lambda>x. if ck_fd x = ck_fd c then h x else x) cs)) + (if P c then 1 else 0)
    = length (filter P cs) + (if P (h c) then 1 else 0)"
  using assms
proof (induction cs)
  case (Cons x cs)
  have same: "map (\<lambda>x. if ck_fd x = ck_fd c then h x else x) cs = cs" if "ck_fd c \<notin> ck_fd ` set cs"
    using that by (intro map_idI) (auto simp: image_iff)
  show ?case
  proof (cases "x = c")
    case True
    then show ?thesis using same Cons.prems by simp
  next
    case False
    then have "c \<in> set cs" "ck_fd x \<noteq> ck_fd c" using Cons.prems by (auto simp: image_iff)
    then show ?thesis using Cons by simp
  qed
qed simp

lemma srefs_cmap:
  assumes "cli_ok b" "c \<in> set (b_cli b)" "ck_fd c = b_cur b"
  shows "srefs M (b_cmap h b) i + (if ck_stdy c = Some i then 1 else 0) = srefs M b i + (if ck_stdy (h c) = Some i then 1 else 0)"
proof -
  have "distinct (map ck_fd (b_cli b))" using assms(1) by (simp add: cli_ok_def)
  from filter_at [OF this assms(2), of "\<lambda>c. ck_stdy c = Some i" h] show ?thesis
    unfolding assms(3) srefs_def b_cmap_def by simp
qed

lemma stdy_ok_srefs:
  assumes "stdy_ok M b" "b_stdy b' = b_stdy b" "\<And>i. srefs M' b' i \<le> srefs M b i"
  shows "stdy_ok M' b'"
proof -
  have "\<exists>n. (i, n) \<in> set (b_stdy b) \<and> int (srefs M' b' i) \<le> n" if "0 < srefs M' b' i" for i
  proof -
    have "0 < srefs M b i" using that assms(3) [of i] by simp
    with assms(1) obtain n where "(i, n) \<in> set (b_stdy b)" "int (srefs M b i) \<le> n" by (rule stdy_okD)
    then show ?thesis using assms(3) [of i] by force
  qed
  then show ?thesis using assms(1,2) by (simp add: stdy_ok_def)
qed

lemma frame_stdy [simp]:
  "cli_ok (b\<lparr>b_stdy := ss\<rparr>) = cli_ok b" "work_ok (b\<lparr>b_stdy := ss\<rparr>) = work_ok b"
  "dict_ok L (b\<lparr>b_stdy := ss\<rparr>) = dict_ok L b" "lock_ok X (b\<lparr>b_stdy := ss\<rparr>) = lock_ok X b"
  by (simp_all add: cli_ok_def work_ok_def dict_ok_def refs_def lock_ok_def owners_ok_def dlock_ok_def holds_def)

text \<open>A change of the entry that keeps descriptor and work area.\<close>

lemma cmap_in: "c \<in> set (b_cli (b_cmap h b)) \<Longrightarrow> \<exists>c0 \<in> set (b_cli b). c = (if ck_fd c0 = b_cur b then h c0 else c0)"
  by (auto simp: b_cmap_def)

lemma cmap_in': "c \<in> set (b_cli b) \<Longrightarrow> (if ck_fd c = b_cur b then h c else c) \<in> set (b_cli (b_cmap h b))"
  by (auto simp: b_cmap_def)

lemma frame_cmap:
  assumes h: "\<And>c. ck_fd (h c) = ck_fd c" "\<And>c. ck_work (h c) = ck_work c"
  shows "cli_ok b \<Longrightarrow> cli_ok (b_cmap h b)" "work_ok b \<Longrightarrow> work_ok (b_cmap h b)"
    "dict_ok L b \<Longrightarrow> dict_ok L (b_cmap h b)" "lock_ok X b \<Longrightarrow> lock_ok X (b_cmap h b)"
proof -
  let ?b = "b_cmap h b"
  have e: "b_work ?b = b_work b" "b_next ?b = b_next b" "b_glob ?b = b_glob b" "b_dict ?b = b_dict b" "b_cur ?b = b_cur b"
    by (simp_all add: b_cmap_def)
  show "cli_ok ?b" if "cli_ok b"
    using that cli_ok_cong [of ?b b] cmap_fds [of h b, OF h(1)] by (simp add: b_cmap_def)
  show "dict_ok L ?b" if "dict_ok L b" using that dict_ok_cong [of ?b b] e by simp
  have old: "\<exists>c0 \<in> set (b_cli b). ck_fd c = ck_fd c0 \<and> ck_work c = ck_work c0" if c: "c \<in> set (b_cli ?b)" for c
  proof -
    obtain c0 where "c0 \<in> set (b_cli b)" "c = (if ck_fd c0 = b_cur b then h c0 else c0)" using cmap_in [OF c] by blast
    then show ?thesis using h by (intro bexI [of _ c0]) simp_all
  qed
  show "work_ok ?b" if ok: "work_ok b"
  proof (rule work_okI)
    show "distinct (map fst (b_work ?b))" "\<And>a k. (a, k) \<in> set (b_work ?b) \<Longrightarrow> a < b_next ?b \<and> wk_ref k = 1"
      using work_okD(1,2) [OF ok] by (simp_all add: e)
    show "w \<in> fst ` set (b_work ?b)" if "c \<in> set (b_cli ?b)" "ck_work c = Some w" for c w
      using old [OF that(1)] that(2) work_okD(3) [OF ok] by (auto simp: e)
    show "ck_fd c = ck_fd c'" if c: "c \<in> set (b_cli ?b)" "c' \<in> set (b_cli ?b)" "ck_work c = Some w" "ck_work c' = Some w" for c c' w
    proof -
      obtain d where d: "d \<in> set (b_cli b)" "ck_fd c = ck_fd d" "ck_work c = ck_work d" using old [OF c(1)] by blast
      obtain d' where d': "d' \<in> set (b_cli b)" "ck_fd c' = ck_fd d'" "ck_work c' = ck_work d'" using old [OF c(2)] by blast
      have "ck_fd d = ck_fd d'" using work_okD(4) [OF ok d(1) d'(1)] c(3,4) d(3) d'(3) by simp
      then show ?thesis using d(2) d'(2) by simp
    qed
  qed
  show "lock_ok X ?b" if ok: "lock_ok X b"
  proof -
    have "\<exists>x \<in> set (b_cli ?b). ck_work x = Some a \<and> wk_lock k = int (ck_fd x)"
      if "c \<in> set (b_cli b)" "ck_work c = Some a" "wk_lock k = int (ck_fd c)" for c a k
      using cmap_in' [OF that(1), of h] that h by (intro bexI) auto
    then have "owners_ok ?b" using ok unfolding lock_ok_def owners_ok_def e by blast
    moreover have "holds ?b = holds b" by (simp add: holds_def fun_eq_iff e)
    ultimately show ?thesis using ok by (simp add: lock_ok_def e dlock_cong [of ?b b])
  qed
qed

lemma ok_set_stdy:
  assumes "cli_ok b" "work_ok b" "dict_ok L b" "lock_ok X b" "stdy_ok M b" "c \<in> set (b_cli b)" "ck_fd c = b_cur b"
    and "\<And>i. (if x = Some i then 1 else 0) \<le> count_list M i + (if ck_stdy c = Some i then 1 else 0)"
  shows "books_ok L X (b_cmap (\<lambda>c. c\<lparr>ck_stdy := x\<rparr>) b)"
proof -
  let ?h = "\<lambda>c. c\<lparr>ck_stdy := x\<rparr>"
  have "srefs [] (b_cmap ?h b) i \<le> srefs M b i" for i
    using srefs_cmap [OF assms(1,6,7), of "[]" ?h i] assms(8) [of i] by (simp add: srefs_def)
  then have "stdy_ok [] (b_cmap ?h b)" by (intro stdy_ok_srefs [OF assms(5)]) (simp_all add: b_cmap_def)
  then show ?thesis using frame_cmap [of ?h, where b = b] assms(1-4) by (intro books_okI) simp_all
qed

lemma ok_sopen:
  assumes "books_ok L X b" "c \<in> set (b_cli b)" "ck_fd c = b_cur b"
  shows "i \<in> fst ` set (b_stdy b) \<Longrightarrow> books_ok L X (b_cmap (\<lambda>c. c\<lparr>ck_stdy := Some i\<rparr>) (b_sinc i b))"
    "i \<notin> fst ` set (b_stdy b) \<Longrightarrow> books_ok L X (b_cmap (\<lambda>c. c\<lparr>ck_stdy := Some i\<rparr>) (b_snew i b))"
proof -
  note D = books_okD [OF assms(1)]
  show "books_ok L X (b_cmap (\<lambda>c. c\<lparr>ck_stdy := Some i\<rparr>) (b_sinc i b))" if "i \<in> fst ` set (b_stdy b)"
    using stdy_ok_sinc [OF D(4) that] D assms(2,3) unfolding b_sinc_def
    by (intro ok_set_stdy [where M = "[i]" and c = c]) simp_all
  show "books_ok L X (b_cmap (\<lambda>c. c\<lparr>ck_stdy := Some i\<rparr>) (b_snew i b))" if "i \<notin> fst ` set (b_stdy b)"
    using stdy_ok_snew [OF D(4) that] D assms(2,3) unfolding b_snew_def
    by (intro ok_set_stdy [where M = "[i]" and c = c]) simp_all
qed

lemma cmap_sclose: "b_cmap h (b_sclose i b) = b_sclose i (b_cmap h b)"
  by (simp add: b_cmap_def b_sclose_def)

lemma ok_sclose:
  assumes "books_ok L X b" "c \<in> set (b_cli b)" "ck_fd c = b_cur b" "ck_stdy c = Some i"
  shows "books_ok L X (b_cmap (\<lambda>c. c\<lparr>ck_stdy := None\<rparr>) (b_sclose i b))" "i \<in> fst ` set (b_stdy b)"
proof -
  note D = books_okD [OF assms(1)]
  let ?h = "\<lambda>c. c\<lparr>ck_stdy := None\<rparr>"
  have "srefs [i] (b_cmap ?h b) j \<le> srefs [] b j" for j
    using srefs_cmap [OF D(1) assms(2,3), of "[i]" ?h j] assms(4) by (auto simp: srefs_Cons)
  then have "stdy_ok [i] (b_cmap ?h b)" by (intro stdy_ok_srefs [OF D(4)]) (simp_all add: b_cmap_def)
  then have "stdy_ok [] (b_sclose i (b_cmap ?h b))" by (rule stdy_ok_sclose)
  then show "books_ok L X (b_cmap ?h (b_sclose i b))"
    unfolding cmap_sclose using frame_cmap [of ?h, where b = b] D by (intro books_okI) (simp_all add: b_sclose_def)
  have "0 < srefs [] b i" using assms(2,4) by (auto simp: srefs_def filter_empty_conv)
  with D(4) show "i \<in> fst ` set (b_stdy b)" by (rule stdy_okD) force
qed

section \<open>Connecting and dropping clients\<close>

definition b_alloc :: "books \<Rightarrow> books" where
  "b_alloc b = b\<lparr>b_work := (b_next b, \<lparr>wk_lock = - 1, wk_list = [], wk_ref = 1\<rparr>) # b_work b, b_next := b_next b + 1\<rparr>"

definition b_accept :: "nat \<Rightarrow> books \<Rightarrow> books" where
  "b_accept fd b = b\<lparr>b_cli := \<lparr>ck_fd = fd, ck_work = None, ck_stdy = None\<rparr> # b_cli b, b_num := b_num b + 1,
     b_fds := set_fd fd (b_fds b)\<rparr>"

definition b_drop :: "nat \<Rightarrow> books \<Rightarrow> books" where
  "b_drop fd b = b\<lparr>b_cli := filter (\<lambda>c. ck_fd c \<noteq> fd) (b_cli b), b_num := b_num b - 1, b_fds := clr_fd fd (b_fds b)\<rparr>"

lemma ok_alloc:
  assumes "books_ok L X b"
  shows "books_ok L X (b_alloc b)" "c \<in> set (b_cli b) \<Longrightarrow> ck_work c \<noteq> Some (b_next b)"
proof -
  note D = books_okD [OF assms]
  have fresh: "b_next b \<notin> fst ` set (b_work b)" using work_okD(2) [OF D(2)] by fastforce
  have "work_ok (b_alloc b)"
  proof (rule work_okI)
    show "distinct (map fst (b_work (b_alloc b)))" using work_okD(1) [OF D(2)] fresh by (simp add: b_alloc_def)
    show "a < b_next (b_alloc b) \<and> wk_ref k = 1" if "(a, k) \<in> set (b_work (b_alloc b))" for a k
      using that work_okD(2) [OF D(2), of a k] by (auto simp: b_alloc_def)
    show "w \<in> fst ` set (b_work (b_alloc b))" if "c \<in> set (b_cli (b_alloc b))" "ck_work c = Some w" for c w
      using that work_okD(3) [OF D(2)] by (simp add: b_alloc_def)
    show "ck_fd c = ck_fd c'" if "c \<in> set (b_cli (b_alloc b))" "c' \<in> set (b_cli (b_alloc b))" "ck_work c = Some w" "ck_work c' = Some w" for c c' w
      using that by (intro work_okD(4) [OF D(2)]) (simp_all add: b_alloc_def)
  qed
  moreover have "refs L (b_alloc b) = refs L b" by (simp add: refs_def b_alloc_def works_refs_def fun_eq_iff)
  then have "dict_ok L (b_alloc b)" using D(3) by (simp add: dict_ok_def) (simp add: b_alloc_def)
  moreover have "holds (b_alloc b) = holds b" by (auto simp: holds_def b_alloc_def fun_eq_iff)
  then have "lock_ok X (b_alloc b)"
    using D(5) dlock_cong [of "b_alloc b" b X] unfolding lock_ok_def owners_ok_def by (auto simp: b_alloc_def)
  ultimately show "books_ok L X (b_alloc b)"
    using D(1,4) by (intro books_okI) (simp_all add: cli_ok_def stdy_ok_def srefs_def b_alloc_def)
  show "ck_work c \<noteq> Some (b_next b)" if "c \<in> set (b_cli b)" using fresh work_okD(3) [OF D(2) that] by auto
qed

text \<open>A client without a work area gets one that nobody has.\<close>

lemma ok_attach:
  assumes ok: "books_ok L X b" and c: "c \<in> set (b_cli b)" "ck_fd c = b_cur b" "ck_work c = None"
    and w: "w \<in> fst ` set (b_work b)" "\<And>c. c \<in> set (b_cli b) \<Longrightarrow> ck_work c \<noteq> Some w"
  shows "books_ok L X (b_cmap (\<lambda>c. c\<lparr>ck_work := Some w\<rparr>) b)"
proof -
  note D = books_okD [OF ok]
  let ?h = "\<lambda>c. c\<lparr>ck_work := Some w\<rparr>"
  let ?b = "b_cmap ?h b"
  have e: "b_work ?b = b_work b" "b_next ?b = b_next b" "b_dict ?b = b_dict b" "b_cur ?b = b_cur b"
    by (simp_all add: b_cmap_def)
  have old: "c' \<in> set (b_cli b) \<and> ck_fd c' \<noteq> b_cur b \<and> ck_work c' \<noteq> Some w \<or> ck_fd c' = b_cur b \<and> ck_work c' = Some w"
    if "c' \<in> set (b_cli ?b)" for c'
  proof -
    from cmap_in [OF that] obtain d where d: "d \<in> set (b_cli b)" "c' = (if ck_fd d = b_cur b then ?h d else d)" ..
    then show ?thesis using w(2) [OF d(1)] by simp
  qed
  have keep: "c' \<in> set (b_cli ?b)" if c': "c' \<in> set (b_cli b)" "ck_work c' = Some a" for c' a
  proof -
    have "ck_fd c' \<noteq> b_cur b" using cur_unique [OF D(1) c'(1) c(1)] c(2,3) c'(2) by auto
    then show ?thesis using cmap_in' [OF c'(1), of ?h] by simp
  qed
  have "cli_ok ?b" using D(1) cli_ok_cong [of ?b b] cmap_fds [of ?h b] by (simp add: b_cmap_def)
  moreover have "work_ok ?b"
  proof (rule work_okI)
    show "distinct (map fst (b_work ?b))" "\<And>a k. (a, k) \<in> set (b_work ?b) \<Longrightarrow> a < b_next ?b \<and> wk_ref k = 1"
      using work_okD(1,2) [OF D(2)] by (simp_all add: e)
    show "u \<in> fst ` set (b_work ?b)" if "x \<in> set (b_cli ?b)" "ck_work x = Some u" for x u
      using old [OF that(1)] that(2) w(1) work_okD(3) [OF D(2), of x u] by (auto simp: e)
    show "ck_fd x = ck_fd y" if xy: "x \<in> set (b_cli ?b)" "y \<in> set (b_cli ?b)" "ck_work x = Some u" "ck_work y = Some u" for x y u
    proof (cases "u = w")
      case True
      then show ?thesis using old [OF xy(1)] old [OF xy(2)] xy(3,4) by simp
    next
      case False
      then have "x \<in> set (b_cli b)" "y \<in> set (b_cli b)" using old [OF xy(1)] old [OF xy(2)] xy(3,4) by simp_all
      then show ?thesis using xy(3,4) by (rule work_okD(4) [OF D(2)])
    qed
  qed
  moreover have "dict_ok L ?b" using D(3) dict_ok_cong [of ?b b] by (simp add: b_cmap_def)
  moreover have "stdy_ok [] ?b" using D(4) by (rule stdy_ok_cmap) simp
  moreover have "owners_ok ?b" using D(5) keep unfolding lock_ok_def owners_ok_def e by blast
  moreover have "holds ?b = holds b" by (simp add: holds_def fun_eq_iff e)
  then have "lock_ok X ?b" using \<open>owners_ok ?b\<close> D(5) by (simp add: lock_ok_def e dlock_cong [of ?b b])
  ultimately show ?thesis by (intro books_okI)
qed

lemma fds_org_ops: "fds_org (set_fd fd s) = insert fd (fds_org s)" "fds_org (clr_fd fd s) = fds_org s - {fd}"
  by (simp_all add: set_fd_def clr_fd_def Let_def)

lemma ok_accept:
  assumes ok: "books_ok [] {} b" and fd: "fd \<notin> fds_org (b_fds b)" "b_num b < 512"
  shows "books_ok [] {} (b_accept fd b)"
proof -
  note D = books_okD [OF ok]
  let ?b = "b_accept fd b"
  have e: "b_cli ?b = \<lparr>ck_fd = fd, ck_work = None, ck_stdy = None\<rparr> # b_cli b" "b_work ?b = b_work b" "b_next ?b = b_next b"
    "b_dict ?b = b_dict b" "b_cur ?b = b_cur b" "b_glob ?b = b_glob b" by (simp_all add: b_accept_def)
  have new: "fd \<notin> ck_fd ` set (b_cli b)" "fd \<noteq> b_unix b" using D(1) fd by (auto simp: cli_ok_def)
  then have "cli_ok ?b" using D(1) fd fds_wf_set_fd [of "b_fds b" fd]
    by (auto simp: cli_ok_def b_accept_def fds_org_ops)
  moreover have "work_ok ?b"
  proof (rule work_okI)
    show "distinct (map fst (b_work ?b))" "\<And>a k. (a, k) \<in> set (b_work ?b) \<Longrightarrow> a < b_next ?b \<and> wk_ref k = 1"
      using work_okD(1,2) [OF D(2)] by (simp_all add: e)
    show "w \<in> fst ` set (b_work ?b)" if "c \<in> set (b_cli ?b)" "ck_work c = Some w" for c w
      using that work_okD(3) [OF D(2)] by (auto simp: e)
    show "ck_fd c = ck_fd c'" if "c \<in> set (b_cli ?b)" "c' \<in> set (b_cli ?b)" "ck_work c = Some w" "ck_work c' = Some w" for c c' w
      using that by (intro work_okD(4) [OF D(2)]) (auto simp: e)
  qed
  moreover have "dict_ok [] ?b" using D(3) dict_ok_cong [of ?b b] by (simp add: e)
  moreover have "stdy_ok [] ?b" using D(4) by (simp add: stdy_ok_def srefs_def b_accept_def)
  moreover have "owners_ok ?b" using D(5) unfolding lock_ok_def owners_ok_def e by auto
  moreover have "holds ?b = holds b" by (simp add: holds_def fun_eq_iff e)
  then have "lock_ok {} ?b" using \<open>owners_ok ?b\<close> D(5) by (simp add: lock_ok_def e dlock_cong [of ?b b])
  ultimately show ?thesis by (intro books_okI)
qed

lemma drop_cmap: "(\<And>c. ck_fd (h c) = ck_fd c) \<Longrightarrow> b_drop (b_cur b) (b_cmap h b) = b_drop (b_cur b) b"
proof -
  assume h: "\<And>c. ck_fd (h c) = ck_fd c"
  have "filter (\<lambda>c. ck_fd c \<noteq> n) (map (\<lambda>c. if ck_fd c = n then h c else c) cs) = filter (\<lambda>c. ck_fd c \<noteq> n) cs" for cs n
    by (induction cs) (simp_all add: h)
  then show ?thesis by (simp add: b_drop_def b_cmap_def)
qed

text \<open>A client that has given its work area up leaves.\<close>

lemma distinct_filter_key:
  "distinct (map f cs) \<Longrightarrow> c \<in> set cs \<Longrightarrow> int (length (filter (\<lambda>x. f x \<noteq> f c) cs)) = int (length cs) - 1"
proof (induction cs)
  case (Cons x cs)
  have same: "filter (\<lambda>x. f x \<noteq> f c) cs = cs" if "f c \<notin> f ` set cs"
    using that by (auto simp: filter_id_conv image_iff)
  show ?case
  proof (cases "x = c")
    case True
    then show ?thesis using same Cons.prems by simp
  next
    case False
    then have "c \<in> set cs" "f x \<noteq> f c" using Cons.prems by (auto simp: image_iff)
    then show ?thesis using Cons by simp
  qed
qed simp

lemma ok_drop:
  assumes ok: "books_ok [] {} b" and c: "c \<in> set (b_cli b)" "ck_work c = None"
  shows "books_ok [] {} (b_drop (ck_fd c) b)"
proof -
  note D = books_okD [OF ok]
  let ?b = "b_drop (ck_fd c) b"
  have e: "b_cli ?b = filter (\<lambda>x. ck_fd x \<noteq> ck_fd c) (b_cli b)" "b_work ?b = b_work b" "b_next ?b = b_next b"
    "b_dict ?b = b_dict b" "b_cur ?b = b_cur b" "b_glob ?b = b_glob b" "b_stdy ?b = b_stdy b" by (simp_all add: b_drop_def)
  have d: "distinct (map ck_fd (b_cli b))" using D(1) by (simp add: cli_ok_def)
  have "ck_fd ` set (b_cli ?b) = ck_fd ` set (b_cli b) - {ck_fd c}" by (auto simp: e)
  moreover have "int (length (b_cli ?b)) = int (length (b_cli b)) - 1" unfolding e by (rule distinct_filter_key [OF d c(1)])
  ultimately have "cli_ok ?b" using D(1) c(1) fds_wf_clr_fd [of "b_fds b" "ck_fd c"]
    by (auto simp: cli_ok_def b_drop_def fds_org_ops distinct_map_filter)
  moreover have "work_ok ?b"
  proof (rule work_okI)
    show "distinct (map fst (b_work ?b))" "\<And>a k. (a, k) \<in> set (b_work ?b) \<Longrightarrow> a < b_next ?b \<and> wk_ref k = 1"
      using work_okD(1,2) [OF D(2)] by (simp_all add: e)
    show "w \<in> fst ` set (b_work ?b)" if "x \<in> set (b_cli ?b)" "ck_work x = Some w" for x w
      using that work_okD(3) [OF D(2)] by (auto simp: e)
    show "ck_fd x = ck_fd y" if "x \<in> set (b_cli ?b)" "y \<in> set (b_cli ?b)" "ck_work x = Some w" "ck_work y = Some w" for x y w
      using that by (intro work_okD(4) [OF D(2)]) (auto simp: e)
  qed
  moreover have "dict_ok [] ?b" using D(3) dict_ok_cong [of ?b b] by (simp add: e)
  moreover have "length (filter P (filter Q xs)) \<le> length (filter P xs)" for P Q and xs :: "ck list"
    by (induction xs) simp_all
  then have "stdy_ok [] ?b" by (intro stdy_ok_srefs [OF D(4) e(7)]) (simp add: srefs_def e)
  moreover have "x \<in> set (b_cli ?b)" if x: "x \<in> set (b_cli b)" "ck_work x = Some a" for x a
  proof -
    have "ck_fd x \<noteq> ck_fd c" using cur_unique [OF D(1) x(1) c(1)] c(2) x(2) by auto
    then show ?thesis using x(1) by (simp add: e)
  qed
  then have "owners_ok ?b" using D(5) unfolding lock_ok_def owners_ok_def e(2) by blast
  moreover have "holds ?b = holds b" by (simp add: holds_def fun_eq_iff e)
  then have "lock_ok {} ?b" using \<open>owners_ok ?b\<close> D(5) by (simp add: lock_ok_def e(4,5) dlock_cong [of ?b b])
  ultimately show ?thesis by (intro books_okI)
qed

text \<open>The client being served plays no part between two commands.\<close>

lemma ok_cur: "books_ok L {} (b\<lparr>b_cur := fd\<rparr>) = books_ok L {} b"
  by (simp add: books_ok_def cli_ok_def work_ok_def dict_ok_def refs_def stdy_ok_def srefs_def lock_ok_def owners_ok_def
    dlock_ok_def holds_def)

end
