(* ===== verification/Sj_Quiet.thy ===== *)
theory Sj_Quiet
  imports Sj_Server Sj_Books
begin

text \<open>
  The books of a state of the server, and the operations that leave them alone: all input
  and output, the files, the conversion engine and its buffers. \<open>quiet\<close> is closed under the
  ways the handlers are put together, so that the handlers of \<^verbatim>\<open>Sj_Convert\<close> need no proof
  of their own.
\<close>

named_theorems quiet_intros

section \<open>The books of a state\<close>

definition wk_of :: "'e WorkArea \<Rightarrow> wk" where
  "wk_of p = \<lparr>wk_lock = wa_lock p, wk_list = Jdictlist p, wk_ref = wa_refcnt p\<rparr>"

definition dk_of :: "DictFile \<Rightarrow> dk" where
  "dk_of d = \<lparr>dk_id = dicid d, dk_ref = df_refcnt d, dk_lock = df_lock d, dk_rw = (maxunit d \<noteq> 0)\<rparr>"

definition ck_of :: "client \<Rightarrow> ck" where
  "ck_of c = \<lparr>ck_fd = cl_fd c, ck_work = cl_work c, ck_stdy = cl_stdy c\<rparr>"

lemma of_simps [simp]:
  "wk_lock (wk_of p) = wa_lock p" "wk_list (wk_of p) = Jdictlist p" "wk_ref (wk_of p) = wa_refcnt p"
  "dk_id (dk_of d) = dicid d" "dk_ref (dk_of d) = df_refcnt d" "dk_lock (dk_of d) = df_lock d" "dk_rw (dk_of d) = (maxunit d \<noteq> 0)"
  "ck_fd (ck_of c) = cl_fd c" "ck_work (ck_of c) = cl_work c" "ck_stdy (ck_of c) = cl_stdy c"
  by (simp_all add: wk_of_def dk_of_def ck_of_def)

definition books :: "'e srv \<Rightarrow> books" where
  "books s = \<lparr>b_cli = map ck_of (clients s), b_num = client_num s, b_cur = cur_cli s,
     b_work = map (\<lambda>(a, p). (a, wk_of p)) (worklist s), b_next = next_work s,
     b_glob = (case global_dicts s of None \<Rightarrow> [] | Some ds \<Rightarrow> ds),
     b_dict = map dk_of (dictlink s), b_stdy = map (\<lambda>f. (stdy_ino f, sf_refcnt f)) (stdylink s),
     b_fds = srv_fds s, b_unix = fd_unix s\<rparr>"

lemma books_sel [simp]:
  "b_cli (books s) = map ck_of (clients s)" "b_num (books s) = client_num s" "b_cur (books s) = cur_cli s"
  "b_work (books s) = map (\<lambda>(a, p). (a, wk_of p)) (worklist s)" "b_next (books s) = next_work s"
  "b_glob (books s) = (case global_dicts s of None \<Rightarrow> [] | Some ds \<Rightarrow> ds)" "b_dict (books s) = map dk_of (dictlink s)"
  "b_stdy (books s) = map (\<lambda>f. (stdy_ino f, sf_refcnt f)) (stdylink s)" "b_fds (books s) = srv_fds s" "b_unix (books s) = fd_unix s"
  by (simp_all add: books_def)

section \<open>Quiet operations\<close>

definition quiet :: "('e, 'a) handler \<Rightarrow> bool" where
  "quiet m \<longleftrightarrow> (\<forall>s. books (snd (m s)) = books s)"

lemma quietD: "quiet m \<Longrightarrow> m s = (r, s') \<Longrightarrow> books s' = books s"
  unfolding quiet_def by (metis snd_conv)

lemma quiet_ret [quiet_intros]: "quiet (ret x)"
  by (simp add: quiet_def ret_def)

lemma quiet_jump [quiet_intros]: "quiet (jump e)"
  by (simp add: quiet_def jump_def)

lemma quiet_gets [quiet_intros]: "quiet (gets f)"
  by (simp add: quiet_def gets_def)

lemma quiet_need [quiet_intros]: "quiet (need x)"
  by (cases x) (simp_all add: quiet_def need_def ret_def jump_def)

lemma quiet_bnd [quiet_intros]: "quiet m \<Longrightarrow> (\<And>x. quiet (f x)) \<Longrightarrow> quiet (bnd m f)"
  unfolding quiet_def bnd_def by (auto split: prod.splits sum.splits) (metis snd_conv)+

lemma quiet_upd: "(\<And>s. books (f s) = books s) \<Longrightarrow> quiet (upd f)"
  by (simp add: quiet_def upd_def)

lemma quiet_unless [quiet_intros]: "quiet (unless b e)"
  by (simp add: unless_def quiet_intros)

lemma quiet_fail [quiet_intros]: "quiet (fail e)"
  by (simp add: fail_def quiet_intros)

lemma quiet_check [quiet_intros]: "quiet (check b e)"
  by (simp add: check_def quiet_intros)

lemma quiet_if [quiet_intros]: "(b \<Longrightarrow> quiet m) \<Longrightarrow> (\<not> b \<Longrightarrow> quiet m') \<Longrightarrow> quiet (if b then m else m')"
  by simp

lemma quiet_prod [quiet_intros]: "(\<And>a b. quiet (f a b)) \<Longrightarrow> quiet (case x of (a, b) \<Rightarrow> f a b)"
  by (cases x) simp

lemma quiet_option [quiet_intros]: "quiet m \<Longrightarrow> (\<And>a. quiet (f a)) \<Longrightarrow> quiet (case x of None \<Rightarrow> m | Some a \<Rightarrow> f a)"
  by (cases x) simp_all

lemma quiet_list [quiet_intros]: "quiet m \<Longrightarrow> (\<And>a l. quiet (f a l)) \<Longrightarrow> quiet (case x of [] \<Rightarrow> m | a # l \<Rightarrow> f a l)"
  by (cases x) simp_all

lemma quiet_proto [quiet_intros]: "quiet m \<Longrightarrow> quiet m' \<Longrightarrow> quiet (case x of SJIS_PROTO \<Rightarrow> m | EUC_PROTO \<Rightarrow> m')"
  by (cases x) simp_all

lemma quiet_mkdir [quiet_intros]:
  "quiet m1 \<Longrightarrow> quiet m2 \<Longrightarrow> quiet m3 \<Longrightarrow> quiet (case x of Made \<Rightarrow> m1 | Exists \<Rightarrow> m2 | Failed \<Rightarrow> m3)"
  by (cases x) simp_all

lemma quiet_Let [quiet_intros]: "(\<And>x. quiet (f x)) \<Longrightarrow> quiet (let x = a in f x)"
  by simp

lemma quiet_block [quiet_intros]: "(\<And>m. m \<in> set ms \<Longrightarrow> quiet m) \<Longrightarrow> quiet (block ms)"
  by (induction ms) (simp_all add: quiet_intros)

lemma sm_while_induct [consumes 1, case_names 1]:
  assumes "sm_while b f x s = Some r"
    and "\<And>g b f x s r. (\<And>b f x s r. g b f x s = Some r \<Longrightarrow> P b f x s r) \<Longrightarrow>
      (if b x then (case f x s of (Inl e, s') \<Rightarrow> Some (Inl e, s') | (Inr y, s') \<Rightarrow> g b f y s') else Some (Inr x, s)) = Some r \<Longrightarrow>
      P b f x s r"
  shows "P b f x s r"
proof -
  have "(case (((b, f), x), s) of (x, xa) \<Rightarrow> (case x of (x, xa) \<Rightarrow> (case x of (x, xa) \<Rightarrow> P x xa) xa) xa) r"
    by (rule sm_while.raw_induct [where P = P]) (rule assms(2), assumption, assumption, simp add: assms(1))
  then show ?thesis by simp
qed

lemma sm_while_quiet:
  "sm_while b f x s = Some r \<Longrightarrow> (\<forall>x. quiet (f x)) \<longrightarrow> books (snd r) = books s"
proof (induction b f x s r rule: sm_while_induct)
  case (1 g b f x s r)
  show ?case
  proof (cases "b x")
    case True
    obtain q s' where q: "f x s = (q, s')" by (cases "f x s")
    then have "(\<forall>x. quiet (f x)) \<longrightarrow> books s' = books s" using quietD by blast
    then show ?thesis using 1 True q by (cases q) auto
  next
    case False
    then show ?thesis using 1 by auto
  qed
qed

lemma quiet_loop [quiet_intros]: "(\<And>x. quiet (f x)) \<Longrightarrow> quiet (loop b f x)"
  using sm_while_quiet [of b f x] by (auto simp: quiet_def loop_def split: option.splits)

section \<open>Input and output\<close>

lemma books_chan [simp]:
  "books (s\<lparr>s_putbuf := a\<rparr>) = books s" "books (s\<lparr>s_getbuf := a\<rparr>) = books s" "books (s\<lparr>s_getpos := n\<rparr>) = books s"
  "books (s\<lparr>s_sent := a\<rparr>) = books s" "books (s\<lparr>s_wq := w\<rparr>) = books s" "books (s\<lparr>s_rq := r\<rparr>) = books s"
  "books (s\<lparr>serv_errno := e\<rparr>) = books s" "books (s\<lparr>fs_name := f1\<rparr>) = books s" "books (s\<lparr>fs_data := f2\<rparr>) = books s"
  "books (s\<lparr>fs_right := f3\<rparr>) = books s" "books (s\<lparr>fs_write_ok := f4\<rparr>) = books s" "books (s\<lparr>fs_malloc_ok := f4\<rparr>) = books s"
  "books (s\<lparr>srv_bufs := bf\<rparr>) = books s" "books (s\<lparr>conns := cs\<rparr>) = books s"
  for s :: "'e srv"
  by (simp_all add: books_def)

lemma quiet_put_flush [quiet_intros]: "quiet (put_flush :: ('e, unit) handler)"
proof -
  have "books (snd (put_flush_loop p s)) = books s" for p and s :: "'e srv"
  proof (induction p s rule: put_flush_loop.induct)
    case (1 p s)
    obtain i ws where w: "sys_write (length p) (s_wq s) = (i, ws)" by fastforce
    then show ?case using "1.IH" [OF _ refl w [symmetric]] by (subst put_flush_loop.simps) (auto simp: Let_def)
  qed
  then show ?thesis by (simp add: quiet_def put_flush_def)
qed

lemma quiet_put_byte [quiet_intros]: "quiet (put_byte c)"
  unfolding put_byte_def by (intro quiet_intros quiet_upd) simp

lemma quiet_put_int [quiet_intros]: "quiet (put_int c)"
  unfolding put_int_def block.simps by (intro quiet_intros)

lemma quiet_put_string [quiet_intros]: "quiet (put_string p)"
proof -
  have "quiet (put_string_loop p)" for p :: cbuf
    by (induction p) (auto intro!: quiet_intros)
  then show ?thesis unfolding put_string_def by (intro quiet_intros)
qed

lemma quiet_put_ndata [quiet_intros]: "quiet (put_ndata p n)"
  by (induction p n rule: put_ndata.induct) (auto intro!: quiet_intros)

lemma quiet_get_buf [quiet_intros]: "quiet (get_buf :: ('e, unit) handler)"
proof -
  have "books (snd (get_buf s)) = books s" for s :: "'e srv"
  proof (induction s rule: get_buf.induct)
    case (1 s)
    obtain a q where r: "sys_read BUFSIZ (s_rq s) = (a, q)" by fastforce
    note IH = "1.IH" [OF refl r [symmetric] refl]
    show ?case using IH r by (subst get_buf.simps) (cases a, auto simp: Let_def)
  qed
  then show ?thesis by (simp add: quiet_def)
qed

lemma quiet_get_byte [quiet_intros]: "quiet get_byte"
  unfolding get_byte_def by (intro quiet_intros quiet_upd) simp

lemma quiet_get_int [quiet_intros]: "quiet get_int"
  unfolding get_int_def by (intro quiet_intros)

lemma quiet_get_nstring [quiet_intros]: "quiet (get_nstring n :: ('e, u32 \<times> cbuf) handler)"
proof -
  have "books (snd (get_nstring_loop n p s)) = books s" for n p and s :: "'e srv"
  proof (induction n p s rule: get_nstring_loop.induct)
    case (1 n p s)
    obtain r s' where g: "get_byte s = (r, s')" by fastforce
    then have b: "books s' = books s" using quiet_get_byte quietD by blast
    show ?case
    proof (cases r)
      case (Inl e)
      then show ?thesis using g b by (subst get_nstring_loop.simps) (simp add: bnd_def)
    next
      case (Inr c)
      then show ?thesis using "1.IH" [of c s' "if n > 0 then p @ [ucast c] else p"] g b
        by (subst get_nstring_loop.simps) (auto simp: bnd_def Let_def)
    qed
  qed
  then have "quiet (get_nstring_loop n [] :: ('e, int \<times> cbuf) handler)" by (simp add: quiet_def)
  then show ?thesis unfolding get_nstring_def by (intro quiet_intros)
qed

lemma quiet_get_ndata [quiet_intros]: "quiet (get_ndata n)"
  by (induction n) (auto intro!: quiet_intros)

section \<open>Files\<close>

lemma quiet_set_errno [quiet_intros]: "quiet (set_errno e r)"
  by (simp add: quiet_def set_errno_def)

lemma quiet_malloc [quiet_intros]: "quiet malloc"
  by (simp add: quiet_def malloc_def split: list.splits)

lemma quiet_fgetfile [quiet_intros]: "quiet (fgetfile i pos len)"
  unfolding fgetfile_def by (intro quiet_intros)

lemma quiet_putfile [quiet_intros]: "quiet (putfile i pos p)"
  by (simp add: quiet_def putfile_def split: list.splits bool.splits)

lemma books_dictlink:
  "(\<And>d. dk_of (f d) = dk_of d) \<Longrightarrow> books (s\<lparr>dictlink := upd_dict i f ds\<rparr>) = books (s\<lparr>dictlink := ds\<rparr>)" for s :: "'e srv"
  by (simp add: books_def upd_dict_def)

lemma books_stdylink:
  fixes s :: "'e srv"
  assumes "\<And>p. stdy_ino (f p) = stdy_ino p" "\<And>p. sf_refcnt (f p) = sf_refcnt p"
  shows "books (s\<lparr>stdylink := upd_stdy i f ss\<rparr>) = books (s\<lparr>stdylink := ss\<rparr>)"
  using assms by (simp add: books_def upd_stdy_def)

lemma quiet_on_dict: "(\<And>d. dk_of (f d) = dk_of d) \<Longrightarrow> quiet (on_dict i (\<lambda>_. upd_dict i f))"
  unfolding on_dict_def by (intro quiet_intros quiet_upd) (simp add: books_dictlink)

lemma quiet_on_stdy:
  "(\<And>p. stdy_ino (f p) = stdy_ino p) \<Longrightarrow> (\<And>p. sf_refcnt (f p) = sf_refcnt p) \<Longrightarrow> quiet (on_stdy i (\<lambda>_. upd_stdy i f))"
  unfolding on_stdy_def by (intro quiet_intros quiet_upd) (simp add: books_stdylink)

lemma quiet_file_ops [quiet_intros]:
  "quiet (set_dictpass i b)" "quiet (set_dictcmnt i b)" "quiet (set_stdypass i b)" "quiet (set_stdycmnt i b)"
  "quiet (putstydic i)" "quiet (putcldic i)"
  unfolding set_dictpass_def set_dictcmnt_def set_stdypass_def set_stdycmnt_def putstydic_def putcldic_def
  by (intro quiet_intros quiet_on_dict quiet_on_stdy; simp add: dk_of_def)+

lemma quiet_put_blocks [quiet_intros]: "quiet (put_blocks i bs)"
  by (induction i bs rule: put_blocks.induct) (auto intro!: quiet_intros)

lemma quiet_write_new [quiet_intros]: "quiet (write_new path bs)"
  unfolding write_new_def fopen_w_def unlink_def by (intro quiet_intros quiet_upd) simp_all

lemma quiet_makes [quiet_intros]: "quiet (makedict path il sl sn)" "quiet (makestdy path n c l)"
  unfolding makedict_def makestdy_def by (intro quiet_intros)+

section \<open>The handlers that only convert\<close>

lemma quiet_the [quiet_intros]: "quiet the_cli" "quiet (the_work w)" "quiet (the_dict i)" "quiet (the_stdy i)" "quiet (cstr p)"
  unfolding the_cli_def the_work_def the_dict_def the_stdy_def cstr_def by (intro quiet_intros)+

lemma quiet_upd_work:
  assumes "\<And>p. wk_of (f p) = wk_of p"
  shows "quiet (upd_work w f)"
proof -
  have "map (\<lambda>(a, p). (a, wk_of p)) (map (\<lambda>(a, p). (a, if a = w then f p else p)) ws) = map (\<lambda>(a, p). (a, wk_of p)) ws" for ws
    by (induction ws) (auto simp: assms)
  then show ?thesis unfolding upd_work_def by (intro quiet_upd) (simp add: books_def)
qed

lemma quiet_set_stdy [quiet_intros]: "quiet (set_stdy i st)"
  unfolding set_stdy_def by (intro quiet_upd) (simp add: books_stdylink)

lemma quiet_set_bufs [quiet_intros]: "quiet (set_bufs f)"
  unfolding set_bufs_def by (intro quiet_upd) simp

lemma quiet_get_bufs [quiet_intros]: "quiet (get_bufs f)"
  unfolding get_bufs_def by (intro quiet_intros)

lemma quiet_basics [quiet_intros]:
  "quiet connected" "quiet (get_path p)" "quiet fail_errno" "quiet (find_dictl w n e)" "quiet (lock_check_for_read w)"
  "quiet studying" "quiet (path_of p)" "quiet (user_allowed a b)"
  unfolding connected_def get_path_def fail_errno_def find_dictl_def lock_check_for_read_def studying_def path_of_def user_allowed_def
  by (intro quiet_intros)+

lemma quiet_call_study [quiet_intros]: "quiet (call_study i st)"
  unfolding call_study_def by (intro quiet_intros)

lemma quiet_plain [quiet_intros]:
  "quiet exec_stdysize" "quiet exec_study" "quiet exec_makedict" "quiet exec_makestdy" "quiet exec_access" "quiet exec_makedir"
  "quiet exec_version" "quiet exec_dictpass" "quiet exec_dictcmnt" "quiet exec_stdypass" "quiet exec_stdycmnt" "quiet exec_stdypara"
  unfolding exec_stdysize_def exec_study_def exec_makedict_def exec_makestdy_def exec_access_def exec_makedir_def exec_version_def
    exec_dictpass_def exec_dictcmnt_def exec_stdypass_def exec_stdycmnt_def exec_stdypara_def block.simps
  by (intro quiet_intros)+

lemma quiet_who [quiet_intros]: "quiet exec_who"
proof -
  have "quiet (put_who cs)" for cs by (induction cs) (auto intro!: quiet_intros)
  then show ?thesis unfolding exec_who_def by (intro quiet_intros)
qed

lemma quiet_view [quiet_intros]: "quiet (view w)"
  unfolding view_def cur_stdy_def by (intro quiet_intros)

lemma quiet_call [quiet_intros]: "quiet (call w f)" "quiet (call_k w g)" "quiet (call_4 w g)"
  unfolding call_def call_k_def call_4_def by (intro quiet_intros quiet_upd_work; simp add: wk_of_def)+

lemma quiet_buffers [quiet_intros]:
  "quiet get_buf1" "quiet get_buf2" "quiet cconverr" "quiet (to_euc put out inp)" "quiet (to_sjis q len inp)"
  "quiet (copy_sk q src n)" "quiet (put_candidate j p)" "quiet (ready e)"
  unfolding get_buf1_def get_buf2_def cconverr_def to_euc_def to_sjis_def copy_sk_def put_candidate_def ready_def
  by (intro quiet_intros)+

lemma quiet_codes [quiet_intros]: "quiet buf1_to_buf2" "quiet buf1_to_buf3" "quiet buf2_to_buf4" "quiet (to_sjis_ok q len inp)"
  unfolding buf1_to_buf2_def buf1_to_buf3_def buf2_to_buf4_def to_sjis_ok_def by (intro quiet_intros)+

lemma quiet_texts [quiet_intros]: "quiet sk_from_kbuf" "quiet sk_text_k" "quiet sk_text_4" "quiet word_to_sjis"
  unfolding sk_from_kbuf_def sk_text_k_def sk_text_4_def word_to_sjis_def by (intro quiet_intros)+

lemma quiet_skip [quiet_intros]: "quiet (skip_k w f ok x)" "quiet (skip_4 w f ok x)"
  unfolding skip_k_def skip_4_def by (intro quiet_intros)+

lemma quiet_ph [quiet_intros]: "quiet (ph_retry eng w q bs off n)" "quiet (ph_clause eng w x)" "quiet (put_clauses p)"
  unfolding ph_clause_def ph_retry_def put_clauses_def by (intro quiet_intros)+

lemma quiet_convert [quiet_intros]:
  "quiet (exec_ph2knj eng mb)" "quiet (exec_cl2knj eng mb)" "quiet (exec_nextcl eng mb)" "quiet (exec_prevcl eng mb)"
  "quiet (exec_cl2knj_cnt eng mb)"
  unfolding exec_ph2knj_def exec_cl2knj_def exec_nextcl_def exec_prevcl_def exec_step_def exec_cl2knj_cnt_def
  by (intro quiet_intros)+

lemma quiet_all [quiet_intros]: "quiet (exec_cl2knj_all eng mb)"
  unfolding exec_cl2knj_all_def next_candidate_def by (intro quiet_intros)

lemma quiet_clstudy [quiet_intros]: "quiet (exec_clstudy eng mb)"
  unfolding exec_clstudy_def call_clstudy_def by (intro quiet_intros)

lemma quiet_edits [quiet_intros]: "quiet (exec_adddict eng mb)" "quiet (exec_deldict eng mb)"
  unfolding exec_adddict_def exec_deldict_def edit_word_def apply_edit_def
  by (intro quiet_intros quiet_upd_work quiet_on_dict; simp add: wk_of_def dk_of_def)+

lemma quiet_words [quiet_intros]: "quiet (exec_getdict eng mb)" "quiet (exec_nextdict eng mb)" "quiet (exec_prevdict eng mb)"
  unfolding exec_getdict_def exec_nextdict_def exec_prevdict_def exec_word_def by (intro quiet_intros)+

end
