(* ===== verification/Sj_Wp.thy ===== *)
theory Sj_Wp
  imports Sj_Quiet
begin

text \<open>
  Weakest preconditions for the handlers, over the books of the state. \<open>wp U E m Q s\<close>: when
  \<open>m\<close> returns, \<open>Q\<close> holds; when it leaves by \<^verbatim>\<open>longjmp\<close>, \<open>E\<close> holds of the books; undefined
  behaviour, a loop that does not end and the end of the process only occur when \<open>U\<close> allows them.
\<close>

section \<open>The calculus\<close>

definition wp :: "bool \<Rightarrow> (books \<Rightarrow> bool) \<Rightarrow> ('e, 'a) handler \<Rightarrow> ('a \<Rightarrow> 'e srv \<Rightarrow> bool) \<Rightarrow> 'e srv \<Rightarrow> bool" where
  "wp U E m Q s = (case m s of
     (Inr x, s') \<Rightarrow> Q x s'
   | (Inl e, s') \<Rightarrow> (case e of Ub \<Rightarrow> U | Hang \<Rightarrow> U | Exit \<Rightarrow> U | _ \<Rightarrow> E (books s')))"

lemma wp_bnd: "wp U E (bnd m f) Q s = wp U E m (\<lambda>x. wp U E (f x) Q) s"
  by (auto simp: wp_def bnd_def split: prod.splits sum.splits)

lemma wp_simps [simp]:
  "wp U E (ret x) Q1 s = Q1 x s" "wp U E (gets f) Q2 s = Q2 (f s) s" "wp U E (upd g) Q3 s = Q3 () (g s)"
  "wp U E (fail e) Q4 s = E (books s)" "wp U E (jump Ub) Q5 s = U"
  by (simp_all add: wp_def ret_def gets_def upd_def fail_def jump_def)

lemma wp_check: "(b \<Longrightarrow> Q () s) \<Longrightarrow> E (books s) \<Longrightarrow> wp U E (check b e) Q s"
  by (cases b) (simp_all add: check_def unless_def wp_def ret_def jump_def)

lemma wp_need: "(\<And>a. x = Some a \<Longrightarrow> Q a s) \<Longrightarrow> U \<or> x \<noteq> None \<Longrightarrow> wp U E (need x) Q s"
  by (cases x) (auto simp: need_def)

lemma wp_if: "(b \<Longrightarrow> wp U E m Q s) \<Longrightarrow> (\<not> b \<Longrightarrow> wp U E m' Q s) \<Longrightarrow> wp U E (if b then m else m') Q s"
  by simp

lemma wp_intros:
  "wp U E m (\<lambda>x. wp U E (f x) Q) s \<Longrightarrow> wp U E (bnd m f) Q s" "R x s \<Longrightarrow> wp U E (ret x) R s" "R (h s) s \<Longrightarrow> wp U E (gets h) R s"
  "T () (g s) \<Longrightarrow> wp U E (upd g) T s" "E (books s) \<Longrightarrow> wp U E (fail e) R s"
  by (simp_all add: wp_bnd)

lemma wp_cases:
  "(a = None \<Longrightarrow> wp U E m Q s) \<Longrightarrow> (\<And>x. a = Some x \<Longrightarrow> wp U E (f x) Q s) \<Longrightarrow> wp U E (case a of None \<Rightarrow> m | Some x \<Rightarrow> f x) Q s"
  "(\<And>x y. p = (x, y) \<Longrightarrow> wp U E (g x y) Q s) \<Longrightarrow> wp U E (case p of (x, y) \<Rightarrow> g x y) Q s"
  "(b = Denied \<Longrightarrow> wp U E m Q s) \<Longrightarrow> (\<And>i. b = Found i \<Longrightarrow> wp U E (h i) Q s) \<Longrightarrow> wp U E (case b of Found i \<Rightarrow> h i | Denied \<Rightarrow> m) Q s"
  by (auto split: option.splits prod.splits stat_ans.splits)

lemma wp_mono: "wp U E m Q s \<Longrightarrow> (\<And>x s'. Q x s' \<Longrightarrow> R x s') \<Longrightarrow> wp U E m R s"
  by (auto simp: wp_def split: prod.splits sum.splits)

lemma wp_ub: "wp False E m Q s \<Longrightarrow> wp U E m Q s"
  by (auto simp: wp_def split: prod.splits sum.splits jump.splits)

text \<open>Operations without undefined behaviour, and those that always return.\<close>

definition clean :: "('e, 'a) handler \<Rightarrow> bool" where
  "clean m \<longleftrightarrow> (\<forall>s. fst (m s) \<noteq> Inl Ub \<and> fst (m s) \<noteq> Inl Hang \<and> fst (m s) \<noteq> Inl Exit)"

named_theorems clean_intros

lemma clean_basic [clean_intros]: "clean (ret x)" "clean (gets f)" "clean (upd g)" "clean (fail e)" "clean (check b e)"
  by (simp_all add: clean_def ret_def gets_def upd_def fail_def jump_def check_def unless_def)

lemma clean_bnd [clean_intros]: "clean m \<Longrightarrow> (\<And>x. clean (f x)) \<Longrightarrow> clean (bnd m f)"
  unfolding clean_def bnd_def by (auto split: prod.splits sum.splits) (metis fst_conv)+

lemma clean_if [clean_intros]: "(b \<Longrightarrow> clean m) \<Longrightarrow> (\<not> b \<Longrightarrow> clean m') \<Longrightarrow> clean (if b then m else m')"
  by simp

lemma clean_put_flush [clean_intros]: "clean (put_flush :: ('e, unit) handler)"
proof -
  have "fst (put_flush_loop p s) \<noteq> Inl Ub \<and> fst (put_flush_loop p s) \<noteq> Inl Hang \<and> fst (put_flush_loop p s) \<noteq> Inl Exit" for p and s :: "'e srv"
  proof (induction p s rule: put_flush_loop.induct)
    case (1 p s)
    obtain i ws where w: "sys_write (length p) (s_wq s) = (i, ws)" by fastforce
    then show ?case using "1.IH" [OF _ refl w [symmetric]] by (subst (1 2 3) put_flush_loop.simps) (auto simp: Let_def)
  qed
  then show ?thesis by (simp add: clean_def put_flush_def)
qed

lemma clean_put_int [clean_intros]: "clean (put_int c)"
  unfolding put_int_def put_byte_def block.simps by (intro clean_intros)

lemma clean_get_int [clean_intros]: "clean (get_int :: ('e, u32) handler)"
proof -
  have "fst (get_buf s) \<noteq> Inl Ub \<and> fst (get_buf s) \<noteq> Inl Hang \<and> fst (get_buf s) \<noteq> Inl Exit" for s :: "'e srv"
  proof (induction s rule: get_buf.induct)
    case (1 s)
    obtain a q where r: "sys_read BUFSIZ (s_rq s) = (a, q)" by fastforce
    note IH = "1.IH" [OF refl r [symmetric] refl]
    show ?case using IH r by (subst (1 2 3) get_buf.simps) (cases a, auto simp: Let_def)
  qed
  then have "clean (get_buf :: ('e, unit) handler)" by (simp add: clean_def)
  then show ?thesis unfolding get_int_def get_byte_def by (intro clean_intros)
qed

lemma wp_quiet:
  assumes "quiet m" "U \<or> clean m" "E (books s)" "\<And>x s'. books s' = books s \<Longrightarrow> Q x s'"
  shows "wp U E m Q s"
proof -
  obtain r s' where m: "m s = (r, s')" by fastforce
  then have "books s' = books s" using assms(1) quietD by blast
  moreover have "U" if "r = Inl Ub \<or> r = Inl Hang \<or> r = Inl Exit"
    using assms(2) that m unfolding clean_def by (metis fst_conv)
  ultimately show ?thesis using m assms(3,4) by (auto simp: wp_def split: sum.splits jump.splits)
qed

lemma wp_malloc: "(\<And>b s'. books s' = books s \<Longrightarrow> Q b s') \<Longrightarrow> wp U E malloc Q s"
  using quiet_malloc quietD by (fastforce simp: wp_def malloc_def split: list.splits)

section \<open>Reading the books\<close>

lemma wp_the_cli:
  assumes "U \<or> b_cur (books s) \<in> ck_fd ` set (b_cli (books s))"
    and "\<And>c. ck_of c \<in> set (b_cli (books s)) \<Longrightarrow> cl_fd c = b_cur (books s) \<Longrightarrow> Q c s"
  shows "wp U E the_cli Q s"
  unfolding the_cli_def wp_bnd
proof (simp, rule wp_need)
  show "Q c s" if "find (\<lambda>c. cl_fd c = cur_cli s) (clients s) = Some c" for c
    using that assms(2) [of c] by (auto simp: find_Some_iff)
  have "ck_fd ` set (b_cli (books s)) = cl_fd ` set (clients s)" by (simp add: image_image)
  then show "U \<or> find (\<lambda>c. cl_fd c = cur_cli s) (clients s) \<noteq> None"
    using assms(1) by (auto simp: find_None_iff)
qed

lemma wp_the_work:
  assumes "U \<or> w \<in> fst ` set (b_work (books s))" "\<And>p. (w, wk_of p) \<in> set (b_work (books s)) \<Longrightarrow> Q p s"
  shows "wp U E (the_work w) Q s"
  unfolding the_work_def wp_bnd
proof (simp, rule wp_need)
  show "Q p s" if "map_of (worklist s) w = Some p" for p
    using map_of_SomeD [OF that] assms(2) [of p] by force
  have "fst ` set (b_work (books s)) = fst ` set (worklist s)" by (force simp: image_iff)
  then show "U \<or> map_of (worklist s) w \<noteq> None" using assms(1) by (simp only: map_of_eq_None_iff) blast
qed

lemma search_books:
  "search_same_dict i (dictlink s) = Some d \<Longrightarrow> dk_of d \<in> set (b_dict (books s)) \<and> dicid d = i"
  "i \<in> dk_id ` set (b_dict (books s)) \<longleftrightarrow> search_same_dict i (dictlink s) \<noteq> None"
proof -
  show "dk_of d \<in> set (b_dict (books s)) \<and> dicid d = i" if "search_same_dict i (dictlink s) = Some d"
    using that by (auto simp: search_same_dict_def find_Some_iff)
  have "dk_id ` set (b_dict (books s)) = dicid ` set (dictlink s)" by (simp add: image_image)
  then show "i \<in> dk_id ` set (b_dict (books s)) \<longleftrightarrow> search_same_dict i (dictlink s) \<noteq> None"
    unfolding search_same_dict_def by (auto simp: find_None_iff)
qed

lemma wp_the_dict:
  assumes "U \<or> i \<in> dk_id ` set (b_dict (books s))"
    and "\<And>d. dk_of d \<in> set (b_dict (books s)) \<Longrightarrow> dicid d = i \<Longrightarrow> Q d s"
  shows "wp U E (the_dict i) Q s"
  unfolding the_dict_def wp_bnd
proof (simp, rule wp_need)
  show "Q d s" if "search_same_dict i (dictlink s) = Some d" for d
    using search_books(1) [OF that] by (intro assms(2)) simp_all
  show "U \<or> search_same_dict i (dictlink s) \<noteq> None" using assms(1) search_books(2) by blast
qed

section \<open>Writing the books\<close>

lemma wp_upd_cli:
  assumes "\<And>c. ck_of (f c) = h (ck_of c)" "\<And>s'. books s' = b_cmap h (books s) \<Longrightarrow> Q () s'"
  shows "wp U E (upd_cli f) Q s"
proof -
  have "map ck_of (map (\<lambda>c. if cl_fd c = n then f c else c) cs) = map (\<lambda>c. if ck_fd c = n then h c else c) (map ck_of cs)" for n cs
    by (induction cs) (simp_all add: assms(1))
  then show ?thesis unfolding upd_cli_def by (simp, intro assms(2)) (simp add: books_def b_cmap_def)
qed

lemma wp_upd_work:
  assumes "\<And>p. wk_of (f p) = g (wk_of p)" "\<And>s'. books s' = b_wmap w g (books s) \<Longrightarrow> Q () s'"
  shows "wp U E (upd_work w f) Q s"
proof -
  have "map (\<lambda>(a, p). (a, wk_of p)) (map (\<lambda>(a, p). (a, if a = w then f p else p)) ws)
    = map (\<lambda>(a, k). (a, if a = w then g k else k)) (map (\<lambda>(a, p). (a, wk_of p)) ws)" for ws
    by (induction ws) (auto simp: assms(1))
  then show ?thesis unfolding upd_work_def by (simp, intro assms(2)) (simp add: books_def b_wmap_def)
qed

lemma wp_on_dict:
  assumes "U \<or> i \<in> dk_id ` set (b_dict (books s))"
    and "\<And>d s'. search_same_dict i (dictlink s) = Some d \<Longrightarrow> books s' = (books s)\<lparr>b_dict := map dk_of (f d (dictlink s))\<rparr> \<Longrightarrow> Q () s'"
  shows "wp U E (on_dict i f) Q s"
  unfolding on_dict_def wp_bnd
proof (simp, rule wp_need)
  show "wp U E (upd (\<lambda>s. s\<lparr>dictlink := f d (dictlink s)\<rparr>)) Q s" if "search_same_dict i (dictlink s) = Some d" for d
    using assms(2) [OF that] by (simp add: books_def)
  show "U \<or> search_same_dict i (dictlink s) \<noteq> None" using assms(1) search_books(2) by blast
qed

lemma map_dk_upd:
  "(\<And>d. dk_of (f d) = h (dk_of d)) \<Longrightarrow> map dk_of (upd_dict i f ds) = map (\<lambda>d. if dk_id d = i then h d else d) (map dk_of ds)"
  by (induction ds) (simp_all add: upd_dict_def)

lemma wp_dmap:
  assumes "U \<or> i \<in> dk_id ` set (b_dict (books s))" "\<And>d. dk_of (f d) = h (dk_of d)"
    and "\<And>s'. books s' = b_dmap i h (books s) \<Longrightarrow> Q () s'"
  shows "wp U E (on_dict i (\<lambda>_. upd_dict i f)) Q s"
  using map_dk_upd [of f h i "dictlink s", OF assms(2)]
  by (intro wp_on_dict [OF assms(1)] assms(3)) (simp add: b_dmap_def)

lemma dk_of_ops:
  "dk_of (d\<lparr>df_lock := insert fd (df_lock d)\<rparr>) = (dk_of d)\<lparr>dk_lock := insert fd (dk_lock (dk_of d))\<rparr>"
  "dk_of (d\<lparr>df_lock := df_lock d - {fd}\<rparr>) = (dk_of d)\<lparr>dk_lock := dk_lock (dk_of d) - {fd}\<rparr>"
  "dk_of (d\<lparr>df_refcnt := df_refcnt d + 1\<rparr>) = (dk_of d)\<lparr>dk_ref := dk_ref (dk_of d) + 1\<rparr>"
  "dk_of (d\<lparr>df_refcnt := df_refcnt d - 1\<rparr>) = (dk_of d)\<lparr>dk_ref := dk_ref (dk_of d) - 1\<rparr>"
  by (simp_all add: dk_of_def)

lemma wp_lock_dict:
  "U \<or> i \<in> dk_id ` set (b_dict (books s)) \<Longrightarrow> (\<And>s'. books s' = b_lock i fd (books s) \<Longrightarrow> Q () s') \<Longrightarrow> wp U E (lock_dict i fd) Q s"
  unfolding lock_dict_def b_lock_def by (erule wp_dmap, rule dk_of_ops, blast)

lemma wp_unlock_dict:
  "U \<or> i \<in> dk_id ` set (b_dict (books s)) \<Longrightarrow> (\<And>s'. books s' = b_unlock i fd (books s) \<Longrightarrow> Q () s') \<Longrightarrow> wp U E (unlock_dict i fd) Q s"
  unfolding unlock_dict_def b_unlock_def by (erule wp_dmap, rule dk_of_ops, blast)

lemma closed_dict:
  assumes "distinct (map dicid ds)" "search_same_dict i ds = Some d"
  shows "map dk_of (if df_refcnt d - 1 > 0 then upd_dict i (\<lambda>d. d\<lparr>df_refcnt := df_refcnt d - 1\<rparr>) ds else filter (\<lambda>d. dicid d \<noteq> i) ds)
    = map (\<lambda>d. if dk_id d = i then d\<lparr>dk_ref := dk_ref d - 1\<rparr> else d) (filter (\<lambda>d. dk_id d = i \<longrightarrow> dk_ref d - 1 > 0) (map dk_of ds))"
    (is "?l = map ?g (filter ?P _)")
proof -
  have d: "d \<in> set ds" "dicid d = i" using assms(2) by (auto simp: search_same_dict_def find_Some_iff)
  have u: "d' = d" if "d' \<in> set ds" "dicid d' = i" for d'
    using assms(1) d that by (auto simp: distinct_map inj_on_def)
  show ?thesis
  proof (cases "df_refcnt d - 1 > 0")
    case True
    then have "?P (dk_of d')" if "d' \<in> set ds" for d' using u [OF that] by auto
    then have "filter ?P (map dk_of ds) = map dk_of ds" by (auto simp: filter_id_conv)
    moreover have "map dk_of (upd_dict i (\<lambda>d. d\<lparr>df_refcnt := df_refcnt d - 1\<rparr>) ds) = map ?g (map dk_of ds)"
      by (rule map_dk_upd [where h = "\<lambda>d. d\<lparr>dk_ref := dk_ref d - 1\<rparr>"]) (rule dk_of_ops)
    ultimately show ?thesis using True by simp
  next
    case False
    then have "filter ?P (map dk_of ds) = map dk_of (filter (\<lambda>d. dicid d \<noteq> i) ds)"
      using u by (auto simp: filter_map o_def intro!: arg_cong [where f = "map dk_of"] filter_cong)
    moreover have "map ?g (map dk_of (filter (\<lambda>d. dicid d \<noteq> i) ds)) = map dk_of (filter (\<lambda>d. dicid d \<noteq> i) ds)"
      by (intro map_idI) auto
    ultimately show ?thesis using False by simp
  qed
qed

lemma wp_closedict:
  assumes "U \<or> i \<in> dk_id ` set (b_dict (books s))" "distinct (map dk_id (b_dict (books s)))"
    and "\<And>s'. books s' = b_close i (books s) \<Longrightarrow> Q () s'"
  shows "wp U E (closedict i) Q s"
  unfolding closedict_def
proof (rule wp_on_dict [OF assms(1)], rule assms(3))
  fix d s' assume "search_same_dict i (dictlink s) = Some d"
    and b: "books s' = (books s)\<lparr>b_dict := map dk_of (if df_refcnt d - 1 > 0 then upd_dict i (\<lambda>d. d\<lparr>df_refcnt := df_refcnt d - 1\<rparr>) (dictlink s)
      else filter (\<lambda>d. dicid d \<noteq> i) (dictlink s))\<rparr>"
  moreover have "distinct (map dicid (dictlink s))" using assms(2) by (simp add: o_def)
  ultimately show "books s' = b_close i (books s)" unfolding b by (subst closed_dict) (simp_all add: b_close_def)
qed

section \<open>Opening and closing files\<close>

lemma wp_set_errno: "(\<And>s'. books s' = books s \<Longrightarrow> Q r s') \<Longrightarrow> wp U E (set_errno e r) Q s"
  by (simp add: wp_def set_errno_def)

lemma open_dict_file_books: "open_dict_file i rw dp = Some d \<Longrightarrow> \<exists>w. dk_of d = \<lparr>dk_id = i, dk_ref = 1, dk_lock = {}, dk_rw = w\<rparr>"
  by (auto simp: open_dict_file_def Let_def dk_of_def split: bind_splits)

lemma wp_opendict_file:
  assumes "E (books s)" "\<And>s'. books s' = books s \<Longrightarrow> Q None s'"
    "\<And>rw s'. books s' = b_new i rw (books s) \<Longrightarrow> Q (Some i) s'"
  shows "wp True E (opendict_file i pw) Q s"
proof -
  have load: "wp True E (opendict_load i rw) Q t" if "books t = books s" for rw t
    unfolding opendict_load_def
    apply (intro wp_intros wp_cases wp_if wp_malloc wp_set_errno wp_quiet [OF quiet_fgetfile] wp_need; (rule assms(2))?; (simp add: that assms(1))?)
    apply (drule open_dict_file_books, erule exE, rule assms(3), simp add: books_def b_new_def that)
    done
  show ?thesis
    unfolding opendict_file_def
    by (intro wp_intros wp_cases wp_if wp_malloc wp_set_errno wp_quiet [OF quiet_fgetfile] wp_need load; (rule assms(2))?; simp add: assms(1))
qed

lemma wp_opendict:
  assumes "E (books s)" "\<And>s'. books s' = books s \<Longrightarrow> Q None s'"
    "\<And>i s'. i \<in> dk_id ` set (b_dict (books s)) \<Longrightarrow> books s' = b_inc i (books s) \<Longrightarrow> Q (Some i) s'"
    "\<And>i rw s'. i \<notin> dk_id ` set (b_dict (books s)) \<Longrightarrow> books s' = b_new i rw (books s) \<Longrightarrow> Q (Some i) s'"
  shows "wp True E (opendict name pw) Q s"
proof -
  have same: "Q (Some i) (s\<lparr>dictlink := upd_dict i (\<lambda>d. d\<lparr>df_refcnt := df_refcnt d + 1\<rparr>) (dictlink s)\<rparr>)"
    if "search_same_dict i (dictlink s) = Some d" for i d
  proof (rule assms(3))
    show "i \<in> dk_id ` set (b_dict (books s))" using that search_books(2) by blast
    show "books (s\<lparr>dictlink := upd_dict i (\<lambda>d. d\<lparr>df_refcnt := df_refcnt d + 1\<rparr>) (dictlink s)\<rparr>) = b_inc i (books s)"
      using map_dk_upd [of "\<lambda>d. d\<lparr>df_refcnt := df_refcnt d + 1\<rparr>" "\<lambda>d. d\<lparr>dk_ref := dk_ref d + 1\<rparr>" i "dictlink s", OF dk_of_ops(3)]
      by (simp add: books_def b_inc_def b_dmap_def)
  qed
  have load: "wp True E (opendict_file i pw) Q s" if "search_same_dict i (dictlink s) = None" for i
    using that search_books(2) [of i s] by (intro wp_opendict_file assms) simp_all
  show ?thesis
    unfolding opendict_def
    by (intro wp_intros wp_cases wp_if wp_malloc wp_set_errno wp_need load; (rule assms(2))?; simp add: same)
qed

section \<open>Study files\<close>

lemma search_stdy:
  "i \<in> fst ` set (b_stdy (books s)) \<longleftrightarrow> search_same_stdy i (stdylink s) \<noteq> None"
proof -
  have "fst ` set (b_stdy (books s)) = stdy_ino ` set (stdylink s)" by (simp add: image_image)
  then show ?thesis unfolding search_same_stdy_def by (auto simp: find_None_iff)
qed

lemma closed_stdy:
  assumes "distinct (map stdy_ino ss)" "search_same_stdy i ss = Some p"
  shows "map (\<lambda>f. (stdy_ino f, sf_refcnt f)) (if sf_refcnt p - 1 > 0 then upd_stdy i (\<lambda>p. p\<lparr>sf_refcnt := sf_refcnt p - 1\<rparr>) ss
      else filter (\<lambda>p. stdy_ino p \<noteq> i) ss)
    = map (\<lambda>(a, n). (a, if a = i then n - 1 else n)) (filter (\<lambda>(a, n). a = i \<longrightarrow> n - 1 > 0) (map (\<lambda>f. (stdy_ino f, sf_refcnt f)) ss))"
proof -
  have d: "p \<in> set ss" "stdy_ino p = i" using assms(2) by (auto simp: search_same_stdy_def find_Some_iff)
  have u: "p' = p" if "p' \<in> set ss" "stdy_ino p' = i" for p'
    using assms(1) d that by (auto simp: distinct_map inj_on_def)
  show ?thesis
  proof (cases "sf_refcnt p - 1 > 0")
    case True
    then have "filter (\<lambda>(a, n). a = i \<longrightarrow> n - 1 > 0) (map (\<lambda>f. (stdy_ino f, sf_refcnt f)) ss) = map (\<lambda>f. (stdy_ino f, sf_refcnt f)) ss"
      using u by (auto simp: filter_id_conv)
    then show ?thesis using True by (simp add: upd_stdy_def)
  next
    case False
    then have "filter (\<lambda>(a, n). a = i \<longrightarrow> n - 1 > 0) (map (\<lambda>f. (stdy_ino f, sf_refcnt f)) ss)
        = map (\<lambda>f. (stdy_ino f, sf_refcnt f)) (filter (\<lambda>p. stdy_ino p \<noteq> i) ss)"
      using u by (auto simp: filter_map o_def intro!: arg_cong [where f = "map _"] filter_cong)
    then show ?thesis using False by simp
  qed
qed

lemma wp_closestdy:
  assumes "U \<or> i \<in> fst ` set (b_stdy (books s))" "distinct (map fst (b_stdy (books s)))"
    and "\<And>s'. books s' = b_sclose i (books s) \<Longrightarrow> Q () s'"
  shows "wp U E (closestdy i) Q s"
  unfolding closestdy_def on_stdy_def wp_bnd
proof (simp only: wp_simps, rule wp_need)
  fix p assume p: "search_same_stdy i (stdylink s) = Some p"
  have "distinct (map stdy_ino (stdylink s))" using assms(2) by (simp add: o_def)
  from closed_stdy [OF this p] show "wp U E (upd (\<lambda>s. s\<lparr>stdylink := if sf_refcnt p - 1 > 0
      then upd_stdy i (\<lambda>p. p\<lparr>sf_refcnt := sf_refcnt p - 1\<rparr>) (stdylink s) else filter (\<lambda>p. stdy_ino p \<noteq> i) (stdylink s)\<rparr>)) Q s"
    by (simp only: wp_simps) (rule assms(3), simp add: books_def b_sclose_def)
next
  show "U \<or> search_same_stdy i (stdylink s) \<noteq> None" using assms(1) search_stdy by blast
qed

lemma wp_openstdy:
  assumes "E (books s)" "\<And>s'. books s' = books s \<Longrightarrow> Q None s'"
    "\<And>i s'. i \<in> fst ` set (b_stdy (books s)) \<Longrightarrow> books s' = b_sinc i (books s) \<Longrightarrow> Q (Some i) s'"
    "\<And>i s'. i \<notin> fst ` set (b_stdy (books s)) \<Longrightarrow> books s' = b_snew i (books s) \<Longrightarrow> Q (Some i) s'"
  shows "wp True E (openstdy name pw) Q s"
proof -
  have same: "Q (Some i) (s\<lparr>stdylink := upd_stdy i (\<lambda>d. d\<lparr>sf_refcnt := sf_refcnt d + 1\<rparr>) (stdylink s)\<rparr>)"
    if "search_same_stdy i (stdylink s) = Some d" for i d
    using that search_stdy [of i s] by (intro assms(3)) (auto simp: books_def b_sinc_def upd_stdy_def)
  have new: "Q (Some i) (t\<lparr>stdylink := \<lparr>stdy_ino = i, sf_refcnt = 1, sf_header = hdr, sf_stdy = st\<rparr> # stdylink t\<rparr>)"
    if "search_same_stdy i (stdylink s) = None" "books t = books s" for i t hdr st
    using that search_stdy [of i s] by (intro assms(4) [of i]) (simp_all add: books_def b_snew_def)
  have load: "wp True E (open_stdy_file i hdr) Q t" if "books t = books s" "search_same_stdy i (stdylink s) = None" for i hdr t
    unfolding open_stdy_file_def Let_def
    by (intro wp_intros wp_cases wp_if wp_malloc wp_set_errno wp_quiet [OF quiet_fgetfile] wp_need; (rule assms(2))?;
      simp add: that assms(1) new [OF that(2)])
  show ?thesis
    unfolding openstdy_def
    by (intro wp_intros wp_cases wp_if wp_malloc wp_set_errno wp_quiet [OF quiet_fgetfile] wp_need load; (rule assms(2))?; simp add: same assms(1))
qed

end
