(* ===== verification/Sj_Execute_Laws.thy ===== *)
theory Sj_Execute_Laws
  imports Sj_Wp
begin

text \<open>
  The handlers of \<^verbatim>\<open>execute.c\<close> that keep books: each of them takes the server from an
  orderly state to an orderly state, also when it leaves by \<^verbatim>\<open>longjmp\<close>. Those that close
  files and those that lock have no undefined behaviour: they follow no dangling pointer.
\<close>

section \<open>While a client is served\<close>

definition serving :: "ino list \<Rightarrow> ino set \<Rightarrow> nat \<Rightarrow> nat set \<Rightarrow> books \<Rightarrow> bool" where
  "serving L X fd F b \<longleftrightarrow> books_ok L X b \<and> b_cur b = fd \<and> fd \<in> F \<and> ck_fd ` set (b_cli b) = F"

abbreviation idle :: "nat \<Rightarrow> nat set \<Rightarrow> books \<Rightarrow> bool" where
  "idle \<equiv> serving [] {}"

definition keeps :: "bool \<Rightarrow> ('e, 'a) handler \<Rightarrow> bool" where
  "keeps U m \<longleftrightarrow> (\<forall>fd F s. idle fd F (books s) \<longrightarrow> wp U (idle fd F) m (\<lambda>_ s'. idle fd F (books s')) s)"

lemma keepsI: "(\<And>fd F s. idle fd F (books s) \<Longrightarrow> wp U (idle fd F) m (\<lambda>_ s'. idle fd F (books s')) s) \<Longrightarrow> keeps U m"
  by (simp add: keeps_def)

lemma keeps_quiet: "quiet m \<Longrightarrow> keeps True m"
  by (intro keepsI wp_quiet) simp_all

lemma servingD:
  assumes "serving L X fd F b"
  shows "books_ok L X b" "b_cur b = fd" "fd \<in> F" "ck_fd ` set (b_cli b) = F" "b_cur b \<in> ck_fd ` set (b_cli b)"
    "distinct (map dk_id (b_dict b))" "distinct (map fst (b_stdy b))"
  using assms by (simp_all add: serving_def books_ok_def dict_ok_def stdy_ok_def)

lemma cmap_clients: "(\<And>c. ck_fd (h c) = ck_fd c) \<Longrightarrow> ck_fd ` set (b_cli (b_cmap h b)) = ck_fd ` set (b_cli b)"
  using cmap_fds [of h b] by (metis list.set_map)

lemma serving_ops:
  "serving L X fd F b \<Longrightarrow> i \<in> dk_id ` set (b_dict b) \<Longrightarrow> serving (i # L) X fd F (b_inc i b)"
  "serving L X fd F b \<Longrightarrow> i \<notin> dk_id ` set (b_dict b) \<Longrightarrow> serving (i # L) X fd F (b_new i rw b)"
  "serving (i # L) X fd F b \<Longrightarrow> serving L X fd F (b_close i b)"
  "serving L X fd F b \<Longrightarrow> serving L (X - {i}) fd F (b_unlock i fd b)"
  "serving (i # L) X fd F b \<Longrightarrow> serving L X fd F b"
  using ok_inc [of L X b i] ok_new [of L X b i rw] ok_close [of i L X b] ok_unlock [of L X b i] ok_weaken [of i L X b]
  by (auto simp: serving_def b_inc_def b_dmap_def b_new_def b_close_def b_unlock_def)

lemma serving_wmap: "serving L X fd F b \<Longrightarrow> books_ok L' Y (b_wmap w f b) \<Longrightarrow> serving L' Y fd F (b_wmap w f b)"
  by (simp add: serving_def b_wmap_def)

lemma serving_cmap:
  "serving L X fd F b \<Longrightarrow> (\<And>c. ck_fd (h c) = ck_fd c) \<Longrightarrow> books_ok L' Y (b_cmap h b) \<Longrightarrow> serving L' Y fd F (b_cmap h b)"
  using cmap_clients [of h b] by (simp add: serving_def) (simp add: b_cmap_def)

text \<open>The work area of the client.\<close>

lemma cur_workI:
  assumes "serving L X fd F b" "c \<in> set (b_cli b)" "ck_fd c = b_cur b" "ck_work c = Some w"
  obtains k where "cur_work b w k"
proof -
  have "w \<in> fst ` set (b_work b)"
    using books_okD(2) [OF servingD(1) [OF assms(1)]] assms(2,4) by (rule work_okD(3))
  then show ?thesis using that assms unfolding cur_work_def by force
qed

lemma wp_connected:
  assumes "serving L X fd F (books s)" "E (books s)" "\<And>w k. cur_work (books s) w k \<Longrightarrow> Q w s"
  shows "wp U E connected Q s"
  unfolding connected_def
proof (intro wp_intros wp_the_cli)
  show "U \<or> b_cur (books s) \<in> ck_fd ` set (b_cli (books s))" using servingD(5) [OF assms(1)] by simp
  fix c assume c: "ck_of c \<in> set (b_cli (books s))" "cl_fd c = b_cur (books s)"
  show "wp U E (case cl_work c of None \<Rightarrow> fail SJ3_NotConnected | Some w \<Rightarrow> ret w) Q s"
  proof (intro wp_cases wp_intros assms(2))
    fix w assume "cl_work c = Some w"
    then obtain k where "cur_work (books s) w k" using cur_workI [OF assms(1) c(1)] c(2) by auto
    then show "Q w s" by (rule assms(3))
  qed
qed

lemma wp_cur_work:
  assumes "cur_work (books s) w k" "\<And>p. cur_work (books s) w (wk_of p) \<Longrightarrow> Q p s"
  shows "wp U E (the_work w) Q s"
proof (rule wp_the_work)
  show "U \<or> w \<in> fst ` set (b_work (books s))" using assms(1) unfolding cur_work_def by force
  show "Q p s" if "(w, wk_of p) \<in> set (b_work (books s))" for p
    using assms(1) that by (intro assms(2)) (simp add: cur_work_def)
qed

section \<open>Giving up a work area\<close>

lemma held_dict: "books_ok (i # L) X b \<Longrightarrow> i \<in> dk_id ` set (b_dict b)"
proof -
  assume "books_ok (i # L) X b"
  then have "dict_ok (i # L) b" by (rule books_okD)
  moreover have "0 < refs (i # L) b i" by (simp add: refs_def)
  ultimately obtain d where "d \<in> set (b_dict b)" "dk_id d = i" by (rule dict_okD)
  then show ?thesis by blast
qed

lemma wp_close_dictlist:
  "books_ok ds X (b_cmap h (books s)) \<Longrightarrow> X \<subseteq> set ds \<Longrightarrow>
   (\<And>s'. books_ok [] {} (b_cmap h (books s')) \<Longrightarrow> b_cli (books s') = b_cli (books s) \<Longrightarrow> b_cur (books s') = b_cur (books s) \<Longrightarrow> Q () s') \<Longrightarrow>
   wp U E (close_dictlist ds) Q s" for s :: "'e srv"
proof (induction ds arbitrary: X s)
  case Nil
  then show ?case by simp
next
  case (Cons i ds)
  let ?b = "b_cmap h (books s)"
  have held: "i \<in> dk_id ` set (b_dict (books s))" using held_dict [OF Cons.prems(1)] by (simp add: cmap_ops)
  have dist: "distinct (map dk_id (b_dict (books s)))"
    using books_okD(3) [OF Cons.prems(1)] unfolding dict_ok_def cmap_ops by blast
  have ids: "map dk_id (b_dict (b_unlock i fd b)) = map dk_id (b_dict b)" for fd and b :: books
    by (simp add: b_unlock_def b_dmap_def)
  show ?case
    unfolding close_dictlist.simps
  proof (intro wp_intros wp_unlock_dict wp_closedict)
    show "U \<or> i \<in> dk_id ` set (b_dict (books s))" using held ..
    fix s1 :: "'e srv" assume s1: "books s1 = b_unlock i (cur_cli s) (books s)"
    have "dk_id ` set (b_dict (books s1)) = dk_id ` set (b_dict (books s))"
      using ids [of "cur_cli s" "books s"] s1 by (metis list.set_map)
    then show "U \<or> i \<in> dk_id ` set (b_dict (books s1))" using held by simp
    show "distinct (map dk_id (b_dict (books s1)))" using dist ids s1 by simp
    fix s2 :: "'e srv" assume s2: "books s2 = b_close i (books s1)"
    have "b_cmap h (books s2) = b_close i (b_unlock i (b_cur ?b) ?b)" by (simp add: s2 s1 cmap_ops)
    then have "books_ok ds (X - {i}) (b_cmap h (books s2))" using ok_close ok_unlock Cons.prems(1) by metis
    then show "wp U E (close_dictlist ds) Q s2"
    proof (rule Cons.IH)
      have "b_cli (books s2) = b_cli (books s)" "b_cur (books s2) = b_cur (books s)"
        by (simp_all add: s2 s1 b_close_def b_unlock_def b_dmap_def)
      then show "Q () s'" if "books_ok [] {} (b_cmap h (books s'))" "b_cli (books s') = b_cli (books s2)" "b_cur (books s') = b_cur (books s2)" for s'
        using that by (intro Cons.prems(3)) simp_all
    qed (use Cons.prems(2) in auto)
  qed
qed

lemma cmap_cmap: "(\<And>c. ck_fd (g c) = ck_fd c) \<Longrightarrow> b_cmap h (b_cmap g b) = b_cmap (\<lambda>c. h (g c)) b"
  by (simp add: b_cmap_def)

lemma wp_free_workarea:
  fixes s :: "'e srv"
  assumes ok: "books_ok [] {} (b_cmap g (books s))" and w: "cur_work (b_cmap g (books s)) w k" and g: "\<And>c. ck_fd (g c) = ck_fd c"
    and Q: "\<And>s'. books_ok [] {} (b_cmap (\<lambda>c. (g c)\<lparr>ck_work := None\<rparr>) (books s')) \<Longrightarrow> b_cli (books s') = b_cli (books s) \<Longrightarrow>
      b_cur (books s') = b_cur (books s) \<Longrightarrow> Q () s'"
  shows "wp U E (free_workarea w) Q s"
proof -
  let ?b = "b_cmap g (books s)" and ?h = "\<lambda>c. c\<lparr>ck_work := None\<rparr>"
  have work: "b_work ?b = b_work (books s)" by (simp add: b_cmap_def)
  have wk: "(w, k) \<in> set (b_work (books s))" using w work unfolding cur_work_def by metis
  show ?thesis
    unfolding free_workarea_def
  proof (intro wp_intros wp_the_work wp_if)
    show "U \<or> w \<in> fst ` set (b_work (books s))" using wk by force
    fix p assume p: "(w, wk_of p) \<in> set (b_work (books s))"
    have pk: "wk_of p = k" by (rule work_unique [OF books_okD(2) [OF ok]]) (use p wk work in simp_all)
    have "wk_ref (wk_of p) = 1" using work_okD(2) [OF books_okD(2) [OF ok], of w k] wk work pk by metis
    then show "wp U E (upd_work w (\<lambda>p. p\<lparr>wa_refcnt := wa_refcnt p - 1\<rparr>)) Q s" if "wa_refcnt p - 1 \<noteq> 0"
      using that \<open>wk_ref (wk_of p) = 1\<close> by simp
    let ?s = "s\<lparr>worklist := filter (\<lambda>(a, p). a \<noteq> w) (worklist s)\<rparr>"
    have b: "books ?s = b_wdel w (books s)"
      by (auto simp: books_def b_wdel_def filter_map o_def split_beta intro!: arg_cong [where f = "map _"] filter_cong)
    have "b_cmap (\<lambda>c. (g c)\<lparr>ck_work := None\<rparr>) (books ?s) = b_cmap ?h (b_wdel w ?b)"
      unfolding b by (simp add: cmap_ops(3) cmap_cmap [OF g])
    then have "books_ok (Jdictlist p) (set (Jdictlist p)) (b_cmap (\<lambda>c. (g c)\<lparr>ck_work := None\<rparr>) (books ?s))"
      using ok_detach [OF ok w refl] pk by auto
    then show "wp U E (close_dictlist (Jdictlist p)) Q ?s"
    proof (rule wp_close_dictlist [OF _ subset_refl])
      fix s' :: "'e srv" assume "books_ok [] {} (b_cmap (\<lambda>c. (g c)\<lparr>ck_work := None\<rparr>) (books s'))"
        "b_cli (books s') = b_cli (books ?s)" "b_cur (books s') = b_cur (books ?s)"
      then show "Q () s'" unfolding b by (intro Q) (simp_all add: b_wdel_def)
    qed
  qed
qed

section \<open>The handlers\<close>

lemmas wp_input = wp_quiet [OF quiet_get_int] wp_quiet [OF quiet_get_nstring]

lemma wp_alloc_workarea:
  fixes s :: "'e srv"
  assumes "\<And>s'. books s' = books s \<Longrightarrow> Q None s'" "\<And>s'. books s' = b_alloc (books s) \<Longrightarrow> Q (Some (b_next (books s))) s'"
  shows "wp U E (alloc_workarea g) Q s"
  unfolding alloc_workarea_def
proof (intro wp_intros wp_malloc wp_if)
  fix b and s' :: "'e srv" assume b: "books s' = books s"
  show "Q None s'" by (rule assms(1) [OF b])
  have "next_work s' = b_next (books s)" using b by (metis books_sel(5))
  moreover have "books (s'\<lparr>worklist := (next_work s', \<lparr>wa_refcnt = 1, wa_lock = NOTLOCKED, Jdictlist = [], wa_global = g\<rparr>) # worklist s',
      next_work := next_work s' + 1\<rparr>) = b_alloc (books s)"
    unfolding b [symmetric] by (simp add: books_def b_alloc_def wk_of_def)
  ultimately show "Q (Some (next_work s')) (s'\<lparr>worklist := (next_work s', \<lparr>wa_refcnt = 1, wa_lock = NOTLOCKED, Jdictlist = [], wa_global = g\<rparr>) # worklist s',
      next_work := next_work s' + 1\<rparr>)" using assms(2) by metis
qed

lemma serving_connect:
  assumes "idle fd F b" "c \<in> set (b_cli b)" "ck_fd c = b_cur b" "ck_work c = None"
  shows "idle fd F (b_alloc b)" "idle fd F (b_cmap (\<lambda>c. c\<lparr>ck_work := Some (b_next b)\<rparr>) (b_alloc b))"
proof -
  note ok = ok_alloc [OF servingD(1) [OF assms(1)]]
  have cli: "b_cli (b_alloc b) = b_cli b" "b_cur (b_alloc b) = b_cur b" by (simp_all add: b_alloc_def)
  show "idle fd F (b_alloc b)" using ok(1) assms(1) cli by (simp add: serving_def)
  then show "idle fd F (b_cmap (\<lambda>c. c\<lparr>ck_work := Some (b_next b)\<rparr>) (b_alloc b))"
    by (rule serving_cmap) (use ok assms(2-4) cli in \<open>auto simp: b_alloc_def intro!: ok_attach [where c = c]\<close>)
qed

lemma keeps_connect: "keeps True (exec_connect (g :: 'e))"
proof (rule keepsI)
  fix fd F and s :: "'e srv" assume I: "idle fd F (books s)"
  have tail: "wp True (idle fd F) (upd_cli f) (\<lambda>x. wp True (idle fd F) (put_int e) (\<lambda>_ s'. idle fd F (books s'))) t"
    if c: "ck_of c \<in> set (b_cli (books s))" "cl_fd c = b_cur (books s)" "cl_work c = None"
      and t: "books t = b_alloc (books s)" and f: "\<And>c. ck_of (f c) = (ck_of c)\<lparr>ck_work := Some (b_next (books s))\<rparr>"
    for c f e and t :: "'e srv"
    using serving_connect [OF I c(1)] c(2,3) t
    by (intro wp_upd_cli [where h = "\<lambda>c. c\<lparr>ck_work := Some (b_next (books s))\<rparr>", OF f] wp_quiet [OF quiet_put_int]) simp_all
  have fail: "idle fd F (books t)" if "ck_of c \<in> set (b_cli (books s))" "cl_fd c = b_cur (books s)" "cl_work c = None"
    "books t = b_alloc (books s)" for c and t :: "'e srv" using serving_connect [OF I that(1)] that by simp
  show "wp True (idle fd F) (exec_connect g) (\<lambda>_ s'. idle fd F (books s')) s"
    unfolding exec_connect_def
    by (intro wp_intros wp_cases wp_check wp_the_cli wp_input wp_need wp_quiet [OF quiet_basics(8)] wp_quiet [OF quiet_the(5)]
        wp_alloc_workarea tail; (simp add: I ck_of_def del: books_sel; fail)?) (metis fail)+
qed

text \<open>Disconnecting closes the study file and gives up the work area.\<close>

lemma cmap_id: "b_cmap (\<lambda>c. c) b = b"
  by (simp add: b_cmap_def)

lemma clean_put: "U \<or> clean (put_int c)"
  by (simp add: clean_intros)

lemma serving_sclose:
  assumes "serving L X fd F b" "c \<in> set (b_cli b)" "ck_fd c = b_cur b" "ck_stdy c = Some i"
  shows "serving L X fd F (b_cmap (\<lambda>c. c\<lparr>ck_stdy := None\<rparr>) (b_sclose i b))" "i \<in> fst ` set (b_stdy b)"
proof -
  note ok = ok_sclose [OF servingD(1) [OF assms(1)] assms(2-4)]
  have "serving L X fd F (b_cmap (\<lambda>c. c\<lparr>ck_stdy := None\<rparr>) (b_sclose i b))"
    using ok(1) assms(1) cmap_clients [of "\<lambda>c. c\<lparr>ck_stdy := None\<rparr>" b]
    by (simp add: serving_def cmap_sclose) (simp add: b_sclose_def b_cmap_def)
  then show "serving L X fd F (b_cmap (\<lambda>c. c\<lparr>ck_stdy := None\<rparr>) (b_sclose i b))" .
  show "i \<in> fst ` set (b_stdy b)" by (rule ok(2))
qed

lemma wp_drop_stdy:
  fixes s :: "'e srv"
  assumes I: "serving L X fd F (books s)" and c: "ck_of c \<in> set (b_cli (books s))" "cl_fd c = b_cur (books s)" "cl_stdy c = Some i"
    and Q: "\<And>s'. books s' = b_cmap (\<lambda>c. c\<lparr>ck_stdy := None\<rparr>) (b_sclose i (books s)) \<Longrightarrow> Q () s'"
  shows "wp U E (closestdy i) (\<lambda>_. wp U E (upd_cli (\<lambda>c. c\<lparr>cl_stdy := None\<rparr>)) Q) s"
proof (rule wp_closestdy)
  show "U \<or> i \<in> fst ` set (b_stdy (books s))" using serving_sclose(2) [OF I c(1)] c(2,3) by simp
  show "distinct (map fst (b_stdy (books s)))" by (rule servingD(7) [OF I])
  fix s' :: "'e srv" assume s': "books s' = b_sclose i (books s)"
  show "wp U E (upd_cli (\<lambda>c. c\<lparr>cl_stdy := None\<rparr>)) Q s'"
    by (rule wp_upd_cli [where h = "\<lambda>c. c\<lparr>ck_stdy := None\<rparr>"]) (simp_all add: ck_of_def Q s')
qed

lemma keeps_closestdy: "keeps U (exec_closestdy :: ('e, unit) handler)"
proof (rule keepsI)
  fix fd F and s :: "'e srv" assume I: "idle fd F (books s)"
  show "wp U (idle fd F) exec_closestdy (\<lambda>_ s'. idle fd F (books s')) s"
    unfolding exec_closestdy_def
  proof (intro wp_intros wp_the_cli wp_cases)
    show "U \<or> b_cur (books s) \<in> ck_fd ` set (b_cli (books s))" using servingD(5) [OF I] ..
    fix c i assume c: "ck_of c \<in> set (b_cli (books s))" "cl_fd c = b_cur (books s)" "cl_stdy c = Some i"
    have "idle fd F (b_cmap (\<lambda>c. c\<lparr>ck_stdy := None\<rparr>) (b_sclose i (books s)))"
      using serving_sclose(1) [OF I c(1)] c(2,3) by simp
    then show "wp U (idle fd F) (closestdy i) (\<lambda>x. wp U (idle fd F) (bnd (upd_cli (\<lambda>c. c\<lparr>cl_stdy := None\<rparr>))
        (\<lambda>_. put_int SJ3_NormalEnd)) (\<lambda>_ s'. idle fd F (books s'))) s"
      unfolding wp_bnd by (intro wp_drop_stdy [OF I c] wp_quiet [OF quiet_put_int clean_put]) simp_all
  qed (rule I)
qed

lemma keeps_disconnect: "keeps U (exec_disconnect :: ('e, unit) handler)"
proof (rule keepsI)
  fix fd F and s :: "'e srv" assume I: "idle fd F (books s)"
  let ?E = "idle fd F" and ?Q = "\<lambda>(_ :: unit) s'. idle fd F (books s')"
  have work: "wp U ?E (case cl_work c of None \<Rightarrow> fail SJ3_NotConnected | Some w \<Rightarrow> bnd (free_workarea w)
      (\<lambda>_. bnd (upd_cli (\<lambda>c. c\<lparr>cl_work := None\<rparr>)) (\<lambda>_. put_int SJ3_NormalEnd))) ?Q t"
    if J: "idle fd F (books t)" and c: "c' \<in> set (b_cli (books t))" "ck_fd c' = b_cur (books t)" "ck_work c' = cl_work c"
    for c c' and t :: "'e srv"
  proof (intro wp_cases wp_intros)
    fix w assume w: "cl_work c = Some w"
    obtain k where k: "cur_work (books t) w k" using cur_workI [OF J c(1,2)] c(3) w by metis
    show "wp U ?E (free_workarea w) (\<lambda>_. wp U ?E (bnd (upd_cli (\<lambda>c. c\<lparr>cl_work := None\<rparr>)) (\<lambda>_. put_int SJ3_NormalEnd)) ?Q) t"
      unfolding wp_bnd
    proof (rule wp_free_workarea [where g = "\<lambda>c. c" and k = k])
      show "books_ok [] {} (b_cmap (\<lambda>c. c) (books t))" "cur_work (b_cmap (\<lambda>c. c) (books t)) w k"
        using servingD(1) [OF J] k by (simp_all add: cmap_id)
      fix t' :: "'e srv" assume t': "books_ok [] {} (b_cmap (\<lambda>c. c\<lparr>ck_work := None\<rparr>) (books t'))"
        "b_cli (books t') = b_cli (books t)" "b_cur (books t') = b_cur (books t)"
      have "idle fd F (b_cmap (\<lambda>c. c\<lparr>ck_work := None\<rparr>) (books t'))"
        using t' J cmap_clients [of "\<lambda>c. c\<lparr>ck_work := None\<rparr>" "books t'"] by (simp add: serving_def del: books_sel) (simp add: b_cmap_def)
      then show "wp U ?E (upd_cli (\<lambda>c. c\<lparr>cl_work := None\<rparr>)) (\<lambda>_. wp U ?E (put_int SJ3_NormalEnd) ?Q) t'"
        by (intro wp_upd_cli [where h = "\<lambda>c. c\<lparr>ck_work := None\<rparr>"] wp_quiet [OF quiet_put_int clean_put]) (simp_all add: ck_of_def)
    qed simp
  qed (rule J)
  show "wp U ?E exec_disconnect ?Q s"
    unfolding exec_disconnect_def
  proof (intro wp_intros(1) wp_the_cli wp_cases)
    show "U \<or> b_cur (books s) \<in> ck_fd ` set (b_cli (books s))" using servingD(5) [OF I] ..
    fix c assume c: "ck_of c \<in> set (b_cli (books s))" "cl_fd c = b_cur (books s)"
    show "wp U ?E (ret ()) (\<lambda>_. wp U ?E (case cl_work c of None \<Rightarrow> fail SJ3_NotConnected | Some w \<Rightarrow> bnd (free_workarea w)
      (\<lambda>_. bnd (upd_cli (\<lambda>c. c\<lparr>cl_work := None\<rparr>)) (\<lambda>_. put_int SJ3_NormalEnd))) ?Q) s"
      unfolding wp_simps by (rule work [OF I c(1)]) (simp_all add: c(2) del: books_sel)
    fix i assume i: "cl_stdy c = Some i"
    let ?h = "\<lambda>c. c\<lparr>ck_stdy := None\<rparr>"
    have J: "idle fd F (b_cmap ?h (b_sclose i (books s)))" using serving_sclose(1) [OF I c(1)] c(2) i by simp
    have c': "?h (ck_of c) \<in> set (b_cli (b_cmap ?h (b_sclose i (books s))))"
      using cmap_in' [of "ck_of c" "b_sclose i (books s)" ?h] c by (simp add: b_sclose_def)
    show "wp U ?E (closestdy i) (\<lambda>_. wp U ?E (upd_cli (\<lambda>c. c\<lparr>cl_stdy := None\<rparr>)) (\<lambda>_. wp U ?E (case cl_work c of None \<Rightarrow> fail SJ3_NotConnected
      | Some w \<Rightarrow> bnd (free_workarea w) (\<lambda>_. bnd (upd_cli (\<lambda>c. c\<lparr>cl_work := None\<rparr>)) (\<lambda>_. put_int SJ3_NormalEnd))) ?Q)) s"
    proof (rule wp_drop_stdy [OF I c i])
      fix t :: "'e srv" assume t: "books t = b_cmap ?h (b_sclose i (books s))"
      show "wp U ?E (case cl_work c of None \<Rightarrow> fail SJ3_NotConnected | Some w \<Rightarrow> bnd (free_workarea w)
          (\<lambda>_. bnd (upd_cli (\<lambda>c. c\<lparr>cl_work := None\<rparr>)) (\<lambda>_. put_int SJ3_NormalEnd))) ?Q t"
        by (rule work [of t "?h (ck_of c)" c]) (use J c c' t in \<open>simp_all add: b_cmap_def b_sclose_def\<close>)
    qed
  qed
qed

section \<open>Dictionaries of a client\<close>

lemma refs_in_list:
  assumes "(w, k) \<in> set (b_work b)" "i \<in> set (wk_list k)"
  shows "0 < refs L b i"
proof -
  have "count_list (wk_list k) i \<le> works_refs (b_work b) i"
    unfolding works_refs_def using assms(1) by (intro member_le_sum_list; force)
  moreover have "0 < count_list (wk_list k) i" using assms(2) count_list_0_iff [of "wk_list k" i] by auto
  ultimately show ?thesis by (simp add: refs_def)
qed

lemma listed_dict:
  assumes "serving L X fd F b" "cur_work b w k" "i \<in> set (wk_list k)"
  shows "i \<in> dk_id ` set (b_dict b)"
proof -
  have "0 < refs L b i" using assms(2,3) refs_in_list unfolding cur_work_def by blast
  with books_okD(3) [OF servingD(1) [OF assms(1)]] obtain d where "d \<in> set (b_dict b)" "dk_id d = i" by (rule dict_okD)
  then show ?thesis by blast
qed

lemma cur_work_dict: "cur_work (b\<lparr>b_dict := ds\<rparr>) w k = cur_work b w k"
  by (simp add: cur_work_def)

lemma b_dict_ops:
  "b_unlock i fd b = b\<lparr>b_dict := map (\<lambda>d. if dk_id d = i then d\<lparr>dk_lock := dk_lock d - {fd}\<rparr> else d) (b_dict b)\<rparr>"
  "b_lock i fd b = b\<lparr>b_dict := map (\<lambda>d. if dk_id d = i then d\<lparr>dk_lock := insert fd (dk_lock d)\<rparr> else d) (b_dict b)\<rparr>"
  by (simp_all add: b_unlock_def b_lock_def b_dmap_def)

lemma ids_lock:
  "dk_id ` set (b_dict (b_unlock i fd b)) = dk_id ` set (b_dict b)" "dk_id ` set (b_dict (b_lock i fd b)) = dk_id ` set (b_dict b)"
  "map dk_id (b_dict (b_unlock i fd b)) = map dk_id (b_dict b)"
proof -
  have m: "map dk_id (map (\<lambda>d. if dk_id d = i then d\<lparr>dk_lock := g d\<rparr> else d) ds) = map dk_id ds" for g ds by (induction ds) simp_all
  have l: "map dk_id (b_dict (b_lock i fd b)) = map dk_id (b_dict b)"
    using m [of "\<lambda>d. insert fd (dk_lock d)" "b_dict b"] by (simp add: b_dict_ops)
  show u: "map dk_id (b_dict (b_unlock i fd b)) = map dk_id (b_dict b)"
    using m [of "\<lambda>d. dk_lock d - {fd}" "b_dict b"] by (simp add: b_dict_ops)
  show "dk_id ` set (b_dict (b_unlock i fd b)) = dk_id ` set (b_dict b)" using u by (metis list.set_map)
  show "dk_id ` set (b_dict (b_lock i fd b)) = dk_id ` set (b_dict b)" using l by (metis list.set_map)
qed

lemma cur_work_unique: "serving L X fd F b \<Longrightarrow> cur_work b w k \<Longrightarrow> cur_work b w k' \<Longrightarrow> k' = k"
  unfolding cur_work_def using work_unique books_okD(2) servingD(1) by metis

lemma wp_find_dictl:
  assumes "serving L X fd F (books s)" "cur_work (books s) w k" "E (books s)" "\<And>i. i \<in> set (wk_list k) \<Longrightarrow> Q i s"
  shows "wp U E (find_dictl w n e) Q s"
  unfolding find_dictl_def
proof (intro wp_intros wp_cur_work [OF assms(2)] wp_if assms(3,4))
  fix p assume "cur_work (books s) w (wk_of p)" "scast n \<in> set (Jdictlist p)"
  then show "scast n \<in> set (wk_list k)" using cur_work_unique [OF assms(1,2)] by force
qed

lemma wmap_ops: "b_wmap w f (b_close i (b_unlock i fd b)) = b_close i (b_unlock i fd (b_wmap w f b))"
  by (simp add: b_wmap_def b_close_def b_dict_ops)

lemma keeps_closedict: "keeps U (exec_closedict :: ('e, unit) handler)"
proof (rule keepsI)
  fix fd F and s :: "'e srv" assume I: "idle fd F (books s)"
  let ?E = "idle fd F" and ?Q = "\<lambda>(_ :: unit) s'. idle fd F (books s')"
  have tail: "wp U ?E (unlock_dict i (cur_cli t)) (\<lambda>_. wp U ?E (bnd (closedict i) (\<lambda>_. bnd (upd_work w (\<lambda>p. p\<lparr>Jdictlist := remove1 i (Jdictlist p)\<rparr>))
      (\<lambda>_. put_int SJ3_NormalEnd))) ?Q) t"
    if J: "idle fd F (books t)" and w: "cur_work (books t) w k" "i \<in> set (wk_list k)" for w k i and t :: "'e srv"
  proof (intro wp_unlock_dict)
    have dict: "i \<in> dk_id ` set (b_dict (books t))" by (rule listed_dict [OF J w])
    then show "U \<or> i \<in> dk_id ` set (b_dict (books t))" ..
    fix t1 :: "'e srv" assume t1: "books t1 = b_unlock i (cur_cli t) (books t)"
    let ?f = "\<lambda>k. k\<lparr>wk_list := remove1 i (wk_list k)\<rparr>"
    have "books_ok [i] {i} (b_wmap w ?f (books t))" using ok_list_remove [OF servingD(1) [OF J] w] by simp
    then have "serving [i] {i} fd F (b_wmap w ?f (books t))" by (rule serving_wmap [OF J])
    then have end_ok: "idle fd F (b_wmap w ?f (b_close i (b_unlock i fd (books t))))"
      unfolding wmap_ops by (intro serving_ops(3)) (drule serving_ops(4) [where i = i], simp)
    have fd: "cur_cli t = fd" using servingD(2) [OF J] by simp
    show "wp U ?E (bnd (closedict i) (\<lambda>_. bnd (upd_work w (\<lambda>p. p\<lparr>Jdictlist := remove1 i (Jdictlist p)\<rparr>)) (\<lambda>_. put_int SJ3_NormalEnd))) ?Q t1"
      unfolding wp_bnd
    proof (intro wp_closedict wp_upd_work [where g = ?f] wp_quiet [OF quiet_put_int clean_put])
      show "U \<or> i \<in> dk_id ` set (b_dict (books t1))" using dict ids_lock(1) t1 by metis
      show "distinct (map dk_id (b_dict (books t1)))" using servingD(6) [OF J] ids_lock(3) t1 by metis
    qed (use end_ok t1 fd in \<open>simp_all add: wk_of_def\<close>)
  qed
  show "wp U ?E exec_closedict ?Q s"
    unfolding exec_closedict_def
    by (intro wp_intros wp_quiet [OF quiet_get_int] wp_connected [where L = "[]" and X = "{}" and fd = fd and F = F]
        wp_find_dictl [where L = "[]" and X = "{}" and fd = fd and F = F] tail; (simp add: I clean_intros; fail)?; assumption?)
qed

text \<open>Locking and unlocking go through the writable dictionaries of the list.\<close>

lemma lock_work_holds:
  assumes "cur_work b w k"
  shows "i \<in> set (wk_list k) \<Longrightarrow> holds (b_wmap w (\<lambda>k. k\<lparr>wk_lock := int (b_cur b)\<rparr>) b) (b_cur b) i"
  using assms unfolding cur_work_def holds_def by (force simp: b_wmap_def)

lemma dict_unique: "serving L X fd F b \<Longrightarrow> d \<in> set (b_dict b) \<Longrightarrow> d' \<in> set (b_dict b) \<Longrightarrow> dk_id d = dk_id d' \<Longrightarrow> d = d'"
  using servingD(6) by (auto simp: distinct_map inj_on_def)

lemma wp_lock_loop:
  "idle fd F (books s) \<Longrightarrow> (\<forall>i \<in> set ds. holds (books s) fd i \<and> i \<in> dk_id ` set (b_dict (books s))) \<Longrightarrow>
   (\<And>s'. idle fd F (books s') \<Longrightarrow> Q () s') \<Longrightarrow> wp U E (each_writable (\<lambda>i. lock_dict i fd) ds) Q s" for s :: "'e srv"
proof (induction ds arbitrary: s)
  case Nil
  then show ?case by simp
next
  case (Cons i ds)
  have i: "holds (books s) fd i" "i \<in> dk_id ` set (b_dict (books s))" using Cons.prems(2) by simp_all
  show ?case
    unfolding each_writable.simps
  proof (intro wp_intros wp_the_dict wp_if wp_lock_dict)
    show "U \<or> i \<in> dk_id ` set (b_dict (books s))" "U \<or> i \<in> dk_id ` set (b_dict (books s))" using i(2) by simp_all
    show "wp U E (each_writable (\<lambda>i. lock_dict i fd) ds) Q s" using Cons by simp
    fix d and s' :: "'e srv" assume d: "dk_of d \<in> set (b_dict (books s))" "dicid d = i" "maxunit d \<noteq> 0"
      and s': "books s' = b_lock i fd (books s)"
    have "dk_rw d'" if "d' \<in> set (b_dict (books s))" "dk_id d' = i" for d'
      using dict_unique [OF Cons.prems(1) that(1) d(1)] that(2) d(2,3) by simp
    then have "books_ok [] {} (b_lock i fd (books s))" using servingD(1) [OF Cons.prems(1)] i(1) by (intro ok_lock) auto
    then have J: "idle fd F (books s')" using Cons.prems(1) unfolding s' by (simp add: serving_def b_dict_ops)
    show "wp U E (each_writable (\<lambda>i. lock_dict i fd) ds) Q s'"
    proof (rule Cons.IH [OF J])
      show "\<forall>i \<in> set ds. holds (books s') fd i \<and> i \<in> dk_id ` set (b_dict (books s'))"
        using Cons.prems(2) ids_lock(2) [of i fd "books s"] unfolding s' by (simp add: b_dict_ops)
    qed (rule Cons.prems(3))
  qed
qed

lemma keeps_lock: "keeps U (exec_lock :: ('e, unit) handler)"
proof (rule keepsI)
  fix fd F and s :: "'e srv" assume I: "idle fd F (books s)"
  let ?E = "idle fd F" and ?Q = "\<lambda>(_ :: unit) s'. idle fd F (books s')"
  let ?f = "\<lambda>k. k\<lparr>wk_lock := int fd\<rparr>"
  have tail: "wp U ?E (upd_work w (\<lambda>p. p\<lparr>wa_lock := int (cur_cli s)\<rparr>)) (\<lambda>_. wp U ?E (bnd (each_writable (\<lambda>i. lock_dict i (cur_cli s)) (Jdictlist p))
      (\<lambda>_. put_int SJ3_NormalEnd)) ?Q) s" if w: "cur_work (books s) w (wk_of p)" for w p
  proof (rule wp_upd_work [where g = ?f])
    have fd: "cur_cli s = fd" using servingD(2) [OF I] by simp
    show "wk_of (q\<lparr>wa_lock := int (cur_cli s)\<rparr>) = (wk_of q)\<lparr>wk_lock := int fd\<rparr>" for q :: "'e WorkArea" by (simp add: wk_of_def fd)
    fix t :: "'e srv" assume t: "books t = b_wmap w ?f (books s)"
    have "books_ok [] {} (books t)" unfolding t using ok_lock_work [OF servingD(1) [OF I] w] fd by simp
    then have J: "idle fd F (books t)" unfolding t by (rule serving_wmap [OF I])
    have "holds (books t) fd i \<and> i \<in> dk_id ` set (b_dict (books t))" if "i \<in> set (Jdictlist p)" for i
      using lock_work_holds [OF w] listed_dict [OF I w] that unfolding t by (simp add: fd) (simp add: b_wmap_def)
    then show "wp U ?E (bnd (each_writable (\<lambda>i. lock_dict i (cur_cli s)) (Jdictlist p)) (\<lambda>_. put_int SJ3_NormalEnd)) ?Q t"
      unfolding fd wp_bnd using J by (intro wp_lock_loop wp_quiet [OF quiet_put_int clean_put]) auto
  qed
  show "wp U ?E exec_lock ?Q s"
    unfolding exec_lock_def
    by (intro wp_intros wp_check wp_connected [where L = "[]" and X = "{}" and fd = fd and F = F] wp_cur_work tail; (simp add: I; fail)?; assumption?)
qed

lemma lock_skip:
  assumes "serving L X fd F b" "d \<in> set (b_dict b)" "dk_id d = i" "\<not> dk_rw d"
  shows "serving L (X - {i}) fd F b"
proof -
  note D = books_okD [OF servingD(1) [OF assms(1)]]
  have "dlock_ok (X - {i}) b d'" if d': "d' \<in> set (b_dict b)" for d'
  proof -
    have ok: "dlock_ok X b d'" using D(5) d' by (simp add: lock_ok_def)
    have "dk_lock d' = {}" if "dk_id d' = i"
    proof -
      have "d' = d" using dict_unique [OF assms(1) d' assms(2)] that assms(3) by simp
      then show ?thesis using ok assms(4) by (auto simp: dlock_ok_def)
    qed
    then show ?thesis using ok by (auto simp: dlock_ok_def)
  qed
  then have "lock_ok (X - {i}) b" using D(5) by (simp add: lock_ok_def)
  then show ?thesis using assms(1) by (simp add: serving_def books_ok_def)
qed

lemma wp_unlock_loop:
  "serving [] X fd F (books s) \<Longrightarrow> X \<subseteq> set ds \<Longrightarrow> (\<forall>i \<in> set ds. i \<in> dk_id ` set (b_dict (books s))) \<Longrightarrow>
   (\<And>s'. idle fd F (books s') \<Longrightarrow> Q () s') \<Longrightarrow> wp U E (each_writable (\<lambda>i. unlock_dict i fd) ds) Q s" for s :: "'e srv"
proof (induction ds arbitrary: s X)
  case Nil
  then show ?case by simp
next
  case (Cons i ds)
  have i: "i \<in> dk_id ` set (b_dict (books s))" using Cons.prems(3) by simp
  have X: "X - {i} \<subseteq> set ds" using Cons.prems(2) by auto
  show ?case
    unfolding each_writable.simps
  proof (intro wp_intros wp_the_dict wp_if wp_unlock_dict)
    show "U \<or> i \<in> dk_id ` set (b_dict (books s))" "U \<or> i \<in> dk_id ` set (b_dict (books s))" using i by simp_all
    fix d assume d: "dk_of d \<in> set (b_dict (books s))" "dicid d = i"
    show "wp U E (each_writable (\<lambda>i. unlock_dict i fd) ds) Q s" if "maxunit d = 0"
      by (rule Cons.IH [OF lock_skip [OF Cons.prems(1) d(1)] X]) (use d that Cons.prems in simp_all)
    fix s' :: "'e srv" assume s': "books s' = b_unlock i fd (books s)"
    have "serving [] (X - {i}) fd F (books s')" unfolding s' by (rule serving_ops(4) [OF Cons.prems(1)])
    then show "wp U E (each_writable (\<lambda>i. unlock_dict i fd) ds) Q s'"
      by (rule Cons.IH [OF _ X]) (use Cons.prems(3,4) ids_lock(1) [of i fd "books s"] s' in simp_all)
  qed
qed

lemma keeps_unlock: "keeps U (exec_unlock :: ('e, unit) handler)"
proof (rule keepsI)
  fix fd F and s :: "'e srv" assume I: "idle fd F (books s)"
  let ?E = "idle fd F" and ?Q = "\<lambda>(_ :: unit) s'. idle fd F (books s')"
  let ?f = "\<lambda>k. k\<lparr>wk_lock := - 1\<rparr>"
  have tail: "wp U ?E (upd_work w (\<lambda>p. p\<lparr>wa_lock := NOTLOCKED\<rparr>)) (\<lambda>_. wp U ?E (bnd (each_writable (\<lambda>i. unlock_dict i (cur_cli s)) (Jdictlist p))
      (\<lambda>_. put_int SJ3_NormalEnd)) ?Q) s" if w: "cur_work (books s) w (wk_of p)" for w p
  proof (rule wp_upd_work [where g = ?f])
    have fd: "cur_cli s = fd" using servingD(2) [OF I] by simp
    show "wk_of (q\<lparr>wa_lock := NOTLOCKED\<rparr>) = (wk_of q)\<lparr>wk_lock := - 1\<rparr>" for q :: "'e WorkArea" by (simp add: wk_of_def)
    fix t :: "'e srv" assume t: "books t = b_wmap w ?f (books s)"
    have "books_ok [] (set (Jdictlist p)) (books t)" unfolding t using ok_unlock_work [OF servingD(1) [OF I] w] by simp
    then have J: "serving [] (set (Jdictlist p)) fd F (books t)" unfolding t by (rule serving_wmap [OF I])
    have "i \<in> dk_id ` set (b_dict (books t))" if "i \<in> set (Jdictlist p)" for i
      using listed_dict [OF I w] that unfolding t by (simp add: b_wmap_def)
    then show "wp U ?E (bnd (each_writable (\<lambda>i. unlock_dict i (cur_cli s)) (Jdictlist p)) (\<lambda>_. put_int SJ3_NormalEnd)) ?Q t"
      unfolding fd wp_bnd using J by (intro wp_unlock_loop [OF _ subset_refl] wp_quiet [OF quiet_put_int clean_put]) auto
  qed
  show "wp U ?E exec_unlock ?Q s"
    unfolding exec_unlock_def
    by (intro wp_intros wp_check wp_connected [where L = "[]" and X = "{}" and fd = fd and F = F] wp_cur_work tail; (simp add: I; fail)?; assumption?)
qed

section \<open>Opening files\<close>

lemma serving_ids: "serving (i # L) X fd F b \<Longrightarrow> i \<in> dk_id ` set (b_dict b)"
  using held_dict servingD(1) by blast

lemma wp_add_dictl:
  fixes s :: "'e srv"
  assumes I: "serving [i] {} fd F (books s)" and w: "cur_work (books s) w k"
    and E: "\<And>s' :: 'e srv. idle fd F (books s') \<Longrightarrow> E (books s')"
    and Q: "\<And>s' k'. idle fd F (books s') \<Longrightarrow> cur_work (books s') w k' \<Longrightarrow> i \<in> set (wk_list k') \<Longrightarrow> wk_lock k' = wk_lock k \<Longrightarrow> Q () s'"
  shows "wp U E (add_dictl w i) Q s"
  unfolding add_dictl_def
proof (intro wp_intros wp_cur_work [OF w] wp_if wp_malloc)
  fix p assume p: "cur_work (books s) w (wk_of p)"
  have pk: "wk_of p = k" by (rule cur_work_unique [OF I w p])
  show "Q () s" if "i \<in> set (Jdictlist p)"
    using Q [OF serving_ops(5) [OF I] w] that pk by auto
  fix m and s' :: "'e srv" assume s': "books s' = books s"
  show "wp U E (closedict i) (\<lambda>_. wp U E (fail SJ3_NotEnoughMemory) Q) s'"
  proof (intro wp_closedict wp_intros)
    show "U \<or> i \<in> dk_id ` set (b_dict (books s'))" "distinct (map dk_id (b_dict (books s')))"
      using serving_ids [OF I] servingD(6) [OF I] s' by simp_all
    show "E (books t)" if "books t = b_close i (books s')" for t :: "'e srv"
      by (rule E) (use serving_ops(3) [OF I] s' that in simp)
  qed
  show "wp U E (upd_work w (\<lambda>p. p\<lparr>Jdictlist := i # Jdictlist p\<rparr>)) Q s'"
  proof (rule wp_upd_work [where g = "\<lambda>k. k\<lparr>wk_list := i # wk_list k\<rparr>"])
    fix t :: "'e srv" assume t: "books t = b_wmap w (\<lambda>k. k\<lparr>wk_list := i # wk_list k\<rparr>) (books s')"
    have "books_ok [] {} (books t)" unfolding t s' by (rule ok_list_add [OF servingD(1) [OF I] w])
    then have J: "idle fd F (books t)" unfolding t s' by (rule serving_wmap [OF I])
    have "cur_work (books t) w (k\<lparr>wk_list := i # wk_list k\<rparr>)"
      using w unfolding t s' cur_work_def by (force simp: b_wmap_def)
    then show "Q () t" by (rule Q [OF J]) simp_all
  qed (simp add: wk_of_def)
qed

lemma ids_dmap: "(\<And>d. dk_id (f d) = dk_id d) \<Longrightarrow> dk_id ` set (b_dict (b_dmap i f b)) = dk_id ` set (b_dict b)"
proof -
  assume "\<And>d. dk_id (f d) = dk_id d"
  then have "map dk_id (b_dict (b_dmap i f b)) = map dk_id (b_dict b)" using distinct_map_same [of f i "b_dict b"] by (simp add: b_dmap_def)
  then show ?thesis by (metis list.set_map)
qed

lemma wp_copy_dictlist:
  "serving L {} fd F (books s) \<Longrightarrow> (\<forall>i \<in> set ds. i \<in> dk_id ` set (b_dict (books s))) \<Longrightarrow>
   (\<And>s'. serving (rev ds @ L) {} fd F (books s') \<Longrightarrow> b_work (books s') = b_work (books s) \<Longrightarrow> b_cli (books s') = b_cli (books s) \<Longrightarrow> Q () s') \<Longrightarrow>
   wp True E (copy_dictlist ds) Q s" for s :: "'e srv"
proof (induction ds arbitrary: s L)
  case Nil
  then show ?case by simp
next
  case (Cons i ds)
  show ?case
    unfolding copy_dictlist.simps
  proof (intro wp_intros wp_malloc wp_need wp_dmap [where h = "\<lambda>d. d\<lparr>dk_ref := dk_ref d + 1\<rparr>"])
    fix m and s1 s2 :: "'e srv"
    assume s1: "books s1 = books s" and s2: "books s2 = b_dmap i (\<lambda>d. d\<lparr>dk_ref := dk_ref d + 1\<rparr>) (books s1)"
    have b: "books s2 = b_inc i (books s)" using s1 s2 by (simp add: b_inc_def)
    have J: "serving (i # L) {} fd F (books s2)" unfolding b by (rule serving_ops(1) [OF Cons.prems(1)]) (use Cons.prems(2) in simp)
    have ids: "dk_id ` set (b_dict (books s2)) = dk_id ` set (b_dict (books s))"
      unfolding b b_inc_def by (rule ids_dmap) simp
    show "wp True E (copy_dictlist ds) Q s2"
    proof (rule Cons.IH [OF J])
      fix t :: "'e srv" assume "serving (rev ds @ i # L) {} fd F (books t)" "b_work (books t) = b_work (books s2)" "b_cli (books t) = b_cli (books s2)"
      then show "Q () t" by (intro Cons.prems(3)) (simp_all add: b b_inc_def b_dmap_def del: books_sel)
    qed (use Cons.prems(2) ids in simp)
  qed (simp_all add: dk_of_def)
qed

lemma cur_work_wmap: "cur_work b w k \<Longrightarrow> cur_work (b_wmap w f b) w (f k)"
  unfolding cur_work_def by (force simp: b_wmap_def)

lemma global_dicts_open:
  assumes "serving L X fd F (books s)" "global_dicts s = Some ds" "i \<in> set ds"
  shows "i \<in> dk_id ` set (b_dict (books s))"
proof -
  have "0 < refs L (books s) i" using assms(2,3) count_list_0_iff [of ds i] by (auto simp: refs_def)
  with books_okD(3) [OF servingD(1) [OF assms(1)]] obtain d where "d \<in> set (b_dict (books s))" "dk_id d = i" by (rule dict_okD)
  then show ?thesis by blast
qed

lemma cur_work_cong: "b_work b' = b_work b \<Longrightarrow> b_cli b' = b_cli b \<Longrightarrow> b_cur b' = b_cur b \<Longrightarrow> cur_work b' w k = cur_work b w k"
  by (simp add: cur_work_def)

lemma wp_copy_global:
  fixes s :: "'e srv"
  assumes I: "serving [i] {} fd F (books s)" and w: "cur_work (books s) w k" and p: "wk_list k = []" and g: "global_dicts s = Some ds"
    and Q: "\<And>s' k'. serving [i] {} fd F (books s') \<Longrightarrow> cur_work (books s') w k' \<Longrightarrow> wk_lock k' = wk_lock k \<Longrightarrow> Q () s'"
  shows "wp True E (bnd (copy_dictlist ds) (\<lambda>_. upd_work w (\<lambda>p. p\<lparr>Jdictlist := ds\<rparr>))) Q s"
  unfolding wp_bnd
proof (rule wp_copy_dictlist [OF I])
  show "\<forall>i \<in> set ds. i \<in> dk_id ` set (b_dict (books s))" using global_dicts_open [OF I g] by blast
  fix s1 :: "'e srv" assume J: "serving (rev ds @ [i]) {} fd F (books s1)" and same: "b_work (books s1) = b_work (books s)" "b_cli (books s1) = b_cli (books s)"
  let ?f = "\<lambda>k. k\<lparr>wk_list := ds\<rparr>"
  have w1: "cur_work (books s1) w k"
    using w cur_work_cong [of "books s1" "books s", OF same] servingD(2) [OF J] servingD(2) [OF I] by metis
  have "books_ok (ds @ [i]) {} (books s1)"
  proof -
    have "refs (ds @ [i]) (books s1) = refs (rev ds @ [i]) (books s1)" by (simp add: refs_def fun_eq_iff)
    then have "dict_ok (ds @ [i]) (books s1) = dict_ok (rev ds @ [i]) (books s1)" unfolding dict_ok_def by simp
    then show ?thesis using servingD(1) [OF J] by (simp add: books_ok_def)
  qed
  then have ok: "books_ok [i] {} (b_wmap w ?f (books s1))" using w1 p by (rule ok_list_copy)
  show "wp True E (upd_work w (\<lambda>p. p\<lparr>Jdictlist := ds\<rparr>)) Q s1"
  proof (rule wp_upd_work [where g = ?f])
    fix t :: "'e srv" assume t: "books t = b_wmap w ?f (books s1)"
    have K: "serving [i] {} fd F (books t)" unfolding t by (rule serving_wmap [OF J ok])
    have "cur_work (books t) w (?f k)" unfolding t by (rule cur_work_wmap [OF w1])
    then show "Q () t" by (rule Q [OF K]) simp
  qed (simp add: wk_of_def)
qed

lemma holdsI: "cur_work b w k \<Longrightarrow> wk_lock k = int fd \<Longrightarrow> i \<in> set (wk_list k) \<Longrightarrow> holds b fd i"
  unfolding cur_work_def holds_def by blast

lemma wp_lock_new:
  fixes s :: "'e srv"
  assumes I: "idle fd F (books s)" and w: "cur_work (books s) w k" "i \<in> set (wk_list k)" and l: "b \<Longrightarrow> wk_lock k = int fd"
    and d: "dk_of d \<in> set (b_dict (books s))" "dicid d = i" "b \<Longrightarrow> maxunit d \<noteq> 0" and Q: "\<And>s'. idle fd F (books s') \<Longrightarrow> Q () s'"
  shows "wp U E (if b then lock_dict i fd else ret ()) Q s"
proof (intro wp_if wp_lock_dict wp_intros Q I)
  show "U \<or> i \<in> dk_id ` set (b_dict (books s))" using listed_dict [OF I w] ..
  fix s' :: "'e srv" assume b and s': "books s' = b_lock i fd (books s)"
  have "dk_rw d'" if "d' \<in> set (b_dict (books s))" "dk_id d' = i" for d'
    using dict_unique [OF I that(1) d(1)] that(2) d(2,3) \<open>b\<close> by simp
  then have "books_ok [] {} (b_lock i fd (books s))"
    using servingD(1) [OF I] holdsI [OF w(1) l w(2)] \<open>b\<close> by (intro ok_lock) auto
  then show "idle fd F (books s')" using I unfolding s' by (simp add: serving_def b_dict_ops)
qed

lemma keeps_opendict: "keeps True (exec_opendict :: ('e, unit) handler)"
proof (rule keepsI)
  fix fd F and s :: "'e srv" assume I: "idle fd F (books s)"
  let ?E = "idle fd F" and ?Q = "\<lambda>(_ :: unit) s'. idle fd F (books s')"
  let ?add = "\<lambda>w i p. bnd (add_dictl w i) (\<lambda>_. bnd (gets cur_cli) (\<lambda>fd. bnd (the_dict i) (\<lambda>d.
     bnd (if wa_lock p = int fd \<and> maxunit d \<noteq> 0 then lock_dict i fd else ret ()) (\<lambda>_.
     bnd (put_int SJ3_NormalEnd) (\<lambda>_. put_int (ucast (dicid d))))))) :: ('e, unit) handler"
  have add: "wp True ?E (?add w i p) ?Q t"
    if J: "serving [i] {} fd F (books t)" and w: "cur_work (books t) w k" "wk_lock k = wa_lock p" for w i p k and t :: "'e srv"
    unfolding wp_bnd
  proof (rule wp_add_dictl [OF J w(1)])
    fix t1 :: "'e srv" and k' assume J1: "idle fd F (books t1)" and w1: "cur_work (books t1) w k'" "i \<in> set (wk_list k')" "wk_lock k' = wk_lock k"
    have fd: "cur_cli t1 = fd" using servingD(2) [OF J1] by simp
    show "wp True ?E (gets cur_cli) (\<lambda>fd'. wp True ?E (the_dict i) (\<lambda>d. wp True ?E
        (if wa_lock p = int fd' \<and> maxunit d \<noteq> 0 then lock_dict i fd' else ret ()) (\<lambda>_. wp True ?E (put_int SJ3_NormalEnd)
        (\<lambda>_. wp True ?E (put_int (ucast (dicid d))) ?Q)))) t1"
      unfolding wp_simps fd
      by (intro wp_the_dict wp_lock_new [OF J1 w1(1,2)] wp_quiet [OF quiet_put_int clean_put]) (use w1(3) w(2) in auto)
  qed
  have list: "wp True ?E (bnd (case (Jdictlist p, g) of ([], Some ds) \<Rightarrow> bnd (copy_dictlist ds) (\<lambda>_. upd_work w (\<lambda>p. p\<lparr>Jdictlist := ds\<rparr>))
      | _ \<Rightarrow> ret ()) (\<lambda>_. ?add w i p)) ?Q t"
    if J: "serving [i] {} fd F (books t)" and w: "cur_work (books t) w (wk_of p)" and g: "g = global_dicts t" for w i p g and t :: "'e srv"
  proof (cases "Jdictlist p = [] \<and> g \<noteq> None")
    case True
    then obtain ds where ds: "Jdictlist p = []" "g = Some ds" by blast
    have "wp True ?E (bnd (copy_dictlist ds) (\<lambda>_. upd_work w (\<lambda>p. p\<lparr>Jdictlist := ds\<rparr>))) (\<lambda>_. wp True ?E (?add w i p) ?Q) t"
      by (rule wp_copy_global [OF J w]) (use ds g add in \<open>auto intro: add\<close>)
    then show ?thesis unfolding ds by (simp only: wp_bnd prod.case list.case option.case)
  next
    case False
    then have "(case (Jdictlist p, g) of ([], Some ds) \<Rightarrow> bnd (copy_dictlist ds) (\<lambda>_. upd_work w (\<lambda>p. p\<lparr>Jdictlist := ds\<rparr>)) | _ \<Rightarrow> ret ())
      = (ret () :: ('e, unit) handler)" by (auto split: list.splits option.splits)
    then show ?thesis by (simp only: sm_simps(1)) (rule add [OF J w], simp)
  qed
  have rest: "wp True ?E (the_work w) (\<lambda>p. wp True ?E (bnd (gets global_dicts) (\<lambda>g. bnd (case (Jdictlist p, g) of
        ([], Some ds) \<Rightarrow> bnd (copy_dictlist ds) (\<lambda>_. upd_work w (\<lambda>p. p\<lparr>Jdictlist := ds\<rparr>)) | _ \<Rightarrow> ret ()) (\<lambda>_. ?add w i p))) ?Q) t"
    if J: "serving [i] {} fd F (books t)" and w: "\<exists>k. cur_work (books t) w k" for w i and t :: "'e srv"
    proof -
    from w obtain k where "cur_work (books t) w k" ..
    then show ?thesis unfolding wp_bnd [of _ _ "gets global_dicts"] wp_simps by (intro wp_cur_work list [OF J] refl)
  qed
  have opened: "serving [i] {} fd F (books t)" "cur_work (books t) w k"
    if "i \<in> dk_id ` set (b_dict (books s)) \<and> books t = b_inc i (books s) \<or> i \<notin> dk_id ` set (b_dict (books s)) \<and> books t = b_new i rw (books s)"
      "cur_work (books s) w k" for i rw w k and t :: "'e srv"
    using that serving_ops(1,2) [OF I] by (auto simp: b_inc_def b_dmap_def b_new_def cur_work_def simp del: books_sel)
  show "wp True ?E exec_opendict ?Q s"
    unfolding exec_opendict_def
    by (intro wp_intros(1,3) wp_cases wp_input wp_quiet [OF quiet_basics(2)] wp_quiet [OF quiet_basics(3)] wp_connected [where L = "[]" and X = "{}" and fd = fd and F = F]
        wp_opendict; (simp add: I; fail)?) (rule rest; metis opened option.inject)+
qed

lemma keeps_openstdy: "keeps True (exec_openstdy :: ('e, unit) handler)"
proof (rule keepsI)
  fix fd F and s :: "'e srv" assume I: "idle fd F (books s)"
  let ?E = "idle fd F" and ?Q = "\<lambda>(_ :: unit) s'. idle fd F (books s')"
  have tail: "wp True ?E (upd_cli (\<lambda>c. c\<lparr>cl_stdy := Some i\<rparr>)) (\<lambda>_. wp True ?E (put_int SJ3_NormalEnd) ?Q) t"
    if c: "\<exists>c. ck_of c \<in> set (b_cli (books s)) \<and> cl_fd c = b_cur (books s)"
      and t: "i \<in> fst ` set (b_stdy (books s)) \<and> books t = b_sinc i (books s) \<or> i \<notin> fst ` set (b_stdy (books s)) \<and> books t = b_snew i (books s)"
    for i and t :: "'e srv"
  proof (rule wp_upd_cli [where h = "\<lambda>c. c\<lparr>ck_stdy := Some i\<rparr>"])
    from c obtain c where c: "ck_of c \<in> set (b_cli (books s))" "cl_fd c = b_cur (books s)" by blast
    fix t' :: "'e srv" assume t': "books t' = b_cmap (\<lambda>c. c\<lparr>ck_stdy := Some i\<rparr>) (books t)"
    have "books_ok [] {} (books t')" using t ok_sopen [OF servingD(1) [OF I] c(1)] c(2) unfolding t' by (elim disjE conjE) (simp_all del: books_sel)
    moreover have "b_cur (books t) = b_cur (books s)" "b_cli (books t) = b_cli (books s)" using t by (auto simp: b_sinc_def b_snew_def simp del: books_sel)
    ultimately have "idle fd F (books t')"
      using I cmap_clients [of "\<lambda>c. c\<lparr>ck_stdy := Some i\<rparr>" "books t"] unfolding t' by (simp add: serving_def del: books_sel) (simp add: b_cmap_def)
    then show "wp True ?E (put_int SJ3_NormalEnd) ?Q t'" by (intro wp_quiet [OF quiet_put_int clean_put]) simp_all
  qed (simp add: ck_of_def)
  show "wp True ?E exec_openstdy ?Q s"
    unfolding exec_openstdy_def
    by (intro wp_intros(1,3) wp_cases wp_check wp_the_cli wp_input wp_quiet [OF quiet_basics(2)] wp_quiet [OF quiet_basics(3)] wp_openstdy;
      (simp add: I; fail)?) (rule tail; metis option.inject)+
qed

end
