(* ===== verification/Sj_Server_Laws.thy ===== *)
theory Sj_Server_Laws
  imports Sj_Execute_Laws
begin

text \<open>
  The server as a state machine: requests of its clients, new and lost connections, and a
  network and an operating system that do what they like. The invariant of \<^verbatim>\<open>Sj_Books\<close>
  holds in every state it can reach.
\<close>

section \<open>Commands\<close>

lemma wp_cong_run: "m s = m' s' \<Longrightarrow> wp U E m Q s = wp U E m' Q s'"
  by (simp add: wp_def)

lemma keeps_exit: "keeps True (exec_kill :: ('e, unit) handler)" "keeps True (exec_quit :: ('e, unit) handler)"
proof -
  have exit: "wp True E server_terminate Q s" for E Q and s :: "'e srv"
    unfolding server_terminate_def wp_bnd wp_simps by (simp add: wp_def jump_def)
  have kill: "wp True (idle fd F) exec_kill Q s" if "idle fd F (books s)" for fd F Q and s :: "'e srv"
    unfolding exec_kill_def by (intro wp_intros wp_quiet [OF quiet_put_int] wp_quiet [OF quiet_put_flush] exit; simp add: that)
  show "keeps True (exec_kill :: ('e, unit) handler)" by (intro keepsI kill)
  show "keeps True (exec_quit :: ('e, unit) handler)"
    unfolding exec_quit_def by (intro keepsI wp_intros wp_check kill) simp_all
qed

lemma keeps_if: "keeps U m \<Longrightarrow> keeps U m' \<Longrightarrow> keeps U (if b then m else m')"
  by simp

lemma keeps_dispatch: "keeps True (dispatch eng i :: ('e, unit) handler)"
  unfolding dispatch_def
  by (intro keeps_if keeps_connect keeps_disconnect keeps_opendict keeps_closedict keeps_openstdy keeps_closestdy keeps_lock keeps_unlock
    keeps_exit keeps_quiet quiet_intros)

lemma keeps_execute: "keeps True (execute_cmd eng :: ('e, unit) handler)"
proof (rule keepsI)
  fix fd F and s :: "'e srv" assume I: "idle fd F (books s)"
  let ?Q = "\<lambda>(_ :: unit) s'. idle fd F (books s')" and ?m = "bnd get_int (dispatch eng)"
  have "wp True (idle fd F) ?m ?Q s"
    using I keeps_dispatch [of eng] unfolding keeps_def by (intro wp_intros wp_quiet [OF quiet_get_int]) simp_all
  then have "wp True (idle fd F) (catch_error ?m) ?Q s"
  proof -
    assume m: "wp True (idle fd F) ?m ?Q s"
    obtain r s' where r: "?m s = (r, s')" by fastforce
    have "wp True (idle fd F) (put_int e) ?Q s'" if "idle fd F (books s')" for e
      using that by (intro wp_quiet [OF quiet_put_int]) simp_all
    then have "wp True (idle fd F) (catch_error ?m) ?Q s" if "r = Inl (Error_ret e)" for e
      using m r that wp_cong_run [of "catch_error ?m" s "put_int (if e = 0 then 1 else e)" s'] by (simp add: catch_error_def wp_def [of _ _ ?m])
    moreover have "catch_error ?m s = ?m s" if "\<And>e. r \<noteq> Inl (Error_ret e)"
      using that r by (auto simp: catch_error_def split: sum.splits jump.splits)
    ultimately show ?thesis using m wp_cong_run [of "catch_error ?m" s ?m s] by metis
  qed
  then show "wp True (idle fd F) (execute_cmd eng) ?Q s"
    unfolding execute_cmd_def
    by (intro wp_intros, elim wp_mono) (intro wp_quiet [OF quiet_put_flush], simp_all)
qed

text \<open>No \<^verbatim>\<open>longjmp\<close> to \<^verbatim>\<open>error_ret\<close> leaves \<^verbatim>\<open>execute_cmd\<close>.\<close>

definition polite :: "('e, 'a) handler \<Rightarrow> bool" where
  "polite m \<longleftrightarrow> (\<forall>s e. fst (m s) \<noteq> Inl (Error_ret e))"

lemma polite_bnd: "polite m \<Longrightarrow> (\<And>x. polite (f x)) \<Longrightarrow> polite (bnd m f)"
  unfolding polite_def bnd_def by (auto split: prod.splits sum.splits) (metis fst_conv)

lemma polite_put: "polite (put_flush :: ('e, unit) handler)" "polite (put_int c :: ('e, unit) handler)"
proof -
  have "fst (put_flush_loop p s) \<noteq> Inl (Error_ret e)" for p e and s :: "'e srv"
  proof (induction p s rule: put_flush_loop.induct)
    case (1 p s)
    obtain i ws where w: "sys_write (length p) (s_wq s) = (i, ws)" by fastforce
    then show ?case using "1.IH" [OF _ refl w [symmetric]] by (subst put_flush_loop.simps) (auto simp: Let_def)
  qed
  then show f: "polite (put_flush :: ('e, unit) handler)" by (simp add: polite_def put_flush_def)
  have "polite (put_byte c :: ('e, unit) handler)" for c
    unfolding put_byte_def by (intro polite_bnd) (auto simp: polite_def upd_def gets_def ret_def f [unfolded polite_def])
  then show "polite (put_int c :: ('e, unit) handler)"
    unfolding put_int_def block.simps by (intro polite_bnd) (auto simp: polite_def ret_def)
qed

lemma polite_execute: "polite (execute_cmd eng :: ('e, unit) handler)"
proof -
  have "polite (catch_error m :: ('e, unit) handler)" for m
    using polite_put(2) unfolding polite_def catch_error_def by (auto split: prod.splits sum.splits jump.splits)
  then show ?thesis unfolding execute_cmd_def by (intro polite_bnd polite_put)
qed

section \<open>Serving and dropping a client\<close>

definition orderly :: "'e srv \<Rightarrow> bool" where
  "orderly s \<longleftrightarrow> books_ok [] {} (books s)"

lemma orderly_idle: "idle fd F (books s) \<Longrightarrow> orderly s"
  unfolding orderly_def by (rule servingD)

lemma wp_disconnect_client:
  fixes s :: "'e srv"
  assumes I: "idle fd F (books s)"
  shows "wp U E (disconnect_client fd) (\<lambda>_ s'. orderly s' \<and> cl_fd ` set (clients s') = F - {fd}) s"
proof -
  let ?Q = "\<lambda>(_ :: unit) (s' :: 'e srv). orderly s' \<and> cl_fd ` set (clients s') = F - {fd}"
  let ?drop = "upd (\<lambda>s. s\<lparr>clients := filter (\<lambda>c. cl_fd c \<noteq> fd) (clients s), client_num := client_num s - 1,
                srv_fds := clr_fd fd (srv_fds s)\<rparr>) :: ('e, unit) handler"
  have fd: "b_cur (books s) = fd" "fd \<in> F" "ck_fd ` set (b_cli (books s)) = F" by (rule servingD [OF I])+
  have drop: "wp U E ?drop ?Q t" if h: "\<And>c. ck_fd (h c) = ck_fd c" "\<And>c. ck_fd c = fd \<Longrightarrow> c \<in> set (b_cli (books s)) \<Longrightarrow> ck_work (h c) = None"
    and ok: "books_ok [] {} (b_cmap h (books t))" and cli: "b_cli (books t) = b_cli (books s)" "b_cur (books t) = b_cur (books s)"
    for h and t :: "'e srv"
  proof -
    let ?t = "t\<lparr>clients := filter (\<lambda>c. cl_fd c \<noteq> fd) (clients t), client_num := client_num t - 1, srv_fds := clr_fd fd (srv_fds t)\<rparr>"
    have b: "books ?t = b_drop fd (books t)" by (simp add: books_def b_drop_def filter_map o_def)
    obtain c where c: "c \<in> set (b_cli (books s))" "ck_fd c = fd" using fd(2,3) by blast
    have "h c \<in> set (b_cli (b_cmap h (books t)))"
      using cmap_in' [of c "books t" h] c cli fd(1) by (simp del: books_sel)
    from ok_drop [OF ok this h(2) [OF c(2,1)]] have "books_ok [] {} (b_drop fd (b_cmap h (books t)))" using h(1) c(2) by simp
    then have "books_ok [] {} (books ?t)" using drop_cmap [of h "books t", OF h(1)] cli(2) fd(1) b by metis
    moreover have "cl_fd ` set (clients t) = ck_fd ` set (b_cli (books t))" by (simp add: image_image)
    then have "cl_fd ` set (clients t) = F" unfolding cli(1) fd(3) .
    then have "cl_fd ` set (clients ?t) = F - {fd}" by auto
    ultimately show ?thesis by (simp add: orderly_def)
  qed
  have free: "wp U E (case cl_work c of None \<Rightarrow> ret () | Some w \<Rightarrow> free_workarea w) (\<lambda>_. wp U E ?drop ?Q) t"
    if c: "ck_of c \<in> set (b_cli (books s))" "cl_fd c = fd" and g: "\<And>c. ck_fd (g c) = ck_fd c" "\<And>c. ck_work (g c) = ck_work c"
      and ok: "books_ok [] {} (b_cmap g (books t))" and cli: "b_cli (books t) = b_cli (books s)" "b_cur (books t) = b_cur (books s)"
    for c g and t :: "'e srv"
  proof (intro wp_cases wp_intros(2))
    have u: "c' = ck_of c" if "ck_fd c' = fd" "c' \<in> set (b_cli (books s))" for c'
      using cur_unique [OF books_okD(1) [OF servingD(1) [OF I]] that(2) c(1)] that(1) c(2) by simp
    show "wp U E ?drop ?Q t" if "cl_work c = None" by (rule drop [of g, OF g(1) _ ok cli]) (use u that g(2) in force)
    fix w assume w: "cl_work c = Some w"
    have m: "g (ck_of c) \<in> set (b_cli (b_cmap g (books t)))" using cmap_in' [of "ck_of c" "books t" g] c cli fd(1) by (simp del: books_sel)
    have "w \<in> fst ` set (b_work (b_cmap g (books t)))" by (rule work_okD(3) [OF books_okD(2) [OF ok] m]) (simp add: g w)
    then obtain k where "(w, k) \<in> set (b_work (b_cmap g (books t)))" by force
    moreover have "ck_fd (g (ck_of c)) = b_cur (b_cmap g (books t))" using g(1) c(2) cli(2) fd(1) by (simp add: cmap_ops(4))
    ultimately have k: "cur_work (b_cmap g (books t)) w k" unfolding cur_work_def using m g(2) w by (intro conjI bexI [OF _ m]) simp_all
    show "wp U E (free_workarea w) (\<lambda>_. wp U E ?drop ?Q) t"
    proof (rule wp_free_workarea [OF ok k g(1)])
      fix t' :: "'e srv" assume "books_ok [] {} (b_cmap (\<lambda>c. (g c)\<lparr>ck_work := None\<rparr>) (books t'))"
        "b_cli (books t') = b_cli (books t)" "b_cur (books t') = b_cur (books t)"
      then show "wp U E ?drop ?Q t'" using cli by (intro drop [of "\<lambda>c. (g c)\<lparr>ck_work := None\<rparr>"]) (simp_all add: g)
    qed
  qed
  show ?thesis
    unfolding disconnect_client_def
  proof (intro wp_intros(1,3) wp_need wp_cases)
    have ne: "find (\<lambda>c. cl_fd c = fd) (clients s) \<noteq> None" using fd(2,3) by (auto simp: find_None_iff)
    then show "U \<or> find (\<lambda>c. cl_fd c = fd) (clients s) \<noteq> None" ..
    fix c assume "find (\<lambda>c. cl_fd c = fd) (clients s) = Some c"
    then have c: "ck_of c \<in> set (b_cli (books s))" "cl_fd c = fd" by (auto simp: find_Some_iff)
    let ?rest = "bnd (case cl_work c of None \<Rightarrow> ret () | Some w \<Rightarrow> free_workarea w) (\<lambda>_. ?drop)"
    show "wp U E (ret ()) (\<lambda>_. wp U E ?rest ?Q) s"
      unfolding wp_simps(1) wp_bnd by (rule free [OF c, of "\<lambda>c. c"]) (simp_all add: cmap_id servingD(1) [OF I] del: books_sel)
    fix i assume i: "cl_stdy c = Some i"
    have c': "ck_fd (ck_of c) = b_cur (books s)" "ck_stdy (ck_of c) = Some i" using c(2) fd(1) i by simp_all
    show "wp U E (closestdy i) (\<lambda>_. wp U E ?rest ?Q) s"
    proof (rule wp_closestdy)
      show "U \<or> i \<in> fst ` set (b_stdy (books s))" using serving_sclose(2) [OF I c(1) c'] ..
      show "distinct (map fst (b_stdy (books s)))" by (rule servingD(7) [OF I])
      fix t :: "'e srv" assume t: "books t = b_sclose i (books s)"
      have ok: "books_ok [] {} (b_cmap (\<lambda>c. c\<lparr>ck_stdy := None\<rparr>) (books t))"
        unfolding t by (rule servingD(1) [OF serving_sclose(1) [OF I c(1) c']])
      show "wp U E ?rest ?Q t" unfolding wp_bnd by (rule free [OF c _ _ ok]) (simp_all add: t b_sclose_def)
    qed
  qed
qed

text \<open>
  One request: the server goes on with an orderly state, or the process ends, by
  \<^verbatim>\<open>exit\<close>, in a loop, or by undefined behaviour. The client may be gone.
\<close>

definition client_fds :: "'e srv \<Rightarrow> nat set" where
  "client_fds s = cl_fd ` set (clients s)"

definition ended :: "jump + unit \<Rightarrow> bool" where
  "ended r \<longleftrightarrow> r = Inl Exit \<or> r = Inl Ub \<or> r = Inl Hang"

lemma load_idle:
  assumes "orderly s" "fd \<in> client_fds s"
  shows "idle fd (client_fds s) (books (load_conn fd s))"
proof -
  have b: "books (load_conn fd s) = (books s)\<lparr>b_cur := fd\<rparr>" by (simp add: books_def load_conn_def)
  have "ck_fd ` set (b_cli (books s)) = client_fds s" by (simp add: client_fds_def image_image)
  then show ?thesis using assms unfolding b serving_def by (simp add: orderly_def ok_cur)
qed

lemma books_store: "books (store_conn fd s) = books s"
  by (simp add: store_conn_def)

lemma client_fds_books: "client_fds s = ck_fd ` set (b_cli (books s))"
  by (simp add: client_fds_def image_image)

lemma orderly_store: "orderly (store_conn fd s) = orderly s" "client_fds (store_conn fd s) = client_fds s"
  by (simp_all only: orderly_def client_fds_books books_store)

lemma serve_orderly:
  assumes "orderly s" "fd \<in> client_fds s" "serve eng fd s = (r, s')"
  shows "ended r \<or> r = Inr () \<and> orderly s' \<and> (client_fds s' = client_fds s \<or> client_fds s' = client_fds s - {fd})"
proof -
  let ?F = "client_fds s" and ?s = "load_conn fd s"
  obtain q t where q: "execute_cmd eng ?s = (q, t)" by fastforce
  have "wp True (idle fd ?F) (execute_cmd eng) (\<lambda>_ s'. idle fd ?F (books s')) ?s"
    using keeps_execute load_idle [OF assms(1,2)] unfolding keeps_def by blast
  then have w: "case q of Inr x \<Rightarrow> idle fd ?F (books t) | Inl e \<Rightarrow> (case e of Client_dead \<Rightarrow> idle fd ?F (books t) | _ \<Rightarrow> True)"
    using q by (cases q) (simp_all add: wp_def split: jump.splits)
  have np: "q \<noteq> Inl (Error_ret e)" for e using polite_execute [of eng] q unfolding polite_def by (metis fst_conv)
  show ?thesis
  proof (cases "q = Inl Client_dead")
    case True
    let ?t = "store_conn fd t"
    have "idle fd ?F (books ?t)" using w True by (simp add: books_store)
    then have "wp False (\<lambda>_. False) (disconnect_client fd) (\<lambda>_ s'. orderly s' \<and> cl_fd ` set (clients s') = ?F - {fd}) ?t"
      by (rule wp_disconnect_client)
    moreover have "disconnect_client fd ?t = (r, s')" using q True assms(3) by (simp add: serve_def)
    ultimately have "case r of Inr x \<Rightarrow> orderly s' \<and> cl_fd ` set (clients s') = ?F - {fd}
        | Inl e \<Rightarrow> (case e of Ub \<Rightarrow> False | Hang \<Rightarrow> False | Exit \<Rightarrow> False | _ \<Rightarrow> False)"
      by (simp add: wp_def)
    then show ?thesis by (cases r) (auto simp: ended_def client_fds_def split: jump.splits)
  next
    case False
    then have r: "r = q" "s' = store_conn fd t" using assms(3) q by (simp_all add: serve_def split: sum.splits jump.splits)
    show ?thesis
    proof (cases q)
      case (Inl e)
      then show ?thesis using False np r by (cases e) (simp_all add: ended_def)
    next
      case (Inr u)
      then have "idle fd ?F (books t)" using w by simp
      then have "orderly t" "client_fds t = ?F" unfolding client_fds_books by (rule orderly_idle, rule servingD(4))
      then show ?thesis using r Inr by (simp add: orderly_store)
    qed
  qed
qed

text \<open>A new connection has a descriptor that is not in use.\<close>

lemma connect_orderly:
  fixes s :: "'e srv"
  assumes "orderly s" "\<And>fd cn. acc = Some (fd, cn) \<Longrightarrow> fd \<notin> fds_org (srv_fds s)" "connect_client acc s = (Inr (), s')"
  shows "orderly s'"
proof -
  have "wp False (\<lambda>_. False) (connect_client acc) (\<lambda>_. orderly) s"
    unfolding connect_client_def
  proof (intro wp_cases wp_intros wp_if wp_malloc assms(1))
    fix x fd cn m and t :: "'e srv"
    assume x: "acc = Some x" "x = (fd, cn)" and n: "\<not> (MAXCLIENTNUM \<le> client_num s \<or> max_client (srv_conf s) \<le> client_num s)" and t: "books t = books s"
    show "orderly t" using t assms(1) by (simp add: orderly_def)
    have "books (t\<lparr>clients := new_client fd # clients t, client_num := client_num t + 1, srv_fds := set_fd fd (srv_fds t),
        conns := (conns t)(fd := cn)\<rparr>) = b_accept fd (books t)"
      by (simp add: books_def b_accept_def ck_of_def new_client_def)
    then show "orderly (t\<lparr>clients := new_client fd # clients t, client_num := client_num t + 1, srv_fds := set_fd fd (srv_fds t),
        conns := (conns t)(fd := cn)\<rparr>)"
      using assms(1,2) x n t by (simp add: orderly_def ok_accept)
  qed
  then show ?thesis using assms(3) by (simp add: wp_def)
qed

section \<open>The state machine\<close>

text \<open>
  The steps of the server: a command of a client, a new connection, and anything that
  happens outside: the network, the answers of the operating system, allocations and
  writes that fail.
\<close>

inductive srv_step :: "'e engine \<Rightarrow> 'e srv \<Rightarrow> 'e srv \<Rightarrow> bool" for eng :: "'e engine" where
  command: "fd \<in> client_fds s \<Longrightarrow> serve eng fd s = (Inr (), s') \<Longrightarrow> srv_step eng s s'"
| accept: "(\<And>fd cn. acc = Some (fd, cn) \<Longrightarrow> fd \<notin> fds_org (srv_fds s)) \<Longrightarrow> connect_client acc s = (Inr (), s') \<Longrightarrow> srv_step eng s s'"
| outside: "srv_step eng s (s\<lparr>conns := c, srv_conf := cf, fs_name := f, fs_malloc_ok := m, fs_write_ok := w\<rparr>)"

text \<open>The state \<^verbatim>\<open>main\<close> enters the loop with.\<close>

definition fresh_server :: "'e srv \<Rightarrow> bool" where
  "fresh_server s \<longleftrightarrow> worklist s = [] \<and> clients s = [] \<and> client_num s = 0 \<and> global_dicts s = None \<and> dictlink s = [] \<and> stdylink s = []
     \<and> srv_fds s = set_fd (fd_unix s) socket_init"

definition startup :: "(cbuf \<times> cbuf) list \<Rightarrow> (cbuf \<times> cbuf) list \<Rightarrow> ('e, unit) handler" where
  "startup pre glob = bnd (preload_dict pre) (\<lambda>_. preopen_dict glob)"

inductive reachable :: "'e engine \<Rightarrow> 'e srv \<Rightarrow> bool" for eng :: "'e engine" where
  start: "fresh_server s \<Longrightarrow> startup pre glob s = (Inr (), s') \<Longrightarrow> reachable eng s'"
| step: "reachable eng s \<Longrightarrow> srv_step eng s s' \<Longrightarrow> reachable eng s'"

lemma step_orderly: "srv_step eng s s' \<Longrightarrow> orderly s \<Longrightarrow> orderly s'"
proof (induction rule: srv_step.induct)
  case (command fd s s')
  then show ?case using serve_orderly [of s fd eng "Inr ()" s'] by (auto simp: ended_def)
next
  case (accept acc s s')
  then show ?case using connect_orderly [of s acc s'] by blast
next
  case (outside s c cf f m w)
  then show ?case by (simp add: orderly_def books_def)
qed

section \<open>Starting\<close>

lemma books_ok_open:
  "books_ok L X b \<Longrightarrow> i \<in> dk_id ` set (b_dict b) \<Longrightarrow> books_ok (i # L) X (b_inc i b) \<and> b_glob (b_inc i b) = b_glob b"
  "books_ok L X b \<Longrightarrow> i \<notin> dk_id ` set (b_dict b) \<Longrightarrow> books_ok (i # L) X (b_new i rw b) \<and> b_glob (b_new i rw b) = b_glob b"
  by (simp_all add: ok_inc ok_new) (simp_all add: b_inc_def b_dmap_def b_new_def)

lemma wp_open_path:
  fixes s :: "'e srv"
  assumes "books_ok L {} (books s)" "b_glob (books s) = g"
    and "\<And>s'. books_ok L {} (books s') \<Longrightarrow> b_glob (books s') = g \<Longrightarrow> Q None s'"
    and "\<And>i s'. books_ok (i # L) {} (books s') \<Longrightarrow> b_glob (books s') = g \<Longrightarrow> Q (Some i) s'"
  shows "wp True (\<lambda>_. True) (opendict p pw) Q s"
proof (rule wp_opendict [OF TrueI])
  show "Q None s'" if "books s' = books s" for s' :: "'e srv" using that assms(1,2) by (intro assms(3)) simp_all
  show "Q (Some i) s'" if "i \<in> dk_id ` set (b_dict (books s))" "books s' = b_inc i (books s)" for i and s' :: "'e srv"
    using books_ok_open(1) [OF assms(1) that(1)] assms(2) that(2) by (intro assms(4)) simp_all
  show "Q (Some i) s'" if "i \<notin> dk_id ` set (b_dict (books s))" "books s' = b_new i rw (books s)" for i rw and s' :: "'e srv"
    using books_ok_open(2) [OF assms(1) that(1)] assms(2) that(2) by (intro assms(4)) simp_all
qed

lemma wp_preload_loop:
  "books_ok [] {} (books s) \<Longrightarrow> b_glob (books s) = [] \<Longrightarrow>
   wp True (\<lambda>_. True) (preload_loop np) (\<lambda>_ s'. books_ok [] {} (books s') \<and> b_glob (books s') = []) s" for s :: "'e srv"
proof (induction np arbitrary: s rule: preload_loop.induct)
  case 1
  then show ?case by simp
next
  case (2 filename passwd np)
  show ?case
    unfolding preload_loop.simps
    by (intro wp_intros wp_need wp_cases wp_open_path [OF 2(2,3)] 2(1); (simp add: 2(2,3) del: books_sel; fail)?) (auto intro: ok_weaken simp del: books_sel)
qed

lemma wp_preopen_loop:
  "books_ok ds {} (books s) \<Longrightarrow> b_glob (books s) = [] \<Longrightarrow>
   wp True (\<lambda>_. True) (preopen_loop np ds) (\<lambda>ds s'. books_ok ds {} (books s') \<and> b_glob (books s') = []) s" for s :: "'e srv"
proof (induction np ds arbitrary: s rule: preopen_loop.induct)
  case (1 ds)
  then show ?case by simp
next
  case (2 filename passwd np ds)
  have close: "books_ok ds {} (b_close i b) \<and> b_glob (b_close i b) = b_glob b \<and> i \<in> dk_id ` set (b_dict b) \<and> distinct (map dk_id (b_dict b))"
    if "books_ok (i # ds) {} b" for i b
    using ok_close [OF that] held_dict [OF that] books_okD(3) [OF that] by (simp add: dict_ok_def) (simp add: b_close_def)
  show ?case
    unfolding preopen_loop.simps
    by (intro wp_intros wp_need wp_cases wp_if wp_malloc wp_closedict wp_open_path [OF 2(2,3)] 2(1); (simp add: 2(2,3) del: books_sel; fail)?;
      simp add: close del: books_sel)
qed

lemma fresh_books:
  assumes "fresh_server s"
  shows "books_ok [] {} (books s)" "b_glob (books s) = []"
proof -
  have b: "b_cli (books s) = []" "b_num (books s) = 0" "b_work (books s) = []" "b_glob (books s) = []" "b_dict (books s) = []"
    "b_stdy (books s) = []" "b_fds (books s) = set_fd (b_unix (books s)) socket_init"
    using assms by (simp_all add: fresh_server_def)
  show "b_glob (books s) = []" by (rule b)
  have "fds_wf (b_fds (books s))" unfolding b by (rule fds_wf_set_fd) simp
  then show "books_ok [] {} (books s)"
    unfolding books_ok_def cli_ok_def work_ok_def dict_ok_def stdy_ok_def lock_ok_def owners_ok_def refs_def srefs_def works_refs_def b
    by (simp add: fds_org_ops socket_init_def)
qed

lemma ok_global:
  assumes "books_ok ds {} b" "b_glob b = []"
  shows "books_ok [] {} (b\<lparr>b_glob := ds\<rparr>)"
proof -
  have "refs [] (b\<lparr>b_glob := ds\<rparr>) = refs ds b" using assms(2) by (simp add: refs_def fun_eq_iff)
  then have "dict_ok [] (b\<lparr>b_glob := ds\<rparr>) = dict_ok ds b" by (simp add: dict_ok_def)
  moreover have "holds (b\<lparr>b_glob := ds\<rparr>) = holds b" by (simp add: holds_def fun_eq_iff)
  then have "lock_ok {} (b\<lparr>b_glob := ds\<rparr>) = lock_ok {} b" by (simp add: lock_ok_def owners_ok_def dlock_ok_def)
  moreover have "cli_ok (b\<lparr>b_glob := ds\<rparr>) = cli_ok b" "work_ok (b\<lparr>b_glob := ds\<rparr>) = work_ok b" "stdy_ok [] (b\<lparr>b_glob := ds\<rparr>) = stdy_ok [] b"
    by (simp_all add: cli_ok_def work_ok_def stdy_ok_def srefs_def)
  ultimately show ?thesis using assms(1) by (simp add: books_ok_def)
qed

lemma startup_orderly:
  fixes s :: "'e srv"
  assumes "fresh_server s" "startup pre glob s = (Inr (), s')"
  shows "orderly s'"
proof -
  note fresh = fresh_books [OF assms(1)]
  let ?Q = "\<lambda>(_ :: unit) s'. books_ok [] {} (books s') \<and> b_glob (books s') = []"
  have "wp True (\<lambda>_. True) (preload_dict pre) ?Q s"
    unfolding preload_dict_def by (intro wp_intros wp_malloc wp_if wp_preload_loop; use fresh in \<open>simp del: books_sel\<close>)
  moreover have "wp True (\<lambda>_. True) (preopen_dict glob) (\<lambda>_. orderly) t" if t: "?Q () t" for t :: "'e srv"
    unfolding preopen_dict_def
  proof (intro wp_intros(1,2) wp_malloc wp_if)
    fix m and u :: "'e srv" assume u: "books u = books t"
    show "orderly u" using t u by (simp add: orderly_def)
    show "wp True (\<lambda>_. True) (preopen_loop glob []) (\<lambda>ds. wp True (\<lambda>_. True) (upd (\<lambda>s. s\<lparr>global_dicts := Some ds\<rparr>)) (\<lambda>_. orderly)) u"
    proof (rule wp_mono [OF wp_preopen_loop])
      fix ds and v :: "'e srv" assume v: "books_ok ds {} (books v) \<and> b_glob (books v) = []"
      have b: "books (v\<lparr>global_dicts := Some ds\<rparr>) = (books v)\<lparr>b_glob := ds\<rparr>" by (simp add: books_def)
      have "books_ok [] {} ((books v)\<lparr>b_glob := ds\<rparr>)" using v by (intro ok_global) (simp_all del: books_sel)
      then show "wp True (\<lambda>_. True) (upd (\<lambda>s. s\<lparr>global_dicts := Some ds\<rparr>)) (\<lambda>_. orderly) v" by (simp add: orderly_def b)
    qed (use t u in \<open>simp_all del: books_sel\<close>)
  qed
  ultimately have "wp True (\<lambda>_. True) (startup pre glob) (\<lambda>_. orderly) s"
    unfolding startup_def by (intro wp_intros(1), elim wp_mono) simp
  then show ?thesis using assms(2) by (simp add: wp_def)
qed

theorem reachable_orderly: "reachable eng s \<Longrightarrow> orderly s"
  by (induction rule: reachable.induct) (auto intro: startup_orderly step_orderly)

end
