(* ===== verification/Sj_Demo.thy ===== *)
theory Sj_Demo
  imports Sj_Server_Laws
begin

text \<open>
  An execution of the model, evaluated by the simplifier: the server starts, a client
  connects on descriptor 4, opens a dictionary and a study file and locks. The state it
  ends in is where the properties of the server are applied.
\<close>

section \<open>The server\<close>

definition demo_edit :: "unit edit" where
  "demo_edit = \<lparr>ed_err = 0, ed_global = (), ed_buffer = [], ed_segunit = 0, ed_ofsptr = [], ed_writes = [], ed_stdy = None,
     ed_putstydic = False, ed_putcldic = False\<rparr>"

definition demo_engine :: "unit engine" where
  "demo_engine = \<lparr>e_init = (), e_ph2knj = \<lambda>v b c. (0, c, ()), e_cl2knj = \<lambda>v b n c. (0, c, ()), e_nextcl = \<lambda>v n c. (0, c, ()),
     e_prevcl = \<lambda>v n c. (0, c, ()), e_getusr = \<lambda>v i c. (0, c, ()), e_nextusr = \<lambda>v i c. (0, c, ()), e_prevusr = \<lambda>v i c. (0, c, ()),
     e_adddic = \<lambda>v i y k g. demo_edit, e_deldic = \<lambda>v i y k g. demo_edit, e_clstudy = \<lambda>st y1 y2 out. (0, st, False)\<rparr>"

text \<open>A dictionary with one empty index entry, and a study file without records.\<close>

definition demo_dict :: "u8 list" where
  "demo_dict = [0x44, 2, 0, 0] @ replicate 28 0 @ [0, 0, 0, 127, 0, 0, 0, 1] @ replicate 8 0
     @ [0, 0, 0, 128, 0, 0, 0, 0, 0, 0, 0, 1, 0, 0, 0, 5] @ replicate 64 0"

definition demo_stdy :: "u8 list" where
  "demo_stdy = [0x53, 2, 0, 0] @ replicate 48 0 @ [0, 0, 0, 2, 0, 0, 0, 1] @ replicate 8 0 @ [0, 0, 0, 1] @ replicate 184 0"

definition demo_conf :: conf where
  "demo_conf = \<lparr>dict_dir = [0x64], allow_user = [], max_client = 8, strict_auth = False, time_stamp = [],
     os_ugid = \<lambda>_. Some (1, 1), os_peer = \<lambda>_. (1, 1), os_access = \<lambda>_ _. 0, os_mkdir = \<lambda>_. Made, os_beyond = blank_STDYIN\<rparr>"

definition no_conn :: conn where
  "no_conn = \<lparr>c_rq = [], c_wq = [], c_sent = []\<rparr>"

definition asks :: "u8 list \<Rightarrow> nat \<Rightarrow> conn" where
  "asks bs = (\<lambda>_. no_conn)(4 := no_conn\<lparr>c_rq := [Chunk bs]\<rparr>)"

definition told :: "u8 list \<Rightarrow> nat \<Rightarrow> conn" where
  "told bs = (\<lambda>_. no_conn)(4 := no_conn\<lparr>c_sent := bs\<rparr>)"

definition demo0 :: "unit srv" where
  "demo0 = \<lparr>s_putbuf = [], s_getbuf = [], s_getpos = 0, s_sent = [], s_wq = [], s_rq = [], serv_errno = 0, dictlink = [], stdylink = [],
     fs_name = \<lambda>n. Some (Found (if n = [0x64, 0x2f, 0x64] then 7 else 8)), fs_data = \<lambda>i. if i = 7 then demo_dict else demo_stdy,
     fs_right = \<lambda>_. ReadWrite, fs_creat = \<lambda>_. None, fs_write_ok = [], fs_malloc_ok = [],
     worklist = [], next_work = 0, clients = [], client_num = 0, cur_cli = 0, global_dicts = None,
     srv_fds = set_fd 3 socket_init, srv_conf = demo_conf, srv_bufs = \<lparr>buf1 = [], buf2 = [], buf3 = [], buf4 = [], kbuf = [], skbuf = []\<rparr>,
     conns = asks [], fd_unix = 3\<rparr>"

section \<open>The states\<close>

definition ask_connect :: "u8 list" where
  "ask_connect = [0, 0, 0, 1, 0, 0, 0, 2, 0x68, 0, 0x75, 0, 0x70, 0]"

definition demo1 :: "unit srv" where
  "demo1 = demo0\<lparr>global_dicts := Some [], clients := [new_client 4], client_num := 1, srv_fds := set_fd 4 (set_fd 3 socket_init),
     conns := asks ask_connect\<rparr>"

definition demo_client :: client where
  "demo_client = \<lparr>cl_fd = 4, cl_host = [0x68], cl_user = [0x75], cl_prog = [0x70], cl_work = Some 0, cl_stdy = None,
     cl_version = 2, def_char = (0x81, 0x40), cl_uid = 1\<rparr>"

definition demo_work :: "unit WorkArea" where
  "demo_work = \<lparr>wa_refcnt = 1, wa_lock = NOTLOCKED, Jdictlist = [], wa_global = ()\<rparr>"

definition demo_df :: DictFile where
  "demo_df = \<lparr>dicid = 7, idxlen = 1, seglen = 0, segunit = 1, maxunit = 5, df_refcnt = 1,
     df_lock = {}, df_buffer = demo_dict, bufsiz = 128, idxstrt = 127, segstrt = 128, ofsptr = [0]\<rparr>"

definition demo_sf :: StdyFile where
  "demo_sf = \<lparr>stdy_ino = 8, sf_refcnt = 1, sf_header = demo_stdy, sf_stdy = \<lparr>stdycnt = 0, stdymax = 0, stdydic = [], clstdystep = 1,
     clstdyidx = dec_ushorts [0x53, 2], clstdylen = 1, clstdydic = [0x53]\<rparr>\<rparr>"

text \<open>The answers to the requests, and the state after each of them.\<close>

definition demo2 :: "unit srv" where
  "demo2 = demo1\<lparr>clients := [demo_client], worklist := [(0, demo_work)], next_work := 1, cur_cli := 4,
     s_getbuf := ask_connect, s_getpos := 14, s_sent := [0xff, 0xff, 0xff, 0xfe], conns := told [0xff, 0xff, 0xff, 0xfe]\<rparr>"

definition demo3 :: "unit srv" where
  "demo3 = demo2\<lparr>dictlink := [demo_df], worklist := [(0, demo_work\<lparr>Jdictlist := [7]\<rparr>)],
     s_getbuf := [0, 0, 0, 11, 0x64, 0, 0], s_getpos := 7, s_sent := [0, 0, 0, 0, 0, 0, 0, 7], conns := told [0, 0, 0, 0, 0, 0, 0, 7]\<rparr>"

definition demo4 :: "unit srv" where
  "demo4 = demo3\<lparr>stdylink := [demo_sf], serv_errno := SJ3_FileReadError, clients := [demo_client\<lparr>cl_stdy := Some 8\<rparr>],
     s_getbuf := [0, 0, 0, 21, 0x73, 0, 0], s_getpos := 7, s_sent := [0, 0, 0, 0], conns := told [0, 0, 0, 0]\<rparr>"

definition demo5 :: "unit srv" where
  "demo5 = demo4\<lparr>dictlink := [demo_df\<lparr>df_lock := {4}\<rparr>], worklist := [(0, demo_work\<lparr>Jdictlist := [7], wa_lock := 4\<rparr>)],
     s_getbuf := [0, 0, 0, 31], s_getpos := 4, s_sent := [0, 0, 0, 0], conns := told [0, 0, 0, 0]\<rparr>"

section \<open>The run\<close>

lemma upd_eq: "(f(a := x) = f(a := y)) = (x = y)"
  by (metis fun_upd_same)

lemmas run = bnd_def gets_def upd_def ret_def jump_def need_def unless_def fail_def check_def rd_def malloc_def

lemmas run_io = get_int_def get_byte_def get_buf.simps BUFSIZ_def get_nstring_def get_nstring_loop.simps put_int_def put_byte_def
  put_flush_def put_flush_loop.simps

lemmas run_srv = serve_def execute_cmd_def catch_error_def load_conn_def store_conn_def dispatch_def the_cli_def upd_cli_def the_work_def
  upd_work_def cstr_def connected_def asks_def told_def no_conn_def demo0_def demo_conf_def upd_eq

lemma demo_dict_rd:
  "rd demo_dict i = (if i < 128 then Some (if i = 0 then 0x44 else if i = 1 then 2 else if i = 35 then 127 else if i = 39 then 1
     else if i = 51 then 128 else if i = 59 then 1 else if i = 63 then 5 else 0) else None)"
  and demo_dict_length: "length demo_dict = 128" "demo_dict \<noteq> []"
  by (simp_all add: rd_def demo_dict_def) (auto simp: nth_append nth_Cons')

lemma demo_stdy_rd:
  "rd demo_stdy i = (if i < 256 then Some (if i = 0 then 0x53 else if i = 1 then 2 else if i = 55 then 2 else if i = 59 then 1
     else if i = 71 then 1 else 0) else None)"
  and demo_stdy_length: "length demo_stdy = 256" "demo_stdy \<noteq> []"
  by (simp_all add: rd_def demo_stdy_def) (auto simp: nth_append nth_Cons')

lemma demo_dict_header:
  "get4byte demo_dict VERSIONPOS = Some DICTVERSION" "get4byte demo_dict DICTIDXLEN = Some 1" "get4byte demo_dict DICTSEGLEN = Some 0"
  "get4byte demo_dict DICTSEGNUM = Some 1" "get4byte demo_dict DICTSEGMAX = Some 5" "get4byte demo_dict DICTIDXPOS = Some 127"
  "get4byte demo_dict DICTSEGPOS = Some 128" "check_passwd demo_dict [0] = Some True"
  by (simp_all add: get4byte_def demo_dict_rd VERSIONPOS_def DICTVERSION_def DICTIDXLEN_def DICTSEGLEN_def DICTSEGNUM_def DICTSEGMAX_def
    DICTIDXPOS_def DICTSEGPOS_def check_passwd_def PASSWDPOS_def)

lemma demo_stdy_header:
  "get4byte demo_stdy VERSIONPOS = Some STDYVERSION" "get4byte demo_stdy STDYNORMCNT = Some 0" "get4byte demo_stdy STDYNORMPOS = Some 0"
  "get4byte demo_stdy STDYNORMNUM = Some 0" "get4byte demo_stdy STDYCLIDXPOS = Some 0" "get4byte demo_stdy STDYCLIDXLEN = Some 2"
  "get4byte demo_stdy STDYCLSEGPOS = Some 0" "get4byte demo_stdy STDYCLSEGLEN = Some 1" "get4byte demo_stdy STDYCLIDXSTEP = Some 1"
  "check_passwd demo_stdy [0] = Some True"
  by (simp_all add: get4byte_def demo_stdy_rd VERSIONPOS_def STDYVERSION_def STDYNORMCNT_def STDYNORMPOS_def STDYNORMNUM_def
    STDYCLIDXPOS_def STDYCLIDXLEN_def STDYCLSEGPOS_def STDYCLSEGLEN_def STDYCLIDXSTEP_def check_passwd_def PASSWDPOS_def)

lemma demo_open_dict: "open_dict_file 7 True demo_dict = Some demo_df"
  unfolding demo_df_def
  by (simp add: open_dict_file_def demo_dict_header demo_dict_length mkidxtbl_def)
    (simp add: demo_dict_def mkidx_loop.simps to_ushort_def)

lemma demo_opendict:
  assumes "fs_name s [0x64, 0x2f, 0x64] = Some (Found 7)" "fs_data s 7 = demo_dict" "fs_right s 7 = ReadWrite" "fs_malloc_ok s = []"
    "dictlink s = []"
  shows "opendict [0x64, 0x2f, 0x64, 0] [0] s = (Inr (Some 7), s\<lparr>dictlink := [demo_df]\<rparr>)"
  using assms
  by (simp add: opendict_def search_same_dict_def opendict_file_def fgetfile_def HEADERLENGTH_def demo_dict_length check_dictfile_def
    demo_dict_header opendict_load_def run demo_open_dict)

lemma demo_stdy_take: "take 2 demo_stdy = [0x53, 2]" "take (Suc 0) demo_stdy = [0x53]"
  by (simp_all add: demo_stdy_def)

lemma demo_openstdy:
  assumes "fs_name s [0x64, 0x2f, 0x73] = Some (Found 8)" "fs_data s 8 = demo_stdy" "fs_right s 8 = ReadWrite" "fs_malloc_ok s = []"
    "stdylink s = []" "serv_errno s = 0"
  shows "openstdy [0x64, 0x2f, 0x73, 0] [0] s = (Inr (Some 8), s\<lparr>serv_errno := SJ3_FileReadError, stdylink := [demo_sf]\<rparr>)"
  using assms
  by (simp add: openstdy_def search_same_stdy_def open_stdy_file_def fgetfile_def HEADERLENGTH_def COMMENTLENGTH_def demo_stdy_length
    check_stdyfile_def demo_stdy_header run demo_stdy_take set_errno_def demo_sf_def Let_def)

lemma demo_path:
  "make_full_path [0x64] [0x64, 0] MAXPATHLEN = Some (Some [0x64, 0x2f, 0x64, 0])"
  "make_full_path [0x64] [0x73, 0] MAXPATHLEN = Some (Some [0x64, 0x2f, 0x73, 0])"
  by (simp_all add: make_full_path_def rd_def slash_def)

lemmas demo_states = demo5_def demo4_def demo3_def demo2_def demo1_def demo_client_def new_client_def demo_work_def demo_engine_def

lemma demo_start: "startup [] [] demo0 = (Inr (), demo0\<lparr>global_dicts := Some []\<rparr>)"
  by (simp add: startup_def preload_dict_def preopen_dict_def run demo0_def)

lemma demo_accept:
  "connect_client (Some (4, no_conn\<lparr>c_rq := [Chunk ask_connect]\<rparr>)) (demo0\<lparr>global_dicts := Some []\<rparr>) = (Inr (), demo1)"
  by (simp add: connect_client_def demo1_def run demo0_def demo_conf_def asks_def)

lemma demo_connect: "serve demo_engine 4 demo1 = (Inr (), demo2)"
  by (simp add: demo_states run_srv run run_io exec_connect_def user_allowed_def alloc_workarea_def ask_connect_def)

lemma demo_opened: "serve demo_engine 4 (demo2\<lparr>conns := asks [0, 0, 0, 11, 0x64, 0, 0]\<rparr>) = (Inr (), demo3)"
  by (simp add: demo_states run_srv run run_io exec_opendict_def get_path_def demo_path demo_opendict add_dictl_def the_dict_def
    search_same_dict_def demo_df_def)

lemma demo_studying: "serve demo_engine 4 (demo3\<lparr>conns := asks [0, 0, 0, 21, 0x73, 0, 0]\<rparr>) = (Inr (), demo4)"
  by (simp add: demo_states run_srv run run_io exec_openstdy_def get_path_def demo_path demo_openstdy)

lemma demo_locked: "serve demo_engine 4 (demo4\<lparr>conns := asks [0, 0, 0, 31]\<rparr>) = (Inr (), demo5)"
  by (simp add: demo_states run_srv run run_io exec_lock_def lock_dict_def on_dict_def upd_dict_def the_dict_def search_same_dict_def demo_df_def)

lemma demo_fds: "client_fds demo1 = {4}" "client_fds (demo2\<lparr>conns := c\<rparr>) = {4}" "client_fds (demo3\<lparr>conns := c\<rparr>) = {4}"
  "client_fds (demo4\<lparr>conns := c\<rparr>) = {4}" "client_fds demo5 = {4}"
  by (simp_all add: client_fds_def demo_states)

lemma arrival: "reachable eng s \<Longrightarrow> reachable eng (s\<lparr>conns := c\<rparr>)"
proof -
  assume s: "reachable eng s"
  have "s\<lparr>conns := c, srv_conf := srv_conf s, fs_name := fs_name s, fs_malloc_ok := fs_malloc_ok s, fs_write_ok := fs_write_ok s\<rparr> = s\<lparr>conns := c\<rparr>"
    by simp
  then show ?thesis using reachable.step [OF s srv_step.outside] by metis
qed

lemma demo_reachable4: "reachable demo_engine demo4"
proof -
  have "fresh_server demo0" by (simp add: fresh_server_def demo0_def)
  then have r0: "reachable demo_engine (demo0\<lparr>global_dicts := Some []\<rparr>)" by (rule reachable.start [OF _ demo_start])
  have "srv_step demo_engine (demo0\<lparr>global_dicts := Some []\<rparr>) demo1"
    by (rule srv_step.accept [OF _ demo_accept]) (auto simp: demo0_def set_fd_def socket_init_def)
  then have "reachable demo_engine demo1" by (rule reachable.step [OF r0])
  then have "reachable demo_engine demo2" by (rule reachable.step) (rule srv_step.command [OF _ demo_connect], simp add: demo_fds)
  then have "reachable demo_engine demo3" by (rule reachable.step [OF arrival]) (rule srv_step.command [OF _ demo_opened], simp add: demo_fds)
  then show ?thesis by (rule reachable.step [OF arrival]) (rule srv_step.command [OF _ demo_studying], simp add: demo_fds)
qed

lemma demo_reachable: "reachable demo_engine demo5"
  using demo_reachable4 by (rule reachable.step [OF arrival]) (rule srv_step.command [OF _ demo_locked], simp add: demo_fds)

end
