(* ===== verification/Sj_Server_Props.thy ===== *)
theory Sj_Server_Props
  imports Sj_Demo
begin

text \<open>
  What the invariant of the books means for the state of the server, and what a turn of
  the main loop does.
\<close>

section \<open>Readings of the invariant\<close>

lemma reachable_books: "reachable eng s \<Longrightarrow> books_ok [] {} (books s)"
  using reachable_orderly unfolding orderly_def .

lemma listed_count:
  "works_refs (b_work (books s)) i = sum_list (map (\<lambda>(w, p). count_list (Jdictlist p) i) (worklist s))"
proof -
  have "works_refs (map (\<lambda>(a, p). (a, wk_of p)) ws) i = sum_list (map (\<lambda>(w, p). count_list (Jdictlist p) i) ws)" for ws
    unfolding works_refs_def by (induction ws) auto
  then show ?thesis by simp
qed

lemma listed_open:
  assumes "orderly s" "(w, p) \<in> set (worklist s)" "i \<in> set (Jdictlist p)"
  shows "\<exists>d \<in> set (dictlink s). dicid d = i \<and> int (sum_list (map (\<lambda>(w, p). count_list (Jdictlist p) i) (worklist s))) \<le> df_refcnt d"
proof -
  have "(w, wk_of p) \<in> set (b_work (books s))" using assms(2) by force
  then have "0 < refs [] (books s) i" by (rule refs_in_list) (simp add: assms(3))
  moreover have "dict_ok [] (books s)" using assms(1) unfolding orderly_def by (rule books_okD)
  ultimately obtain d where "d \<in> set (b_dict (books s))" "dk_id d = i" "int (refs [] (books s) i) \<le> dk_ref d" using dict_okD by blast
  then show ?thesis using listed_count [of s i] by (fastforce simp: refs_def)
qed

lemma study_open:
  assumes "orderly s" "c \<in> set (clients s)" "cl_stdy c = Some i"
  shows "\<exists>f \<in> set (stdylink s). stdy_ino f = i \<and> int (length (filter (\<lambda>c. cl_stdy c = Some i) (clients s))) \<le> sf_refcnt f"
proof -
  have n: "srefs [] (books s) i = length (filter (\<lambda>c. cl_stdy c = Some i) (clients s))" by (simp add: srefs_def filter_map o_def)
  then have "0 < srefs [] (books s) i" using assms(2,3) by (auto simp: filter_empty_conv)
  moreover have "stdy_ok [] (books s)" using assms(1) unfolding orderly_def by (rule books_okD)
  ultimately obtain m where "(i, m) \<in> set (b_stdy (books s))" "int (srefs [] (books s) i) \<le> m" using stdy_okD by blast
  then show ?thesis using n by auto
qed

lemma lock_owned:
  assumes "orderly s" "d \<in> set (dictlink s)" "fd \<in> df_lock d"
  shows "\<exists>c \<in> set (clients s). \<exists>w p. cl_fd c = fd \<and> cl_work c = Some w \<and> (w, p) \<in> set (worklist s) \<and> wa_lock p = int fd
    \<and> dicid d \<in> set (Jdictlist p) \<and> maxunit d \<noteq> 0"
proof -
  have ok: "lock_ok {} (books s)" using assms(1) unfolding orderly_def by (rule books_okD)
  moreover have "dk_of d \<in> set (b_dict (books s))" using assms(2) by simp
  ultimately have "dlock_ok {} (books s) (dk_of d)" by (auto simp: lock_ok_def)
  then have "holds (books s) fd (dicid d)" "maxunit d \<noteq> 0" using assms(3) by (auto simp: dlock_ok_def)
  then obtain a k where a: "(a, k) \<in> set (b_work (books s))" "wk_lock k = int fd" "dicid d \<in> set (wk_list k)" unfolding holds_def by blast
  then obtain c where "c \<in> set (b_cli (books s))" "ck_work c = Some a" "int fd = int (ck_fd c)"
    using ok unfolding lock_ok_def owners_ok_def by force
  then show ?thesis using a \<open>maxunit d \<noteq> 0\<close> by fastforce
qed

lemma not_other:
  assumes I: "idle fd F (books s)" and w: "cur_work (books s) w (wk_of p)"
  shows "wa_lock p = NOTLOCKED \<or> wa_lock p = int (cur_cli s)"
  using cur_work_lock [OF servingD(1) [OF I] w] by simp

text \<open>A handler that does not leave with the error \<open>e\<close>.\<close>

definition spares :: "u32 \<Rightarrow> ('e, 'a) handler \<Rightarrow> 'e srv \<Rightarrow> bool" where
  "spares e m s \<longleftrightarrow> fst (m s) \<noteq> Inl (Error_ret e)"

lemma spares_bnd: "spares e m s \<Longrightarrow> (\<And>x s'. m s = (Inr x, s') \<Longrightarrow> spares e (f x) s') \<Longrightarrow> spares e (bnd m f) s"
  unfolding spares_def bnd_def by (auto split: prod.splits sum.splits)

lemma polite_spares: "polite m \<Longrightarrow> spares e m s"
  by (simp add: polite_def spares_def)

lemma polite_basic: "polite (ret x)" "polite (gets f)" "polite (upd g)" "polite (need y)"
  by (simp_all add: polite_def ret_def gets_def upd_def need_def jump_def split: option.splits)

lemma polite_loop:
  assumes "\<And>i. polite (f i)"
  shows "polite (each_writable f ds)"
  by (induction ds) (auto intro!: polite_bnd polite_basic assms simp: the_dict_def split: if_splits)

lemma polite_locks: "polite (lock_dict i fd :: ('e, unit) handler)" "polite (unlock_dict i fd :: ('e, unit) handler)"
  unfolding lock_dict_def unlock_dict_def on_dict_def by (intro polite_bnd polite_basic)+

lemma connected_run:
  assumes "idle fd F (books s)" "connected s = (Inr w, s')"
  shows "s' = s \<and> (\<exists>k. cur_work (books s) w k)"
proof -
  have "wp True (\<lambda>_. True) connected (\<lambda>w s'. s' = s \<and> (\<exists>k. cur_work (books s) w k)) s"
    by (rule wp_connected [OF assms(1)]) auto
  then show ?thesis using assms(2) by (simp add: wp_def)
qed

lemma the_work_run:
  assumes "cur_work (books s) w k" "the_work w s = (Inr p, s')"
  shows "s' = s \<and> cur_work (books s) w (wk_of p)"
proof -
  have "wp True (\<lambda>_. True) (the_work w) (\<lambda>p s'. s' = s \<and> cur_work (books s) w (wk_of p)) s"
    by (rule wp_cur_work [OF assms(1)]) simp
  then show ?thesis using assms(2) by (simp add: wp_def)
qed

lemma spares_connected:
  assumes I: "idle fd F (books s)" and f: "\<And>w p. cur_work (books s) w (wk_of p) \<Longrightarrow> spares SJ3_LockedByOther (f w p) s"
  shows "spares SJ3_LockedByOther (bnd connected (\<lambda>w. bnd (the_work w) (f w))) s"
proof (rule spares_bnd)
  have "polite the_cli" unfolding the_cli_def by (intro polite_bnd polite_basic)
  then have "spares SJ3_LockedByOther the_cli s" by (rule polite_spares)
  then show "spares SJ3_LockedByOther connected s"
    unfolding connected_def by (rule spares_bnd) (auto simp: spares_def ret_def fail_def jump_def split: option.splits)
  fix w s' assume "connected s = (Inr w, s')"
  then obtain k where s': "s' = s" and k: "cur_work (books s) w k" using connected_run [OF I] by blast
  have "polite (the_work w)" unfolding the_work_def by (intro polite_bnd polite_basic)
  then have "spares SJ3_LockedByOther (the_work w) s'" by (rule polite_spares)
  then show "spares SJ3_LockedByOther (bnd (the_work w) (f w)) s'"
    by (rule spares_bnd) (use the_work_run [OF k] f s' in blast)
qed

lemma spares_check: "(b \<Longrightarrow> spares e (f ()) s) \<Longrightarrow> b \<or> e \<noteq> e' \<Longrightarrow> spares e (bnd (check b e') f) s"
  by (cases b) (auto simp: check_def spares_def jump_def unless_def)

lemma lock_spares:
  fixes s :: "'e srv"
  assumes I: "idle fd F (books s)"
  shows "spares SJ3_LockedByOther exec_lock s" "spares SJ3_LockedByOther exec_unlock s"
    "spares SJ3_LockedByOther (bnd connected lock_check_for_read) s"
proof -
  have own: "wa_lock p = NOTLOCKED \<or> wa_lock p = int (cur_cli s)" if "cur_work (books s) w (wk_of p)" for w p using not_other [OF I that] .
  have tail: "polite (bnd (upd_work w g) (\<lambda>_. bnd (each_writable f ds) (\<lambda>_. put_int c)) :: ('e, unit) handler)" if "\<And>i. polite (f i)"
    for w g f ds c using that unfolding upd_work_def by (intro polite_bnd polite_basic polite_put polite_loop)
  show "spares SJ3_LockedByOther exec_lock s"
    unfolding exec_lock_def
  proof (rule spares_connected [OF I])
    fix w p assume w: "cur_work (books s) w (wk_of p)"
    show "spares SJ3_LockedByOther (bnd (gets cur_cli) (\<lambda>fd. bnd (check (\<not> (wa_lock p \<noteq> NOTLOCKED \<and> wa_lock p \<noteq> int fd)) SJ3_LockedByOther)
      (\<lambda>_. bnd (upd_work w (\<lambda>p. p\<lparr>wa_lock := int fd\<rparr>)) (\<lambda>_. bnd (each_writable (\<lambda>i. lock_dict i fd) (Jdictlist p)) (\<lambda>_. put_int SJ3_NormalEnd))))) s"
      unfolding spares_def sm_simps
      by (fold spares_def) (intro spares_check polite_spares tail polite_locks, use own [OF w] in auto)
  qed
  show "spares SJ3_LockedByOther exec_unlock s"
    unfolding exec_unlock_def
  proof (rule spares_connected [OF I])
    fix w p assume w: "cur_work (books s) w (wk_of p)"
    show "spares SJ3_LockedByOther (bnd (gets cur_cli) (\<lambda>fd. bnd (check (wa_lock p \<noteq> NOTLOCKED) SJ3_NotLocked) (\<lambda>_.
      bnd (check (wa_lock p = int fd) SJ3_LockedByOther) (\<lambda>_. bnd (upd_work w (\<lambda>p. p\<lparr>wa_lock := NOTLOCKED\<rparr>)) (\<lambda>_.
      bnd (each_writable (\<lambda>i. unlock_dict i fd) (Jdictlist p)) (\<lambda>_. put_int SJ3_NormalEnd)))))) s"
      unfolding spares_def sm_simps
      by (fold spares_def) (intro spares_check polite_spares tail polite_locks, use own [OF w] in auto)
  qed
  have "bnd connected lock_check_for_read = bnd connected (\<lambda>w. bnd (the_work w) (\<lambda>p. bnd (gets cur_cli) (\<lambda>fd.
      if wa_lock p = NOTLOCKED then ret () else check (wa_lock p = int fd) SJ3_LockedByOther) :: ('e, unit) handler))"
    unfolding lock_check_for_read_def [abs_def] ..
  moreover have "spares SJ3_LockedByOther (bnd connected (\<lambda>w. bnd (the_work w) (\<lambda>p. bnd (gets cur_cli) (\<lambda>fd.
      if wa_lock p = NOTLOCKED then ret () else check (wa_lock p = int fd) SJ3_LockedByOther)))) s"
  proof (rule spares_connected [OF I])
    fix w p assume w: "cur_work (books s) w (wk_of p)"
    show "spares SJ3_LockedByOther (bnd (gets cur_cli) (\<lambda>fd. if wa_lock p = NOTLOCKED then ret () else check (wa_lock p = int fd) SJ3_LockedByOther)) s"
      using own [OF w] by (auto simp: spares_def check_def unless_def ret_def)
  qed
  ultimately show "spares SJ3_LockedByOther (bnd connected lock_check_for_read) s" by simp
qed

section \<open>A turn of the main loop\<close>

lemma serve_all_reachable:
  "reachable eng s \<Longrightarrow> distinct fds \<Longrightarrow> set fds \<subseteq> client_fds s \<Longrightarrow> serve_all eng readfds fds s = (Inr (), s') \<Longrightarrow> reachable eng s'"
proof (induction fds arbitrary: s)
  case Nil
  then show ?case by (simp add: ret_def)
next
  case (Cons fd fds)
  show ?case
  proof (cases "fd \<in> readfds")
    case True
    obtain r s1 where 1: "serve eng fd s = (r, s1)" by fastforce
    with Cons.prems(4) True have u: "r = Inr ()" by (cases r) (auto simp: bnd_def)
    have fd: "fd \<in> client_fds s" using Cons.prems(3) by simp
    have "reachable eng s1" using Cons.prems(1) srv_step.command [OF fd] 1 u by (metis reachable.step)
    moreover have "client_fds s - {fd} \<subseteq> client_fds s1"
      using serve_orderly [OF reachable_orderly [OF Cons.prems(1)] fd 1] u by (auto simp: ended_def)
    then have "set fds \<subseteq> client_fds s1" using Cons.prems(2,3) by auto
    moreover have "serve_all eng readfds fds s1 = (Inr (), s')" using Cons.prems(4) True 1 u by (simp add: bnd_def)
    ultimately show ?thesis using Cons.IH Cons.prems(2) by simp
  next
    case False
    then show ?thesis using Cons by simp
  qed
qed

lemma reachable_distinct: "reachable eng s \<Longrightarrow> distinct (map cl_fd (clients s))"
proof -
  assume "reachable eng s"
  then have "cli_ok (books s)" using books_okD(1) reachable_books by blast
  then show ?thesis by (simp add: cli_ok_def o_def)
qed

lemma communicate_steps:
  assumes "reachable eng s" "communicate eng readfds acc s = (Inr (), s')"
    and fresh: "\<And>fd cn s1. acc = Some (fd, cn) \<Longrightarrow> serve_all eng readfds (map cl_fd (clients s)) s = (Inr (), s1) \<Longrightarrow> fd \<notin> fds_org (srv_fds s1)"
  shows "reachable eng s'"
proof -
  obtain r s1 where 1: "serve_all eng readfds (map cl_fd (clients s)) s = (r, s1)" by fastforce
  then have u: "r = Inr ()" using assms(2) by (cases r) (auto simp: communicate_def bnd_def gets_def)
  have r1: "reachable eng s1"
    by (rule serve_all_reachable [OF assms(1) reachable_distinct [OF assms(1)]]) (use 1 u in \<open>simp_all add: client_fds_def\<close>)
  have e: "(if fd_unix s1 \<in> readfds then connect_client acc else ret ()) s1 = (Inr (), s')"
    using assms(2) 1 u by (simp add: communicate_def bnd_def gets_def)
  show ?thesis
  proof (cases "fd_unix s1 \<in> readfds")
    case True
    then have "srv_step eng s1 s'" using e fresh 1 u by (intro srv_step.accept [of acc]) auto
    then show ?thesis by (rule reachable.step [OF r1])
  next
    case False
    then show ?thesis using e r1 by (simp add: ret_def)
  qed
qed

section \<open>Dropping a client\<close>

lemma disconnect_total:
  assumes "orderly s" "fd \<in> client_fds s"
  shows "\<exists>s'. disconnect_client fd (load_conn fd s) = (Inr (), s') \<and> orderly s' \<and> client_fds s' = client_fds s - {fd}"
proof -
  have "wp False (\<lambda>_. False) (disconnect_client fd) (\<lambda>_ s'. orderly s' \<and> cl_fd ` set (clients s') = client_fds s - {fd}) (load_conn fd s)"
    by (rule wp_disconnect_client [OF load_idle [OF assms]])
  then show ?thesis
    unfolding wp_def client_fds_def by (cases "disconnect_client fd (load_conn fd s)") (auto split: sum.splits jump.splits)
qed

lemma keeps_safe:
  assumes "keeps False m" "orderly s" "fd \<in> client_fds s"
  shows "fst (m (load_conn fd s)) \<notin> {Inl Ub, Inl Hang, Inl Exit}"
proof -
  have "wp False (idle fd (client_fds s)) m (\<lambda>_ s'. idle fd (client_fds s) (books s')) (load_conn fd s)"
    using assms(1) load_idle [OF assms(2,3)] unfolding keeps_def by blast
  then show ?thesis by (cases "m (load_conn fd s)") (auto simp: wp_def)
qed

section \<open>Error replies\<close>

lemma serve_fails:
  assumes run: "bnd get_int (dispatch eng) (load_conn fd s) = (Inl (Error_ret e), s1)" and e: "e \<noteq> 0"
    and s1: "s_sent s1 = c_sent (conns s fd)" "s_putbuf s1 = []" "writable (s_wq s1)"
  shows "\<exists>s'. serve eng fd s = (Inr (), s') \<and> c_sent (conns s' fd) = c_sent (conns s fd) @ be32 e"
proof -
  have "put_ok s1" using s1 by (simp add: put_ok_def BUFSIZ_def)
  then obtain s2 where 2: "put_int e s1 = (Inr (), s2)" "outputs s1 (be32 e) s2" using put_int_outputs by blast
  then have "writable (s_wq s2)" using outputs_ok by (auto simp: put_ok_def)
  then obtain s3 where 3: "put_flush s2 = (Inr (), s3)" "outputs s2 [] s3" "s_putbuf s3 = []" using put_flush_outputs by blast
  have "s_sent s3 = s_sent s2 @ s_putbuf s2" using 3(2,3) by (auto simp: outputs_def)
  moreover have "s_sent s2 @ s_putbuf s2 = s_sent s1 @ be32 e" using 2(2) s1(2) by (auto simp: outputs_def)
  moreover have "execute_cmd eng (load_conn fd s) = (Inr (), s3)"
    using run e 2(1) 3(1) by (simp add: execute_cmd_def catch_error_def bnd_def [of "catch_error _"])
  ultimately show ?thesis using s1(1) by (simp add: serve_def store_conn_def)
qed

text \<open>The command number is read, and nothing is written.\<close>

lemma read_command:
  assumes "sstream (c_rq (conns s fd)) = be32 c @ bs"
  shows "\<exists>b p q. bnd get_int f (load_conn fd s) = f c ((load_conn fd s)\<lparr>s_getbuf := b, s_getpos := p, s_rq := q\<rparr>)"
proof -
  have "arriving (load_conn fd s) = be32 c @ bs" using assms by (simp add: arriving_def load_conn_def)
  from get_int_arriving [OF this] obtain b p q where "get_int (load_conn fd s) = (Inr c, (load_conn fd s)\<lparr>s_getbuf := b, s_getpos := p, s_rq := q\<rparr>)"
    by (auto simp: inputs_def)
  then have "bnd get_int f (load_conn fd s) = f c ((load_conn fd s)\<lparr>s_getbuf := b, s_getpos := p, s_rq := q\<rparr>)" by (rule bnd_Inr)
  then show ?thesis by blast
qed

definition commands :: "u32 list" where
  "commands = [SJ3_CONNECT, SJ3_DISCONNECT, SJ3_OPENDICT, SJ3_CLOSEDICT, SJ3_OPENSTDY, SJ3_CLOSESTDY, SJ3_STDYSIZE, SJ3_LOCK, SJ3_UNLOCK,
     SJ3_PH2KNJ, SJ3_PH2KNJ_EUC, SJ3_CL2KNJ, SJ3_CL2KNJ_EUC, SJ3_NEXTCL, SJ3_NEXTCL_EUC, SJ3_PREVCL, SJ3_PREVCL_EUC, SJ3_CL2KNJ_CNT,
     SJ3_CL2KNJ_CNT_EUC, SJ3_CL2KNJ_ALL, SJ3_CL2KNJ_ALL_EUC, SJ3_STUDY, SJ3_CLSTUDY, SJ3_CLSTUDY_EUC, SJ3_ADDDICT, SJ3_ADDDICT_EUC,
     SJ3_DELDICT, SJ3_DELDICT_EUC, SJ3_GETDICT, SJ3_GETDICT_EUC, SJ3_NEXTDICT, SJ3_NEXTDICT_EUC, SJ3_PREVDICT, SJ3_PREVDICT_EUC,
     SJ3_MAKEDICT, SJ3_MAKESTDY, SJ3_ACCESS, SJ3_MAKEDIR, SJ3_WHO, SJ3_QUIT, SJ3_KILL, SJ3_VERSION, SJ3_DICTPASS, SJ3_DICTCMNT,
     SJ3_STDYPASS, SJ3_STDYCMNT]"

lemma illegal_reply:
  assumes "sstream (c_rq (conns s fd)) = be32 c @ bs" "c \<notin> set commands" "writable (c_wq (conns s fd))"
  shows "\<exists>s'. serve eng fd s = (Inr (), s') \<and> c_sent (conns s' fd) = c_sent (conns s fd) @ be32 SJ3_IllegalCommand"
proof -
  have "dispatch eng c = fail SJ3_IllegalCommand"
    using assms(2) unfolding dispatch_def commands_def list.set insert_iff empty_iff de_Morgan_disj by (elim conjE) (simp only: if_False)
  then obtain b p q where run: "bnd get_int (dispatch eng) (load_conn fd s)
      = (Inl (Error_ret SJ3_IllegalCommand), (load_conn fd s)\<lparr>s_getbuf := b, s_getpos := p, s_rq := q\<rparr>)"
    using read_command [OF assms(1), of "dispatch eng"] by (auto simp: fail_def jump_def)
  show ?thesis by (rule serve_fails [OF run]) (use assms(3) in \<open>simp_all add: load_conn_def\<close>)
qed

lemma unconnected_reply:
  assumes "sstream (c_rq (conns s fd)) = be32 c @ bs" "c \<in> {SJ3_DISCONNECT, SJ3_LOCK, SJ3_UNLOCK}" "writable (c_wq (conns s fd))"
    and cl: "find (\<lambda>c. cl_fd c = fd) (clients s) = Some cl" "cl_work cl = None" "cl_stdy cl = None"
  shows "\<exists>s'. serve eng fd s = (Inr (), s') \<and> c_sent (conns s' fd) = c_sent (conns s fd) @ be32 SJ3_NotConnected"
proof -
  have "dispatch eng c t = (Inl (Error_ret SJ3_NotConnected), t)" if "clients t = clients s" "cur_cli t = fd" for t
    using assms(2) that cl
    by (auto simp: dispatch_def exec_disconnect_def exec_lock_def exec_unlock_def connected_def the_cli_def bnd_def gets_def need_def ret_def fail_def jump_def)
  then obtain b p q where run: "bnd get_int (dispatch eng) (load_conn fd s)
      = (Inl (Error_ret SJ3_NotConnected), (load_conn fd s)\<lparr>s_getbuf := b, s_getpos := p, s_rq := q\<rparr>)"
    using read_command [OF assms(1), of "dispatch eng"] by (auto simp: load_conn_def)
  show ?thesis by (rule serve_fails [OF run]) (use assms(3) in \<open>simp_all add: load_conn_def\<close>)
qed

section \<open>The properties\<close>

text \<open>
  C21. In every state the server can reach, every dictionary on the list of a work area is
  open, and its reference count is at least the number of list entries, over all work
  areas, that point to it. No request follows a dangling dictionary pointer.
\<close>

theorem listed_dicts_open:
  assumes "reachable eng s" "(w, p) \<in> set (worklist s)" "i \<in> set (Jdictlist p)"
  shows "\<exists>d \<in> set (dictlink s). dicid d = i \<and> int (sum_list (map (\<lambda>(w, p). count_list (Jdictlist p) i) (worklist s))) \<le> df_refcnt d"
  by (rule listed_open [OF reachable_orderly [OF assms(1)] assms(2,3)])

theorem listed_dicts_open_witness:
  "7 \<in> set (Jdictlist (demo_work\<lparr>Jdictlist := [7], wa_lock := 4\<rparr>))
   \<and> (\<exists>d \<in> set (dictlink demo5). dicid d = 7 \<and> int (sum_list (map (\<lambda>(w, p). count_list (Jdictlist p) 7) (worklist demo5))) \<le> df_refcnt d)"
  using listed_dicts_open [OF demo_reachable, of 0 "demo_work\<lparr>Jdictlist := [7], wa_lock := 4\<rparr>" 7] by (simp add: demo5_def)

text \<open>
  C23. The study file of every client is open, and its reference count is at least the
  number of clients that have it.
\<close>

theorem client_studies_open:
  assumes "reachable eng s" "c \<in> set (clients s)" "cl_stdy c = Some i"
  shows "\<exists>f \<in> set (stdylink s). stdy_ino f = i \<and> int (length (filter (\<lambda>c. cl_stdy c = Some i) (clients s))) \<le> sf_refcnt f"
  by (rule study_open [OF reachable_orderly [OF assms(1)] assms(2,3)])

theorem client_studies_open_witness:
  "clients demo5 = [demo_client\<lparr>cl_stdy := Some 8\<rparr>]
   \<and> (\<exists>f \<in> set (stdylink demo5). stdy_ino f = 8 \<and> int (length (filter (\<lambda>c. cl_stdy c = Some 8) (clients demo5))) \<le> sf_refcnt f)"
  using client_studies_open [OF demo_reachable, of "demo_client\<lparr>cl_stdy := Some 8\<rparr>" 8] by (simp add: demo5_def demo4_def)

text \<open>
  C22. A lock on an open dictionary belongs to a client that is connected now: it has the
  descriptor of the lock, holds the lock of its work area, has the dictionary on its list,
  and the dictionary is writable. A client that goes away leaves no lock behind.
\<close>

theorem locks_have_owners:
  assumes "reachable eng s" "d \<in> set (dictlink s)" "fd \<in> df_lock d"
  shows "\<exists>c \<in> set (clients s). \<exists>w p. cl_fd c = fd \<and> cl_work c = Some w \<and> (w, p) \<in> set (worklist s) \<and> wa_lock p = int fd
    \<and> dicid d \<in> set (Jdictlist p) \<and> maxunit d \<noteq> 0"
  by (rule lock_owned [OF reachable_orderly [OF assms(1)] assms(2,3)])

theorem locks_have_owners_witness:
  "dictlink demo5 = [demo_df\<lparr>df_lock := {4}\<rparr>]
   \<and> (\<exists>c \<in> set (clients demo5). \<exists>w p. cl_fd c = 4 \<and> cl_work c = Some w \<and> (w, p) \<in> set (worklist demo5) \<and> wa_lock p = int 4
      \<and> dicid (demo_df\<lparr>df_lock := {4}\<rparr>) \<in> set (Jdictlist p) \<and> maxunit (demo_df\<lparr>df_lock := {4}\<rparr>) \<noteq> 0)"
proof -
  have d: "dictlink demo5 = [demo_df\<lparr>df_lock := {4}\<rparr>]" by (simp add: demo5_def)
  then show ?thesis using locks_have_owners [OF demo_reachable, of "demo_df\<lparr>df_lock := {4}\<rparr>" 4] by simp
qed



text \<open>
  C27. The set of descriptors that \<^verbatim>\<open>select\<close> waits for is that of the clients and the
  listening socket, and \<^verbatim>\<open>maxfds\<close> is one more than the greatest of them.
\<close>

theorem descriptors_exact:
  assumes "reachable eng s"
  shows "fds_org (srv_fds s) = insert (fd_unix s) (client_fds s) \<and> maxfds (srv_fds s) = Max (insert (fd_unix s) (client_fds s)) + 1"
proof -
  have "cli_ok (books s)" using books_okD(1) [OF reachable_books [OF assms]] .
  then have "fds_org (b_fds (books s)) = insert (b_unix (books s)) (client_fds s)" "fds_wf (b_fds (books s))"
    unfolding cli_ok_def client_fds_books by blast+
  then show ?thesis by (simp add: fds_wf_def)
qed

theorem descriptors_exact_witness:
  "fds_org (srv_fds demo5) = {3, 4} \<and> maxfds (srv_fds demo5) = 5"
  using descriptors_exact [OF demo_reachable] by (simp add: demo_fds) (simp add: demo_states demo0_def)

text \<open>
  C26. There are never more than \<^verbatim>\<open>MAXCLIENTNUM\<close> clients, \<^verbatim>\<open>client_num\<close> is their
  number, and no two of them have one descriptor or one work area.
\<close>

theorem clients_bounded:
  assumes "reachable eng s"
  shows "length (clients s) \<le> 512 \<and> client_num s = int (length (clients s)) \<and> distinct (map cl_fd (clients s))
    \<and> (\<forall>c \<in> set (clients s). \<forall>c' \<in> set (clients s). cl_work c = cl_work c' \<longrightarrow> cl_work c \<noteq> None \<longrightarrow> c = c')"
proof -
  note ok = reachable_books [OF assms]
  have "cli_ok (books s)" "work_ok (books s)" using books_okD [OF ok] by blast+
  then have "length (clients s) \<le> 512" "client_num s = int (length (clients s))" by (auto simp: cli_ok_def)
  moreover have d: "distinct (map cl_fd (clients s))" by (rule reachable_distinct [OF assms])
  moreover have "c = c'" if c: "c \<in> set (clients s)" "c' \<in> set (clients s)" "cl_work c = cl_work c'" "cl_work c \<noteq> None" for c c'
  proof -
    obtain w where w: "cl_work c = Some w" using c(4) by blast
    have "ck_fd (ck_of c) = ck_fd (ck_of c')"
      by (rule work_okD(4) [OF \<open>work_ok (books s)\<close>, of _ _ w]) (use c w in auto)
    then show ?thesis using d c(1,2) by (auto simp: distinct_map inj_on_def)
  qed
  ultimately show ?thesis by blast
qed

theorem clients_bounded_witness: "length (clients demo5) \<le> 512 \<and> client_num demo5 = 1"
  using clients_bounded [OF demo_reachable] by (simp add: demo_states)

text \<open>
  C24. In a reachable state the commands that close files, disconnect and lock have no
  undefined behaviour: they return or leave with an error number, whatever the client
  sends as their arguments.
\<close>

theorem closing_is_safe:
  assumes "reachable eng s" "fd \<in> client_fds s"
    "m \<in> {exec_disconnect, exec_closedict, exec_closestdy, exec_lock, exec_unlock}"
  shows "fst (m (load_conn fd s)) \<notin> {Inl Ub, Inl Hang, Inl Exit}"
  using keeps_safe [OF _ reachable_orderly [OF assms(1)] assms(2)] assms(3)
    keeps_disconnect [of False] keeps_closedict [of False] keeps_closestdy [of False] keeps_lock [of False] keeps_unlock [of False]
  by blast

theorem closing_is_safe_witness: "fst (exec_disconnect (load_conn 4 demo5)) \<notin> {Inl Ub, Inl Hang, Inl Exit}"
  by (rule closing_is_safe [OF demo_reachable]) (simp_all add: demo_fds)

text \<open>
  C25. Dropping a client always succeeds: its files are closed, its work area is freed, the
  other clients stay, and no dictionary is locked by its descriptor any more.
\<close>

theorem drop_client_total:
  assumes "reachable eng s" "fd \<in> client_fds s"
  shows "\<exists>s'. disconnect_client fd (load_conn fd s) = (Inr (), s') \<and> client_fds s' = client_fds s - {fd}
    \<and> (\<forall>d \<in> set (dictlink s'). fd \<notin> df_lock d)"
proof -
  obtain s' where s': "disconnect_client fd (load_conn fd s) = (Inr (), s')" "orderly s'" "client_fds s' = client_fds s - {fd}"
    using disconnect_total [OF reachable_orderly [OF assms(1)] assms(2)] by blast
  have "fd \<notin> df_lock d" if "d \<in> set (dictlink s')" for d
    using lock_owned [OF s'(2) that] s'(3) by (force simp: client_fds_def)
  then show ?thesis using s' by blast
qed

theorem drop_client_total_witness:
  "\<exists>s'. disconnect_client 4 (load_conn 4 demo5) = (Inr (), s') \<and> client_fds s' = {} \<and> (\<forall>d \<in> set (dictlink s'). 4 \<notin> df_lock d)"
  using drop_client_total [OF demo_reachable, of 4] by (simp add: demo_fds)


lemma demo4_reachable: "reachable demo_engine (demo4\<lparr>conns := asks [0, 0, 0, 31]\<rparr>)"
  by (rule arrival [OF demo_reachable4])


text \<open>
  C30. A command number that the server does not know is answered with exactly the four
  bytes of \<^verbatim>\<open>SJ3_IllegalCommand\<close>.
\<close>

theorem illegal_command_reply:
  assumes "sstream (c_rq (conns s fd)) = be32 c @ bs" "c \<notin> set commands" "writable (c_wq (conns s fd))"
  shows "\<exists>s'. serve eng fd s = (Inr (), s') \<and> c_sent (conns s' fd) = c_sent (conns s fd) @ be32 SJ3_IllegalCommand"
  by (rule illegal_reply [OF assms])

theorem illegal_command_reply_witness:
  "\<exists>s'. serve demo_engine 4 (demo4\<lparr>conns := asks [0, 0, 0, 99]\<rparr>) = (Inr (), s') \<and> c_sent (conns s' 4) = be32 SJ3_IllegalCommand"
  using illegal_command_reply [of "demo4\<lparr>conns := asks [0, 0, 0, 99]\<rparr>" 4 99 "[]" demo_engine]
  by (simp add: asks_def no_conn_def be32_def commands_def byte3_def byte2_def byte1_def byte0_def writable_def)

text \<open>
  C31. Before \<^verbatim>\<open>SJ3_CONNECT\<close> has succeeded, locking, unlocking and disconnecting are
  answered with exactly the four bytes of \<^verbatim>\<open>SJ3_NotConnected\<close>.
\<close>

theorem not_connected_reply:
  assumes "sstream (c_rq (conns s fd)) = be32 c @ bs" "c \<in> {SJ3_DISCONNECT, SJ3_LOCK, SJ3_UNLOCK}" "writable (c_wq (conns s fd))"
    "find (\<lambda>c. cl_fd c = fd) (clients s) = Some cl" "cl_work cl = None" "cl_stdy cl = None"
  shows "\<exists>s'. serve eng fd s = (Inr (), s') \<and> c_sent (conns s' fd) = c_sent (conns s fd) @ be32 SJ3_NotConnected"
  by (rule unconnected_reply [OF assms])

theorem not_connected_reply_witness:
  "\<exists>s'. serve demo_engine 4 (demo1\<lparr>conns := asks [0, 0, 0, 31]\<rparr>) = (Inr (), s') \<and> c_sent (conns s' 4) = be32 SJ3_NotConnected"
  using not_connected_reply [of "demo1\<lparr>conns := asks [0, 0, 0, 31]\<rparr>" 4 31 "[]" "new_client 4" demo_engine]
  by (simp add: asks_def no_conn_def be32_def byte3_def byte2_def byte1_def byte0_def demo1_def new_client_def writable_def)

end
