(* ===== verification/Sj_Yomi.thy ===== *)
theory Sj_Yomi
  imports Sj_Io
begin

text \<open>
  \<^verbatim>\<open>lib/sj3core/sj2code.c\<close>, \<^verbatim>\<open>chrtbl.c\<close>, \<^verbatim>\<open>s2ctbl.c\<close>, the character routines of
  \<^verbatim>\<open>hzstrlen.c\<close>, and \<^verbatim>\<open>cd2sjh_chr\<close> of \<^verbatim>\<open>peepdic.c\<close>: the codes of one byte in which
  the dictionaries keep readings, and the conversion from and to EUC. \<open>chrtbl\<close> gives the
  class of a code, \<open>kigou\<close> the codes of the EUC rows \<^verbatim>\<open>0xa1\<close> and \<^verbatim>\<open>0xa2\<close>.
\<close>

abbreviation SS2 :: u8 where "SS2 \<equiv> 0x8e"
abbreviation SS3 :: u8 where "SS3 \<equiv> 0x8f"
abbreviation TYOUON :: u8 where "TYOUON \<equiv> 1"
abbreviation IGETA :: u8 where "IGETA \<equiv> 2"
abbreviation ATTO :: u8 where "ATTO \<equiv> 3"
abbreviation YUUBIN :: u8 where "YUUBIN \<equiv> 4"
abbreviation N_0 :: u8 where "N_0 \<equiv> 0x10"
abbreviation N_9 :: u8 where "N_9 \<equiv> 0x19"
abbreviation A_A :: u8 where "A_A \<equiv> 0x1a"
abbreviation A_Z :: u8 where "A_Z \<equiv> 0x33"
abbreviation A_a :: u8 where "A_a \<equiv> 0x34"
abbreviation A_z :: u8 where "A_z \<equiv> 0x4d"
abbreviation H_XA :: u8 where "H_XA \<equiv> 0x4e"
abbreviation H_NN :: u8 where "H_NN \<equiv> 0xa0"
abbreviation H_VU :: u8 where "H_VU \<equiv> 0xa1"
abbreviation H_XKA :: u8 where "H_XKA \<equiv> 0xa2"
abbreviation H_XKE :: u8 where "H_XKE \<equiv> 0xa3"
abbreviation Y_KUTEN :: u8 where "Y_KUTEN \<equiv> 0xf2"
abbreviation Y_HANKAKU :: u8 where "Y_HANKAKU \<equiv> 0xfd"
abbreviation Y_ZENKAKU :: u8 where "Y_ZENKAKU \<equiv> 0xfe"

abbreviation DICTOP :: u8 where "DICTOP \<equiv> 0x01"
abbreviation DEPEND :: u8 where "DEPEND \<equiv> 0x04"

section \<open>Tables\<close>

definition chrtbl :: "u8 list" where
  "chrtbl =
    [0, 2, 0x21, 0x21, 0x61, 0, 0, 0, 0, 0, 0, 0, 0, 0, 0, 0,
     9, 9, 9, 9, 9, 9, 9, 9, 9, 9, 0x21, 0x21, 0x21, 0x21, 0x21, 0x21,
     0x21, 0x21, 0x21, 0x21, 0x21, 0x21, 0x21, 0x21, 0x21, 0x21, 0x21, 0x21, 0x21, 0x21, 0x21, 0x21,
     0x21, 0x21, 0x21, 0x21, 0x21, 0x21, 0x21, 0x21, 0x21, 0x21, 0x21, 0x21, 0x21, 0x21, 0x21, 0x21,
     0x21, 0x21, 0x21, 0x21, 0x21, 0x21, 0x21, 0x21, 0x21, 0x21, 0x21, 0x21, 0x21, 0x21, 4, 1,
     4, 1, 4, 1, 4, 1, 4, 1, 1, 1, 1, 1, 1, 1, 1, 1,
     1, 1, 1, 1, 1, 1, 1, 1, 1, 1, 1, 1, 1, 1, 1, 1,
     2, 1, 1, 1, 1, 1, 1, 1, 1, 1, 1, 1, 1, 1, 1, 1,
     1, 1, 1, 1, 1, 1, 1, 1, 1, 1, 1, 1, 1, 1, 1, 1,
     4, 1, 4, 1, 4, 1, 1, 1, 1, 1, 1, 4, 1, 1, 1, 2,
     1, 1, 4, 4, 0, 0, 0, 0, 0, 0, 0, 0, 0, 0, 0, 0,
     0, 0, 0, 0, 0, 0, 0, 0, 0, 0, 0, 0, 0, 0, 0, 0,
     0, 0, 0, 0, 0, 0, 0, 0, 0, 0, 0, 0, 0, 0, 0, 0,
     0, 0, 0, 0, 0, 0, 0, 0, 0, 0, 0, 0, 0, 0, 0, 0,
     0, 0, 0, 0, 0, 0, 0, 0, 0, 0, 0, 0, 0, 0, 0, 0,
     0, 0, 0x10, 0x10, 0x90, 0x90, 0x30, 0x30, 0x60, 0x20, 0x10, 0x20, 0x20, 0x20, 0x20, 0]"

definition kigou :: "u8 list" where
  "kigou =
    [0xfa, 0xf2, 0xf3, 0xf4, 0xf5, 0xfa, 0xfa, 0xfa, 0xf7, 0xf7, 0xfc, 0xfc, 0xfc, 0xfc, 0xfc, 0xfc,
     0xfc, 0xfc, 0xfc, 0xfc, 0xfc, 0xfc, 0xfc, 0xfc, 0xfc, 0xfc, 0xfc, 1, 0xfc, 0xfc, 0xfc, 0xfc,
     0xfc, 0xfc, 0xfc, 0xfc, 0xfc, 0xfa, 0xf6, 0xfa, 0xf6, 0xfa, 0xfb, 0xfa, 0xfb, 0xfa, 0xfb, 0xfa,
     0xfb, 0xfa, 0xfb, 0xfa, 0xfb, 0xfa, 0xfb, 0xfa, 0xfb, 0xfa, 0xfb, 0xfc, 0xfc, 0xfc, 0xfc, 0xfc,
     0xfc, 0xfc, 0xfc, 0xfc, 0xfc, 0xfc, 0xfc, 0xfc, 0xfc, 0xfc, 0xfc, 0xfc, 0xfc, 0xf9, 0xf8, 0xf8,
     0xf9, 0xf8, 0xf9, 2, 0xfc, 0xfc, 3, 0xfc, 0xfc, 0xfc, 0xfc, 0xfc, 0xfc, 0xfc, 0xfc, 0xfc,
     0xfc, 0xfc, 0xfc, 0xfc, 0xfc, 0xfc, 4, 0xfc, 0xfc, 0xfc, 0xfc, 0xfc]"

definition Chrtbl :: "u8 \<Rightarrow> u8" where
  "Chrtbl c = chrtbl ! unat c"

definition isdpnd :: "u8 \<Rightarrow> bool" where
  "isdpnd c \<longleftrightarrow> Chrtbl c AND DEPEND \<noteq> 0"

section \<open>From EUC to reading codes\<close>

definition kigou_at :: "nat \<Rightarrow> u8 option" where
  "kigou_at i = rd kigou i"

text \<open>The code and the number of bytes it stands for; the second byte is read where C reads it.\<close>

definition sj2cd_chr :: "cbuf \<Rightarrow> nat \<Rightarrow> (u8 \<times> nat) option" where
  "sj2cd_chr euc i = do {
     chr \<leftarrow> rd euc i;
     if chr = 0xa1 then do {
       c \<leftarrow> rd euc (i + 1);
       if c < 0xa1 then Some (Y_ZENKAKU, 2)
       else if c \<le> 0xfe then do { k \<leftarrow> kigou_at (unat c - 0xa1); Some (k, 2) }
       else Some (Y_ZENKAKU, 2) }
     else if chr = 0xa2 then do {
       c \<leftarrow> rd euc (i + 1);
       if c < 0xa1 then Some (Y_ZENKAKU, 2)
       else if c \<le> 0xae then do { k \<leftarrow> kigou_at (unat c - 0xa1 + 94); Some (k, 2) }
       else Some (Y_ZENKAKU, 2) }
     else if chr = 0xa3 then do {
       c \<leftarrow> rd euc (i + 1);
       Some (if c < 0xb0 then Y_ZENKAKU
         else if c \<le> 0xb9 then c - 0xb0 + N_0
         else if c < 0xc1 then Y_ZENKAKU
         else if c \<le> 0xda then c - 0xc1 + A_A
         else if c < 0xe1 then Y_ZENKAKU
         else if c \<le> 0xfa then c - 0xe1 + A_a
         else Y_ZENKAKU, 2) }
     else if chr = 0xa4 then do {
       c \<leftarrow> rd euc (i + 1);
       Some (if c < 0xa1 then Y_ZENKAKU
         else if c \<le> 0xf3 then c - 0xa1 + H_XA
         else Y_ZENKAKU, 2) }
     else if chr = 0xa5 then do {
       c \<leftarrow> rd euc (i + 1);
       Some (if c = 0xf4 then H_VU else if c = 0xf5 then H_XKA else if c = 0xf6 then H_XKE
         else Y_ZENKAKU, 2) }
     else if chr AND 0x80 = 0 then Some (Y_HANKAKU, 1)
     else if chr = SS2 then Some (Y_HANKAKU, 2)
     else if chr = SS3 then Some (Y_ZENKAKU, 3)
     else Some (Y_ZENKAKU, 2) }"

text \<open>
  The loop of \<^verbatim>\<open>sj2cd_str\<close> at offset \<open>i\<close> of the input and \<open>j\<close> of the output, with room
  for \<open>len\<close> more codes. The result tells whether the input was read to its end.
\<close>

fun sj2cd_loop :: "cbuf \<Rightarrow> nat \<Rightarrow> cbuf \<Rightarrow> nat \<Rightarrow> nat \<Rightarrow> (bool \<times> cbuf) option" where
  "sj2cd_loop euc i yomi j 0 = do {
     c \<leftarrow> rd euc i; yomi \<leftarrow> wr yomi j 0; Some (c = 0, yomi) }"
| "sj2cd_loop euc i yomi j (Suc len) = do {
     c \<leftarrow> rd euc i;
     if c = 0 then do { yomi \<leftarrow> wr yomi j 0; Some (True, yomi) }
     else do {
       (k, n) \<leftarrow> sj2cd_chr euc i;
       yomi \<leftarrow> wr yomi j k;
       sj2cd_loop euc (i + n) yomi (j + 1) len } }"

definition sj2cd_str :: "cbuf \<Rightarrow> cbuf \<Rightarrow> nat \<Rightarrow> nat \<Rightarrow> (bool \<times> cbuf) option" where
  "sj2cd_str euc yomi j len = (if len = 0 then Some (False, yomi) else sj2cd_loop euc 0 yomi j (len - 1))"

section \<open>From reading codes to EUC\<close>

text \<open>The two bytes \<^verbatim>\<open>cd2sjh_chr\<close> writes, if it writes any.\<close>

definition cd2sjh_chr :: "u8 \<Rightarrow> (u8 \<times> u8) option" where
  "cd2sjh_chr ch =
     (if ch = TYOUON then Some (0xa1, 0xbc)
      else if ch = IGETA then Some (0xa1, 0xf4)
      else if ch = ATTO then Some (0xa1, 0xf7)
      else if ch = YUUBIN then Some (0xa2, 0xa9)
      else if ch < N_0 then None
      else if ch \<le> N_9 then Some (0xa3, ch + 0xa0)
      else if ch \<le> A_Z then Some (0xa3, ch + 0xa7)
      else if ch \<le> A_z then Some (0xa3, ch + 0xad)
      else if ch \<le> H_NN then Some (0xa4, ch + 0x53)
      else if ch \<le> H_XKE then Some (0xa5, ch + 0x53)
      else None)"

section \<open>Characters\<close>

definition isknj1 :: "u8 \<Rightarrow> bool" where
  "isknj1 c \<longleftrightarrow> c = SS2 \<or> (c AND 0x80 \<noteq> 0 \<and> c \<noteq> SS3)"

definition euc_codesize :: "u8 \<Rightarrow> nat" where
  "euc_codesize c = (if c AND 0xf0 = 0x90 then 1 else if isknj1 c then 2 else if c = SS3 then 3 else 1)"

fun hzstrlen :: "cbuf \<Rightarrow> nat \<Rightarrow> nat \<Rightarrow> nat option" where
  "hzstrlen ptr i 0 = Some 0"
| "hzstrlen ptr i (Suc len) = do {
     c \<leftarrow> rd ptr i;
     n \<leftarrow> hzstrlen ptr (i + euc_codesize c) len;
     Some (euc_codesize c + n) }"

section \<open>Readings come back\<close>

text \<open>The codes a reading of a dictionary may have: those of a class, below the punctuation.\<close>

definition yomi_code :: "u8 \<Rightarrow> bool" where
  "yomi_code c \<longleftrightarrow> Chrtbl c \<noteq> 0 \<and> c < Y_KUTEN"

lemma yomi_code_iff: "yomi_code c \<longleftrightarrow> (1 \<le> c \<and> c \<le> 4) \<or> (0x10 \<le> c \<and> c \<le> 0xa3)"
proof -
  have "\<forall>n \<in> set [0..<256]. (chrtbl ! n \<noteq> 0 \<and> n < 0xf2) \<longleftrightarrow> (1 \<le> n \<and> n \<le> 4) \<or> (0x10 \<le> n \<and> n \<le> 0xa3)"
    by code_simp
  then have "(chrtbl ! unat c \<noteq> 0 \<and> unat c < 0xf2) \<longleftrightarrow> (1 \<le> unat c \<and> unat c \<le> 4) \<or> (0x10 \<le> unat c \<and> unat c \<le> 0xa3)"
    using unsigned_less [of c] by (simp only: set_upt atLeastLessThan_iff) simp
  then show ?thesis by (simp add: yomi_code_def Chrtbl_def word_less_nat_alt word_le_nat_alt)
qed

definition euc_of :: "u8 \<Rightarrow> u8 list" where
  "euc_of c = (case cd2sjh_chr c of None \<Rightarrow> [] | Some (a, b) \<Rightarrow> [a, b])"

definition euc_of_str :: "u8 list \<Rightarrow> u8 list" where
  "euc_of_str ys = concat (map euc_of ys)"

lemma sj2cd_two:
  assumes "rd euc i = Some a" "rd euc (i + 1) = Some b"
  shows "sj2cd_chr euc i = sj2cd_chr [a, b] 0"
  using assms by (simp add: sj2cd_chr_def rd_def)

lemma code_shown:
  assumes "yomi_code c"
  shows "\<exists>a b. cd2sjh_chr c = Some (a, b) \<and> a \<noteq> 0 \<and> sj2cd_chr [a, b] 0 = Some (c, 2)"
proof -
  have "\<forall>n \<in> set ([1..<5] @ [0x10..<0xa4]). case cd2sjh_chr (of_nat n) of None \<Rightarrow> False
      | Some (a, b) \<Rightarrow> a \<noteq> 0 \<and> sj2cd_chr [a, b] 0 = Some (of_nat n, 2)"
    by code_simp
  moreover have "unat c \<in> set ([1..<5] @ [0x10..<0xa4])"
    using assms by (simp only: yomi_code_iff word_le_nat_alt set_append set_upt Un_iff atLeastLessThan_iff) fastforce
  ultimately have "case cd2sjh_chr (of_nat (unat c)) of None \<Rightarrow> False
      | Some (a, b) \<Rightarrow> a \<noteq> 0 \<and> sj2cd_chr [a, b] 0 = Some (of_nat (unat c), 2)"
    by blast
  then show ?thesis by (simp split: option.splits prod.splits)
qed

lemma sj2cd_loop_shown:
  assumes "list_all yomi_code ys" "length ys \<le> len" "drop i euc = euc_of_str ys @ 0 # r" "j + length ys < length dst"
  shows "sj2cd_loop euc i dst j len = Some (True, take j dst @ ys @ 0 # drop (j + length ys + 1) dst)"
  using assms
proof (induction ys arbitrary: i j len dst)
  case Nil
  then have "rd euc i = Some 0" by (simp add: euc_of_str_def drop_rds)
  with Nil show ?case by (cases len) (simp_all add: wr_def upd_conv_take_nth_drop)
next
  case (Cons c ys)
  from Cons.prems obtain len' where len: "len = Suc len'" by (cases len) auto
  from code_shown [of c] Cons.prems(1) obtain a b where ab: "cd2sjh_chr c = Some (a, b)" "a \<noteq> 0"
    "sj2cd_chr [a, b] 0 = Some (c, 2)" by auto
  then have d: "drop i euc = a # b # euc_of_str ys @ 0 # r" using Cons.prems(3) by (simp add: euc_of_str_def euc_of_def)
  then have r: "rd euc i = Some a" "rd euc (i + 1) = Some b" "drop (i + 2) euc = euc_of_str ys @ 0 # r"
    using drop_rds(1,2,4) by simp_all
  have "sj2cd_loop euc (i + 2) (dst[j := c]) (j + 1) len' =
      Some (True, take (j + 1) (dst[j := c]) @ ys @ 0 # drop (j + 1 + length ys + 1) (dst[j := c]))"
    using Cons.prems(1,2,4) len r(3) by (intro Cons.IH) simp_all
  then show ?case
    using len r ab sj2cd_two [OF r(1,2)] Cons.prems(4)
    by (simp add: wr_def take_Suc_conv_app_nth)
qed

lemma sj2cd_str_shown:
  assumes "list_all yomi_code ys" "length ys < len" "j + length ys < length dst"
  shows "sj2cd_str (euc_of_str ys @ 0 # r) dst j len = Some (True, take j dst @ ys @ 0 # drop (j + length ys + 1) dst)"
  using assms by (simp add: sj2cd_str_def sj2cd_loop_shown)

end
