(* ===== verification/Sj_Dict.thy ===== *)
theory Sj_Dict
  imports Sj_Yomi
begin

text \<open>
  The segments and the index of a user dictionary, byte by byte: the macros of
  \<^verbatim>\<open>include/sj3core/sj_dict.h\<close> and \<^verbatim>\<open>charsize.c\<close>, \<^verbatim>\<open>skipkstr.c\<close>, \<^verbatim>\<open>skiphblk.c\<close>,
  \<^verbatim>\<open>istrcmp.c\<close>, \<^verbatim>\<open>sstrcmp.c\<close>, \<^verbatim>\<open>sstrncmp.c\<close>, \<^verbatim>\<open>cmpstr.c\<close>, \<^verbatim>\<open>mvmemi.c\<close>,
  \<^verbatim>\<open>mvmemd.c\<close>, \<^verbatim>\<open>srchidx.c\<close>, \<^verbatim>\<open>srchdict.c\<close> (\<^verbatim>\<open>yomicmp\<close>), \<^verbatim>\<open>addelcmn.c\<close>,
  \<^verbatim>\<open>getkanji.c\<close> and \<^verbatim>\<open>get_askknj\<close> of \<^verbatim>\<open>dict.c\<close> in \<^verbatim>\<open>lib/sj3core\<close>.

  \<open>d\<close> is the object seen from \<^verbatim>\<open>dicbuf\<close>, \<open>ix\<close> the object seen from \<^verbatim>\<open>idxbuf\<close>
  (both are parts of the buffer of the dictionary), \<open>sl\<close> is \<^verbatim>\<open>curdict->seglen\<close>. A
  pointer is an offset. A segment is a table of common kanji strings (empty in a user
  dictionary), then blocks of words with the same reading, in the order of the readings,
  then \<open>DICSEGTERM\<close> up to the end. A block has a header of three bytes (its size, how many
  codes of the reading it shares with the block before, how many follow), the rest of the
  reading, and blocks of words of the same class: the class, the kanji strings, each with
  a terminator, and \<open>HINSIBLKTERM\<close>.
\<close>

abbreviation DICSEGTERM :: u8 where "DICSEGTERM \<equiv> 0xff"
abbreviation HINSIBLKTERM :: u8 where "HINSIBLKTERM \<equiv> 0xff"
abbreviation KANJISTREND :: u8 where "KANJISTREND \<equiv> 0"
abbreviation ZENHIRAASSYUKU :: u8 where "ZENHIRAASSYUKU \<equiv> 0x80"
abbreviation OFFSETASSYUKU :: u8 where "OFFSETASSYUKU \<equiv> 0x90"
abbreviation ZENKATAASSYUKU :: u8 where "ZENKATAASSYUKU \<equiv> 0xa0"
abbreviation AIATTRIBUTE :: u8 where "AIATTRIBUTE \<equiv> 0xb0"
abbreviation KANJIASSYUKU :: u8 where "KANJIASSYUKU \<equiv> 0xc0"
abbreviation LEADINGHANKAKU :: u8 where "LEADINGHANKAKU \<equiv> 0xd0"
abbreviation NORMALKANJIMASK :: u8 where "NORMALKANJIMASK \<equiv> 0x7f"
abbreviation KANJIMODEMASK :: u8 where "KANJIMODEMASK \<equiv> 0xf0"
abbreviation ASSYUKUYOMITOP :: u8 where "ASSYUKUYOMITOP \<equiv> 0x80"
abbreviation NOKORIYOMITOP :: u8 where "NOKORIYOMITOP \<equiv> 0x40"
abbreviation DOUONBLKSIZENUMBER :: nat where "DOUONBLKSIZENUMBER \<equiv> 3"
abbreviation MAXYOMIASKNUMBER :: nat where "MAXYOMIASKNUMBER \<equiv> 16"
abbreviation MAXWDYOMILEN :: nat where "MAXWDYOMILEN \<equiv> 31"
abbreviation MAXWDKANJILEN :: nat where "MAXWDKANJILEN \<equiv> 64"

datatype cmp = MATCH | OVER | PARTLY | CONT | UNDER

section \<open>Blocks\<close>

definition getsize :: "cbuf \<Rightarrow> nat \<Rightarrow> nat option" where
  "getsize d p = do { a \<leftarrow> rd d p; b \<leftarrow> rd d (p + 1); Some (unat (a AND 0x0f) * 0x100 + unat b) }"

definition getntag :: "cbuf \<Rightarrow> nat \<Rightarrow> nat option" where
  "getntag d p = do {
     a \<leftarrow> rd d p;
     if a = DICSEGTERM then Some p else do { n \<leftarrow> getsize d p; Some (p + n) } }"

definition getplen :: "cbuf \<Rightarrow> nat \<Rightarrow> nat option" where
  "getplen d p = do {
     a \<leftarrow> rd d p; c \<leftarrow> rd d (p + 2);
     Some ((if a AND ASSYUKUYOMITOP \<noteq> 0 then 0x10 else 0) + unat (drop_bit 4 c)) }"

definition getnlen :: "cbuf \<Rightarrow> nat \<Rightarrow> nat option" where
  "getnlen d p = do {
     a \<leftarrow> rd d p; c \<leftarrow> rd d (p + 2);
     Some ((if a AND NOKORIYOMITOP \<noteq> 0 then 0x10 else 0) + unat (c AND 0x0f)) }"

definition segtop :: "cbuf \<Rightarrow> nat option" where
  "segtop d = do { a \<leftarrow> rd d 0; Some (unat a + 1) }"

text \<open>\<^verbatim>\<open>segend\<close> reads the byte before it looks at the bound.\<close>

definition segend :: "cbuf \<Rightarrow> nat \<Rightarrow> nat \<Rightarrow> bool option" where
  "segend d sl p = do { a \<leftarrow> rd d p; Some (a = DICSEGTERM \<or> p \<ge> sl) }"

definition set_size :: "cbuf \<Rightarrow> nat \<Rightarrow> nat \<Rightarrow> nat \<Rightarrow> nat \<Rightarrow> cbuf option" where
  "set_size d p sz plen nlen = do {
     let a = of_nat (sz div 256);
     let a = (if nlen div 16 mod 2 = 1 then a OR NOKORIYOMITOP else a);
     let a = (if plen div 16 mod 2 = 1 then a OR ASSYUKUYOMITOP else a);
     d \<leftarrow> wr d p a;
     d \<leftarrow> wr d (p + 1) (of_nat sz);
     wr d (p + 2) (of_nat (nlen mod 16) OR push_bit 4 (of_nat (plen mod 16))) }"

section \<open>Kanji strings\<close>

definition codesize :: "u8 \<Rightarrow> nat" where
  "codesize code =
     (let m = code AND KANJIMODEMASK in
      if m = ZENHIRAASSYUKU \<or> m = ZENKATAASSYUKU \<or> m = KANJIASSYUKU \<or> m = KANJISTREND then 1 else 2)"

lemma codesize_pos [simp]: "0 < codesize c"
  by (simp add: codesize_def Let_def)

function skipkstr :: "cbuf \<Rightarrow> nat \<Rightarrow> nat option" where
  "skipkstr d p = do {
     c \<leftarrow> rd d p;
     e \<leftarrow> rd d (p + codesize c);
     if e = KANJISTREND then Some (p + codesize c + 1) else skipkstr d (p + codesize c) }"
  by pat_completeness auto
termination
proof (relation "measure (\<lambda>(d, p). length d - p)", goal_cases)
  case (2 d p c e)
  then show ?case using codesize_pos [of c] by (simp add: rd_Some_iff diff_less_mono2)
qed simp

declare skipkstr.simps [simp del]

lemma skipkstr_gt: "skipkstr d p = Some q \<Longrightarrow> p < q \<and> p < length d"
proof (induction d p rule: skipkstr.induct)
  case (1 d p)
  obtain c e where c: "rd d p = Some c" "rd d (p + codesize c) = Some e"
    using "1.prems" by (subst (asm) skipkstr.simps) (auto split: bind_splits)
  show ?case
  proof (cases "e = KANJISTREND")
    case True
    then show ?thesis using "1.prems" c by (subst (asm) skipkstr.simps) (auto simp: rd_Some_iff)
  next
    case False
    then have "skipkstr d (p + codesize c) = Some q" using "1.prems" c by (subst (asm) skipkstr.simps) simp
    then show ?thesis using "1.IH" [OF c False] c(1) by (auto simp: rd_Some_iff)
  qed
qed

function skip_kanji :: "cbuf \<Rightarrow> nat \<Rightarrow> nat option" where
  "skip_kanji d p = do {
     c \<leftarrow> rd d p;
     if c = HINSIBLKTERM then Some p else do { q \<leftarrow> skipkstr d p; skip_kanji d q } }"
  by pat_completeness auto
termination
  by (relation "measure (\<lambda>(d, p). length d - p)") (auto dest: skipkstr_gt)

declare skip_kanji.simps [simp del]

definition skiphblk :: "cbuf \<Rightarrow> nat \<Rightarrow> nat option" where
  "skiphblk d p = do { p \<leftarrow> skip_kanji d (p + 1); Some (p + 1) }"

section \<open>Strings and memory\<close>

definition str_at :: "cbuf \<Rightarrow> nat \<Rightarrow> nat option" where
  "str_at p i = strlen (drop i p)"

function istrcmp :: "cbuf \<Rightarrow> nat \<Rightarrow> cbuf \<Rightarrow> nat \<Rightarrow> nat \<Rightarrow> nat \<Rightarrow> cmp option" where
  "istrcmp yomi i idx j ylen ilen =
     (if ilen = 0 \<and> ylen = 0 then Some MATCH
      else if ilen = 0 then Some UNDER
      else if ylen = 0 then Some OVER
      else do {
        a \<leftarrow> rd yomi i; b \<leftarrow> rd idx j;
        if a < b then Some OVER
        else if a > b then Some UNDER
        else istrcmp yomi (i + 1) idx (j + 1) (ylen - 1) (ilen - 1) })"
  by pat_completeness auto
termination
  by (relation "measure (\<lambda>(y, i, x, j, yl, il). yl)") auto

declare istrcmp.simps [simp del]

function sstrcmp :: "cbuf \<Rightarrow> nat \<Rightarrow> cbuf \<Rightarrow> nat \<Rightarrow> bool option" where
  "sstrcmp src i dst j = do {
     a \<leftarrow> rd src i; b \<leftarrow> rd dst j;
     if a = 0 then Some (b \<noteq> 0)
     else if a \<noteq> b then Some True
     else sstrcmp src (i + 1) dst (j + 1) }"
  by pat_completeness auto
termination
  by (relation "measure (\<lambda>(s, i, d, j). length s - i)") (auto simp: rd_Some_iff)

declare sstrcmp.simps [simp del]

text \<open>\<^verbatim>\<open>cmpstr\<close> reads the second string only as far as it compares it.\<close>

function cmpstr :: "cbuf \<Rightarrow> nat \<Rightarrow> cbuf \<Rightarrow> nat \<Rightarrow> bool option" where
  "cmpstr src i dst j = do {
     a \<leftarrow> rd src i; b \<leftarrow> rd dst j;
     if a = 0 then Some (b = 0)
     else if a \<noteq> b then Some False
     else cmpstr src (i + 1) dst (j + 1) }"
  by pat_completeness auto
termination
  by (relation "measure (\<lambda>(s, i, d, j). length s - i)") (auto simp: rd_Some_iff)

declare cmpstr.simps [simp del]

fun sstrncmp :: "cbuf \<Rightarrow> nat \<Rightarrow> cbuf \<Rightarrow> nat \<Rightarrow> nat \<Rightarrow> cmp option" where
  "sstrncmp src i dst j 0 = Some MATCH"
| "sstrncmp src i dst j (Suc len) = do {
     a \<leftarrow> rd src i; b \<leftarrow> rd dst j;
     if a > b then Some CONT
     else if a < b then (if a = 0 then Some PARTLY else Some OVER)
     else sstrncmp src (i + 1) dst (j + 1) len }"

text \<open>The two moves, upward and downward, inside one object; a negative length moves nothing.\<close>

fun mvmemi :: "cbuf \<Rightarrow> nat \<Rightarrow> nat \<Rightarrow> nat \<Rightarrow> cbuf option" where
  "mvmemi d src dst 0 = Some d"
| "mvmemi d src dst (Suc len) = do {
     c \<leftarrow> rd d src; d \<leftarrow> wr d dst c; mvmemi d (src + 1) (dst + 1) len }"

fun mvmemd :: "cbuf \<Rightarrow> nat \<Rightarrow> nat \<Rightarrow> nat \<Rightarrow> cbuf option" where
  "mvmemd d src dst 0 = Some d"
| "mvmemd d src dst (Suc len) =
     (if src = 0 \<or> dst = 0 then None
      else do { c \<leftarrow> rd d (src - 1); d \<leftarrow> wr d (dst - 1) c; mvmemd d (src - 1) (dst - 1) len })"

text \<open>Bytes of another object copied in a loop, and \<^verbatim>\<open>memset\<close>; a negative length is a huge \<^verbatim>\<open>size_t\<close>.\<close>

fun put_bytes :: "cbuf \<Rightarrow> nat \<Rightarrow> u8 list \<Rightarrow> cbuf option" where
  "put_bytes d p [] = Some d"
| "put_bytes d p (c # cs) = do { d \<leftarrow> wr d p c; put_bytes d (p + 1) cs }"

definition memset :: "cbuf \<Rightarrow> nat \<Rightarrow> u8 \<Rightarrow> int \<Rightarrow> cbuf option" where
  "memset d p c n = (if n < 0 then None else put_bytes d p (replicate (nat n) c))"

section \<open>The index\<close>

text \<open>
  \<open>ofs\<close> is the table of the offsets of the index strings, so \<^verbatim>\<open>get_idxptr(seg)\<close> is
  \<open>rd ofs seg\<close>. The loop of \<^verbatim>\<open>srchidx\<close> carries the last comparison.
\<close>

function srchidx_loop ::
  "cbuf \<Rightarrow> nat list \<Rightarrow> cbuf \<Rightarrow> nat \<Rightarrow> int \<Rightarrow> int \<Rightarrow> (cmp \<times> int) option \<Rightarrow> int option" where
  "srchidx_loop ix ofs y len low high prev =
     (if low \<le> high then
        (let mid = (low + high) div 2 in do {
          target \<leftarrow> rd ofs (nat mid);
          n \<leftarrow> str_at ix target;
          c \<leftarrow> istrcmp y 0 ix target len n;
          if c = OVER then srchidx_loop ix ofs y len low (mid - 1) (Some (c, mid))
          else if c \<noteq> MATCH then srchidx_loop ix ofs y len (mid + 1) high (Some (c, mid))
          else Some mid })
      else do {
        (c, mid) \<leftarrow> prev;
        Some (if c = OVER \<and> mid \<noteq> 0 then mid - 1 else mid) })"
  by pat_completeness auto
termination
  by (relation "measure (\<lambda>(ix, ofs, y, len, low, high, prev). nat (high + 1 - low))") auto

declare srchidx_loop.simps [simp del]

definition srchidx :: "cbuf \<Rightarrow> nat list \<Rightarrow> int \<Rightarrow> cbuf \<Rightarrow> int \<Rightarrow> nat \<Rightarrow> int option" where
  "srchidx ix ofs unit y low len =
     (if unit - 1 < 1 then Some 0
      else srchidx_loop ix ofs y len (if low = - 1 then 0 else low) (unit - 1) None)"

definition count_uidx :: "cbuf \<Rightarrow> nat list \<Rightarrow> int \<Rightarrow> nat \<Rightarrow> nat option" where
  "count_uidx ix ofs unit idxlen = do {
     p \<leftarrow> rd ofs (nat (unit - 1));
     n \<leftarrow> str_at ix p;
     Some (nat ((int idxlen - int (p + n + 1)) mod 2 ^ 16)) }"

text \<open>The changes of the index area: a string replaced, put behind another, removed.\<close>

definition chg_idx :: "cbuf \<Rightarrow> nat list \<Rightarrow> nat \<Rightarrow> int \<Rightarrow> u8 list \<Rightarrow> cbuf option" where
  "chg_idx ix ofs q seg yomi = do {
     p \<leftarrow> rd ofs (nat seg);
     olen \<leftarrow> str_at ix p;
     let len = length yomi;
     ix \<leftarrow> (if len > olen then mvmemd ix (q - (len - olen)) q (nat (int q - int (len - olen) - int p))
             else mvmemi ix (p + (olen - len)) p (nat (int q - int (p + (olen - len)))));
     put_bytes ix p yomi }"

definition apnd_idx :: "cbuf \<Rightarrow> nat list \<Rightarrow> nat \<Rightarrow> int \<Rightarrow> u8 list \<Rightarrow> cbuf option" where
  "apnd_idx ix ofs q seg yomi = do {
     p \<leftarrow> rd ofs (nat seg);
     n \<leftarrow> str_at ix p;
     let p = p + n + 1;
     let len = length yomi;
     ix \<leftarrow> mvmemd ix (q - (len + 1)) q (nat (int q - int (len + 1) - int p));
     ix \<leftarrow> put_bytes ix p yomi;
     wr ix (p + len) 0 }"

definition del_idx :: "cbuf \<Rightarrow> nat list \<Rightarrow> nat \<Rightarrow> int \<Rightarrow> cbuf option" where
  "del_idx ix ofs idxlen seg = do {
     p \<leftarrow> rd ofs (nat seg);
     n \<leftarrow> str_at ix p;
     let q = p + n + 1;
     ix \<leftarrow> mvmemi ix q p (nat (int idxlen - int q));
     memset ix (idxlen - (q - p)) 0 (int (q - p)) }"

section \<open>Search in a segment\<close>

text \<open>
  \<^verbatim>\<open>yomicmp\<close> compares the reading \<open>y\<close> with the block at \<open>p\<close>; \<open>same\<close> is the number
  of codes the reading shares with the blocks before. A block without own codes is compared
  with the index string \<open>idxp\<close> of the segment.
\<close>

fun yomi_prefix :: "cbuf \<Rightarrow> nat \<Rightarrow> cbuf \<Rightarrow> nat \<Rightarrow> nat \<Rightarrow> bool option" where
  "yomi_prefix y i x j 0 = Some True"
| "yomi_prefix y i x j (Suc n) = do {
     a \<leftarrow> rd y i; b \<leftarrow> rd x j;
     if a \<noteq> b then Some False else yomi_prefix y (i + 1) x (j + 1) n }"

fun yomi_rest :: "cbuf \<Rightarrow> nat \<Rightarrow> cbuf \<Rightarrow> nat \<Rightarrow> nat \<Rightarrow> nat \<Rightarrow> nat \<Rightarrow> (cmp \<times> nat) option" where
  "yomi_rest y i d p 0 same saml = Some (MATCH, same mod 256)"
| "yomi_rest y i d p (Suc j) same saml = do {
     a \<leftarrow> rd y i; b \<leftarrow> rd d p;
     if a > b then Some (CONT, same mod 256)
     else if a < b then Some (OVER, saml)
     else yomi_rest y (i + 1) d (p + 1) j (same + 1) saml }"

definition yomicmp :: "cbuf \<Rightarrow> cbuf \<Rightarrow> nat \<Rightarrow> (cbuf \<times> nat) option \<Rightarrow> nat \<Rightarrow> (cmp \<times> nat) option" where
  "yomicmp y d p idxp saml = do {
     i \<leftarrow> getplen d p;
     j \<leftarrow> getnlen d p;
     if j = 0 then do {
       (ix, q) \<leftarrow> idxp;
       eq \<leftarrow> yomi_prefix y 0 ix q saml;
       if \<not> eq then Some (OVER, saml)
       else do { n \<leftarrow> str_at ix (q + saml); yomi_rest y saml ix (q + saml) n saml saml } }
     else if i > saml then Some (CONT, saml)
     else yomi_rest y i d (p + DOUONBLKSIZENUMBER) j i saml }"

text \<open>
  \<^verbatim>\<open>srchkana\<close>: the number of blocks of the segment when there is a block for the reading,
  and 0 otherwise; the block, or the one before which it belongs; the shared codes. After
  the block is found the loop goes on only to count. A block of size 0 makes it endless.
\<close>

partial_function (option) count_blocks :: "cbuf \<Rightarrow> nat \<Rightarrow> nat \<Rightarrow> nat option" where
  "count_blocks d sl p = do {
     e \<leftarrow> segend d sl p;
     if e then Some 0
     else do { q \<leftarrow> getntag d p; n \<leftarrow> count_blocks d sl q; Some (Suc n) } }"

partial_function (option) kana_loop ::
  "cbuf \<Rightarrow> cbuf \<Rightarrow> nat \<Rightarrow> (cbuf \<times> nat) option \<Rightarrow> nat \<Rightarrow> nat \<Rightarrow> nat \<Rightarrow> (nat \<times> nat \<times> nat) option" where
  "kana_loop y d sl idxp p same cnt = do {
     e \<leftarrow> segend d sl p;
     if e then Some (0, p, same)
     else do {
       (c, same) \<leftarrow> yomicmp y d p idxp same;
       if c = OVER then Some (0, p, same)
       else do {
         a \<leftarrow> (if c = MATCH then rd y same else Some 1);
         if c = MATCH \<and> a = 0 then do { n \<leftarrow> count_blocks d sl p; Some (cnt + n, p, same) }
         else do { q \<leftarrow> getntag d p; kana_loop y d sl idxp q same (cnt + 1) } } } }"

definition srchkana :: "cbuf \<Rightarrow> cbuf \<Rightarrow> nat \<Rightarrow> (cbuf \<times> nat) option \<Rightarrow> (nat \<times> nat \<times> nat) option" where
  "srchkana y d sl idxp = do { p \<leftarrow> segtop d; kana_loop y d sl idxp p 0 0 }"

text \<open>
  \<^verbatim>\<open>srchgram\<close> walks over the class blocks code by code, starting with the class byte,
  and remembers the last block of the class.
\<close>

function skip_codes :: "cbuf \<Rightarrow> nat \<Rightarrow> nat option" where
  "skip_codes d p = do {
     c \<leftarrow> rd d p;
     e \<leftarrow> rd d (p + codesize c);
     if e = HINSIBLKTERM then Some (p + codesize c) else skip_codes d (p + codesize c) }"
  by pat_completeness auto
termination
proof (relation "measure (\<lambda>(d, p). length d - p)", goal_cases)
  case (2 d p c e)
  then show ?case using codesize_pos [of c] by (simp add: rd_Some_iff diff_less_mono2)
qed simp

declare skip_codes.simps [simp del]

partial_function (option) gram_loop :: "cbuf \<Rightarrow> nat \<Rightarrow> u8 \<Rightarrow> nat \<Rightarrow> nat option \<Rightarrow> nat \<Rightarrow> (nat \<times> nat option \<times> nat) option" where
  "gram_loop d endp hinsi p found cnt =
     (if p < endp then do {
        h \<leftarrow> rd d p;
        q \<leftarrow> skip_codes d p;
        gram_loop d endp hinsi (q + 1) (if h = hinsi then Some p else found) (cnt + 1) }
      else Some (p, found, cnt))"

definition srchgram :: "cbuf \<Rightarrow> nat \<Rightarrow> u8 \<Rightarrow> (nat \<times> nat) option" where
  "srchgram d p hinsi = do {
     endp \<leftarrow> getntag d p;
     nlen \<leftarrow> getnlen d p;
     (q, found, cnt) \<leftarrow> gram_loop d endp hinsi (p + DOUONBLKSIZENUMBER + nlen) None 0;
     Some (case found of Some h \<Rightarrow> (cnt, h) | None \<Rightarrow> (0, q)) }"

text \<open>\<^verbatim>\<open>srchkanji\<close> compares as many bytes as \<open>knj\<close> has, and remembers the last match.\<close>

fun same_bytes :: "cbuf \<Rightarrow> nat \<Rightarrow> u8 list \<Rightarrow> bool option" where
  "same_bytes d p [] = Some True"
| "same_bytes d p (k # ks) = do { c \<leftarrow> rd d p; if c \<noteq> k then Some False else same_bytes d (p + 1) ks }"

function to_strend :: "cbuf \<Rightarrow> nat \<Rightarrow> nat option" where
  "to_strend d p = do {
     c \<leftarrow> rd d p;
     if c = KANJISTREND then Some p else to_strend d (p + codesize c) }"
  by pat_completeness auto
termination
proof (relation "measure (\<lambda>(d, p). length d - p)", goal_cases)
  case (2 d p c)
  then show ?case using codesize_pos [of c] by (simp add: rd_Some_iff diff_less_mono2)
qed simp

declare to_strend.simps [simp del]

partial_function (option) kanji_loop :: "cbuf \<Rightarrow> u8 list \<Rightarrow> nat \<Rightarrow> nat option \<Rightarrow> nat \<Rightarrow> (nat \<times> nat option \<times> nat) option" where
  "kanji_loop d knj p found cnt = do {
     c \<leftarrow> rd d p;
     if c = HINSIBLKTERM then Some (p, found, cnt)
     else do {
       m \<leftarrow> same_bytes d p knj;
       q \<leftarrow> to_strend d p;
       kanji_loop d knj (q + 1) (if m then Some p else found) (cnt + 1) } }"

definition srchkanji :: "cbuf \<Rightarrow> nat \<Rightarrow> u8 list \<Rightarrow> (nat \<times> nat) option" where
  "srchkanji d p knj = do {
     (q, found, cnt) \<leftarrow> kanji_loop d knj (p + 1) None 0;
     Some (cnt, case found of Some k \<Rightarrow> k | None \<Rightarrow> q) }"

end
