(* ===== verification/Sj_Dict_Laws.thy ===== *)
theory Sj_Dict_Laws
  imports Sj_Dict Sj_Sdepend "HOL-Library.List_Lexorder"
begin

text \<open>
  The index of a dictionary: the moves of bytes, the index area as a list of strings, the
  three edits as list operations, and the binary search of \<^verbatim>\<open>srchidx\<close>.
\<close>

section \<open>Moves\<close>

lemma mvmemi_eq:
  assumes "dst \<le> src" "src + len \<le> length d"
  shows "mvmemi d src dst len = Some (take dst d @ take len (drop src d) @ drop (dst + len) d)"
  using assms
proof (induction len arbitrary: d src dst)
  case (Suc len)
  let ?d = "d[dst := d ! src]"
  have "mvmemi ?d (src + 1) (dst + 1) len =
      Some (take (dst + 1) ?d @ take len (drop (src + 1) ?d) @ drop (dst + 1 + len) ?d)"
    using Suc.prems by (intro Suc.IH) auto
  moreover have "take (dst + 1) ?d = take dst d @ [d ! src]"
    using Suc.prems by (simp add: take_Suc_conv_app_nth)
  moreover have "take (Suc len) (drop src d) = d ! src # take len (drop (src + 1) d)"
    using Suc.prems by (metis Cons_nth_drop_Suc Suc_eq_plus1 add_Suc_right add_lessD1 less_eq_Suc_le take_Suc_Cons add.commute)
  ultimately show ?case using Suc.prems by (simp add: rd_def wr_def)
qed simp

lemma mvmemd_eq:
  assumes "src \<le> dst" "dst \<le> length d" "len \<le> src"
  shows "mvmemd d src dst len = Some (take (dst - len) d @ take len (drop (src - len) d) @ drop dst d)"
  using assms
proof (induction len arbitrary: d src dst)
  case (Suc len)
  obtain s t where s: "src = Suc s" "dst = Suc t" using Suc.prems by (cases src; cases dst) auto
  let ?d = "d[t := d ! s]"
  have "mvmemd ?d s t len = Some (take (t - len) ?d @ take len (drop (s - len) ?d) @ drop t ?d)"
    using Suc.prems s by (intro Suc.IH) auto
  moreover have "drop t ?d = d ! s # drop (Suc t) d"
    using Suc.prems s by (metis Cons_nth_drop_Suc drop_update_cancel length_list_update lessI nth_list_update_eq Suc_le_lessD)
  moreover have "take len (drop (s - len) ?d) = take len (drop (s - len) d)"
  proof (rule nth_equalityI)
    fix i assume "i < length (take len (drop (s - len) ?d))"
    then have "i < len" "s - len + i < length d" by auto
    moreover have "s - len + i \<noteq> t" using \<open>i < len\<close> Suc.prems s by simp
    ultimately show "take len (drop (s - len) ?d) ! i = take len (drop (s - len) d) ! i" by simp
  qed simp
  moreover have "take (Suc len) (drop (s - len) d) = take len (drop (s - len) d) @ [d ! s]"
    using Suc.prems s by (simp add: take_Suc_conv_app_nth)
  ultimately show ?case using Suc.prems s by (simp add: rd_def wr_def)
qed simp

text \<open>A part \<open>C\<close> of an object moved over its neighbour \<open>J\<close>, down and up.\<close>

lemma mvmemd_gap:
  assumes "src = length (A @ C)" "dst = src + length J" "len = length C"
  shows "mvmemd (A @ C @ J @ r) src dst len = Some (A @ take (length J) (C @ J) @ C @ r)"
  unfolding assms by (subst mvmemd_eq) simp_all

lemma mvmemi_gap:
  assumes "src = length (A @ J)" "dst = length A" "len = length C"
  shows "mvmemi (A @ J @ C @ r) src dst len = Some (A @ C @ drop (length C) (J @ C) @ r)"
  unfolding assms by (subst mvmemi_eq) simp_all

lemma put_bytes_eq:
  "p + length cs \<le> length d \<Longrightarrow> put_bytes d p cs = Some (take p d @ cs @ drop (p + length cs) d)"
proof (induction cs arbitrary: d p)
  case (Cons c cs)
  then have "put_bytes (d[p := c]) (p + 1) cs = Some (take (p + 1) (d[p := c]) @ cs @ drop (p + 1 + length cs) (d[p := c]))"
    by (intro Cons.IH) simp
  then show ?case using Cons.prems by (simp add: wr_def take_Suc_conv_app_nth)
qed simp

lemma put_bytes_app: "length old = length cs \<Longrightarrow> put_bytes (a @ old @ b) (length a) cs = Some (a @ cs @ b)"
  by (subst put_bytes_eq) simp_all

lemma memset_app: "n = int (length old) \<Longrightarrow> memset (a @ old @ b) (length a) c n = Some (a @ replicate (length old) c @ b)"
  by (simp add: memset_def put_bytes_app)

section \<open>The index as a list of strings\<close>

definition strs :: "u8 list list \<Rightarrow> u8 list" where
  "strs ss = concat (map (\<lambda>s. s @ [0]) ss)"

definition nul_free :: "u8 list list \<Rightarrow> bool" where
  "nul_free ss \<longleftrightarrow> (\<forall>s \<in> set ss. 0 \<notin> set s)"

text \<open>The index area \<open>ix\<close> of \<open>il\<close> bytes holds the strings \<open>ss\<close> and then zeros.\<close>

definition idx_repr :: "cbuf \<Rightarrow> nat \<Rightarrow> u8 list list \<Rightarrow> bool" where
  "idx_repr ix il ss \<longleftrightarrow> nul_free ss \<and>
     (\<exists>n r. ix = strs ss @ replicate n 0 @ r \<and> length (strs ss) + n = il)"

fun offsets :: "nat \<Rightarrow> u8 list list \<Rightarrow> nat list" where
  "offsets p [] = []"
| "offsets p (s # ss) = p # offsets (p + length s + 1) ss"

lemma strs_simps [simp]: "strs [] = []" "strs (s # ss) = s @ 0 # strs ss" "strs (ss @ ts) = strs ss @ strs ts"
  by (simp_all add: strs_def)

lemma nul_free_simps [simp]: "nul_free []" "nul_free (s # ss) \<longleftrightarrow> 0 \<notin> set s \<and> nul_free ss"
  "nul_free (ss @ ts) \<longleftrightarrow> nul_free ss \<and> nul_free ts"
  by (auto simp: nul_free_def)

lemma length_offsets [simp]: "length (offsets p ss) = length ss"
  by (induction ss arbitrary: p) simp_all

lemma offsets_nth: "k < length ss \<Longrightarrow> offsets p ss ! k = p + length (strs (take k ss))"
  by (induction ss arbitrary: p k) (auto simp: nth_Cons' take_Cons')

lemma rd_offsets: "k < length ss \<Longrightarrow> rd (offsets 0 ss) k = Some (length (strs (take k ss)))"
  by (simp add: rd_def offsets_nth)

lemma strlen_cstr: "0 \<notin> set s \<Longrightarrow> strlen (s @ 0 # r) = Some (length s)"
  by (induction s) auto

lemma str_at_strs: "0 \<notin> set s \<Longrightarrow> str_at (a @ s @ 0 # r) (length a) = Some (length s)"
  by (simp add: str_at_def strlen_cstr)

lemma skip_nul_cstr: "0 \<notin> set s \<Longrightarrow> skip_nul (s @ 0 # r) = Some (length s + 1)"
  by (induction s) auto

lemma mkidx_strs:
  assumes "nul_free ss" "drop p ix = strs ss @ r" "p + length (strs ss) \<le> len" "seg + int (length ss) = unit"
    "len < 2 ^ 16"
  shows "mkidx_loop ix len p seg unit = Some (offsets p ss)"
  using assms
proof (induction ss arbitrary: p seg)
  case Nil
  then show ?case by (subst mkidx_loop.simps) simp
next
  case (Cons s ss)
  have d: "drop p ix = s @ 0 # (strs ss @ r)" using Cons.prems(2) by simp
  have "drop (p + (length s + 1)) ix = drop (length s + 1) (drop p ix)" by (simp only: drop_drop add.commute)
  also have "\<dots> = strs ss @ r" unfolding d by simp
  finally have "mkidx_loop ix len (p + (length s + 1)) (seg + 1) unit = Some (offsets (p + (length s + 1)) ss)"
    using Cons.prems by (intro Cons.IH) auto
  then show ?case using Cons.prems skip_nul_cstr [of s "strs ss @ r"] d
    by (subst mkidx_loop.simps) (simp add: to_ushort_def add.assoc)
qed

lemma mkidxtbl_strs:
  assumes "idx_repr ix il ss" "ss \<noteq> []" "il < 2 ^ 16"
  shows "mkidxtbl ix il (int (length ss)) = Some (offsets 0 ss)"
proof -
  obtain n r where "nul_free ss" "drop 0 ix = strs ss @ (replicate n 0 @ r)" "length (strs ss) + n = il"
    using assms(1) by (auto simp: idx_repr_def)
  then have "mkidx_loop ix il 0 0 (int (length ss)) = Some (offsets 0 ss)"
    using assms(3) by (intro mkidx_strs) simp_all
  then show ?thesis using assms(2) by (cases ss) (simp_all add: mkidxtbl_def)
qed

lemma strs_split:
  assumes "k < length ss"
  shows "strs ss = strs (take k ss) @ (ss ! k) @ 0 # strs (drop (Suc k) ss)"
  using arg_cong [OF id_take_nth_drop [OF assms], of strs] by simp

lemma idx_reprE:
  assumes "idx_repr ix il ss" "k < length ss"
  obtains n r where "ix = strs (take k ss) @ (ss ! k) @ 0 # strs (drop (Suc k) ss) @ replicate n 0 @ r"
    "il = length (strs (take k ss)) + length (ss ! k) + 1 + length (strs (drop (Suc k) ss)) + n"
    "nul_free (take k ss)" "0 \<notin> set (ss ! k)" "nul_free (drop (Suc k) ss)"
proof -
  obtain n r where "nul_free ss" "ix = strs ss @ replicate n 0 @ r" "length (strs ss) + n = il"
    using assms(1) by (auto simp: idx_repr_def)
  moreover have "nul_free (take k ss)" "0 \<notin> set (ss ! k)" "nul_free (drop (Suc k) ss)"
    using \<open>nul_free ss\<close> assms(2) by (auto simp: nul_free_def dest: in_set_takeD in_set_dropD)
  ultimately show thesis
    using strs_split [OF assms(2)] arg_cong [OF strs_split [OF assms(2)], of length] by (intro that) auto
qed

lemma idx_str:
  assumes "idx_repr ix il ss" "k < length ss"
  shows "str_at ix (length (strs (take k ss))) = Some (length (ss ! k))"
    "\<exists>r. drop (length (strs (take k ss))) ix = (ss ! k) @ 0 # r"
  by (rule idx_reprE [OF assms]; simp add: str_at_strs)+

text \<open>Room left behind the strings.\<close>

definition idx_room :: "nat \<Rightarrow> u8 list list \<Rightarrow> nat" where
  "idx_room il ss = il - length (strs ss)"

lemma count_uidx_room:
  assumes "idx_repr ix il ss" "ss \<noteq> []" "il < 2 ^ 16"
  shows "count_uidx ix (offsets 0 ss) (int (length ss)) il = Some (idx_room il ss)"
proof -
  have k: "length ss - 1 < length ss" using assms(2) by simp
  note sp = strs_split [OF k]
  have "length (strs ss) \<le> il" using assms(1) by (auto simp: idx_repr_def)
  moreover have "int (length (strs ss)) = int (length (strs (take (length ss - 1) ss))) + int (length (ss ! (length ss - 1))) + 1"
    using arg_cong [OF sp, of length] assms(2) by simp
  moreover have "nat (int (length ss) - 1) = length ss - 1" by simp
  ultimately show ?thesis
    using rd_offsets [OF k] idx_str(1) [OF assms(1) k] assms(3) by (simp add: count_uidx_def idx_room_def nat_diff_distrib)
qed

lemma idx_parts:
  assumes "idx_repr ix il ss" "k < length ss"
  defines "A \<equiv> strs (take k ss)" and "B \<equiv> strs (drop (Suc k) ss)"
  obtains n r where "ix = A @ (ss ! k) @ 0 # B @ replicate n 0 @ r"
    "il = length A + length (ss ! k) + 1 + length B + n" "idx_room il ss = n"
    "nul_free (take k ss)" "0 \<notin> set (ss ! k)" "nul_free (drop (Suc k) ss)"
    "rd (offsets 0 ss) k = Some (length A)" "str_at ix (length A) = Some (length (ss ! k))"
proof (rule idx_reprE [OF assms(1,2)], goal_cases)
  case (1 n r)
  then show ?case
    using that [of n r] rd_offsets [OF assms(2)] idx_str(1) [OF assms(1,2)] arg_cong [OF strs_split [OF assms(2)], of length]
    by (simp add: A_def B_def idx_room_def)
qed

lemma chg_idx_grow:
  assumes "idx_repr ix il ss" "k < length ss" "0 \<notin> set y" "length y = length (ss ! k) + j" "0 < j" "j \<le> idx_room il ss"
  shows "\<exists>ix'. chg_idx ix (offsets 0 ss) il (int k) y = Some ix' \<and> idx_repr ix' il (ss[k := y]) \<and> length ix' = length ix"
proof (rule idx_parts [OF assms(1,2)], goal_cases)
  case (1 n r)
  define A where "A = strs (take k ss)"
  define B where "B = strs (drop (Suc k) ss)"
  define C where "C = (ss ! k) @ 0 # B @ replicate (n - j) 0"
  note p = 1 [folded A_def B_def]
  have j: "j \<le> n" using assms(6) p(3) by simp
  have ix: "ix = A @ C @ replicate j 0 @ r"
    using p(1) j by (simp add: C_def flip: replicate_add)
  have len: "il - j = length (A @ C)" "nat (int il - int j - int (length A)) = length C" "il = il - j + length (replicate j 0 :: u8 list)"
    using p(2) j by (simp_all add: C_def nat_eq_iff)
  define J where "J = take j (C @ replicate j 0)"
  have J: "length J = j" by (simp add: J_def)
  have m: "mvmemd ix (il - j) il (nat (int il - int j - int (length A))) = Some (A @ J @ C @ r)"
    unfolding ix using mvmemd_gap [OF len(1,3,2), of r] by (simp add: J_def)
  have "put_bytes (A @ (J @ ss ! k) @ (0 # B @ replicate (n - j) 0 @ r)) (length A) y
      = Some (A @ y @ (0 # B @ replicate (n - j) 0 @ r))"
    using J assms(4) by (intro put_bytes_app) simp
  then have "chg_idx ix (offsets 0 ss) il (int k) y = Some (A @ y @ (0 # B @ replicate (n - j) 0 @ r))"
    using p(7,8) m assms(4,5) by (simp add: chg_idx_def C_def)
  moreover have "idx_repr (A @ y @ (0 # B @ replicate (n - j) 0 @ r)) il (ss[k := y])"
    unfolding idx_repr_def using p(2,4-6) j assms(2-4)
    by (intro conjI exI [of _ "n - j"] exI [of _ r]) (simp_all add: upd_conv_take_nth_drop A_def B_def)
  ultimately show ?case using assms(4) j ix by (simp add: C_def)
qed

lemma chg_idx_shrink:
  assumes "idx_repr ix il ss" "k < length ss" "0 \<notin> set y" "length (ss ! k) = length y + j" "j \<le> idx_room il ss"
  shows "\<exists>ix'. chg_idx ix (offsets 0 ss) il (int k) y = Some ix' \<and> idx_repr ix' il (ss[k := y]) \<and> length ix' = length ix"
proof (rule idx_parts [OF assms(1,2)], goal_cases)
  case (1 n r)
  define A where "A = strs (take k ss)"
  define B where "B = strs (drop (Suc k) ss)"
  note p = 1 [folded A_def B_def]
  have j: "j \<le> n" using assms(5) p(3) by simp
  obtain s1 s2 where s: "ss ! k = s1 @ s2" "length s1 = j" "length s2 = length y"
    using assms(4) by (metis append_take_drop_id add_diff_cancel_right' length_drop length_take min.absorb2 le_add2)
  define C where "C = s2 @ 0 # B @ replicate n 0"
  have ix: "ix = A @ s1 @ C @ r" using p(1) s by (simp add: C_def)
  have len: "length A + j = length (A @ s1)" "nat (int il - int (length A + j)) = length C"
    using p(2) s by (simp_all add: C_def nat_eq_iff)
  have "s1 @ C = (s1 @ s2 @ 0 # B @ replicate (n - j) 0) @ replicate j 0"
    using j by (simp add: C_def flip: replicate_add)
  moreover have "length (s1 @ s2 @ 0 # B @ replicate (n - j) 0) = length C" using s j by (simp add: C_def)
  ultimately have "drop (length C) (s1 @ C) = replicate j 0" by (metis append_eq_conv_conj)
  then have m: "mvmemi ix (length A + j) (length A) (nat (int il - int (length A + j))) = Some (A @ C @ replicate j 0 @ r)"
    unfolding ix using mvmemi_gap [OF len(1) refl len(2), of r] by simp
  have "put_bytes (A @ s2 @ (0 # B @ replicate n 0 @ replicate j 0 @ r)) (length A) y
      = Some (A @ y @ (0 # B @ replicate n 0 @ replicate j 0 @ r))"
    using s by (intro put_bytes_app) simp
  then have "chg_idx ix (offsets 0 ss) il (int k) y = Some (A @ y @ (0 # B @ replicate n 0 @ replicate j 0 @ r))"
    using p(7,8) m assms(4) by (simp add: chg_idx_def C_def)
  moreover have "idx_repr (A @ y @ (0 # B @ replicate n 0 @ replicate j 0 @ r)) il (ss[k := y])"
    unfolding idx_repr_def using p(2,4-6) j assms(2-4)
    by (intro conjI exI [of _ "n + j"] exI [of _ r]) (simp_all add: upd_conv_take_nth_drop A_def B_def replicate_add)
  ultimately show ?case using s ix by (simp add: C_def)
qed

lemma chg_idx_repr:
  assumes "idx_repr ix il ss" "k < length ss" "0 \<notin> set y"
    "length y \<le> length (ss ! k) + idx_room il ss" "length (ss ! k) \<le> length y + idx_room il ss"
  shows "\<exists>ix'. chg_idx ix (offsets 0 ss) il (int k) y = Some ix' \<and> idx_repr ix' il (ss[k := y]) \<and> length ix' = length ix"
proof (cases "length (ss ! k) < length y")
  case True
  then show ?thesis using chg_idx_grow [OF assms(1-3), of "length y - length (ss ! k)"] assms(4) by simp
next
  case False
  then show ?thesis using chg_idx_shrink [OF assms(1-3), of "length (ss ! k) - length y"] assms(5) by simp
qed

lemma apnd_idx_repr:
  assumes "idx_repr ix il ss" "k < length ss" "0 \<notin> set y" "length y + 1 \<le> idx_room il ss"
  shows "\<exists>ix'. apnd_idx ix (offsets 0 ss) il (int k) y = Some ix'
    \<and> idx_repr ix' il (take (Suc k) ss @ y # drop (Suc k) ss) \<and> length ix' = length ix"
proof (rule idx_parts [OF assms(1,2)], goal_cases)
  case (1 n r)
  define A where "A = strs (take k ss)"
  define B where "B = strs (drop (Suc k) ss)"
  define j where "j = length y + 1"
  note p = 1 [folded A_def B_def]
  have j: "j \<le> n" using assms(4) p(3) by (simp add: j_def)
  define A1 where "A1 = A @ (ss ! k) @ [0]"
  define C where "C = B @ replicate (n - j) 0"
  have ix: "ix = A1 @ C @ replicate j 0 @ r" using p(1) j by (simp add: C_def A1_def flip: replicate_add)
  have len: "il - j = length (A1 @ C)" "nat (int il - int j - int (length A1)) = length C" "il = il - j + length (replicate j 0 :: u8 list)"
    using p(2) j by (simp_all add: C_def A1_def nat_eq_iff)
  define J where "J = take j (C @ replicate j 0)"
  have "length J = Suc (length y)" by (simp add: J_def j_def)
  then obtain o1 o2 where o: "J = o1 @ [o2]" "length o1 = length y" by (metis length_Suc_conv_rev)
  have m: "mvmemd ix (il - j) il (nat (int il - int j - int (length A1))) = Some (A1 @ o1 @ o2 # C @ r)"
    unfolding ix using mvmemd_gap [OF len(1,3,2), of r] o unfolding length_replicate J_def by simp
  have w: "put_bytes (A1 @ o1 @ (o2 # C @ r)) (length A1) y = Some (A1 @ y @ (o2 # C @ r))"
    using o by (intro put_bytes_app) simp
  have z: "wr (A1 @ y @ o2 # C @ r) (length A1 + length y) 0 = Some (A1 @ y @ 0 # C @ r)"
    using wr_append [of "A1 @ y"] by simp
  have q: "length A + length (ss ! k) + 1 = length A1" "length y + 1 = j" by (simp_all add: A1_def j_def)
  have "apnd_idx ix (offsets 0 ss) il (int k) y = Some (A1 @ y @ 0 # C @ r)"
    by (simp only: apnd_idx_def Let_def nat_int Option.bind.simps p(7,8) q m w z)
  moreover have "idx_repr (A1 @ y @ 0 # C @ r) il (take (Suc k) ss @ y # drop (Suc k) ss)"
    unfolding idx_repr_def using p(2,4-6) j assms(2-4)
    by (intro conjI exI [of _ "n - j"] exI [of _ r])
       (simp_all add: take_Suc_conv_app_nth A_def B_def C_def A1_def j_def)
  ultimately show ?case using j ix by (simp add: j_def)
qed

lemma del_idx_repr:
  assumes "idx_repr ix il ss" "k < length ss"
  shows "\<exists>ix'. del_idx ix (offsets 0 ss) il (int k) = Some ix' \<and> idx_repr ix' il (take k ss @ drop (Suc k) ss)
    \<and> length ix' = length ix"
proof (rule idx_parts [OF assms(1,2)], goal_cases)
  case (1 n r)
  define A where "A = strs (take k ss)"
  define B where "B = strs (drop (Suc k) ss)"
  define s where "s = (ss ! k) @ [0]"
  define C where "C = B @ replicate n 0"
  note p = 1 [folded A_def B_def]
  have ix: "ix = A @ s @ C @ r" using p(1) by (simp add: C_def s_def)
  have len: "length A + length s = length (A @ s)" "nat (int il - int (length A + length s)) = length C"
    using p(2) by (simp_all add: C_def s_def nat_eq_iff)
  define J where "J = drop (length C) (s @ C)"
  have m: "mvmemi ix (length A + length s) (length A) (nat (int il - int (length A + length s))) = Some ((A @ C) @ J @ r)"
    unfolding ix using mvmemi_gap [OF len(1) refl len(2), of r] by (simp add: J_def)
  have J: "length J = length s" by (simp add: J_def)
  have "memset ((A @ C) @ J @ r) (length (A @ C)) 0 (int (length s)) = Some ((A @ C) @ replicate (length J) 0 @ r)"
    using J by (intro memset_app) simp
  moreover have "il - length s = length (A @ C)" using p(2) by (simp add: C_def s_def)
  moreover have "length A + length (ss ! k) + 1 = length A + length s" by (simp add: s_def)
  ultimately have "del_idx ix (offsets 0 ss) il (int k) = Some ((A @ C) @ replicate (length s) 0 @ r)"
    using p(7,8) m J by (simp only: del_idx_def Let_def nat_int Option.bind.simps add_diff_cancel_left')
  moreover have "idx_repr ((A @ C) @ replicate (length s) 0 @ r) il (take k ss @ drop (Suc k) ss)"
    unfolding idx_repr_def using p(2,4-6)
    by (intro conjI exI [of _ "n + length s"] exI [of _ r]) (simp_all add: replicate_add replicate_append_same A_def B_def C_def s_def)
  ultimately show ?case using ix by simp
qed

section \<open>The binary search\<close>

lemma istrcmp_lex:
  assumes "drop i y = u @ r" "drop j x = v @ r'"
  shows "istrcmp y i x j (length u) (length v) = Some (if u = v then MATCH else if u < v then OVER else UNDER)"
  using assms
proof (induction u arbitrary: v i j)
  case Nil
  then show ?case by (subst istrcmp.simps) (cases v; simp)
next
  case (Cons a u)
  show ?case
  proof (cases v)
    case Nil
    then show ?thesis by (subst istrcmp.simps) simp
  next
    case (Cons b v')
    then show ?thesis using Cons.IH [of "Suc i" "Suc j" v'] Cons.prems
      by (subst istrcmp.simps) (auto simp: drop_rds)
  qed
qed

text \<open>
  The position of a reading in a strictly sorted index: the last string that is not
  greater, or the first one.
\<close>

definition idx_pos :: "u8 list list \<Rightarrow> u8 list \<Rightarrow> nat \<Rightarrow> bool" where
  "idx_pos ss u k \<longleftrightarrow> k < length ss \<and> (k = 0 \<or> ss ! k \<le> u) \<and> (\<forall>j < length ss. k < j \<longrightarrow> u < ss ! j)"

lemma idx_pos_unique:
  assumes "sorted_wrt (<) ss" "idx_pos ss u k" "idx_pos ss u k'"
  shows "k = k'"
proof (rule ccontr)
  have no: False if "idx_pos ss u a" "idx_pos ss u b" "a < b" for a b
    using that by (auto simp: idx_pos_def)
  assume "k \<noteq> k'"
  then show False using no assms(2,3) by (metis linorder_neqE_nat)
qed

lemma srchidx_loop_pos:
  assumes "idx_repr ix il ss" "sorted_wrt (<) ss" "drop 0 y = u @ r"
    and "0 \<le> low" "low \<le> high + 1" "high < int (length ss)" "ss \<noteq> []"
    and "\<And>j. int j < low \<Longrightarrow> ss ! j < u" "\<And>j. high < int j \<Longrightarrow> j < length ss \<Longrightarrow> u < ss ! j"
    and "low \<le> high \<or> prev = Some (OVER, high + 1) \<or> (\<exists>c. prev = Some (c, high) \<and> c \<noteq> OVER \<and> 0 \<le> high)"
  shows "\<exists>k. srchidx_loop ix (offsets 0 ss) y (length u) low high prev = Some (int k) \<and> idx_pos ss u k"
  using assms(4-10)
proof (induction "nat (high + 1 - low)" arbitrary: low high prev rule: less_induct)
  case less
  show ?case
  proof (cases "low \<le> high")
    case True
    define m where "m = nat ((low + high) div 2)"
    have m: "(low + high) div 2 = int m" "m < length ss" "low \<le> int m" "int m \<le> high"
      using less.prems(1,3) True by (auto simp: m_def)
    obtain r' where r': "drop (length (strs (take m ss))) ix = (ss ! m) @ r'" using idx_str(2) [OF assms(1) m(2)] by auto
    note st = rd_offsets [OF m(2)] idx_str(1) [OF assms(1) m(2)] istrcmp_lex [OF assms(3) r']
    have mono: "ss ! j < ss ! k" if "j < k" "k < length ss" for j k
      using assms(2) that by (simp add: sorted_wrt_iff_nth_less)
    consider (eq) "u = ss ! m" | (over) "u < ss ! m" | (under) "ss ! m < u" by fastforce
    then show ?thesis
    proof cases
      case eq
      then have "idx_pos ss u m" using m(2) mono by (simp add: idx_pos_def)
      then show ?thesis using True m(1) st eq by (subst srchidx_loop.simps) simp
    next
      case over
      have "\<exists>k. srchidx_loop ix (offsets 0 ss) y (length u) low (int m - 1) (Some (OVER, int m)) = Some (int k) \<and> idx_pos ss u k"
      proof (rule less.hyps)
        show "u < ss ! j" if "int m - 1 < int j" "j < length ss" for j
          using that over mono [of m j] by (cases "j = m") (auto intro: less_trans)
      qed (use less.prems m True in auto)
      then show ?thesis using True m(1) st over by (subst srchidx_loop.simps) (simp add: less_imp_neq Let_def)
    next
      case under
      have "\<exists>k. srchidx_loop ix (offsets 0 ss) y (length u) (int m + 1) high (Some (UNDER, int m)) = Some (int k) \<and> idx_pos ss u k"
      proof (rule less.hyps)
        show "ss ! j < u" if "int j < int m + 1" for j
          using that under mono [of j m] m(2) by (cases "j = m") (auto intro: less_trans)
      qed (use less.prems m True in auto)
      moreover have "u \<noteq> ss ! m" "\<not> u < ss ! m" using under by auto
      ultimately show ?thesis using True m(1) st by (subst srchidx_loop.simps) (simp add: Let_def)
    qed
  next
    case False
    then have h: "low = high + 1" using less.prems(2) by simp
    from False less.prems(7) consider "prev = Some (OVER, high + 1)" | c where "prev = Some (c, high)" "c \<noteq> OVER" "0 \<le> high" by auto
    then show ?thesis
    proof cases
      case 1
      have "idx_pos ss u (nat high)"
        using less.prems h by (cases "high < 0") (auto simp: idx_pos_def intro!: less_imp_le)
      then show ?thesis using 1 False less.prems(1) h by (subst srchidx_loop.simps) (auto intro!: exI [of _ "nat high"])
    next
      case 2
      then have "idx_pos ss u (nat high)"
        using less.prems h by (auto simp: idx_pos_def intro!: less_imp_le)
      then show ?thesis using 2 False by (subst srchidx_loop.simps) (auto intro!: exI [of _ "nat high"])
    qed
  qed
qed

lemma srchidx_pos:
  assumes "idx_repr ix il ss" "sorted_wrt (<) ss" "ss \<noteq> []" "low = 0 \<or> low = - 1"
  shows "\<exists>k. srchidx ix (offsets 0 ss) (int (length ss)) (u @ r) low (length u) = Some (int k) \<and> idx_pos ss u k"
proof (cases "length ss = 1")
  case True
  then show ?thesis by (auto simp: srchidx_def idx_pos_def intro!: exI [of _ 0])
next
  case False
  then have "1 < length ss" using assms(3) by (cases ss) auto
  moreover from this have "\<exists>k. srchidx_loop ix (offsets 0 ss) (u @ r) (length u) 0 (int (length ss) - 1) None = Some (int k) \<and> idx_pos ss u k"
    by (intro srchidx_loop_pos [OF assms(1,2)]) (use assms(3) in auto)
  ultimately show ?thesis using assms(4) by (auto simp: srchidx_def)
qed

text \<open>
  C34. \<^verbatim>\<open>srchidx\<close> returns, and finds the segment a reading belongs to: on an index area that
  holds strictly sorted strings, the binary search ends at the last segment whose string
  is not greater than the reading, or at the first segment. It reads only the table, the
  strings and the reading.
\<close>

theorem srchidx_correct:
  assumes "idx_repr ix il ss" "sorted_wrt (<) ss" "ss \<noteq> []" "low = 0 \<or> low = - 1" "il < 2 ^ 16"
  shows "\<exists>ofs k. mkidxtbl ix il (int (length ss)) = Some ofs
    \<and> srchidx ix ofs (int (length ss)) (u @ r) low (length u) = Some (int k)
    \<and> k < length ss \<and> (k = 0 \<or> ss ! k \<le> u) \<and> (\<forall>j < length ss. k < j \<longrightarrow> u < ss ! j)"
proof -
  obtain k where "srchidx ix (offsets 0 ss) (int (length ss)) (u @ r) low (length u) = Some (int k)" "idx_pos ss u k"
    using srchidx_pos [OF assms(1-4)] by blast
  then show ?thesis using mkidxtbl_strs [OF assms(1,3,5)] unfolding idx_pos_def by blast
qed

theorem srchidx_correct_witness:
  "\<exists>ofs k. mkidxtbl (strs [[0x4f], [0x51, 0x60], [0x70]] @ [0, 0]) 9 (int (length [[0x4f], [0x51, 0x60], [0x70 :: u8]])) = Some ofs
    \<and> srchidx (strs [[0x4f], [0x51, 0x60], [0x70]] @ [0, 0]) ofs (int (length [[0x4f], [0x51, 0x60], [0x70 :: u8]]))
        ([0x60, 0x61] @ [0]) (- 1) (length [0x60, 0x61 :: u8]) = Some (int k)
    \<and> k < length [[0x4f], [0x51, 0x60], [0x70 :: u8]] \<and> (k = 0 \<or> [[0x4f], [0x51, 0x60], [0x70]] ! k \<le> [0x60, 0x61 :: u8])
    \<and> (\<forall>j < length [[0x4f], [0x51, 0x60], [0x70 :: u8]]. k < j \<longrightarrow> [0x60, 0x61 :: u8] < [[0x4f], [0x51, 0x60], [0x70]] ! j)"
proof (rule srchidx_correct)
  show "idx_repr (strs [[0x4f], [0x51, 0x60], [0x70]] @ [0, 0]) 9 [[0x4f], [0x51, 0x60], [0x70]]"
    unfolding idx_repr_def by (intro conjI exI [of _ "Suc (Suc 0)"] exI [of _ "[]"]) simp_all
qed simp_all

text \<open>
  C35. The edits of the index area are list operations: \<^verbatim>\<open>chg_uidx\<close> replaces, \<^verbatim>\<open>apnd_uidx\<close>
  inserts and \<^verbatim>\<open>del_uidx\<close> removes exactly one string when there is room, keep the length of
  the area and the zeros behind the strings, and \<^verbatim>\<open>mkidxtbl\<close> finds every string again.
\<close>

theorem index_edits_refine:
  assumes "idx_repr ix il ss" "k < length ss" "0 \<notin> set y" "il < 2 ^ 16"
  shows "(length y \<le> length (ss ! k) + (il - length (strs ss)) \<and> length (ss ! k) \<le> length y + (il - length (strs ss)) \<longrightarrow>
      (\<exists>ix'. chg_idx ix (offsets 0 ss) il (int k) y = Some ix' \<and> length ix' = length ix \<and> idx_repr ix' il (ss[k := y])
        \<and> mkidxtbl ix' il (int (length ss)) = Some (offsets 0 (ss[k := y]))))
    \<and> (length y + 1 \<le> il - length (strs ss) \<longrightarrow>
      (\<exists>ix'. apnd_idx ix (offsets 0 ss) il (int k) y = Some ix' \<and> length ix' = length ix
        \<and> idx_repr ix' il (take (Suc k) ss @ y # drop (Suc k) ss)
        \<and> mkidxtbl ix' il (int (length ss) + 1) = Some (offsets 0 (take (Suc k) ss @ y # drop (Suc k) ss))))
    \<and> (1 < length ss \<longrightarrow>
      (\<exists>ix'. del_idx ix (offsets 0 ss) il (int k) = Some ix' \<and> length ix' = length ix
        \<and> idx_repr ix' il (take k ss @ drop (Suc k) ss)
        \<and> mkidxtbl ix' il (int (length ss) - 1) = Some (offsets 0 (take k ss @ drop (Suc k) ss))))"
proof (intro conjI impI, goal_cases)
  case 1
  then obtain ix' where c: "chg_idx ix (offsets 0 ss) il (int k) y = Some ix'" "idx_repr ix' il (ss[k := y])" "length ix' = length ix"
    using chg_idx_repr [OF assms(1-3)] by (auto simp: idx_room_def)
  moreover have "ss[k := y] \<noteq> []" using assms(2) by auto
  ultimately show ?case using mkidxtbl_strs [OF c(2) _ assms(4)] by simp
next
  case 2
  have len: "int (length (take (Suc k) ss @ y # drop (Suc k) ss)) = int (length ss) + 1" using assms(2) by simp
  obtain ix' where c: "apnd_idx ix (offsets 0 ss) il (int k) y = Some ix'"
      "idx_repr ix' il (take (Suc k) ss @ y # drop (Suc k) ss)" "length ix' = length ix"
    using apnd_idx_repr [OF assms(1-3)] 2 by (auto simp: idx_room_def)
  with mkidxtbl_strs [OF c(2) _ assms(4), unfolded len] show ?case by simp
next
  case 3
  have len: "int (length (take k ss @ drop (Suc k) ss)) = int (length ss) - 1" using assms(2) by simp
  have "take k ss @ drop (Suc k) ss \<noteq> []" using assms(2) 3 by auto
  moreover obtain ix' where c: "del_idx ix (offsets 0 ss) il (int k) = Some ix'"
      "idx_repr ix' il (take k ss @ drop (Suc k) ss)" "length ix' = length ix"
    using del_idx_repr [OF assms(1,2)] by auto
  ultimately show ?case using mkidxtbl_strs [OF c(2) _ assms(4), unfolded len] by simp
qed

theorem index_edits_refine_witness:
  "\<exists>ix'. chg_idx [0x4f, 0, 0x51, 0x60, 0, 0, 0] (offsets 0 [[0x4f], [0x51, 0x60]]) 7 0 [0x4e, 0x4e] = Some ix'
    \<and> idx_repr ix' 7 [[0x4e, 0x4e], [0x51, 0x60]]"
proof -
  have "idx_repr [0x4f, 0, 0x51, 0x60, 0, 0, 0] 7 [[0x4f], [0x51, 0x60]]"
    unfolding idx_repr_def by (intro conjI exI [of _ "Suc (Suc 0)"] exI [of _ "[]"]) simp_all
  then have "\<exists>ix'. chg_idx [0x4f, 0, 0x51, 0x60, 0, 0, 0] (offsets 0 [[0x4f], [0x51, 0x60]]) 7 (int 0) [0x4e, 0x4e] = Some ix'
      \<and> length ix' = length [0x4f, 0, 0x51, 0x60, 0, 0, 0 :: u8]
      \<and> idx_repr ix' 7 ([[0x4f], [0x51, 0x60]][0 := [0x4e, 0x4e]])
      \<and> mkidxtbl ix' 7 (int (length [[0x4f], [0x51, 0x60 :: u8]])) = Some (offsets 0 ([[0x4f], [0x51, 0x60]][0 := [0x4e, 0x4e]]))"
    by (intro index_edits_refine [THEN conjunct1, rule_format] conjI) simp_all
  then show ?thesis by auto
qed

end
