(* ===== verification/Sj_Segment.thy ===== *)
theory Sj_Segment
  imports Sj_Dict_Laws
begin

text \<open>
  A segment of a user dictionary as a list of readings with their words: the abstract
  segment, its bytes, the invariant, and what the access routines of
  \<^verbatim>\<open>include/sj3core/sj_dict.h\<close> return on those bytes.
\<close>

named_theorems seg_simps \<open>headers and walks on encoded segments\<close>

section \<open>Abstract segments\<close>

text \<open>
  Words of one class are their kanji strings in coded form, words of one reading are class
  blocks, a segment is a list of readings with their words.
\<close>

type_synonym klass = "u8 \<times> u8 list list"
type_synonym douon = "u8 list \<times> klass list"

fun lcp :: "u8 list \<Rightarrow> u8 list \<Rightarrow> nat" where
  "lcp (a # as) (b # bs) = (if a = b then Suc (lcp as bs) else 0)"
| "lcp _ _ = 0"

definition enc_strs :: "u8 list list \<Rightarrow> u8 list" where
  "enc_strs ks = concat (map (\<lambda>k. k @ [KANJISTREND]) ks)"

definition enc_class :: "klass \<Rightarrow> u8 list" where
  "enc_class c = fst c # enc_strs (snd c) @ [HINSIBLKTERM]"

definition enc_classes :: "klass list \<Rightarrow> u8 list" where
  "enc_classes cs = concat (map enc_class cs)"

text \<open>The header of a block: its size, the shared codes, the own codes.\<close>

definition hdr :: "nat \<Rightarrow> nat \<Rightarrow> nat \<Rightarrow> u8 list" where
  "hdr n p m =
     [(if p div 16 mod 2 = 1 then (if m div 16 mod 2 = 1 then of_nat (n div 256) OR NOKORIYOMITOP else of_nat (n div 256)) OR ASSYUKUYOMITOP
       else (if m div 16 mod 2 = 1 then of_nat (n div 256) OR NOKORIYOMITOP else of_nat (n div 256))),
      of_nat n, of_nat (m mod 16) OR push_bit 4 (of_nat (p mod 16))]"

definition blk_size :: "u8 list \<Rightarrow> douon \<Rightarrow> nat" where
  "blk_size prev b = 3 + (length (fst b) - lcp prev (fst b)) + length (enc_classes (snd b))"

definition enc_blk :: "u8 list \<Rightarrow> douon \<Rightarrow> u8 list" where
  "enc_blk prev b =
     hdr (blk_size prev b) (lcp prev (fst b)) (length (fst b) - lcp prev (fst b))
     @ drop (lcp prev (fst b)) (fst b) @ enc_classes (snd b)"

fun enc_blks :: "u8 list \<Rightarrow> douon list \<Rightarrow> u8 list" where
  "enc_blks prev [] = []"
| "enc_blks prev (b # bs) = enc_blk prev b @ enc_blks (fst b) bs"

text \<open>
  A coded kanji string: every code has its size, no code begins with the terminator, and
  no byte is the terminator of a class block.
\<close>

function codes_ok :: "u8 list \<Rightarrow> bool" where
  "codes_ok [] = True"
| "codes_ok (c # k) = (c \<noteq> KANJISTREND \<and> codesize c \<le> Suc (length k) \<and> codes_ok (drop (codesize c - 1) k))"
  by pat_completeness auto
termination
  by (relation "measure length") auto

definition kstr :: "u8 list \<Rightarrow> bool" where
  "kstr k \<longleftrightarrow> k \<noteq> [] \<and> codes_ok k \<and> HINSIBLKTERM \<notin> set k"

definition class_ok :: "klass \<Rightarrow> bool" where
  "class_ok c \<longleftrightarrow> snd c \<noteq> [] \<and> list_all kstr (snd c) \<and> distinct (snd c)"

definition blk_ok :: "douon \<Rightarrow> bool" where
  "blk_ok b \<longleftrightarrow> fst b \<noteq> [] \<and> length (fst b) \<le> MAXWDYOMILEN \<and> 0 \<notin> set (fst b)
     \<and> snd b \<noteq> [] \<and> list_all class_ok (snd b) \<and> distinct (map fst (snd b))"

fun sizes_ok :: "u8 list \<Rightarrow> douon list \<Rightarrow> bool" where
  "sizes_ok prev [] = True"
| "sizes_ok prev (b # bs) = (blk_size prev b \<le> 0xfff \<and> sizes_ok (fst b) bs)"

definition seg_ok :: "douon list \<Rightarrow> bool" where
  "seg_ok bs \<longleftrightarrow> list_all blk_ok bs \<and> sorted_wrt (<) (map fst bs) \<and> sizes_ok [] bs"

text \<open>
  A segment of \<open>sl\<close> bytes: an empty table, the blocks of \<open>bs\<close>, the free space \<open>F\<close>. Only
  the first byte of the free space is \<open>DICSEGTERM\<close> for sure, what follows is never looked
  at. \<open>r\<close> is what follows the segment in the buffer; a full segment must be followed by
  something, for \<^verbatim>\<open>segend\<close> reads the byte behind the blocks.
\<close>

definition seg_bytes :: "douon list \<Rightarrow> u8 list \<Rightarrow> u8 list \<Rightarrow> u8 list" where
  "seg_bytes bs F r = 0 # enc_blks [] bs @ F @ r"

definition free_ok :: "u8 list \<Rightarrow> bool" where
  "free_ok F \<longleftrightarrow> (F = [] \<or> hd F = DICSEGTERM)"

definition seg_fits :: "nat \<Rightarrow> douon list \<Rightarrow> u8 list \<Rightarrow> u8 list \<Rightarrow> bool" where
  "seg_fits sl bs F r \<longleftrightarrow> Suc (length (enc_blks [] bs) + length F) = sl \<and> free_ok F \<and> (F = [] \<longrightarrow> r \<noteq> [])"

text \<open>The object \<open>d\<close> begins with a segment that holds \<open>bs\<close>.\<close>

definition seg_repr :: "cbuf \<Rightarrow> nat \<Rightarrow> douon list \<Rightarrow> u8 list \<Rightarrow> bool" where
  "seg_repr d sl bs r \<longleftrightarrow> (\<exists>F. d = seg_bytes bs F r \<and> Suc (length (enc_blks [] bs) + length F) = sl \<and> free_ok F)"

section \<open>Headers\<close>

lemma hdr_byte0:
  assumes "k < 16" "c \<in> {0, 0x40, 0x80, 0xc0 :: u8}"
  shows "unat ((of_nat k OR c) AND 0x0f) = k" "(of_nat k OR c) AND 0x80 = c AND 0x80" "(of_nat k OR c) AND 0x40 = c AND 0x40"
    "of_nat k OR c \<noteq> 0xff"
proof -
  have "list_all (\<lambda>k. list_all (\<lambda>c. unat ((of_nat k OR c :: u8) AND 0x0f) = k \<and> (of_nat k OR c) AND 0x80 = c AND 0x80
      \<and> (of_nat k OR c) AND 0x40 = c AND 0x40 \<and> of_nat k OR c \<noteq> 0xff) [0, 0x40, 0x80, 0xc0]) [0..<16]"
    by (simp add: upt_rec)
  then have "\<forall>k \<in> {0..<16}. \<forall>c \<in> {0, 0x40, 0x80, 0xc0}. unat ((of_nat k OR c :: u8) AND 0x0f) = k \<and> (of_nat k OR c) AND 0x80 = c AND 0x80
      \<and> (of_nat k OR c) AND 0x40 = c AND 0x40 \<and> of_nat k OR c \<noteq> 0xff"
    by (simp only: list_all_iff set_upt list.set(1,2))
  moreover have "k \<in> {0..<16}" using assms(1) by simp
  ultimately show "unat ((of_nat k OR c) AND 0x0f) = k" "(of_nat k OR c) AND 0x80 = c AND 0x80"
      "(of_nat k OR c) AND 0x40 = c AND 0x40" "of_nat k OR c \<noteq> 0xff"
    using assms(2) by blast+
qed

lemma hdr_byte2:
  assumes "m < 16" "p < 16"
  shows "unat (drop_bit 4 (of_nat m OR push_bit 4 (of_nat p) :: u8)) = p" "unat ((of_nat m OR push_bit 4 (of_nat p) :: u8) AND 0x0f) = m"
proof -
  have "list_all (\<lambda>m. list_all (\<lambda>p. unat (drop_bit 4 (of_nat m OR push_bit 4 (of_nat p) :: u8)) = p
      \<and> unat ((of_nat m OR push_bit 4 (of_nat p) :: u8) AND 0x0f) = m) [0..<16]) [0..<16]"
    by (simp add: upt_rec)
  then have "\<forall>m \<in> {0..<16}. \<forall>p \<in> {0..<16}. unat (drop_bit 4 (of_nat m OR push_bit 4 (of_nat p) :: u8)) = p
      \<and> unat ((of_nat m OR push_bit 4 (of_nat p) :: u8) AND 0x0f) = m"
    by (simp only: list_all_iff set_upt)
  moreover have "m \<in> {0..<16}" "p \<in> {0..<16}" using assms by simp_all
  ultimately show "unat (drop_bit 4 (of_nat m OR push_bit 4 (of_nat p) :: u8)) = p"
      "unat ((of_nat m OR push_bit 4 (of_nat p) :: u8) AND 0x0f) = m" by blast+
qed

lemma length_hdr [simp]: "length (hdr n p m) = 3"
  by (simp add: hdr_def)

lemma rd_at: "rd (A @ x # B) (length A) = Some x" "rd (A @ x # y # B) (Suc (length A)) = Some y"
  "rd (A @ x # y # z # B) (Suc (Suc (length A))) = Some z"
  by (simp_all add: rd_def nth_append)

lemma set_size_hdr:
  "length old = 3 \<Longrightarrow> set_size (A @ old @ B) (length A) n p m = Some (A @ hdr n p m @ B)"
proof -
  assume "length old = 3"
  then obtain x y z where o: "old = [x, y, z]" by (auto simp: numeral_3_eq_3 length_Suc_conv)
  show ?thesis
    unfolding o set_size_def hdr_def by (auto simp: wr_def list_update_append Let_def)
qed

definition hdr0 :: "nat \<Rightarrow> nat \<Rightarrow> u8" where
  "hdr0 p m = (if 16 \<le> p then (if 16 \<le> m then 0xc0 else 0x80) else (if 16 \<le> m then 0x40 else 0))"

lemma hdr0_range: "hdr0 p m \<in> {0, 0x40, 0x80, 0xc0}"
  by (simp add: hdr0_def)

lemma hdr_eq:
  assumes "p < 32" "m < 32"
  shows "hdr n p m = [of_nat (n div 256) OR hdr0 p m, of_nat n, of_nat (m mod 16) OR push_bit 4 (of_nat (p mod 16))]"
proof -
  have "x div 16 mod 2 = 1 \<longleftrightarrow> 16 \<le> x" if "x < 32" for x :: nat using that by presburger
  moreover have "(a OR 0x40) OR 0x80 = a OR (0xc0 :: u8)" for a by (simp add: or.assoc)
  ultimately show ?thesis using assms by (simp add: hdr_def hdr0_def)
qed

lemma hdr_reads [seg_simps]:
  assumes "n \<le> 0xfff" "p < 32" "m < 32"
  shows "getsize (A @ hdr n p m @ B) (length A) = Some n"
    "getplen (A @ hdr n p m @ B) (length A) = Some p"
    "getnlen (A @ hdr n p m @ B) (length A) = Some m"
    "\<exists>a. rd (A @ hdr n p m @ B) (length A) = Some a \<and> a \<noteq> 0xff"
proof -
  have n: "n div 256 < 16" using assms(1) by simp
  have m: "m mod 16 < 16" "p mod 16 < 16" by simp_all
  note b = hdr_byte0 [OF n hdr0_range [of p m]] hdr_byte2 [OF m]
  have "n div 256 * 256 + unat (of_nat n :: u8) = n" by (simp add: unat_of_nat)
  then show "getsize (A @ hdr n p m @ B) (length A) = Some n"
    unfolding hdr_eq [OF assms(2,3)] getsize_def by (simp add: rd_at b)
  define x z where "x = (of_nat (n div 256) OR hdr0 p m :: u8)" and "z = (of_nat (m mod 16) OR push_bit 4 (of_nat (p mod 16)) :: u8)"
  have h: "hdr n p m = [x, of_nat n, z]" unfolding hdr_eq [OF assms(2,3)] x_def z_def by simp
  have bits: "(x AND 0x80 \<noteq> 0) = (16 \<le> p)" "(x AND 0x40 \<noteq> 0) = (16 \<le> m)"
    using b(2,3) unfolding x_def [symmetric] by (simp_all add: hdr0_def)
  have parts: "unat (drop_bit 4 z) = p mod 16" "unat (z AND 0x0f) = m mod 16"
    using b(5,6) unfolding z_def [symmetric] by simp_all
  have small: "(if 16 \<le> k then 16 else 0) + k mod 16 = k" if "k < 32" for k :: nat using that by presburger
  show "getplen (A @ hdr n p m @ B) (length A) = Some p"
    using small [OF assms(2)] unfolding h getplen_def append_Cons append_Nil add_2_eq_Suc' rd_at Option.bind.simps bits(1) parts by simp
  show "getnlen (A @ hdr n p m @ B) (length A) = Some m"
    using small [OF assms(3)] unfolding h getnlen_def append_Cons append_Nil add_2_eq_Suc' rd_at Option.bind.simps bits(2) parts by simp
  show "\<exists>a. rd (A @ hdr n p m @ B) (length A) = Some a \<and> a \<noteq> 0xff"
    unfolding hdr_eq [OF assms(2,3)] by (simp add: rd_at b)
qed

section \<open>Common beginnings\<close>

lemma lcp_le: "lcp a b \<le> length a" "lcp a b \<le> length b"
  by (induction a b rule: lcp.induct) auto

lemma lcp_comm: "lcp a b = lcp b a"
  by (induction a b rule: lcp.induct) auto

lemma lcp_Nil [simp]: "lcp [] b = 0" "lcp a [] = 0"
  by (cases a; simp)+

lemma lcp_self [simp]: "lcp a a = length a"
  by (induction a) simp_all

lemma lcp_append: "lcp (t @ u) (t @ v) = length t + lcp u v"
  by (induction t) simp_all

lemma take_lcp: "take (lcp a b) a = take (lcp a b) b"
  by (induction a b rule: lcp.induct) auto

lemma lcp_less: "a < b \<Longrightarrow> lcp a b < length b"
proof (induction a b rule: lcp.induct)
  case (1 a as b bs)
  then show ?case by (cases "a = b") simp_all
qed simp_all

lemma lcp_pos: "0 < lcp (x # p) b \<Longrightarrow> \<exists>b'. b = x # b'"
  by (cases b) (auto split: if_splits)

lemma lcp_between: "p < r \<Longrightarrow> lcp p r < lcp p b \<Longrightarrow> b < r \<and> lcp b r = lcp p r"
proof (induction p r arbitrary: b rule: lcp.induct)
  case (1 x p y r)
  then have "0 < lcp (x # p) b" by (metis gr_implies_not0 gr_zeroI)
  then obtain b' where b: "b = x # b'" using lcp_pos by blast
  show ?case
  proof (cases "x = y")
    case True
    then have "b' < r \<and> lcp b' r = lcp p r" using "1.prems" b by (intro "1.IH") simp_all
    then show ?thesis using True b by simp
  next
    case False
    then show ?thesis using "1.prems"(1) b by simp
  qed
qed simp_all

lemma append_less_same [simp]: "(t @ u < t @ v) = (u < (v :: u8 list))"
  by (induction t) simp_all

lemma lcp_common:
  assumes "lcp p b \<le> lcp p r"
  obtains t u v where "b = t @ v" "r = t @ u" "length t = lcp p b"
proof -
  have "take (lcp p b) b = take (lcp p b) p" by (simp add: take_lcp)
  also have "\<dots> = take (lcp p b) r" using assms take_lcp [of p r] by (metis min.absorb1 take_take)
  finally have "take (lcp p b) b = take (lcp p b) r" .
  then show thesis using that [of "take (lcp p b) b" "drop (lcp p b) b" "drop (lcp p b) r"] lcp_le [of p b]
    by (metis append_take_drop_id length_take min.absorb2)
qed

section \<open>Blocks in place\<close>

definition seg_at :: "cbuf \<Rightarrow> nat \<Rightarrow> nat \<Rightarrow> u8 list \<Rightarrow> douon list \<Rightarrow> bool" where
  "seg_at d sl p prev bs \<longleftrightarrow> (\<exists>A F r. d = A @ enc_blks prev bs @ F @ r \<and> p = length A
     \<and> p + length (enc_blks prev bs) + length F = sl \<and> free_ok F \<and> (F = [] \<longrightarrow> r \<noteq> []))"

lemma seg_atI:
  "d = A @ enc_blks prev bs @ F @ r \<Longrightarrow> p = length A \<Longrightarrow> p + length (enc_blks prev bs) + length F = sl
    \<Longrightarrow> free_ok F \<Longrightarrow> (F = [] \<Longrightarrow> r \<noteq> []) \<Longrightarrow> seg_at d sl p prev bs"
  unfolding seg_at_def by blast

lemma length_enc_blk [simp]: "length (enc_blk prev b) = blk_size prev b"
  by (simp add: enc_blk_def blk_size_def)

lemma blk_size_pos: "3 \<le> blk_size prev b"
  by (simp add: blk_size_def)

lemma seg_at_end: "seg_at d sl p prev [] \<Longrightarrow> segend d sl p = Some True"
proof -
  assume "seg_at d sl p prev []"
  then obtain A F r where d: "d = A @ F @ r" "p = length A" "p + length F = sl" "free_ok F" "F = [] \<longrightarrow> r \<noteq> []"
    by (auto simp: seg_at_def)
  show ?thesis
  proof (cases F)
    case Nil
    then obtain x r' where "r = x # r'" using d(5) by (cases r) auto
    then show ?thesis using d Nil by (simp add: segend_def rd_def nth_append)
  next
    case (Cons c F')
    then show ?thesis using d by (simp add: segend_def rd_def nth_append free_ok_def)
  qed
qed

lemma seg_at_Cons:
  assumes "seg_at d sl p prev (b # bs)" "length (fst b) \<le> 31" "blk_size prev b \<le> 0xfff"
  shows "segend d sl p = Some False" "getsize d p = Some (blk_size prev b)" "getntag d p = Some (p + blk_size prev b)"
    "getplen d p = Some (lcp prev (fst b))" "getnlen d p = Some (length (fst b) - lcp prev (fst b))"
    "seg_at d sl (p + blk_size prev b) (fst b) bs"
    "\<exists>r. drop (p + 3) d = drop (lcp prev (fst b)) (fst b) @ enc_classes (snd b) @ r"
proof -
  obtain A F r where d: "d = A @ enc_blk prev b @ enc_blks (fst b) bs @ F @ r" "p = length A"
    "p + blk_size prev b + length (enc_blks (fst b) bs) + length F = sl" "free_ok F" "F = [] \<longrightarrow> r \<noteq> []"
    using assms(1) by (auto simp: seg_at_def)
  let ?H = "hdr (blk_size prev b) (lcp prev (fst b)) (length (fst b) - lcp prev (fst b))"
  let ?R = "drop (lcp prev (fst b)) (fst b) @ enc_classes (snd b)"
  obtain B where dB: "d = A @ ?H @ ?R @ B" using d(1) by (simp add: enc_blk_def)
  have small: "lcp prev (fst b) < 32" "length (fst b) - lcp prev (fst b) < 32"
    using lcp_le(2) [of prev "fst b"] assms(2) by linarith+
  note h = hdr_reads [OF assms(3) small, of A "?R @ B", folded dB d(2)]
  obtain a where a: "rd d p = Some a" "a \<noteq> 0xff" using h(4) by auto
  show "segend d sl p = Some False" using a d(3) blk_size_pos [of prev b] by (simp add: segend_def)
  show "getsize d p = Some (blk_size prev b)" "getplen d p = Some (lcp prev (fst b))"
    "getnlen d p = Some (length (fst b) - lcp prev (fst b))" by (fact h)+
  show "getntag d p = Some (p + blk_size prev b)" using a h(1) by (simp add: getntag_def)
  show "seg_at d sl (p + blk_size prev b) (fst b) bs"
    by (rule seg_atI [of _ "A @ enc_blk prev b" _ _ F r]) (use d in simp_all)
  show "\<exists>r. drop (p + 3) d = drop (lcp prev (fst b)) (fst b) @ enc_classes (snd b) @ r" using dB d(2) by (intro exI [of _ B]) simp
qed

lemma seg_at_top:
  assumes "seg_fits sl bs F r"
  shows "seg_at (seg_bytes bs F r) sl 1 [] bs" "segtop (seg_bytes bs F r) = Some 1"
proof -
  show "seg_at (seg_bytes bs F r) sl 1 [] bs"
    by (rule seg_atI [of _ "[0]" _ _ F r]) (use assms in \<open>auto simp: seg_bytes_def seg_fits_def\<close>)
  show "segtop (seg_bytes bs F r) = Some 1" by (simp add: segtop_def seg_bytes_def rd_def)
qed

end
