(* ===== verification/Sj_Segment_Laws.thy ===== *)
theory Sj_Segment_Laws
  imports Sj_Segment
begin

text \<open>
  The searches of \<^verbatim>\<open>addelcmn.c\<close> on an encoded segment: \<^verbatim>\<open>srchkana\<close> for a reading,
  \<^verbatim>\<open>srchgram\<close> for a class, \<^verbatim>\<open>srchkanji\<close> for a kanji string.
\<close>

section \<open>Search for a reading\<close>

lemma yomi_rest_eq:
  assumes "drop i y = u @ 0 # ru" "drop p d = v @ rv" "0 \<notin> set v"
  shows "yomi_rest y i d p (length v) same saml = Some
    (if take (length v) u = v then (MATCH, (same + length v) mod 256)
     else if u < v then (OVER, saml) else (CONT, (same + lcp u v) mod 256))"
  using assms
proof (induction v arbitrary: i p u same)
  case (Cons b v)
  have b: "rd d p = Some b" "drop (Suc p) d = v @ rv" "b \<noteq> 0" "0 \<notin> set v" using Cons.prems by (auto dest: drop_rds)
  show ?case
  proof (cases u)
    case Nil
    then have "rd y i = Some 0" using Cons.prems by (auto dest: drop_rds)
    moreover have "0 < b" using b(3) by (simp add: word_gt_0)
    ultimately show ?thesis using Nil b by simp
  next
    case (Cons a u')
    then have a: "rd y i = Some a" "drop (Suc i) y = u' @ 0 # ru" using Cons.prems by (auto dest: drop_rds)
    show ?thesis
    proof (cases "a = b")
      case True
      then show ?thesis using Cons.IH [OF a(2) b(2,4), of "Suc same"] a b \<open>u = a # u'\<close> by simp
    next
      case False
      then consider "a < b" | "b < a" by fastforce
      then show ?thesis using a b \<open>u = a # u'\<close> False by cases simp_all
    qed
  qed
qed simp

lemma less_take_self: "\<not> u < take n (u :: u8 list)"
proof (induction u arbitrary: n)
  case (Cons a u)
  then show ?case by (cases n) simp_all
qed simp

lemma yomicmp_blk:
  assumes "seg_at d sl p prev (b # bs)" "blk_ok b" "blk_size prev b \<le> 0xfff"
    and "prev < fst b" "prev < r" "length r \<le> 31" "y = r @ 0 # ry" "0 \<notin> set r"
  shows "if fst b = r then yomicmp y d p None (lcp prev r) = Some (MATCH, length r) \<and> rd y (length r) = Some 0
    else if r < fst b then yomicmp y d p None (lcp prev r) = Some (OVER, lcp prev r)
    else \<exists>c. c \<noteq> OVER \<and> yomicmp y d p None (lcp prev r) = Some (c, lcp (fst b) r)
      \<and> (c = MATCH \<longrightarrow> (\<exists>a. rd y (lcp (fst b) r) = Some a \<and> a \<noteq> 0))"
proof -
  have b: "fst b \<noteq> []" "length (fst b) \<le> 31" "0 \<notin> set (fst b)"
    using assms(2) by (auto simp: blk_ok_def)
  note s = seg_at_Cons [OF assms(1) b(2) assms(3)]
  have own: "length (fst b) - lcp prev (fst b) \<noteq> 0" using lcp_less [OF assms(4)] by simp
  show ?thesis
  proof (cases "lcp prev r < lcp prev (fst b)")
    case True
    then have "fst b < r" "lcp (fst b) r = lcp prev r" using lcp_between [OF assms(5)] by blast+
    moreover have "yomicmp y d p None (lcp prev r) = Some (CONT, lcp prev r)"
      using True own s(4,5) by (simp add: yomicmp_def)
    moreover have "fst b \<noteq> r" "\<not> r < fst b" using calculation(1) by auto
    ultimately show ?thesis by simp
  next
    case False
    then have "lcp prev (fst b) \<le> lcp prev r" by simp
    then obtain t u v where t: "fst b = t @ v" "r = t @ u" "length t = lcp prev (fst b)" by (rule lcp_common)
    obtain rest where "drop (p + 3) d = drop (length t) (fst b) @ enc_classes (snd b) @ rest" using s(7) unfolding t(3) by blast
    then have d: "drop (p + 3) d = v @ enc_classes (snd b) @ rest" by (simp add: t(1))
    have "drop (length t) y = u @ 0 # ry" using assms(7) t(2) by simp
    note cmp = yomi_rest_eq [OF this d, of "length t" "lcp prev r"]
    have v: "0 \<notin> set v" using b(3) t(1) by simp
    have nlen: "length (fst b) - lcp prev (fst b) = length v" unfolding t(3) [symmetric] by (simp add: t(1))
    have yc: "yomicmp y d p None (lcp prev r) = yomi_rest y (length t) d (p + 3) (length v) (length t) (lcp prev r)"
      using False own unfolding yomicmp_def s(4,5) nlen t(3) by simp
    have l: "length t + lcp u v < 256" using lcp_le(1) [of u v] assms(6) t(2) by simp
    have len: "length t + length v < 256" using b(2) t(1) by simp
    have lu: "lcp (fst b) r = length t + lcp u v" unfolding t(1,2) lcp_append by (simp add: lcp_comm)
    note yc = yc [unfolded cmp [OF v]]
    consider "u = v" | "u < v" | "v < u" using less_linear [of u v] by blast
    then show ?thesis
    proof cases
      case 1
      then have "fst b = r" "length t + length v = length r" using t(1,2) by simp_all
      moreover have "rd y (length r) = Some 0" unfolding assms(7) by (simp add: rd_def nth_append)
      ultimately show ?thesis using 1 yc len by simp
    next
      case 2
      have "take (length v) u \<noteq> v"
      proof
        assume "take (length v) u = v"
        then have "\<not> u < v" using less_take_self [of u "length v"] by simp
        then show False using 2 by simp
      qed
      moreover have "fst b \<noteq> r" "r < fst b" using 2 t(1,2) by auto
      ultimately show ?thesis using 2 yc by simp
    next
      case 3
      then have neq: "fst b \<noteq> r" "\<not> r < fst b" "\<not> u < v" using t(1,2) by auto
      show ?thesis
      proof (cases "take (length v) u = v")
        case True
        then have "u = v @ drop (length v) u" by (metis append_take_drop_id)
        moreover obtain a u' where "drop (length v) u = a # u'" using 3 calculation by (cases "drop (length v) u") auto
        ultimately have u: "u = v @ a # u'" by simp
        have "lcp u v = length v" unfolding u using lcp_append [of v "a # u'" "[]"] by simp
        moreover have "a \<noteq> 0" using assms(8) t(2) u by auto
        moreover have "rd y (length t + length v) = Some a" unfolding assms(7) t(2) u by (simp add: rd_def nth_append)
        ultimately show ?thesis using True neq yc len lu by auto
      next
        case False
        then show ?thesis using neq yc l lu by simp
      qed
    qed
  qed
qed

fun last_yomi :: "u8 list \<Rightarrow> douon list \<Rightarrow> u8 list" where
  "last_yomi prev [] = prev"
| "last_yomi prev (b # bs) = last_yomi (fst b) bs"

lemma enc_blks_append: "enc_blks prev (as @ bs) = enc_blks prev as @ enc_blks (last_yomi prev as) bs"
  by (induction as arbitrary: prev) simp_all

definition seg_from :: "u8 list \<Rightarrow> douon list \<Rightarrow> bool" where
  "seg_from prev bs \<longleftrightarrow> list_all blk_ok bs \<and> sorted_wrt (<) (map fst bs) \<and> sizes_ok prev bs \<and> list_all (\<lambda>b. prev < fst b) bs"

lemma seg_from_Cons:
  "seg_from prev (b # bs) \<longleftrightarrow> blk_ok b \<and> blk_size prev b \<le> 0xfff \<and> prev < fst b \<and> seg_from (fst b) bs"
  by (auto simp: seg_from_def list_all_iff)

lemma seg_from_Nil [simp]: "seg_from prev []"
  by (simp add: seg_from_def)

lemma seg_ok_from: "seg_ok bs \<longleftrightarrow> seg_from [] bs"
proof -
  have "list_all blk_ok bs \<Longrightarrow> list_all (\<lambda>b. [] < fst b) bs"
    by (induction bs) (auto simp: blk_ok_def neq_Nil_conv)
  then show ?thesis by (auto simp: seg_ok_def seg_from_def)
qed

lemma blk_okD: "blk_ok b \<Longrightarrow> length (fst b) \<le> 31" "blk_ok b \<Longrightarrow> fst b \<noteq> []" "blk_ok b \<Longrightarrow> 0 \<notin> set (fst b)"
  by (simp_all add: blk_ok_def)

lemma count_blocks_eq:
  "seg_at d sl p prev bs \<Longrightarrow> seg_from prev bs \<Longrightarrow> count_blocks d sl p = Some (length bs)"
proof (induction bs arbitrary: p prev)
  case Nil
  then show ?case by (subst count_blocks.simps) (simp add: seg_at_end)
next
  case (Cons b bs)
  then have ok: "blk_ok b" "blk_size prev b \<le> 0xfff" "seg_from (fst b) bs" by (simp_all add: seg_from_Cons)
  note s = seg_at_Cons [OF Cons.prems(1) blk_okD(1) [OF ok(1)] ok(2)]
  show ?case using Cons.IH [OF s(6) ok(3)] s(1,3) by (subst count_blocks.simps) simp
qed

text \<open>The blocks before and behind the place of a reading.\<close>

definition below :: "u8 list \<Rightarrow> douon list \<Rightarrow> douon list" where
  "below r bs = takeWhile (\<lambda>b. fst b < r) bs"

definition above :: "u8 list \<Rightarrow> douon list \<Rightarrow> douon list" where
  "above r bs = dropWhile (\<lambda>b. fst b < r) bs"

definition found :: "u8 list \<Rightarrow> douon list \<Rightarrow> bool" where
  "found r bs \<longleftrightarrow> above r bs \<noteq> [] \<and> fst (hd (above r bs)) = r"

lemma below_above: "below r bs @ above r bs = bs"
  by (simp add: below_def above_def)

lemma place_Cons:
  "fst b < r \<Longrightarrow> below r (b # bs) = b # below r bs \<and> above r (b # bs) = above r bs"
  "\<not> fst b < r \<Longrightarrow> below r (b # bs) = [] \<and> above r (b # bs) = b # bs"
  by (simp_all add: below_def above_def)

lemma kana_loop_eq:
  assumes "seg_at d sl p prev bs" "seg_from prev bs" "prev < r" "length r \<le> 31" "y = r @ 0 # ry" "0 \<notin> set r"
  shows "kana_loop y d sl None p (lcp prev r) cnt = Some
    (if found r bs then (cnt + length bs, p + length (enc_blks prev (below r bs)), length r)
     else (0, p + length (enc_blks prev (below r bs)), lcp (last_yomi prev (below r bs)) r))"
  using assms(1-3)
proof (induction bs arbitrary: p prev cnt)
  case Nil
  then show ?case by (subst kana_loop.simps) (simp add: seg_at_end found_def below_def above_def)
next
  case (Cons b bs)
  then have ok: "blk_ok b" "blk_size prev b \<le> 0xfff" "prev < fst b" "seg_from (fst b) bs" by (simp_all add: seg_from_Cons)
  note s = seg_at_Cons [OF Cons.prems(1) blk_okD(1) [OF ok(1)] ok(2)]
  note c = yomicmp_blk [OF Cons.prems(1) ok(1,2,3) Cons.prems(3) assms(4-6)]
  consider "fst b = r" | "r < fst b" | "fst b < r" using less_linear [of "fst b" r] by blast
  then show ?case
  proof cases
    case 1
    then have c: "yomicmp y d p None (lcp prev r) = Some (MATCH, length r)" "rd y (length r) = Some 0" using c by simp_all
    have "found r (b # bs)" "below r (b # bs) = []" using 1 by (simp_all add: found_def place_Cons)
    then show ?thesis using s(1) c count_blocks_eq [OF Cons.prems(1,2)] by (subst kana_loop.simps) simp
  next
    case 2
    then have c: "yomicmp y d p None (lcp prev r) = Some (OVER, lcp prev r)" using c by auto
    have "\<not> found r (b # bs)" "below r (b # bs) = []" using 2 by (auto simp: found_def place_Cons)
    then show ?thesis using s(1) c by (subst kana_loop.simps) simp
  next
    case 3
    then have ne: "fst b \<noteq> r" "\<not> r < fst b" by auto
    with c obtain k where k: "k \<noteq> OVER" "yomicmp y d p None (lcp prev r) = Some (k, lcp (fst b) r)"
      "k = MATCH \<longrightarrow> (\<exists>a. rd y (lcp (fst b) r) = Some a \<and> a \<noteq> 0)" by auto
    have f: "found r (b # bs) = found r bs" "below r (b # bs) = b # below r bs" using 3 by (simp_all add: found_def place_Cons)
    have "kana_loop y d sl None p (lcp prev r) cnt = kana_loop y d sl None (p + blk_size prev b) (lcp (fst b) r) (cnt + 1)"
      using k s(1,3) by (subst kana_loop.simps) auto
    then show ?thesis using Cons.IH [OF s(6) ok(4) 3, of "cnt + 1"] f by (simp add: add.assoc)
  qed
qed

lemma srchkana_eq:
  assumes "seg_fits sl bs F r" "seg_ok bs" "y \<noteq> []" "length y \<le> 31" "0 \<notin> set y"
  shows "srchkana (y @ 0 # ry) (seg_bytes bs F r) sl None = Some
    (if found y bs then (length bs, Suc (length (enc_blks [] (below y bs))), length y)
     else (0, Suc (length (enc_blks [] (below y bs))), lcp (last_yomi [] (below y bs)) y))"
proof -
  have "[] < y" using assms(3) by (cases y) simp_all
  then show ?thesis
    using kana_loop_eq [OF seg_at_top(1) [OF assms(1)] _ _ assms(4) refl assms(5)] assms(2) seg_at_top(2) [OF assms(1)]
    by (simp add: srchkana_def seg_ok_from)
qed

section \<open>Search for a class\<close>

lemma codesize_cases: "codesize c = 1 \<or> codesize c = 2"
  by (simp add: codesize_def Let_def)

lemma drop_app: "drop p d = a @ b \<Longrightarrow> drop (p + length a) d = b"
  by (metis add.commute append_eq_conv_conj drop_drop)

lemma skip_codes_eq:
  "drop p d = c # w @ 0 # 0xff # r \<Longrightarrow> 0xff \<notin> set w \<Longrightarrow> skip_codes d p = Some (p + length w + 2)"
proof (induction "length w" arbitrary: p c w rule: less_induct)
  case less
  have end0: "skip_codes d q = Some (q + 1)" if "drop q d = 0 # 0xff # r" for q
  proof -
    have "rd d q = Some 0" "rd d (q + 1) = Some 0xff" using that by (auto dest: drop_rds)
    then show ?thesis by (subst skip_codes.simps) (simp add: codesize_def)
  qed
  have c: "rd d p = Some c" using less.prems(1) by (auto dest: drop_rds)
  have d1: "drop (p + 1) d = w @ 0 # 0xff # r" using less.prems(1) by (auto dest: drop_rds)
  consider "codesize c = 1" | "codesize c = 2" using codesize_cases by blast
  then show ?case
  proof cases
    case 1
    show ?thesis
    proof (cases w)
      case Nil
      then show ?thesis using 1 c d1 end0 [of "p + 1"] by (subst skip_codes.simps) (auto dest: drop_rds)
    next
      case (Cons a w')
      then have "rd d (p + 1) = Some a" "a \<noteq> 0xff" using d1 less.prems(2) by (auto dest: drop_rds)
      moreover have "skip_codes d (p + 1) = Some (p + 1 + length w' + 2)" using less.hyps [of w' "p + 1" a] d1 Cons less.prems(2) by simp
      ultimately show ?thesis using 1 c Cons by (subst skip_codes.simps) simp
    qed
  next
    case 2
    consider "w = []" | a where "w = [a]" | a b w' where "w = a # b # w'" by (cases w; cases "tl w"; auto)
    then show ?thesis
    proof cases
      case 1
      then have "rd d (p + 2) = Some 0xff" using d1 drop_eq_Cons_rd [of "p + 1" d 0 "0xff # r"] drop_eq_Cons_rd [of "p + 2" d "0xff" r] by simp
      then show ?thesis using 2 c 1 by (subst skip_codes.simps) simp
    next
      case (2 a)
      then have d2: "drop (p + 2) d = 0 # 0xff # r" using d1 drop_eq_Cons_rd [of "p + 1" d a "0 # 0xff # r"] by simp
      then have "rd d (p + 2) = Some 0" by (auto dest: drop_rds)
      then show ?thesis using \<open>codesize c = 2\<close> c 2 end0 [OF d2] by (subst skip_codes.simps) simp
    next
      case (3 a b w')
      then have d2: "drop (p + 2) d = b # w' @ 0 # 0xff # r" using d1 drop_eq_Cons_rd [of "p + 1" d a] by simp
      then have "rd d (p + 2) = Some b" "b \<noteq> 0xff" using 3 less.prems(2) by (auto dest: drop_rds)
      moreover have "skip_codes d (p + 2) = Some (p + 2 + length w' + 2)" using less.hyps [OF _ d2] 3 less.prems(2) by simp
      ultimately show ?thesis using \<open>codesize c = 2\<close> c 3 by (subst skip_codes.simps) simp
    qed
  qed
qed

lemma enc_strs_simps [simp]: "enc_strs [] = []" "enc_strs (k # ks) = k @ 0 # enc_strs ks" "enc_strs (ks @ ls) = enc_strs ks @ enc_strs ls"
  by (simp_all add: enc_strs_def)

lemma enc_classes_simps [simp]: "enc_classes [] = []" "enc_classes (c # cs) = enc_class c @ enc_classes cs"
  "enc_classes (cs @ ds) = enc_classes cs @ enc_classes ds"
  by (simp_all add: enc_classes_def)

lemma enc_strs_end: "ks \<noteq> [] \<Longrightarrow> list_all kstr ks \<Longrightarrow> \<exists>w. enc_strs ks = w @ [0] \<and> 0xff \<notin> set w"
proof (induction ks)
  case (Cons k ks)
  then show ?case
  proof (cases "ks = []")
    case True
    then show ?thesis using Cons.prems by (auto simp: kstr_def)
  next
    case False
    then obtain w where "enc_strs ks = w @ [0]" "0xff \<notin> set w" using Cons by auto
    then show ?thesis using Cons.prems by (intro exI [of _ "k @ 0 # w"]) (auto simp: kstr_def)
  qed
qed simp

lemma skip_class:
  assumes "drop p d = enc_class c @ r" "class_ok c"
  shows "skip_codes d p = Some (p + length (enc_class c) - 1)" "rd d p = Some (fst c)" "0 < length (enc_class c)"
proof -
  obtain w where w: "enc_strs (snd c) = w @ [0]" "0xff \<notin> set w" using enc_strs_end assms(2) by (auto simp: class_ok_def)
  then have "drop p d = fst c # w @ 0 # 0xff # r" using assms(1) by (simp add: enc_class_def)
  from skip_codes_eq [OF this w(2)] drop_eq_Cons_rd [OF this] w(1)
  show "skip_codes d p = Some (p + length (enc_class c) - 1)" "rd d p = Some (fst c)" "0 < length (enc_class c)"
    by (simp_all add: enc_class_def)
qed

definition class_pos :: "u8 \<Rightarrow> klass list \<Rightarrow> nat" where
  "class_pos h cs = length (enc_classes (takeWhile (\<lambda>c. fst c \<noteq> h) cs))"

lemma gram_loop_eq:
  assumes "drop p d = enc_classes cs @ r" "list_all class_ok cs" "distinct (map fst cs)"
  shows "gram_loop d (p + length (enc_classes cs)) h p f cnt =
    Some (p + length (enc_classes cs), if h \<in> fst ` set cs then Some (p + class_pos h cs) else f, cnt + length cs)"
  using assms
proof (induction cs arbitrary: p f cnt)
  case Nil
  then show ?case by (subst gram_loop.simps) simp
next
  case (Cons c cs)
  let ?n = "length (enc_class c)"
  have s: "skip_codes d p = Some (p + ?n - 1)" "rd d p = Some (fst c)" "0 < ?n"
    using skip_class [of p d c "enc_classes cs @ r"] Cons.prems by simp_all
  have d: "drop (p + ?n) d = enc_classes cs @ r" using Cons.prems(1) by (intro drop_app) simp
  have "gram_loop d (p + length (enc_classes (c # cs))) h p f cnt =
      gram_loop d (p + ?n + length (enc_classes cs)) h (p + ?n) (if fst c = h then Some p else f) (cnt + 1)"
    using s by (subst gram_loop.simps) (simp add: add.assoc)
  also have "\<dots> = Some (p + ?n + length (enc_classes cs), if h \<in> fst ` set cs then Some (p + ?n + class_pos h cs) else (if fst c = h then Some p else f), cnt + 1 + length cs)"
    using Cons.IH [OF d] Cons.prems by simp
  finally show ?case using Cons.prems(3) by (auto simp: class_pos_def add.assoc)
qed

lemma srchgram_eq:
  assumes "getntag d p = Some (p + 3 + n + length (enc_classes cs))" "getnlen d p = Some n"
    and "drop (p + 3 + n) d = enc_classes cs @ r" "list_all class_ok cs" "distinct (map fst cs)"
  shows "srchgram d p h = Some (if h \<in> fst ` set cs then (length cs, p + 3 + n + class_pos h cs) else (0, p + 3 + n + length (enc_classes cs)))"
  using gram_loop_eq [OF assms(3-5), of h None 0] assms(1,2) by (simp add: srchgram_def)

section \<open>Search for a kanji string\<close>

lemma to_strend_eq: "drop p d = k @ 0 # r \<Longrightarrow> codes_ok k \<Longrightarrow> to_strend d p = Some (p + length k)"
proof (induction k arbitrary: p rule: codes_ok.induct)
  case 1
  then have "rd d p = Some 0" by (auto dest: drop_rds)
  then show ?case by (subst to_strend.simps) simp
next
  case (2 c k)
  let ?n = "codesize c"
  have c: "rd d p = Some c" "c \<noteq> 0" "?n \<le> Suc (length k)" "codes_ok (drop (?n - 1) k)" using "2.prems" by (auto dest: drop_rds)
  obtain m where m: "?n = Suc m" using codesize_pos [of c] by (cases "?n") auto
  have "drop (p + length (c # take m k)) d = drop m k @ 0 # r" using "2.prems"(1) by (intro drop_app) simp
  then have "drop (p + ?n) d = drop m k @ 0 # r" using c(3) m by simp
  then have "to_strend d (p + ?n) = Some (p + ?n + length (drop m k))" using "2.IH" c(4) m by simp
  then show ?case using c m by (subst to_strend.simps) simp
qed

lemma same_bytes_eq:
  "drop p d = k @ 0 # r \<Longrightarrow> codes_ok k \<Longrightarrow> codes_ok q \<Longrightarrow> same_bytes d p q = Some (take (length q) k = q)"
proof (induction k arbitrary: p q rule: codes_ok.induct)
  case 1
  then show ?case by (cases q) (auto dest: drop_rds)
next
  case (2 c k)
  let ?n = "codesize c"
  have c: "rd d p = Some c" "drop (Suc p) d = k @ 0 # r" "?n \<le> Suc (length k)" "codes_ok (drop (?n - 1) k)" using "2.prems" by (auto dest: drop_rds)
  show ?case
  proof (cases q)
    case (Cons b q')
    show ?thesis
    proof (cases "c = b")
      case True
      then have q: "codesize c \<le> Suc (length q')" "codes_ok (drop (codesize c - 1) q')" using "2.prems"(3) Cons by simp_all
      consider "?n = 1" | "?n = 2" using codesize_cases by blast
      then show ?thesis
      proof cases
        case 1
        then have "same_bytes d (Suc p) q' = Some (take (length q') k = q')" using "2.IH" c(2,4) q by simp
        then show ?thesis using Cons True c(1) by simp
      next
        case two: 2
        then obtain x k' b' q'' where x: "k = x # k'" "q' = b' # q''" using c(3) q(1) by (cases k; cases q'; simp)
        then have d: "rd d (Suc p) = Some x" "drop (Suc (Suc p)) d = k' @ 0 # r" using c(2) by (auto dest: drop_rds)
        have "same_bytes d (Suc (Suc p)) q'' = Some (take (length q'') k' = q'')" using "2.IH" two c(4) q(2) d(2) x by simp
        then show ?thesis using Cons True c(1) d(1) x by simp
      qed
    qed (use Cons c in auto)
  qed simp
qed

fun str_pos :: "u8 list \<Rightarrow> u8 list list \<Rightarrow> nat \<Rightarrow> nat option \<Rightarrow> nat option" where
  "str_pos q [] p f = f"
| "str_pos q (k # ks) p f = str_pos q ks (p + length k + 1) (if take (length q) k = q then Some p else f)"

lemma kanji_loop_eq:
  assumes "drop p d = enc_strs ks @ 0xff # r" "list_all kstr ks" "codes_ok q"
  shows "kanji_loop d q p f cnt = Some (p + length (enc_strs ks), str_pos q ks p f, cnt + length ks)"
  using assms(1,2)
proof (induction ks arbitrary: p f cnt)
  case Nil
  then show ?case by (subst kanji_loop.simps) (auto dest: drop_rds)
next
  case (Cons k ks)
  then have k: "k \<noteq> []" "codes_ok k" "0xff \<notin> set k" by (simp_all add: kstr_def)
  obtain c k' where ck: "k = c # k'" using k(1) by (cases k) auto
  have dk: "drop p d = k @ 0 # enc_strs ks @ 0xff # r" using Cons.prems by simp
  then have c: "rd d p = Some c" "c \<noteq> 0xff" using ck k(3) by (auto dest: drop_rds)
  have "drop (p + length (k @ [0])) d = enc_strs ks @ 0xff # r" using dk by (intro drop_app) simp
  then have d: "drop (p + length k + 1) d = enc_strs ks @ 0xff # r" by simp
  have "kanji_loop d q p f cnt = kanji_loop d q (p + length k + 1) (if take (length q) k = q then Some p else f) (cnt + 1)"
    using c to_strend_eq [OF dk k(2)] same_bytes_eq [OF dk k(2) assms(3)] by (subst kanji_loop.simps) simp
  then show ?case using Cons.IH [OF d] Cons.prems(2) by simp
qed

section \<open>A reading in place\<close>

lemma sizes_append: "sizes_ok prev (as @ bs) \<longleftrightarrow> sizes_ok prev as \<and> sizes_ok (last_yomi prev as) bs"
  by (induction as arbitrary: prev) simp_all

lemma seg_from_append:
  "seg_from prev (as @ bs) \<longleftrightarrow> seg_from prev as \<and> seg_from (last_yomi prev as) bs"
  by (induction as arbitrary: prev) (auto simp: seg_from_Cons)

lemma seg_from_below:
  assumes "seg_from prev bs" "prev < y"
  shows "seg_from prev (below y bs)" "last_yomi prev (below y bs) < y" "seg_from (last_yomi prev (below y bs)) (above y bs)"
proof -
  have a: "seg_from prev (below y bs @ above y bs)" using assms(1) by (simp add: below_above)
  then show "seg_from prev (below y bs)" "seg_from (last_yomi prev (below y bs)) (above y bs)" by (simp_all add: seg_from_append)
  show "last_yomi prev (below y bs) < y" using assms(2)
  proof (induction bs arbitrary: prev)
    case (Cons b bs)
    then show ?case by (cases "fst b < y") (simp_all add: place_Cons)
  qed (simp add: below_def)
qed

lemma above_cases:
  obtains (none) "above y bs = []" "\<not> found y bs"
  | (same) cs hi where "above y bs = (y, cs) # hi" "found y bs"
  | (more) b hi where "above y bs = b # hi" "y < fst b" "\<not> found y bs"
proof (cases "above y bs")
  case Nil
  then show thesis by (intro none) (simp_all add: found_def)
next
  case (Cons b hi)
  then have "\<not> fst b < y" by (metis above_def dropWhile_eq_Cons_conv)
  then consider "fst b = y" | "y < fst b" using less_linear [of "fst b" y] by blast
  then show thesis
  proof cases
    case 1
    then have "above y bs = (y, snd b) # hi" using Cons by (metis prod.collapse)
    then show thesis by (rule same) (simp add: found_def Cons 1)
  next
    case 2
    then show thesis using Cons by (intro more) (auto simp: found_def)
  qed
qed

lemma seg_at_place:
  assumes "seg_fits sl bs F r"
  shows "seg_at (seg_bytes bs F r) sl (Suc (length (enc_blks [] (below y bs)))) (last_yomi [] (below y bs)) (above y bs)"
proof -
  let ?E = "enc_blks [] (below y bs)"
  let ?F = "enc_blks (last_yomi [] (below y bs)) (above y bs)"
  have e: "enc_blks [] bs = ?E @ ?F" by (metis below_above enc_blks_append)
  show ?thesis
    by (rule seg_atI [of _ "0 # ?E" _ _ F r]) (use assms in \<open>auto simp: seg_fits_def seg_bytes_def e\<close>)
qed

text \<open>The block of a reading that is there, with its parts in place.\<close>

lemma found_block:
  assumes "seg_fits sl bs F r" "seg_ok bs" "above y bs = (y, cs) # hi" "y \<noteq> []"
  defines "q \<equiv> last_yomi [] (below y bs)"
  defines "p \<equiv> Suc (length (enc_blks [] (below y bs)))"
  defines "d \<equiv> seg_bytes bs F r"
  shows "getsize d p = Some (blk_size q (y, cs))" "getntag d p = Some (p + 3 + (length y - lcp q y) + length (enc_classes cs))"
    "getplen d p = Some (lcp q y)" "getnlen d p = Some (length y - lcp q y)"
    "\<exists>rest. drop (p + 3 + (length y - lcp q y)) d = enc_classes cs @ rest"
    "blk_ok (y, cs)" "blk_size q (y, cs) \<le> 0xfff" "q < y" "seg_from y hi"
    "segend d sl p = Some False" "seg_at d sl (p + blk_size q (y, cs)) y hi"
proof -
  have y: "[] < y" using assms(4) by (cases y) simp_all
  note f = seg_from_below(3) [OF assms(2) [unfolded seg_ok_from] y, folded q_def, unfolded assms(3) seg_from_Cons fst_conv]
  then show "blk_ok (y, cs)" "blk_size q (y, cs) \<le> 0xfff" "q < y" "seg_from y hi" by simp_all
  have at: "seg_at d sl p q ((y, cs) # hi)" using seg_at_place [OF assms(1), of y] unfolding p_def q_def d_def assms(3) .
  have "length (fst (y, cs)) \<le> 31" "blk_size q (y, cs) \<le> 0xfff" using f blk_okD(1) by auto
  note s = seg_at_Cons [OF at this, unfolded fst_conv snd_conv]
  show "getsize d p = Some (blk_size q (y, cs))" "getplen d p = Some (lcp q y)" "getnlen d p = Some (length y - lcp q y)"
    "segend d sl p = Some False" "seg_at d sl (p + blk_size q (y, cs)) y hi" by (fact s)+
  show "getntag d p = Some (p + 3 + (length y - lcp q y) + length (enc_classes cs))" using s(3) by (simp add: blk_size_def add.assoc)
  obtain rest where "drop (p + 3) d = drop (lcp q y) y @ enc_classes cs @ rest" using s(7) by blast
  then have "drop (p + 3 + length (drop (lcp q y) y)) d = enc_classes cs @ rest" by (rule drop_app)
  then show "\<exists>rest. drop (p + 3 + (length y - lcp q y)) d = enc_classes cs @ rest" by auto
qed

lemma str_pos_None: "list_all (\<lambda>k. take (length q) k \<noteq> q) ks \<Longrightarrow> str_pos q ks p f = f"
  by (induction ks arbitrary: p) simp_all

lemma str_pos_Some:
  "\<exists>k \<in> set ks. take (length q) k = q \<Longrightarrow>
    \<exists>ls k' ms. ks = ls @ k' # ms \<and> take (length q) k' = q \<and> str_pos q ks p f = Some (p + length (enc_strs ls))"
proof (induction ks arbitrary: p f)
  case (Cons a ks)
  show ?case
  proof (cases "\<exists>k \<in> set ks. take (length q) k = q")
    case True
    then obtain ls k' ms where r: "ks = ls @ k' # ms" "take (length q) k' = q"
      "str_pos q ks (p + length a + 1) (if take (length q) a = q then Some p else f) = Some (p + length a + 1 + length (enc_strs ls))"
      using Cons.IH [OF True] by blast
    then show ?thesis by (intro exI [of _ "a # ls"] exI [of _ k'] exI [of _ ms]) simp
  next
    case False
    then have "take (length q) a = q" using Cons.prems by auto
    moreover have "str_pos q ks (p + length a + 1) (Some p) = Some p" using False by (intro str_pos_None) (auto simp: list_all_iff)
    ultimately show ?thesis by (intro exI [of _ "[]"] exI [of _ a] exI [of _ ks]) simp
  qed
qed simp

lemma srchkanji_eq:
  assumes "drop p d = enc_class (h, ks) @ r" "list_all kstr ks" "codes_ok k"
  shows "srchkanji d p k = Some (length ks, case str_pos k ks (p + 1) None of Some q \<Rightarrow> q | None \<Rightarrow> p + 1 + length (enc_strs ks))"
proof -
  have "drop (p + 1) d = enc_strs ks @ 0xff # r" using assms(1) drop_eq_Cons_rd [of p d h "enc_strs ks @ 0xff # r"] by (simp add: enc_class_def)
  from kanji_loop_eq [OF this assms(2,3), of None 0] show ?thesis by (simp add: srchkanji_def split: option.split)
qed

text \<open>What \<^verbatim>\<open>srchkanji\<close> returns on the class block at \<open>q\<close>.\<close>

definition str_lookup :: "cbuf \<Rightarrow> nat \<Rightarrow> u8 list list \<Rightarrow> u8 list \<Rightarrow> bool" where
  "str_lookup d q ks k \<longleftrightarrow>
     (\<exists>z c. srchkanji d q k = Some (length ks, z) \<and> rd d z = Some c \<and>
       (if \<exists>k' \<in> set ks. take (length k) k' = k
        then c \<noteq> HINSIBLKTERM \<and> (\<exists>k' \<in> set ks. \<exists>s. take (length k) k' = k \<and> drop z d = k' @ KANJISTREND # s)
        else c = HINSIBLKTERM))"

lemma srch_str:
  assumes "drop p d = enc_class (h, ks) @ r" "list_all kstr ks" "codes_ok k"
  shows "str_lookup d p ks k"
proof -
  note knj = srchkanji_eq [OF assms]
  show ?thesis
  proof (cases "\<exists>k' \<in> set ks. take (length k) k' = k")
    case True
    then obtain ls k' ms where l: "ks = ls @ k' # ms" "take (length k) k' = k"
      "str_pos k ks (p + 1) None = Some (p + 1 + length (enc_strs ls))" using str_pos_Some by blast
    obtain c k'' where c: "k' = c # k''" "c \<noteq> 0xff" using assms(2) l(1) by (cases k') (auto simp: kstr_def)
    have "drop p d = (h # enc_strs ls) @ k' @ 0 # enc_strs ms @ 0xff # r" using assms(1) l(1) by (simp add: enc_class_def)
    from drop_app [OF this] have d: "drop (p + 1 + length (enc_strs ls)) d = k' @ 0 # enc_strs ms @ 0xff # r" by simp
    then have "rd d (p + 1 + length (enc_strs ls)) = Some c" unfolding c(1) by (auto dest: drop_rds)
    then show ?thesis unfolding str_lookup_def using True c(2) d knj l by auto
  next
    case False
    then have "str_pos k ks (p + 1) None = None" by (intro str_pos_None) (simp add: list_all_iff)
    moreover have "drop p d = (h # enc_strs ks) @ 0xff # r" using assms(1) by (simp add: enc_class_def)
    from drop_app [OF this] have "drop (p + 1 + length (enc_strs ks)) d = 0xff # r" by simp
    then have "rd d (p + 1 + length (enc_strs ks)) = Some 0xff" by (auto dest: drop_rds)
    ultimately show ?thesis unfolding str_lookup_def using False knj by simp
  qed
qed

text \<open>The three searches together, on a segment that is followed by others or not full.\<close>

definition class_lookup :: "cbuf \<Rightarrow> nat \<Rightarrow> klass list \<Rightarrow> u8 \<Rightarrow> u8 list \<Rightarrow> bool" where
  "class_lookup d p cs h k \<longleftrightarrow>
     (\<exists>m q. srchgram d p h = Some (m, q) \<and> (m = 0 \<longleftrightarrow> h \<notin> fst ` set cs) \<and>
       (\<forall>ks. (h, ks) \<in> set cs \<longrightarrow> m = length cs \<and> str_lookup d q ks k))"

definition lookup_ok :: "cbuf \<Rightarrow> nat \<Rightarrow> douon list \<Rightarrow> u8 list \<Rightarrow> u8 \<Rightarrow> u8 list \<Rightarrow> cbuf \<Rightarrow> bool" where
  "lookup_ok d sl bs y h k ry \<longleftrightarrow>
     (\<exists>n p s. srchkana (y @ 0 # ry) d sl None = Some (n, p, s) \<and> (n = 0 \<longleftrightarrow> y \<notin> fst ` set bs) \<and>
       (\<forall>cs. (y, cs) \<in> set bs \<longrightarrow> n = length bs \<and> class_lookup d p cs h k))"

lemma found_iff: "seg_ok bs \<Longrightarrow> found y bs \<longleftrightarrow> y \<in> fst ` set bs"
proof
  assume "found y bs"
  then have "hd (above y bs) \<in> set bs" "fst (hd (above y bs)) = y"
    by (simp_all add: found_def) (metis below_above hd_in_set Un_iff set_append)
  then show "y \<in> fst ` set bs" by force
next
  assume ok: "seg_ok bs" and y: "y \<in> fst ` set bs"
  show "found y bs"
  proof (rule ccontr)
    assume n: "\<not> found y bs"
    have "y \<notin> fst ` set (below y bs)" by (auto simp: below_def dest: set_takeWhileD)
    moreover have "y \<notin> fst ` set (above y bs)"
    proof (cases rule: above_cases [of y bs])
      case (more b hi)
      have "sorted_wrt (<) (map fst (below y bs @ above y bs))" using ok by (simp only: below_above seg_ok_def)
      then have "\<forall>c \<in> set hi. fst b < fst c" unfolding more(1) by (simp add: sorted_wrt_append)
      then show ?thesis using more by fastforce
    qed (use n in simp_all)
    moreover have "set bs = set (below y bs) \<union> set (above y bs)" by (metis below_above set_append)
    ultimately show False using y by auto
  qed
qed

lemma above_unique:
  assumes "seg_ok bs" "(y, cs) \<in> set bs"
  shows "\<exists>hi. above y bs = (y, cs) # hi"
proof -
  have "found y bs" using assms by (force simp: found_iff)
  then obtain cs' hi where a: "above y bs = (y, cs') # hi" by (cases rule: above_cases [of y bs]) auto
  then have "(y, cs') \<in> set bs" by (metis below_above in_set_conv_decomp)
  moreover have "distinct (map fst bs)" using assms(1) by (simp add: seg_ok_def strict_sorted_iff)
  ultimately have "cs' = cs" using assms(2) by (meson eq_key_imp_eq_value)
  with a show ?thesis by simp
qed

lemma lookup_found:
  assumes "seg_fits sl bs F r" "seg_ok bs" "above y bs = (y, cs) # hi" "y \<noteq> []" "codes_ok k"
  defines "p \<equiv> Suc (length (enc_blks [] (below y bs)))" and "d \<equiv> seg_bytes bs F r"
  shows "class_lookup d p cs h k"
proof -
  note b = found_block [OF assms(1-4), folded p_def d_def]
  let ?t = "p + 3 + (length y - lcp (last_yomi [] (below y bs)) y)"
  obtain rest where rest: "drop ?t d = enc_classes cs @ rest" using b(5) by blast
  have cs: "list_all class_ok cs" "distinct (map fst cs)" using b(6) by (simp_all add: blk_ok_def)
  note gram = srchgram_eq [OF b(2,4) rest cs, of h]
  show ?thesis
  proof (cases "h \<in> fst ` set cs")
    case False
    then have "\<And>ks. (h, ks) \<notin> set cs" by force
    then show ?thesis using False gram by (simp add: class_lookup_def)
  next
    case True
    then obtain ks where ks: "(h, ks) \<in> set cs" by auto
    then obtain X Y where X: "cs = X @ (h, ks) # Y" by (meson split_list)
    then have "h \<notin> fst ` set X" using cs(2) by auto
    then have "takeWhile (\<lambda>c. fst c \<noteq> h) cs = X" unfolding X by (subst takeWhile_append2) auto
    then have pos: "class_pos h cs = length (enc_classes X)" by (simp add: class_pos_def)
    have "drop ?t d = enc_classes X @ enc_class (h, ks) @ enc_classes Y @ rest" using rest X by simp
    then have dk: "drop (?t + length (enc_classes X)) d = enc_class (h, ks) @ enc_classes Y @ rest" by (rule drop_app)
    have "list_all kstr ks" using cs(1) X by (simp add: class_ok_def)
    note str = srch_str [OF dk this assms(5)]
    have uniq: "ks' = ks" if "(h, ks') \<in> set cs" for ks' using that ks cs(2) by (meson eq_key_imp_eq_value)
    have "length cs \<noteq> 0" using X by simp
    moreover have "srchgram d p h = Some (length cs, ?t + length (enc_classes X))" using gram True pos by simp
    ultimately show ?thesis unfolding class_lookup_def using str uniq True by blast
  qed
qed


abbreviation demo_seg :: "douon list" where
  "demo_seg \<equiv> [([0x21], [(0x01, [[0x30, 0x21]])]), ([0x21, 0x22], [(0x12, [[0x31, 0x21], [0x32, 0x21]]), (0x01, [[0x81]])])]"

lemma demo_seg_ok: "seg_ok demo_seg"
  unfolding seg_ok_def by (intro conjI) code_simp+

lemma demo_seg_repr: "seg_repr (seg_bytes demo_seg (replicate 14 0xff) [0]) 40 demo_seg [0]"
  unfolding seg_repr_def by (intro exI [of _ "replicate 14 0xff"] conjI refl) code_simp+


end
