(* ===== verification/Sj_Kanji.thy ===== *)
theory Sj_Kanji
  imports Sj_Dict
begin

text \<open>
  How a word is written into a user dictionary and read back: the checks of the arguments
  and \<^verbatim>\<open>cvtknj\<close> of \<^verbatim>\<open>lib/sj3core/addelcmn.c\<close>, which abbreviates the parts of the kanji
  string that are the reading in hiragana or katakana, and \<^verbatim>\<open>getkanji.c\<close> and
  \<^verbatim>\<open>get_askknj\<close> (\<^verbatim>\<open>dict.c\<close>), which expand it.
\<close>

section \<open>Arguments\<close>

abbreviation AD_DONE :: u32 where "AD_DONE \<equiv> 0"
abbreviation AD_NOTUSERDICT :: u32 where "AD_NOTUSERDICT \<equiv> 0x0001"
abbreviation AD_BADYOMI :: u32 where "AD_BADYOMI \<equiv> 0x0002"
abbreviation AD_BADKANJI :: u32 where "AD_BADKANJI \<equiv> 0x0004"
abbreviation AD_BADHINSI :: u32 where "AD_BADHINSI \<equiv> 0x0008"
abbreviation AD_AREXIST :: u32 where "AD_AREXIST \<equiv> 0x0010"
abbreviation AD_OVFLWDOUBLK :: u32 where "AD_OVFLWDOUBLK \<equiv> 0x0020"
abbreviation AD_OVFLWDOUNUM :: u32 where "AD_OVFLWDOUNUM \<equiv> 0x0040"
abbreviation AD_OVFLWUSRDIC :: u32 where "AD_OVFLWUSRDIC \<equiv> 0x0080"
abbreviation AD_OVFLWINDEX :: u32 where "AD_OVFLWINDEX \<equiv> 0x0100"
abbreviation AD_NOMIDASI :: u32 where "AD_NOMIDASI \<equiv> 0x0010"
abbreviation AD_NOHINSI :: u32 where "AD_NOHINSI \<equiv> 0x0020"
abbreviation AD_NOKANJI :: u32 where "AD_NOKANJI \<equiv> 0x0040"

function isvyomi_loop :: "cbuf \<Rightarrow> nat \<Rightarrow> bool option" where
  "isvyomi_loop yp len = do {
     c \<leftarrow> rd yp len;
     if c = 0 then Some True
     else if \<not> yomi_code c then Some False
     else if len + 1 > MAXWDYOMILEN then Some False
     else isvyomi_loop yp (len + 1) }"
  by pat_completeness auto
termination
  by (relation "measure (\<lambda>(p, n). length p - n)") (auto simp: rd_Some_iff)

declare isvyomi_loop.simps [simp del]

definition isvyomi :: "cbuf \<Rightarrow> bool option" where
  "isvyomi yp = do {
     c \<leftarrow> rd yp 0;
     if c = 0 then Some False
     else if Chrtbl c AND DICTOP = 0 then Some False
     else isvyomi_loop yp 0 }"

function isvknj_loop :: "cbuf \<Rightarrow> nat \<Rightarrow> nat \<Rightarrow> bool option" where
  "isvknj_loop kanji i len = do {
     c \<leftarrow> rd kanji i;
     if c = 0 then Some True
     else if len + 2 > MAXWDKANJILEN then Some False
     else isvknj_loop kanji (i + (if c = SS3 then 3 else if isknj1 c then 2 else 1)) (len + 2) }"
  by pat_completeness auto
termination
  by (relation "measure (\<lambda>(p, i, n). length p - i)") (auto simp: rd_Some_iff)

declare isvknj_loop.simps [simp del]

definition isvknj :: "cbuf \<Rightarrow> bool option" where
  "isvknj kanji = do { c \<leftarrow> rd kanji 0; if c = 0 then Some False else isvknj_loop kanji 0 0 }"

definition isgrm :: "u8 \<Rightarrow> bool" where
  "isgrm gram \<longleftrightarrow>
     (let grm = uint gram in
      (0x01 \<le> grm \<and> grm \<le> 0x11) \<or> (0x15 \<le> grm \<and> grm \<le> 0x36) \<or> (0x3c \<le> grm \<and> grm \<le> 0x51)
      \<or> (0x5a \<le> grm \<and> grm \<le> 0x6c) \<or> (0x6f \<le> grm \<and> grm \<le> 0x76) \<or> (0x79 \<le> grm \<and> grm \<le> 0x80)
      \<or> (0x82 \<le> grm \<and> grm \<le> 0x8a) \<or> (0x8c \<le> grm \<and> grm \<le> 0x94) \<or> (0x97 \<le> grm \<and> grm \<le> 0x9e)
      \<or> (0xa1 \<le> grm \<and> grm \<le> 0xa8) \<or> (0xab \<le> grm \<and> grm \<le> 0xbd))"

text \<open>
  The errors found, and the object \<^verbatim>\<open>yptr\<close> of the caller with the reading in codes. What
  \<^verbatim>\<open>yptr\<close> holds before is overwritten as far as it is read.
\<close>

definition addel_arg :: "cbuf \<Rightarrow> cbuf \<Rightarrow> u8 \<Rightarrow> cbuf \<Rightarrow> nat \<Rightarrow> (u32 \<times> cbuf) option" where
  "addel_arg yp kp grm nyp len = do {
     (ok, nyp) \<leftarrow> sj2cd_str yp nyp 0 len;
     v \<leftarrow> isvyomi nyp;
     k \<leftarrow> isvknj kp;
     Some ((if ok \<and> v then 0 else AD_BADYOMI) OR (if k then 0 else AD_BADKANJI)
           OR (if isgrm grm then 0 else AD_BADHINSI), nyp) }"

section \<open>Writing kanji\<close>

text \<open>\<^verbatim>\<open>yomi2kata\<close>: the bytes it writes, with the terminator.\<close>

function yomi2kata :: "cbuf \<Rightarrow> nat \<Rightarrow> u8 list option" where
  "yomi2kata src i = do {
     c \<leftarrow> rd src i;
     if c = 0 then Some [0]
     else do {
       c2 \<leftarrow> rd src (i + 1);
       r \<leftarrow> yomi2kata src (i + 2);
       Some ((if c \<noteq> 0xa4 then c else 0xa5) # c2 # r) } }"
  by pat_completeness auto
termination
  by (relation "measure (\<lambda>(p, i). length p - i)") (auto simp: rd_Some_iff)

declare yomi2kata.simps [simp del]

function top_count :: "cbuf \<Rightarrow> cbuf \<Rightarrow> nat \<Rightarrow> nat option" where
  "top_count src dst i = do {
     a \<leftarrow> rd src i;
     if a = 0 then Some i
     else do { b \<leftarrow> rd dst i; if a = b then top_count src dst (i + 1) else Some i } }"
  by pat_completeness auto
termination
  by (relation "measure (\<lambda>(s, d, i). length s - i)") (auto simp: rd_Some_iff)

declare top_count.simps [simp del]

definition top_strcmp :: "cbuf \<Rightarrow> cbuf \<Rightarrow> nat option" where
  "top_strcmp src dst = do { i \<leftarrow> top_count src dst 0; Some (min (i div 2) MAXYOMIASKNUMBER) }"

text \<open>
  \<^verbatim>\<open>last_strcmp(src, dst + k)\<close>. When the second string is longer than the first, the
  comparison starts before the object \<^verbatim>\<open>src\<close>.
\<close>

definition last_strcmp :: "cbuf \<Rightarrow> cbuf \<Rightarrow> nat \<Rightarrow> nat option" where
  "last_strcmp src dst k = do {
     slen \<leftarrow> strlen src;
     dlen \<leftarrow> str_at dst k;
     if dlen > MAXYOMIASKNUMBER * 2 then Some 0
     else if slen < dlen then None
     else do { ne \<leftarrow> sstrcmp src (slen - dlen) dst k; Some (if ne then 0 else dlen div 2) } }"

definition ask_code :: "u8 \<Rightarrow> nat \<Rightarrow> u8" where
  "ask_code m len = m OR of_nat (len - 1)"

function cvt_loop :: "cbuf \<Rightarrow> cbuf \<Rightarrow> cbuf \<Rightarrow> nat \<Rightarrow> u8 list option" where
  "cvt_loop yomi kana knj k = do {
     h \<leftarrow> last_strcmp yomi knj k;
     if h \<noteq> 0 then Some [ask_code ZENHIRAASSYUKU h]
     else do {
       t \<leftarrow> last_strcmp kana knj k;
       if t \<noteq> 0 then Some [ask_code ZENKATAASSYUKU t]
       else do {
         c \<leftarrow> rd knj k;
         (out, k') \<leftarrow>
           (if c = SS2 then do { x \<leftarrow> rd knj (k + 1); Some ([LEADINGHANKAKU, x], k + 2) }
            else if c = SS3 then do {
              x \<leftarrow> rd knj (k + 1); z \<leftarrow> rd knj (k + 2); Some ([x AND NORMALKANJIMASK, z], k + 3) }
            else if c AND 0x80 \<noteq> 0 then do {
              x \<leftarrow> rd knj (k + 1); Some ([c AND NORMALKANJIMASK, x AND NORMALKANJIMASK], k + 2) }
            else Some ([LEADINGHANKAKU, c], k + 1));
         e \<leftarrow> rd knj k';
         if e = 0 then Some out
         else do { r \<leftarrow> cvt_loop yomi kana knj k'; Some (out @ r) } } } }"
  by pat_completeness auto
termination
  by (relation "measure (\<lambda>(y, a, p, k). length p - k)") (auto simp: rd_Some_iff split: if_splits bind_splits)

declare cvt_loop.simps [simp del]

text \<open>
  The bytes written before the terminator; their number is the result of \<^verbatim>\<open>cvtknj\<close>. The
  local array \<^verbatim>\<open>kana\<close> has room for 31 characters.
\<close>

definition cvtknj :: "cbuf \<Rightarrow> cbuf \<Rightarrow> u8 list option" where
  "cvtknj yomi knj = do {
     kana \<leftarrow> yomi2kata yomi 0;
     if length kana > MAXWDYOMILEN * 2 + 1 then None else do {
     h \<leftarrow> top_strcmp yomi knj;
     (top, len) \<leftarrow>
       (if h \<noteq> 0 then Some ([ask_code ZENHIRAASSYUKU h], h)
        else do {
          t \<leftarrow> top_strcmp kana knj;
          Some (if t \<noteq> 0 then ([ask_code ZENKATAASSYUKU t], t) else ([], 0)) });
     c \<leftarrow> rd knj (len * 2);
     if c = 0 then Some top
     else do { r \<leftarrow> cvt_loop yomi kana knj (len * 2); Some (top @ r) } } }"

section \<open>Reading kanji\<close>

text \<open>The table of common strings at the top of a segment, at most 16 of them.\<close>

function ask_loop :: "cbuf \<Rightarrow> nat \<Rightarrow> nat \<Rightarrow> nat \<Rightarrow> nat list option" where
  "ask_loop d p q i =
     (if p < q then
        if i \<ge> 16 then None
        else do { r \<leftarrow> skipkstr d p; t \<leftarrow> ask_loop d r q (i + 1); Some (p # t) }
      else Some [])"
  by pat_completeness auto
termination
  by (relation "measure (\<lambda>(d, p, q, i). q - p)") (auto dest: skipkstr_gt)

declare ask_loop.simps [simp del]

definition get_askknj :: "cbuf \<Rightarrow> nat list option" where
  "get_askknj d = do { n \<leftarrow> rd d 0; ask_loop d 1 (unat n) 0 }"

text \<open>
  The expansion of one code at \<open>s\<close>: hiragana and katakana of the reading \<open>ym\<close> (of
  \<open>yl\<close> characters, from its top or, for the last code, from its end), ASCII and half-width
  kana, and plain kanji.
\<close>

definition ask_cnt :: "cbuf \<Rightarrow> nat \<Rightarrow> nat option" where
  "ask_cnt d s = do { c \<leftarrow> rd d s; Some (unat (c AND 0x0f) + 1) }"

definition ask_from :: "nat \<Rightarrow> nat \<Rightarrow> bool \<Rightarrow> nat option" where
  "ask_from yl cnt at_end = (if \<not> at_end then Some 0 else if yl < cnt then None else Some ((yl - cnt) * 2))"

fun get_bytes :: "cbuf \<Rightarrow> nat \<Rightarrow> nat \<Rightarrow> u8 list option" where
  "get_bytes p i 0 = Some []"
| "get_bytes p i (Suc n) = do { c \<leftarrow> rd p i; r \<leftarrow> get_bytes p (i + 1) n; Some (c # r) }"

fun kata_bytes :: "cbuf \<Rightarrow> nat \<Rightarrow> nat \<Rightarrow> u8 list option" where
  "kata_bytes p i 0 = Some []"
| "kata_bytes p i (Suc n) = do {
     c \<leftarrow> rd p i; ch \<leftarrow> rd p (i + 1); r \<leftarrow> kata_bytes p (i + 2) n;
     Some ((if c = 0xa4 \<and> 0xa1 \<le> ch \<and> ch \<le> 0xf3 then 0xa5 else c) # ch # r) }"

definition getkan_hira :: "cbuf \<Rightarrow> nat \<Rightarrow> cbuf \<Rightarrow> nat \<Rightarrow> bool \<Rightarrow> u8 list option" where
  "getkan_hira d s ym yl at_end = do {
     cnt \<leftarrow> ask_cnt d s; i \<leftarrow> ask_from yl cnt at_end; get_bytes ym i (cnt * 2) }"

definition getkan_kata :: "cbuf \<Rightarrow> nat \<Rightarrow> cbuf \<Rightarrow> nat \<Rightarrow> bool \<Rightarrow> u8 list option" where
  "getkan_kata d s ym yl at_end = do {
     cnt \<leftarrow> ask_cnt d s; i \<leftarrow> ask_from yl cnt at_end; kata_bytes ym i cnt }"

definition getkan_norm :: "cbuf \<Rightarrow> nat \<Rightarrow> u8 list option" where
  "getkan_norm d s = do {
     a \<leftarrow> rd d s;
     if a \<noteq> 0 then do {
       c \<leftarrow> rd d (s + 1);
       Some ((if c AND 0x80 \<noteq> 0 then [SS3] else []) @ [a OR 0x80, c OR 0x80]) }
     else Some [a] }"

definition getkan_ascii :: "cbuf \<Rightarrow> nat \<Rightarrow> u8 list option" where
  "getkan_ascii d s = do {
     c \<leftarrow> rd d (s + 1);
     Some ((if c AND 0x80 \<noteq> 0 then [SS2] else []) @ [c]) }"

text \<open>
  \<^verbatim>\<open>code2kanji\<close> with \<^verbatim>\<open>getkan_ofs\<close> and \<^verbatim>\<open>getkan_knj\<close>, which expand a string at
  another place; strings that refer to each other in a circle are expanded for ever.
\<close>

partial_function (option) code2kanji ::
  "cbuf \<Rightarrow> nat list \<Rightarrow> cbuf \<Rightarrow> nat \<Rightarrow> bool \<Rightarrow> nat \<Rightarrow> u8 list option" where
  "code2kanji d ask ym yl flg s = do {
     c \<leftarrow> rd d s;
     e \<leftarrow> rd d (s + codesize c);
     let f = (flg \<and> e = KANJISTREND);
     let m = c AND KANJIMODEMASK;
     out \<leftarrow>
       (if m = ZENHIRAASSYUKU then getkan_hira d s ym yl f
        else if m = ZENKATAASSYUKU then getkan_kata d s ym yl f
        else if m = OFFSETASSYUKU then
          rd d (s + 1) \<bind> (\<lambda>x. code2kanji d ask ym yl f (unat (c AND 0x0f) * 256 + unat x))
        else if m = AIATTRIBUTE then Some []
        else if m = LEADINGHANKAKU then getkan_ascii d s
        else if m = KANJIASSYUKU then rd ask (unat (c AND 0x0f)) \<bind> code2kanji d ask ym yl f
        else getkan_norm d s);
     if e = KANJISTREND then Some out
     else do { r \<leftarrow> code2kanji d ask ym yl flg (s + codesize c); Some (out @ r) } }"

definition getkanji :: "cbuf \<Rightarrow> nat list \<Rightarrow> cbuf \<Rightarrow> nat \<Rightarrow> nat \<Rightarrow> u8 list option" where
  "getkanji d ask ym yl ptr = code2kanji d ask ym yl True ptr"

end
