(* ===== verification/Sj_Clstudy.thy ===== *)
theory Sj_Clstudy
  imports Sj_Dict Sj_Study
begin

text \<open>
  \<^verbatim>\<open>lib/sj3core/clstudy.c\<close>: the learning of where a clause ends. The area
  \<open>CLSTUDYDICT\<close> of \<open>CLSTUDYLEN\<close> bytes holds entries in the order of their readings:
  the length of the reading, the class of the word, the length of the first clause, a rank
  by recency of two bytes (1 is the newest), and the reading of both clauses. A byte 0
  ends the entries. \<open>CLSTUDYIDX\<close> holds for every range of first codes the first entry.

  \<open>c\<close> is the area, \<open>n\<close> is \<open>CLSTUDYLEN\<close>, a pointer to an entry is its offset.
\<close>

abbreviation CL_HDLEN :: nat where "CL_HDLEN \<equiv> 5"
abbreviation CLSTDY_TMPLEN :: nat where "CLSTDY_TMPLEN \<equiv> 256"

datatype cl_result = CL_NORMEND | CL_NODICT | CL_PARAERR | CL_YOMIERR | CL_NOAREA

section \<open>Entries\<close>

text \<open>\<^verbatim>\<open>iseocl\<close> reads the length before it looks at the bound.\<close>

definition iseocl :: "cbuf \<Rightarrow> nat \<Rightarrow> nat \<Rightarrow> bool option" where
  "iseocl c n p = do { l \<leftarrow> rd c p; Some (l = 0 \<or> p \<ge> n) }"

definition ClYomiLen :: "cbuf \<Rightarrow> nat \<Rightarrow> nat option" where
  "ClYomiLen c p = do { l \<leftarrow> rd c p; Some (unat l) }"

definition ClBlkLen :: "cbuf \<Rightarrow> nat \<Rightarrow> nat option" where
  "ClBlkLen c p = do { l \<leftarrow> ClYomiLen c p; Some (l + CL_HDLEN) }"

definition ClNextTag :: "cbuf \<Rightarrow> nat \<Rightarrow> nat option" where
  "ClNextTag c p = do { l \<leftarrow> ClBlkLen c p; Some (p + l) }"

definition ClGetNum :: "cbuf \<Rightarrow> nat \<Rightarrow> nat option" where
  "ClGetNum c p = do { h \<leftarrow> rd c (p + 3); l \<leftarrow> rd c (p + 4); Some (unat h * 0x100 + unat l) }"

definition ClSetNum :: "cbuf \<Rightarrow> nat \<Rightarrow> nat \<Rightarrow> cbuf option" where
  "ClSetNum c p k = do { c \<leftarrow> wr c (p + 3) (of_nat (k div 0x100)); wr c (p + 4) (of_nat k) }"

section \<open>Removing entries\<close>

partial_function (option) dec_nums :: "cbuf \<Rightarrow> nat \<Rightarrow> nat \<Rightarrow> nat \<Rightarrow> cbuf option" where
  "dec_nums c n num p = do {
     e \<leftarrow> iseocl c n p;
     if e then Some c
     else do {
       k \<leftarrow> ClGetNum c p;
       c \<leftarrow> (if k > num then ClSetNum c p (k - 1) else Some c);
       q \<leftarrow> ClNextTag c p;
       dec_nums c n num q } }"

definition delclsub :: "cbuf \<Rightarrow> nat \<Rightarrow> nat \<Rightarrow> cbuf option" where
  "delclsub c n target = do {
     num \<leftarrow> ClGetNum c target;
     len \<leftarrow> ClBlkLen c target;
     let src = target + len;
     c \<leftarrow> mvmemi c src target (nat (int n - int src));
     c \<leftarrow> (if len > n then None else memset c (n - len) 0 (int len));
     dec_nums c n num 0 }"

text \<open>
  The comparison of a reading at \<open>i\<close> with the \<open>len\<close> codes at \<open>q\<close>: where it stops, the
  code of the reading, the codes left and the place among them.
\<close>

fun cl_cmp :: "cbuf \<Rightarrow> nat \<Rightarrow> cbuf \<Rightarrow> nat \<Rightarrow> nat \<Rightarrow> (u8 \<times> nat \<times> nat) option" where
  "cl_cmp y i c q 0 = do { a \<leftarrow> rd y i; Some (a, 0, q) }"
| "cl_cmp y i c q (Suc len) = do {
     a \<leftarrow> rd y i;
     if a = 0 then Some (a, Suc len, q)
     else do {
       b \<leftarrow> rd c q;
       if a \<noteq> b then Some (a, Suc len, q) else cl_cmp y (i + 1) c (q + 1) len } }"

text \<open>\<^verbatim>\<open>delcldata\<close> removes the entries of which one reading begins the other.\<close>

partial_function (option) delcldata :: "cbuf \<Rightarrow> cbuf \<Rightarrow> nat \<Rightarrow> nat \<Rightarrow> (nat \<times> cbuf) option" where
  "delcldata y c n p = do {
     e \<leftarrow> iseocl c n p;
     if e then Some (p, c)
     else do {
       l \<leftarrow> ClYomiLen c p;
       (a, len, q) \<leftarrow> cl_cmp y 0 c (p + CL_HDLEN) l;
       if a = 0 \<or> len = 0 then do { c \<leftarrow> delclsub c n p; delcldata y c n p }
       else do { q \<leftarrow> ClNextTag c p; delcldata y c n q } } }"

text \<open>\<^verbatim>\<open>delclold\<close>: the loop finds the entry of the highest rank and the end of the entries.\<close>

partial_function (option) oldest :: "cbuf \<Rightarrow> nat \<Rightarrow> nat \<Rightarrow> nat \<Rightarrow> nat option \<Rightarrow> (nat \<times> nat option) option" where
  "oldest c n p num target = do {
     e \<leftarrow> iseocl c n p;
     if e then Some (p, target)
     else do {
       k \<leftarrow> ClGetNum c p;
       q \<leftarrow> ClNextTag c p;
       if k \<ge> num then oldest c n q k (Some p) else oldest c n q num target } }"

text \<open>The number it returns is the length of the block at the end, not of the removed one.\<close>

definition delclold :: "cbuf \<Rightarrow> nat \<Rightarrow> (nat \<times> cbuf) option" where
  "delclold c n = do {
     (tagptr, target) \<leftarrow> oldest c n 0 0 None;
     (case target of None \<Rightarrow> Some (0, c)
      | Some t \<Rightarrow> do { num \<leftarrow> ClBlkLen c tagptr; c \<leftarrow> delclsub c n t; Some (num, c) }) }"

partial_function (option) make_room :: "cbuf \<Rightarrow> nat \<Rightarrow> int \<Rightarrow> int \<Rightarrow> (int \<times> cbuf) option" where
  "make_room c n blen alen =
     (if blen < alen then do {
        (i, c) \<leftarrow> delclold c n;
        if i = 0 then Some (blen, c) else make_room c n (blen + int i) alen }
      else Some (blen, c))"

section \<open>Adding an entry\<close>

partial_function (option) clpos_loop :: "cbuf \<Rightarrow> cbuf \<Rightarrow> nat \<Rightarrow> nat \<Rightarrow> nat option \<Rightarrow> (nat \<times> nat option \<times> cbuf) option" where
  "clpos_loop y c n p target = do {
     e \<leftarrow> iseocl c n p;
     if e then Some (p, target, c)
     else do {
       k \<leftarrow> ClGetNum c p;
       c \<leftarrow> ClSetNum c p (k + 1);
       l \<leftarrow> ClYomiLen c p;
       (a, len, q) \<leftarrow> cl_cmp y 0 c (p + CL_HDLEN) l;
       b \<leftarrow> (if target = None \<and> len \<noteq> 0 \<and> a \<noteq> 0 then rd c q else Some 0);
       let target = (if target = None \<and> len \<noteq> 0 \<and> (a = 0 \<or> a < b) then Some p else target);
       q \<leftarrow> ClNextTag c p;
       clpos_loop y c n q target } }"

definition srchclpos :: "cbuf \<Rightarrow> cbuf \<Rightarrow> nat \<Rightarrow> (nat \<times> cbuf) option" where
  "srchclpos y c n = do {
     (tagptr, target, c) \<leftarrow> clpos_loop y c n 0 None;
     Some (case target of Some t \<Rightarrow> t | None \<Rightarrow> tagptr, c) }"

definition cl_insert :: "cbuf \<Rightarrow> nat \<Rightarrow> nat \<Rightarrow> u8 list \<Rightarrow> u8 \<Rightarrow> nat \<Rightarrow> cbuf option" where
  "cl_insert c n dst yomi gram len1 = do {
     let alen = length yomi + CL_HDLEN;
     c \<leftarrow> mvmemd c (n - alen) n (nat (int n - int alen - int dst));
     c \<leftarrow> wr c dst (of_nat (length yomi));
     c \<leftarrow> wr c (dst + 1) gram;
     c \<leftarrow> wr c (dst + 2) (of_nat len1);
     c \<leftarrow> ClSetNum c dst 1;
     put_bytes c (dst + CL_HDLEN) yomi }"

section \<open>The index\<close>

partial_function (option) skip_below :: "cbuf \<Rightarrow> nat \<Rightarrow> nat \<Rightarrow> nat \<Rightarrow> nat option" where
  "skip_below c n st p = do {
     e \<leftarrow> iseocl c n p;
     if e then Some p
     else do {
       y \<leftarrow> rd c (p + CL_HDLEN);
       if unat y \<ge> st then Some p else do { q \<leftarrow> ClNextTag c p; skip_below c n st q } } }"

text \<open>A step of 0 makes the loop endless.\<close>

partial_function (option) clidx_loop :: "cbuf \<Rightarrow> nat \<Rightarrow> nat \<Rightarrow> u16 list \<Rightarrow> nat \<Rightarrow> nat \<Rightarrow> nat \<Rightarrow> u16 list option" where
  "clidx_loop c n step idx p num st =
     (if st < 0x100 then do {
        let ed = st + step;
        p \<leftarrow> skip_below c n st p;
        l \<leftarrow> rd c p;
        in_range \<leftarrow> (if l \<noteq> 0 then do { y \<leftarrow> rd c (p + CL_HDLEN); Some (unat y < ed) } else Some False);
        idx \<leftarrow> wr idx num (if in_range then of_nat p else - 1);
        clidx_loop c n step idx p (num + 1) ed }
      else Some idx)"

definition mkclidx :: "STDY \<Rightarrow> STDY option" where
  "mkclidx s = do {
     idx \<leftarrow> clidx_loop (clstdydic s) (nat (clstdylen s)) (nat (clstdystep s)) (clstdyidx s) 0 0 0;
     Some (s\<lparr>clstdyidx := idx\<rparr>) }"

section \<open>Learning a clause\<close>

text \<open>
  The part of \<^verbatim>\<open>clstudy\<close> behind the conversion of the second reading: \<open>ytmp\<close> holds the codes
  of both readings, \<open>len1\<close> of them of the first. The result carries the return code.
\<close>

definition cl_add :: "STDY \<Rightarrow> cbuf \<Rightarrow> nat \<Rightarrow> STDYOUT \<Rightarrow> (cl_result \<times> STDY) option" where
  "cl_add s ytmp len1 stdy = do {
     let n = nat (clstdylen s);
     let len2 = len1 + st_len stdy;
     ytmp \<leftarrow> wr ytmp len2 0;
     let alen = len2 + CL_HDLEN;
     if alen + 1 \<ge> n then Some (CL_NOAREA, s)
     else do {
       (e, c) \<leftarrow> delcldata ytmp (clstdydic s) n 0;
       (blen, c) \<leftarrow> make_room c n (int n - int e - 1) (int alen);
       if blen \<ge> int alen then do {
         (dst, c) \<leftarrow> srchclpos ytmp c n;
         c \<leftarrow> cl_insert c n dst (take len2 ytmp) (st_hinshi stdy) len1;
         s \<leftarrow> mkclidx (s\<lparr>clstdydic := c\<rparr>);
         Some (CL_NORMEND, s) }
       else do {
         s \<leftarrow> mkclidx (s\<lparr>clstdydic := c\<rparr>);
         Some (CL_NOAREA, s) } } }"

text \<open>
  \<^verbatim>\<open>clstudy\<close>; a null pointer is \<open>None\<close>, \<open>ytmp\<close> is the local array as it is found. The
  result carries the new study data and whether they are written to the file.
\<close>

definition clstudy :: "cbuf \<Rightarrow> STDY option \<Rightarrow> cbuf option \<Rightarrow> cbuf option \<Rightarrow> STDYOUT option
    \<Rightarrow> (cl_result \<times> STDY option \<times> bool) option" where
  "clstudy ytmp sb yomi1 yomi2 stdy =
     (case sb of None \<Rightarrow> Some (CL_NODICT, None, False)
      | Some s \<Rightarrow> do {
        empty1 \<leftarrow> (case yomi1 of None \<Rightarrow> Some True | Some y \<Rightarrow> do { a \<leftarrow> rd y 0; Some (a = 0) });
        if empty1 then Some (CL_PARAERR, Some s, False)
        else do {
          y1 \<leftarrow> yomi1;
          empty2 \<leftarrow> (case yomi2 of None \<Rightarrow> Some True | Some y \<Rightarrow> do { a \<leftarrow> rd y 0; Some (a = 0) });
          if empty2 then do {
            (ok, ytmp) \<leftarrow> sj2cd_str y1 ytmp 0 CLSTDY_TMPLEN;
            if \<not> ok then Some (CL_YOMIERR, Some s, False)
            else do {
              (_, c) \<leftarrow> delcldata ytmp (clstdydic s) (nat (clstdylen s)) 0;
              s \<leftarrow> mkclidx (s\<lparr>clstdydic := c\<rparr>);
              Some (CL_NORMEND, Some s, True) } }
          else (case stdy of None \<Rightarrow> Some (CL_PARAERR, Some s, False)
           | Some stdy \<Rightarrow> do {
              y2 \<leftarrow> yomi2;
              (ok, ytmp) \<leftarrow> sj2cd_str y1 ytmp 0 CLSTDY_TMPLEN;
              if \<not> ok then Some (CL_YOMIERR, Some s, False)
              else do {
                len1 \<leftarrow> strlen ytmp;
                (ok, ytmp) \<leftarrow> sj2cd_str y2 ytmp len1 (CLSTDY_TMPLEN - len1);
                if \<not> ok then Some (CL_YOMIERR, Some s, False)
                else do {
                  (r, s') \<leftarrow> cl_add s ytmp len1 stdy;
                  Some (r, Some s', len1 + st_len stdy + CL_HDLEN + 1 < nat (clstdylen s)) } } }) } })"

end
