(* ===== verification/Sj_Adddic.thy ===== *)
theory Sj_Adddic
  imports Sj_Kanji Sj_Clstudy Sj_Sdepend
begin

text \<open>
  Registering and deleting words: \<^verbatim>\<open>adddic.c\<close>, \<^verbatim>\<open>deldic.c\<close> and \<^verbatim>\<open>srchdict.c\<close> of
  \<^verbatim>\<open>lib/sj3core\<close>, with the segment operations of \<^verbatim>\<open>sdepend.c\<close> they use.

  The dictionary being edited, \<^verbatim>\<open>curdict\<close>, is an open file with inode \<open>i\<close>. \<^verbatim>\<open>dicbuf\<close>
  points into its buffer and is the offset \<open>w\<close>; the functions on segments get the object
  seen from there. \<^verbatim>\<open>idxbuf\<close> is set to the index area of the buffer before every use.
  The study file in use is an inode too, or \<open>None\<close> for a null \<^verbatim>\<open>stdy_base\<close>.
\<close>

section \<open>Segments of an open dictionary\<close>

definition the_df :: "ino \<Rightarrow> ('z sdep_scheme, DictFile) sm" where
  "the_df i = bnd (gets (\<lambda>s. search_same_dict i (dictlink s))) need"

definition upd_df :: "ino \<Rightarrow> (DictFile \<Rightarrow> DictFile) \<Rightarrow> ('z sdep_scheme, unit) sm" where
  "upd_df i f = on_dict i (\<lambda>_. upd_dict i f)"

definition seg_ofs :: "DictFile \<Rightarrow> int \<Rightarrow> nat" where
  "seg_ofs dp seg = segstrt dp + seglen dp * nat seg"

text \<open>\<^verbatim>\<open>getdic\<close> leaves \<^verbatim>\<open>dicbuf\<close> as it is when there is no such segment.\<close>

definition getdic :: "DictFile \<Rightarrow> nat \<Rightarrow> int \<Rightarrow> nat" where
  "getdic dp w seg = (if seg \<ge> segunit dp then w else seg_ofs dp seg)"

definition dicbuf :: "DictFile \<Rightarrow> nat \<Rightarrow> cbuf" where
  "dicbuf dp w = drop w (df_buffer dp)"

definition idxbuf :: "DictFile \<Rightarrow> cbuf" where
  "idxbuf dp = drop (idxstrt dp) (df_buffer dp)"

definition get_idxptr :: "DictFile \<Rightarrow> int \<Rightarrow> (cbuf \<times> nat) option" where
  "get_idxptr dp seg = (case rd (ofsptr dp) (nat seg) of None \<Rightarrow> None | Some p \<Rightarrow> Some (idxbuf dp, p))"

definition put_dicbuf :: "ino \<Rightarrow> nat \<Rightarrow> cbuf \<Rightarrow> ('z sdep_scheme, unit) sm" where
  "put_dicbuf i w d = upd_df i (\<lambda>dp. dp\<lparr>df_buffer := take w (df_buffer dp) @ d\<rparr>)"

definition put_idxbuf :: "ino \<Rightarrow> cbuf \<Rightarrow> ('z sdep_scheme, unit) sm" where
  "put_idxbuf i ix = upd_df i (\<lambda>dp. dp\<lparr>df_buffer := take (idxstrt dp) (df_buffer dp) @ ix\<rparr>)"

text \<open>
  A buffer of another size with the same contents as far as both reach. What \<^verbatim>\<open>malloc\<close>
  leaves behind them is indeterminate; the callers write it before they read it.
\<close>

definition resize :: "cbuf \<Rightarrow> nat \<Rightarrow> nat \<Rightarrow> cbuf option" where
  "resize b len n = do { p \<leftarrow> first_bytes (min len n) b; Some (p @ replicate (n - len) 0) }"

definition putidx :: "ino \<Rightarrow> ('z sdep_scheme, u32) sm" where
  "putidx i = bnd (the_df i) (\<lambda>dp. bnd (need (first_bytes (idxlen dp) (idxbuf dp))) (putfile i (idxstrt dp)))"

definition putdic :: "ino \<Rightarrow> nat \<Rightarrow> int \<Rightarrow> ('z sdep_scheme, u32) sm" where
  "putdic i w seg = bnd (the_df i) (\<lambda>dp.
     if seg \<ge> maxunit dp then ret ERROR else
     let n = seg_ofs dp (seg + 1) in
     bnd (if n > bufsiz dp then
            bnd malloc (\<lambda>ok. if \<not> ok then ret False else
            bnd (need (resize (df_buffer dp) (bufsiz dp) n)) (\<lambda>b.
            bnd (upd_df i (\<lambda>dp. dp\<lparr>df_buffer := b, bufsiz := n\<rparr>)) (\<lambda>_. ret True)))
          else ret True) (\<lambda>ok.
     if \<not> ok then ret ERROR else
     bnd (the_df i) (\<lambda>dp. let p = seg_ofs dp seg in
     bnd (need (first_bytes (seglen dp) (dicbuf dp w))) (\<lambda>d.
     bnd (need (if p = w then Some (df_buffer dp) else put_bytes (df_buffer dp) p d)) (\<lambda>b.
     bnd (upd_df i (\<lambda>dp. dp\<lparr>df_buffer := b\<rparr>)) (\<lambda>_.
     putfile i p d))))))"

text \<open>
  \<^verbatim>\<open>rszdic\<close>: the variable \<^verbatim>\<open>i\<close> holds the new size first and then the offset of
  \<^verbatim>\<open>dicbuf\<close>, which becomes the size noted for the buffer and that of the file.
\<close>

definition rszdic :: "ino \<Rightarrow> nat \<Rightarrow> int \<Rightarrow> ('z sdep_scheme, u32) sm" where
  "rszdic i w seg = bnd (the_df i) (\<lambda>dp.
     let n = seg_ofs dp seg in
     bnd (if bufsiz dp \<noteq> n then
            bnd malloc (\<lambda>ok. if \<not> ok then ret False else
            bnd (need (resize (df_buffer dp) (bufsiz dp) n)) (\<lambda>b.
            bnd (upd_df i (\<lambda>dp. dp\<lparr>df_buffer := b, bufsiz := w\<rparr>)) (\<lambda>_.
            bnd (upd (\<lambda>s. s\<lparr>fs_data := (fs_data s)(i := take w (fs_data s i) @ replicate (w - length (fs_data s i)) 0)\<rparr>))
              (\<lambda>_. ret True))))
          else ret True) (\<lambda>ok.
     if \<not> ok then ret ERROR else
     bnd (the_df i) (\<lambda>dp.
     bnd (need (put4byte (df_buffer dp) DICTSEGNUM (nat seg))) (\<lambda>b.
     bnd (upd_df i (\<lambda>dp. dp\<lparr>df_buffer := b\<rparr>)) (\<lambda>_.
     bnd (need (first_bytes HEADERLENGTH b)) (putfile i 0))))))"

definition mk_idxtbl :: "ino \<Rightarrow> ('z sdep_scheme, unit) sm" where
  "mk_idxtbl i = bnd (the_df i) (\<lambda>dp.
     bnd (need (mkidxtbl (idxbuf dp) (idxlen dp) (segunit dp))) (\<lambda>t.
     upd_df i (\<lambda>dp. dp\<lparr>ofsptr := t @ drop (length t) (ofsptr dp)\<rparr>)))"

text \<open>The three routines that change the index: the edit, \<^verbatim>\<open>putidx\<close> and \<^verbatim>\<open>mkidxtbl\<close>.\<close>

definition edit_uidx :: "(cbuf \<Rightarrow> nat list \<Rightarrow> nat \<Rightarrow> cbuf option) \<Rightarrow> ino \<Rightarrow> ('z sdep_scheme, unit) sm" where
  "edit_uidx f i = bnd (the_df i) (\<lambda>dp.
     bnd (need (f (idxbuf dp) (ofsptr dp) (idxlen dp))) (\<lambda>ix.
     bnd (put_idxbuf i ix) (\<lambda>_. bnd (putidx i) (\<lambda>_. mk_idxtbl i))))"

definition chg_uidx :: "ino \<Rightarrow> int \<Rightarrow> u8 list \<Rightarrow> ('z sdep_scheme, unit) sm" where
  "chg_uidx i seg yomi = edit_uidx (\<lambda>ix ofs q. chg_idx ix ofs q seg yomi) i"

definition apnd_uidx :: "ino \<Rightarrow> int \<Rightarrow> u8 list \<Rightarrow> ('z sdep_scheme, unit) sm" where
  "apnd_uidx i seg yomi = edit_uidx (\<lambda>ix ofs q. apnd_idx ix ofs q seg yomi) i"

definition del_uidx :: "ino \<Rightarrow> int \<Rightarrow> ('z sdep_scheme, unit) sm" where
  "del_uidx i seg = edit_uidx (\<lambda>ix ofs q. del_idx ix ofs q seg) i"

section \<open>Search in a whole dictionary\<close>

text \<open>
  The loop of \<^verbatim>\<open>srchdict\<close> over the blocks of a segment: the shared codes, the block, and
  whether it is the answer (\<open>True\<close>), there is none (\<open>False\<close>), or the search goes on.
\<close>

partial_function (option) scan_tags ::
  "cbuf \<Rightarrow> cbuf \<Rightarrow> nat \<Rightarrow> (cbuf \<times> nat) option \<Rightarrow> nat \<Rightarrow> nat \<Rightarrow> nat \<Rightarrow> (nat \<times> nat \<times> bool option) option" where
  "scan_tags y d sl idxp maxlen saml p = do {
     e \<leftarrow> segend d sl p;
     if e then Some (saml, p, None)
     else do {
       (c, saml) \<leftarrow> yomicmp y d p idxp saml;
       if saml > maxlen \<or> c = OVER then Some (saml, p, Some False)
       else if c = MATCH then do {
         a \<leftarrow> rd y saml;
         Some (saml, p, if isdpnd a then None else Some True) }
       else do { q \<leftarrow> getntag d p; scan_tags y d sl idxp maxlen saml q } } }"

text \<open>\<^verbatim>\<open>prevseg\<close>, \<^verbatim>\<open>dicinl\<close>, \<^verbatim>\<open>dicsaml\<close> and the block reached last.\<close>

type_synonym srch_state = "int \<times> nat \<times> nat \<times> nat"

definition next_tag :: "DictFile \<Rightarrow> int \<Rightarrow> int \<Rightarrow> nat \<Rightarrow> (int \<times> nat) option option" where
  "next_tag dp prev segno p =
     (if prev \<noteq> segno then Some (Some (segno, 0))
      else do {
        let d = dicbuf dp (seg_ofs dp segno);
        q \<leftarrow> getntag d p;
        e \<leftarrow> segend d (seglen dp) q;
        if e then Some (if segno + 1 \<ge> segunit dp then None else Some (segno + 1, 0))
        else Some (Some (segno, q)) })"

partial_function (option) srchdict :: "DictFile \<Rightarrow> cbuf \<Rightarrow> nat \<Rightarrow> srch_state \<Rightarrow> (nat option \<times> srch_state) option" where
  "srchdict dp y len st =
     (case st of (prev, inl, saml, p) \<Rightarrow>
      if inl > min len MAXWDYOMILEN then Some (None, st)
      else do {
        segno \<leftarrow> srchidx (idxbuf dp) (ofsptr dp) (segunit dp) y prev inl;
        nx \<leftarrow> next_tag dp prev segno p;
        (case nx of None \<Rightarrow> Some (None, (segno + 1, inl, saml, p))
         | Some (seg, q) \<Rightarrow> do {
             let d = dicbuf dp (seg_ofs dp seg);
             q \<leftarrow> (if q = 0 then do { _ \<leftarrow> get_askknj d; segtop d } else Some q);
             (saml, q, v) \<leftarrow> scan_tags y d (seglen dp) (get_idxptr dp seg) (min len MAXWDYOMILEN) saml q;
             (case v of
                Some True \<Rightarrow> Some (Some q, (seg, (saml + 1) mod 256, saml, q))
              | Some False \<Rightarrow> Some (None, (seg, inl, saml, q))
              | None \<Rightarrow> srchdict dp y len (seg, (saml + 1) mod 256, saml, q)) }) })"

section \<open>Words that exist already\<close>

partial_function (option) find_reading :: "DictFile \<Rightarrow> cbuf \<Rightarrow> nat \<Rightarrow> srch_state \<Rightarrow> (int \<times> nat) option option" where
  "find_reading dp y len st = do {
     (r, st) \<leftarrow> srchdict dp y len st;
     (case r of None \<Rightarrow> Some None
      | Some p \<Rightarrow> do {
          let d = dicbuf dp (seg_ofs dp (fst st));
          nlen \<leftarrow> getnlen d p;
          plen \<leftarrow> getplen d p;
          if len = nlen + plen then Some (Some (fst st, p)) else find_reading dp y len st }) }"

text \<open>
  The loops of \<^verbatim>\<open>checksub\<close> over the kanji strings of a class block and over the class
  blocks: the number of words, or \<open>None\<close> when the word is there. The local array has room
  for \<open>MAXWDKANJILEN\<close> bytes and the terminator.
\<close>

partial_function (option) words_in_class ::
  "cbuf \<Rightarrow> nat list \<Rightarrow> cbuf \<Rightarrow> nat \<Rightarrow> cbuf \<Rightarrow> bool \<Rightarrow> nat \<Rightarrow> nat \<Rightarrow> (nat \<times> nat option) option" where
  "words_in_class d ask ym yl kanji flg p n = do {
     c \<leftarrow> rd d p;
     if c = HINSIBLKTERM then Some (p, Some n)
     else do {
       same \<leftarrow> (if flg then do {
           b \<leftarrow> getkanji d ask ym yl p;
           if length b > MAXWDKANJILEN then None else cmpstr kanji 0 (b @ [0]) 0 }
         else Some False);
       if same then Some (p, None)
       else do { q \<leftarrow> skipkstr d p; words_in_class d ask ym yl kanji flg q (n + 1) } } }"

partial_function (option) words_in_block ::
  "cbuf \<Rightarrow> nat list \<Rightarrow> cbuf \<Rightarrow> nat \<Rightarrow> cbuf \<Rightarrow> u8 \<Rightarrow> nat \<Rightarrow> nat \<Rightarrow> nat \<Rightarrow> nat option option" where
  "words_in_block d ask ym yl kanji grm endp p n =
     (if p < endp then do {
        h \<leftarrow> rd d p;
        (q, r) \<leftarrow> words_in_class d ask ym yl kanji (h = grm) (p + 1) n;
        (case r of None \<Rightarrow> Some None | Some n \<Rightarrow> words_in_block d ask ym yl kanji grm endp (q + 1) n) }
      else Some (Some n))"

definition checksub :: "DictFile \<Rightarrow> cbuf \<Rightarrow> nat \<Rightarrow> cbuf \<Rightarrow> cbuf \<Rightarrow> u8 \<Rightarrow> nat option option" where
  "checksub dp y len ym kanji grm = do {
     r \<leftarrow> find_reading dp y len (- 1, len, 0, 0);
     (case r of None \<Rightarrow> Some (Some 0)
      | Some (seg, p) \<Rightarrow> do {
          let d = dicbuf dp (seg_ofs dp seg);
          nlen \<leftarrow> getnlen d p;
          n \<leftarrow> getsize d p;
          ask \<leftarrow> get_askknj d;
          words_in_block d ask ym len kanji grm (p + n) (p + DOUONBLKSIZENUMBER + nlen) 0 }) }"

abbreviation MAXKOUHONUMBER :: nat where "MAXKOUHONUMBER \<equiv> 255"

fun checkdict :: "DictFile list \<Rightarrow> cbuf \<Rightarrow> nat \<Rightarrow> cbuf \<Rightarrow> cbuf \<Rightarrow> u8 \<Rightarrow> nat \<Rightarrow> u32 option" where
  "checkdict [] y len ym kanji grm dounum = Some (if MAXKOUHONUMBER \<le> dounum then AD_OVFLWDOUNUM else 0)"
| "checkdict (dp # dps) y len ym kanji grm dounum = do {
     r \<leftarrow> checksub dp y len ym kanji grm;
     (case r of None \<Rightarrow> Some AD_AREXIST | Some n \<Rightarrow> checkdict dps y len ym kanji grm (dounum + n)) }"

section \<open>Study data that refer to the dictionary\<close>

definition ed_stdy :: "ino \<Rightarrow> ('z sdep_scheme, STDY) sm" where
  "ed_stdy j = bnd (gets (\<lambda>s. search_same_stdy j (stdylink s))) (\<lambda>p. bnd (need p) (\<lambda>sf. ret (sf_stdy sf)))"

definition set_ed_stdy :: "ino \<Rightarrow> STDY \<Rightarrow> ('z sdep_scheme, unit) sm" where
  "set_ed_stdy j st = on_stdy j (\<lambda>_. upd_stdy j (\<lambda>p. p\<lparr>sf_stdy := st\<rparr>))"

definition with_stdy :: "ino option \<Rightarrow> (ino \<Rightarrow> STDY \<Rightarrow> ('z sdep_scheme, unit) sm) \<Rightarrow> ('z sdep_scheme, unit) sm" where
  "with_stdy sb f = (case sb of None \<Rightarrow> ret () | Some j \<Rightarrow> bnd (ed_stdy j) (f j))"

definition map_stdy :: "(STDYIN \<Rightarrow> STDYIN) \<Rightarrow> ino option \<Rightarrow> ('z sdep_scheme, unit) sm" where
  "map_stdy f sb = with_stdy sb (\<lambda>j st.
     bnd (need (upd_first (nat (stdycnt st)) f (stdydic st))) (\<lambda>d. set_ed_stdy j (st\<lparr>stdydic := d\<rparr>)))"

text \<open>After a split at \<open>ofs\<close>, the words behind it are in the next segment, \<open>j\<close> bytes nearer to its top.\<close>

definition split_stdy :: "nat \<Rightarrow> int \<Rightarrow> nat \<Rightarrow> nat \<Rightarrow> STDYIN \<Rightarrow> STDYIN" where
  "split_stdy dic seg ofs j e =
     (if st_dicid e \<noteq> dic then e
      else if st_seg e < seg then e
      else if st_seg e > seg then e\<lparr>st_seg := to_short (st_seg e + 1)\<rparr>
      else if st_offset e \<ge> ofs then
        e\<lparr>st_seg := to_short (st_seg e + 1), st_offset := ushort_of (int (st_offset e) - int j)\<rparr>
      else e)"

definition shift_stdy :: "nat \<Rightarrow> int \<Rightarrow> nat \<Rightarrow> int \<Rightarrow> STDYIN \<Rightarrow> STDYIN" where
  "shift_stdy dic seg ofs n e =
     (if st_dicid e \<noteq> dic \<or> st_seg e \<noteq> seg then e
      else if st_offset e \<ge> ofs then e\<lparr>st_offset := ushort_of (int (st_offset e) + n)\<rparr> else e)"

text \<open>
  The loops of \<^verbatim>\<open>del_stdy\<close> and \<^verbatim>\<open>del_segment\<close>: records that \<open>gone\<close> are taken out of the
  first \<open>cnt\<close>, the others are changed by \<open>f\<close>; the rank of the last one taken out.
\<close>

function take_out :: "(STDYIN \<Rightarrow> bool) \<Rightarrow> (STDYIN \<Rightarrow> STDYIN) \<Rightarrow> STDYIN list \<Rightarrow> nat \<Rightarrow> nat \<Rightarrow> int
    \<Rightarrow> (STDYIN list \<times> nat \<times> int) option" where
  "take_out gone f d cnt i num =
     (if i < cnt then do {
        e \<leftarrow> rd d i;
        if gone e then
          (if length d < cnt then None
           else take_out gone f (take i d @ take (cnt - 1 - i) (drop (i + 1) d) @ drop (cnt - 1) d) (cnt - 1) i (styno e))
        else take_out gone f (d[i := f e]) cnt (i + 1) num }
      else Some (d, cnt, num))"
  by pat_completeness auto
termination
  by (relation "measure (\<lambda>(g, f, d, cnt, i, num). cnt - i)") auto

declare take_out.simps [simp del]

definition forget :: "(STDYIN \<Rightarrow> bool) \<Rightarrow> (STDYIN \<Rightarrow> STDYIN) \<Rightarrow> int \<Rightarrow> ino option \<Rightarrow> ('z sdep_scheme, unit) sm" where
  "forget gone f num sb = with_stdy sb (\<lambda>j st.
     bnd (need (take_out gone f (stdydic st) (nat (stdycnt st)) 0 num)) (\<lambda>(d, cnt, num).
     bnd (need (upd_first cnt (\<lambda>e. if styno e > num then e\<lparr>styno := to_short (styno e - 1)\<rparr> else e) d)) (\<lambda>d.
     bnd (set_ed_stdy j (st\<lparr>stdydic := d, stdycnt := int cnt\<rparr>)) (\<lambda>_.
     bnd (putstydic j) (\<lambda>_. ret ())))))"

text \<open>\<^verbatim>\<open>adddic\<close> removes the first clause entry that begins the new reading.\<close>

partial_function (option) purge_pos :: "cbuf \<Rightarrow> cbuf \<Rightarrow> nat \<Rightarrow> nat \<Rightarrow> nat option option" where
  "purge_pos y c n p = do {
     e \<leftarrow> iseocl c n p;
     if e then Some None
     else do {
       l \<leftarrow> ClYomiLen c p;
       r \<leftarrow> sstrncmp y 0 c (p + CL_HDLEN) l;
       if r = MATCH then Some (Some p)
       else if r = OVER then Some None
       else do { q \<leftarrow> ClNextTag c p; purge_pos y c n q } } }"

definition purge_clstudy :: "cbuf \<Rightarrow> ino option \<Rightarrow> ('z sdep_scheme, unit) sm" where
  "purge_clstudy y sb = with_stdy sb (\<lambda>j st. let n = nat (clstdylen st) in
     bnd (need (purge_pos y (clstdydic st) n 0)) (\<lambda>r.
     case r of None \<Rightarrow> ret ()
     | Some p \<Rightarrow>
         bnd (need (delclsub (clstdydic st) n p)) (\<lambda>c.
         bnd (need (mkclidx (st\<lparr>clstdydic := c\<rparr>))) (\<lambda>st.
         bnd (set_ed_stdy j st) (\<lambda>_. bnd (putcldic j) (\<lambda>_. ret ()))))))"

section \<open>Splitting a segment\<close>

fun copy_up :: "ino \<Rightarrow> nat \<Rightarrow> int \<Rightarrow> nat \<Rightarrow> ('z sdep_scheme, nat) sm" where
  "copy_up i w s 0 = ret w"
| "copy_up i w s (Suc n) = bnd (the_df i) (\<lambda>dp. let w = getdic dp w s in
     bnd (putdic i w (s + 1)) (\<lambda>_. copy_up i w (s - 1) n))"

text \<open>
  The reading of the block at \<open>pos\<close>, put together from those before it. Every block with
  own codes copies one byte more than it has; the local array has \<open>MAXWDYOMILEN\<close> bytes.
\<close>

partial_function (option) gather :: "cbuf \<Rightarrow> nat \<Rightarrow> nat \<Rightarrow> nat \<Rightarrow> cbuf \<Rightarrow> cbuf option" where
  "gather d sl pos p yomi =
     (if p \<le> pos then do {
        e \<leftarrow> segend d sl p;
        if e then Some yomi
        else do {
          q \<leftarrow> getntag d p;
          i \<leftarrow> getplen d p;
          nlen \<leftarrow> getnlen d p;
          b \<leftarrow> get_bytes d (p + DOUONBLKSIZENUMBER) (if nlen \<noteq> 0 then nlen + 1 else 0);
          yomi \<leftarrow> put_bytes yomi i b;
          gather d sl pos q yomi } }
      else Some yomi)"

text \<open>The upper part of the new segment: the block at \<open>pos\<close> with its whole reading, and what follows it.\<close>

definition upper_part :: "cbuf \<Rightarrow> nat \<Rightarrow> nat \<Rightarrow> u8 list \<Rightarrow> nat \<Rightarrow> nat \<Rightarrow> (cbuf \<times> nat) option" where
  "upper_part d sl pos yomi plen nlen = do {
     t \<leftarrow> segtop d;
     n \<leftarrow> getsize d pos;
     d \<leftarrow> set_size d t (n + plen) 0 (length yomi);
     let p = t + DOUONBLKSIZENUMBER;
     d \<leftarrow> put_bytes d p yomi;
     let q = pos + DOUONBLKSIZENUMBER + nlen;
     let p = p + length yomi;
     d \<leftarrow> mvmemi d q p (nat (int sl - int q));
     let e = p + nat (int sl - int q);
     d \<leftarrow> memset d e DICSEGTERM (int sl - int e);
     Some (d, q - p) }"

definition sprt_seg :: "ino \<Rightarrow> ino option \<Rightarrow> int \<Rightarrow> nat \<Rightarrow> nat \<Rightarrow> ('z sdep_scheme, nat) sm" where
  "sprt_seg i sb seg ofs w = bnd (the_df i) (\<lambda>dp.
     bnd (copy_up i w (segunit dp - 1) (nat (segunit dp - seg))) (\<lambda>w.
     bnd (upd_df i (\<lambda>dp. dp\<lparr>segunit := to_short (segunit dp + 1)\<rparr>)) (\<lambda>_.
     bnd (the_df i) (\<lambda>dp. bnd (rszdic i w (segunit dp)) (\<lambda>_.
     bnd (the_df i) (\<lambda>dp. let w = getdic dp w (seg + 1); d = dicbuf dp w in
     bnd (need (segtop d)) (\<lambda>t.
     bnd (need (gather d (seglen dp) ofs t (replicate MAXWDYOMILEN 0))) (\<lambda>yomi.
     bnd (need (getnlen d ofs)) (\<lambda>nlen. bnd (need (getplen d ofs)) (\<lambda>plen.
     bnd (need (first_bytes (plen + nlen) yomi)) (\<lambda>yomi.
     bnd (apnd_uidx i seg yomi) (\<lambda>_.
     bnd (the_df i) (\<lambda>dp.
     bnd (need (upper_part (dicbuf dp w) (seglen dp) ofs yomi plen nlen)) (\<lambda>(d, j).
     bnd (put_dicbuf i w d) (\<lambda>_.
     bnd (putdic i w (seg + 1)) (\<lambda>_.
     bnd (map_stdy (split_stdy (unat (dicid dp)) seg ofs j) sb) (\<lambda>_.
     bnd (the_df i) (\<lambda>dp. let w = getdic dp w seg in
     bnd (need (memset (dicbuf dp w) ofs DICSEGTERM (int (seglen dp) - int ofs))) (\<lambda>d.
     bnd (put_dicbuf i w d) (\<lambda>_.
     bnd (putdic i w seg) (\<lambda>_. ret w)))))))))))))))))))))"

section \<open>Registering a word\<close>

fun common :: "cbuf \<Rightarrow> nat \<Rightarrow> cbuf \<Rightarrow> nat \<Rightarrow> nat \<Rightarrow> nat option" where
  "common d p y i 0 = Some 0"
| "common d p y i (Suc len) = do {
     a \<leftarrow> rd d p; b \<leftarrow> rd y i;
     if a = b then do { n \<leftarrow> common d (p + 1) y (i + 1) len; Some (Suc n) } else Some 0 }"

text \<open>How many more codes the block at \<open>p\<close> shares with its new predecessor.\<close>

definition cal_nextym :: "cbuf \<Rightarrow> nat \<Rightarrow> cbuf \<Rightarrow> nat \<Rightarrow> nat option" where
  "cal_nextym d sl y p = do {
     e \<leftarrow> segend d sl p;
     if e then Some 0
     else do {
       plen \<leftarrow> getplen d p;
       len \<leftarrow> getnlen d p;
       common d (p + DOUONBLKSIZENUMBER) y plen len } }"

partial_function (option) seg_used :: "cbuf \<Rightarrow> nat \<Rightarrow> nat \<Rightarrow> nat option" where
  "seg_used d sl p = do {
     e \<leftarrow> segend d sl p;
     if e then Some p else do { n \<leftarrow> getsize d p; seg_used d sl (p + n) } }"

definition usr_freelen :: "cbuf \<Rightarrow> nat \<Rightarrow> int option" where
  "usr_freelen d sl = do { t \<leftarrow> segtop d; p \<leftarrow> seg_used d sl t; Some (int sl - int p) }"

text \<open>
  Where the word goes: the segment and its \<^verbatim>\<open>dicbuf\<close>, the block of the reading or the one
  behind, the place of the new bytes, the shared codes, whether the reading and the class
  are there, the codes the next block gives up, the new and the old size of the block.
\<close>

record fit =
  f_seg :: int
  f_w :: nat
  f_dou :: nat
  f_dst :: nat
  f_saml :: nat
  f_yomi :: bool
  f_hinsi :: bool
  f_nxt :: nat
  f_new :: nat
  f_old :: nat

definition find_place :: "cbuf \<Rightarrow> nat \<Rightarrow> cbuf \<Rightarrow> nat \<Rightarrow> u8 \<Rightarrow> u8 list \<Rightarrow> int \<Rightarrow> nat \<Rightarrow> fit option option" where
  "find_place d sl y len hinsi k seg w = do {
     (cnt, p1, saml) \<leftarrow> srchkana y d sl None;
     (dst, has_yomi, has_hinsi) \<leftarrow>
       (if cnt = 0 then Some (p1, False, False)
        else do {
          (g, q) \<leftarrow> srchgram d p1 hinsi;
          if g = 0 then Some (q, True, False)
          else do { (_, q) \<leftarrow> srchkanji d q k; Some (q, True, True) } });
     c \<leftarrow> (if has_hinsi then rd d dst else Some HINSIBLKTERM);
     if c \<noteq> HINSIBLKTERM then Some None
     else do {
       old \<leftarrow> (if has_yomi then getsize d p1 else Some 0);
       nxt \<leftarrow> (if has_yomi then Some 0 else cal_nextym d sl y p1);
       let new = (if has_yomi then old else DOUONBLKSIZENUMBER + (len - saml));
       let new = new + (if has_hinsi then 0 else 2) + (if k \<noteq> [] then length k + 1 else 0);
       Some (Some \<lparr>f_seg = seg, f_w = w, f_dou = p1, f_dst = dst, f_saml = saml, f_yomi = has_yomi,
         f_hinsi = has_hinsi, f_nxt = nxt, f_new = to_ushort new, f_old = old\<rparr>) } }"

definition fits :: "cbuf \<Rightarrow> nat \<Rightarrow> fit \<Rightarrow> bool option" where
  "fits d sl f = do {
     fre \<leftarrow> usr_freelen d sl;
     Some ((int (f_new f) - int (f_old f) - int (f_nxt f)) mod 2 ^ 32 \<le> fre mod 2 ^ 32) }"

datatype add_step = Done u32 | Next int nat | Put fit

text \<open>The bytes the index needs for the block that would begin a new segment.\<close>

definition idx_need :: "cbuf \<Rightarrow> nat \<Rightarrow> nat option" where
  "idx_need d p = do { nlen \<leftarrow> getnlen d p; plen \<leftarrow> getplen d p; Some (plen + nlen + 1) }"

text \<open>
  One turn of the loop of \<^verbatim>\<open>adddic\<close>: the word fits into the segment, or belongs to the
  next one, or a segment is split behind or before the block, or one is added at the end.
\<close>

definition add_try :: "ino \<Rightarrow> ino option \<Rightarrow> cbuf \<Rightarrow> nat \<Rightarrow> u8 \<Rightarrow> u8 list \<Rightarrow> int \<Rightarrow> nat \<Rightarrow> ('z sdep_scheme, add_step) sm" where
  "add_try i sb y len hinsi k seg w = bnd (the_df i) (\<lambda>dp. let w = getdic dp w seg; d = dicbuf dp w; sl = seglen dp in
     bnd (need (find_place d sl y len hinsi k seg w)) (\<lambda>pl. case pl of None \<Rightarrow> ret (Done AD_AREXIST) | Some f \<Rightarrow>
     bnd (need (fits d sl f)) (\<lambda>ok. if ok then ret (Put f) else
     bnd (need (segend d sl (f_dou f))) (\<lambda>e.
     if e \<and> seg + 1 < segunit dp then ret (Next (seg + 1) w) else
     if segunit dp \<ge> maxunit dp then ret (Done AD_OVFLWUSRDIC) else
     bnd (need (count_uidx (idxbuf dp) (ofsptr dp) (segunit dp) (idxlen dp))) (\<lambda>free.
     if f_dou f + f_new f \<le> sl then
       bnd (need (if f_yomi f then getntag d (f_dou f) else Some (f_dou f))) (\<lambda>pos.
       bnd (need (idx_need d pos)) (\<lambda>n. if free < n then ret (Done AD_OVFLWINDEX) else
       bnd (putdic i w (segunit dp)) (\<lambda>r. if r \<noteq> 0 then ret (Done AD_OVFLWUSRDIC) else
       bnd (sprt_seg i sb seg pos w) (\<lambda>w. ret (Put (f\<lparr>f_nxt := 0, f_w := w\<rparr>))))))
     else if e then
       if free < len + 1 then ret (Done AD_OVFLWINDEX) else
       bnd (putdic i w (segunit dp)) (\<lambda>r. if r \<noteq> 0 then ret (Done AD_OVFLWUSRDIC) else
       bnd (upd_df i (\<lambda>dp. dp\<lparr>segunit := to_short (segunit dp + 1)\<rparr>)) (\<lambda>_.
       bnd (the_df i) (\<lambda>dp. let w = getdic dp w (segunit dp - 1) in
       bnd (need (do { d \<leftarrow> memset (dicbuf dp w) 0 DICSEGTERM (int (seglen dp)); wr d 0 0 })) (\<lambda>d.
       bnd (put_dicbuf i w d) (\<lambda>_.
       bnd (putdic i w (segunit dp - 1)) (\<lambda>_.
       bnd (rszdic i w (segunit dp)) (\<lambda>_.
       bnd (mk_idxtbl i) (\<lambda>_. ret (Next (seg + 1) w)))))))))
     else
       bnd (need (idx_need d (f_dou f))) (\<lambda>n. if free < n then ret (Done AD_OVFLWINDEX) else
       bnd (putdic i w (segunit dp)) (\<lambda>r. if r \<noteq> 0 then ret (Done AD_OVFLWUSRDIC) else
       bnd (sprt_seg i sb seg (f_dou f) w) (\<lambda>w. ret (Next (seg + 1) w)))))))))"

definition add_place :: "ino \<Rightarrow> ino option \<Rightarrow> cbuf \<Rightarrow> nat \<Rightarrow> u8 \<Rightarrow> u8 list \<Rightarrow> int \<Rightarrow> ('z sdep_scheme, u32 + fit) sm" where
  "add_place i sb y len hinsi k seg = bnd (loop (\<lambda>st. case st of Next _ _ \<Rightarrow> True | _ \<Rightarrow> False)
       (\<lambda>st. case st of Next seg w \<Rightarrow> add_try i sb y len hinsi k seg w | _ \<Rightarrow> ret st) (Next seg 0)) (\<lambda>st.
     case st of Done e \<Rightarrow> ret (Inl e) | Put f \<Rightarrow> ret (Inr f) | _ \<Rightarrow> jump Hang)"

text \<open>The next block gives up the codes it now shares; the bytes behind move up.\<close>

definition trim_next :: "cbuf \<Rightarrow> nat \<Rightarrow> fit \<Rightarrow> cbuf option" where
  "trim_next d sl f =
     (if f_nxt f = 0 then Some d
      else do {
        n \<leftarrow> getsize d (f_dou f);
        plen \<leftarrow> getplen d (f_dou f);
        nlen \<leftarrow> getnlen d (f_dou f);
        d \<leftarrow> set_size d (f_dou f) (n - f_nxt f) (plen + f_nxt f) (nlen - f_nxt f);
        let p = f_dou f + DOUONBLKSIZENUMBER;
        mvmemi d (p + f_nxt f) p (nat (int sl - int (p + f_nxt f))) })"

definition make_gap :: "cbuf \<Rightarrow> nat \<Rightarrow> fit \<Rightarrow> cbuf option" where
  "make_gap d sl f = do {
     d \<leftarrow> trim_next d sl f;
     let n = f_new f - f_old f;
     mvmemd d (sl - n) sl (nat (int sl - int (f_dst f) - int n)) }"

text \<open>The bytes of the word in the gap, and the place of its kanji string.\<close>

definition fill_gap :: "cbuf \<Rightarrow> fit \<Rightarrow> cbuf \<Rightarrow> nat \<Rightarrow> u8 \<Rightarrow> u8 list \<Rightarrow> (cbuf \<times> nat) option" where
  "fill_gap d f y len hinsi k = do {
     (d, p) \<leftarrow>
       (if f_yomi f then do {
          plen \<leftarrow> getplen d (f_dou f);
          nlen \<leftarrow> getnlen d (f_dou f);
          d \<leftarrow> set_size d (f_dou f) (f_new f) plen nlen;
          Some (d, f_dst f) }
        else do {
          d \<leftarrow> set_size d (f_dst f) (f_new f) (f_saml f) (len - f_saml f);
          r \<leftarrow> get_bytes y (f_saml f) (len - f_saml f);
          d \<leftarrow> put_bytes d (f_dst f + DOUONBLKSIZENUMBER) r;
          Some (d, f_dst f + DOUONBLKSIZENUMBER + length r) });
     d \<leftarrow> put_bytes d p ((if f_hinsi f then [] else [hinsi]) @ k @ (if k \<noteq> [] then [KANJISTREND] else [])
            @ (if f_hinsi f then [] else [HINSIBLKTERM]));
     Some (d, p + (if f_hinsi f then 0 else 1)) }"

definition note_word :: "STDYIN \<Rightarrow> ino option \<Rightarrow> STDYOUT \<Rightarrow> ('z sdep_scheme, unit) sm" where
  "note_word beyond sb outp = with_stdy sb (\<lambda>j st.
     bnd (need (study beyond (Some st) outp)) (\<lambda>(r, st, save).
     bnd (case st of None \<Rightarrow> ret () | Some st \<Rightarrow> set_ed_stdy j st) (\<lambda>_.
     if save then bnd (putstydic j) (\<lambda>_. ret ()) else ret ())))"

definition new_word :: "DictFile \<Rightarrow> int \<Rightarrow> nat \<Rightarrow> u8 \<Rightarrow> nat \<Rightarrow> STDYOUT" where
  "new_word dp seg ofs hinsi len =
     \<lparr>stdy1 = \<lparr>st_offset = to_ushort ofs, st_seg = seg, styno = 0, st_dicid = unat (dicid dp), sttkj = False,
        ka_kj = False, nmflg = False\<rparr>, st_hinshi = hinsi, st_len = len, sttlen = 0, sttfg = False, ka_fg = False\<rparr>"

definition store_word :: "STDYIN \<Rightarrow> ino \<Rightarrow> ino option \<Rightarrow> fit \<Rightarrow> cbuf \<Rightarrow> nat \<Rightarrow> u8 \<Rightarrow> u8 list \<Rightarrow> ('z sdep_scheme, unit) sm" where
  "store_word beyond i sb f y len hinsi k = bnd (the_df i) (\<lambda>dp. let w = f_w f in
     bnd (need (make_gap (dicbuf dp w) (seglen dp) f)) (\<lambda>d.
     bnd (put_dicbuf i w d) (\<lambda>_.
     bnd (need (segtop d)) (\<lambda>t.
     bnd (if \<not> f_yomi f \<and> f_dou f = t then
            bnd (need (get_bytes y 0 len)) (chg_uidx i (f_seg f)) else ret ()) (\<lambda>_.
     bnd (the_df i) (\<lambda>dp.
     bnd (need (fill_gap (dicbuf dp w) f y len hinsi k)) (\<lambda>(d, ofs).
     bnd (put_dicbuf i w d) (\<lambda>_.
     bnd (putdic i w (f_seg f)) (\<lambda>_.
     bnd (map_stdy (shift_stdy (unat (dicid dp)) (f_seg f) (f_dst f) (int (f_new f) - int (f_old f) - int (f_nxt f))) sb) (\<lambda>_.
     bnd (purge_clstudy y sb) (\<lambda>_.
     note_word beyond sb (new_word dp (f_seg f) ofs hinsi len))))))))))))"

text \<open>
  \<^verbatim>\<open>adddic\<close>: \<open>ds\<close> is the list \<^verbatim>\<open>dictlist\<close>. The local arrays hold 32 codes and 65 bytes.
\<close>

definition adddic :: "STDYIN \<Rightarrow> ino list \<Rightarrow> ino \<Rightarrow> ino option \<Rightarrow> cbuf \<Rightarrow> cbuf \<Rightarrow> u8 \<Rightarrow> ('z sdep_scheme, u32) sm" where
  "adddic beyond ds i sb yomi kanji hinsi =
     bnd (need (addel_arg yomi kanji hinsi (replicate (MAXWDYOMILEN + 1) 0) (MAXWDYOMILEN + 1))) (\<lambda>(err, y).
     if err \<noteq> 0 then ret err else
     bnd (need (strlen y)) (\<lambda>len.
     bnd (gets (\<lambda>s. those (map (\<lambda>i. search_same_dict i (dictlink s)) ds))) (\<lambda>dps. bnd (need dps) (\<lambda>dps.
     bnd (need (checkdict dps y len yomi kanji hinsi 0)) (\<lambda>err.
     if err \<noteq> 0 then ret err else
     bnd (the_df i) (\<lambda>dp.
     if maxunit dp = 0 then ret AD_NOTUSERDICT else
     bnd (need (cvtknj yomi kanji)) (\<lambda>k.
     if length k > MAXWDKANJILEN then jump Ub else
     let new = DOUONBLKSIZENUMBER + len + (if k \<noteq> [] then length k + 1 else 0) + 2 in
     if new > 0xfff \<or> new > seglen dp then ret AD_OVFLWDOUBLK else
     bnd (need (srchidx (idxbuf dp) (ofsptr dp) (segunit dp) y 0 len)) (\<lambda>seg.
     bnd (add_place i sb y len hinsi k seg) (\<lambda>r.
     case r of Inl e \<Rightarrow> ret e
     | Inr f \<Rightarrow> bnd (store_word beyond i sb f y len hinsi k) (\<lambda>_. ret AD_DONE))))))))))"

section \<open>Deleting a word\<close>

text \<open>
  Bytes from \<open>stp\<close> to \<open>edp\<close> are taken out of the block at \<open>p1\<close>. The part of the segment
  that \<^verbatim>\<open>memset\<close> fills begins where the moved bytes ended before the move.
\<close>

definition cut_bytes :: "cbuf \<Rightarrow> nat \<Rightarrow> nat \<Rightarrow> nat \<Rightarrow> nat \<Rightarrow> cbuf option" where
  "cut_bytes d sl p1 stp edp = do {
     let n = edp - stp;
     let len = int sl - int edp;
     d \<leftarrow> mvmemi d edp stp (nat len);
     let edp = int edp + len;
     d \<leftarrow> memset d (nat edp) DICSEGTERM (int sl - edp);
     sz \<leftarrow> getsize d p1;
     plen \<leftarrow> getplen d p1;
     nlen \<leftarrow> getnlen d p1;
     set_size d p1 (sz - n) plen nlen }"

text \<open>The last block of a segment that has others: the number of bytes filled is the free space.\<close>

definition cut_last :: "cbuf \<Rightarrow> nat \<Rightarrow> nat \<Rightarrow> nat \<Rightarrow> cbuf option" where
  "cut_last d sl ptr nxt = memset d ptr DICSEGTERM (int sl - int nxt)"

text \<open>A block with a successor, which takes over the codes it shared with it.\<close>

definition cut_block :: "cbuf \<Rightarrow> nat \<Rightarrow> nat \<Rightarrow> nat \<Rightarrow> (cbuf \<times> nat \<times> nat) option" where
  "cut_block d sl ptr nxt = do {
     sz \<leftarrow> getsize d nxt;
     nlen \<leftarrow> getnlen d nxt;
     plen \<leftarrow> getplen d nxt;
     plen0 \<leftarrow> getplen d ptr;
     let len = (if plen0 < plen then plen - plen0 else 0);
     d \<leftarrow> set_size d ptr (sz + len) (plen - len) (nlen + len);
     let p1 = nxt + DOUONBLKSIZENUMBER;
     let p2 = ptr + DOUONBLKSIZENUMBER + len;
     d \<leftarrow> mvmemi d p1 p2 (nat (int sl - int p1));
     let n = p1 - p2;
     d \<leftarrow> (if n > sl then None else memset d (sl - n) DICSEGTERM (int n));
     Some (d, n, nlen + len) }"

definition del_stdy :: "nat \<Rightarrow> int \<Rightarrow> nat \<Rightarrow> nat \<Rightarrow> ino option \<Rightarrow> ('z sdep_scheme, unit) sm" where
  "del_stdy dic seg ofs n = forget
     (\<lambda>e. st_dicid e = dic \<and> st_seg e = seg \<and> st_offset e = ofs)
     (\<lambda>e. if st_dicid e = dic \<and> st_seg e = seg \<and> st_offset e > ofs
          then e\<lparr>st_offset := ushort_of (int (st_offset e) - int n)\<rparr> else e) 0"

definition del_douon :: "ino \<Rightarrow> ino option \<Rightarrow> int \<Rightarrow> nat \<Rightarrow> nat \<Rightarrow> nat \<Rightarrow> ('z sdep_scheme, u32) sm" where
  "del_douon i sb seg w ptr ofs = bnd (the_df i) (\<lambda>dp. let d = dicbuf dp w; sl = seglen dp in
     bnd (need (getntag d ptr)) (\<lambda>nxt.
     bnd (need (segend d sl nxt)) (\<lambda>e.
     bnd (need (segtop d)) (\<lambda>t.
     bnd (if e then bnd (need (cut_last d sl ptr nxt)) (\<lambda>d. bnd (put_dicbuf i w d) (\<lambda>_. ret (Inr (nxt - ptr))))
          else
            bnd (need (do { a \<leftarrow> getnlen d nxt; b \<leftarrow> getplen d nxt; Some (a + b) })) (\<lambda>ylen.
            bnd (need (if ptr = t then do {
                    free \<leftarrow> count_uidx (idxbuf dp) (ofsptr dp) (segunit dp) (idxlen dp);
                    p \<leftarrow> rd (ofsptr dp) (nat seg);
                    n \<leftarrow> str_at (idxbuf dp) p;
                    Some (ylen \<le> free + n) }
                  else Some True)) (\<lambda>room.
            if \<not> room then ret (Inl AD_OVFLWINDEX) else
            bnd (need (cut_block d sl ptr nxt)) (\<lambda>(d, n, nlen).
            bnd (put_dicbuf i w d) (\<lambda>_.
            bnd (if ptr = t then bnd (need (get_bytes d (ptr + DOUONBLKSIZENUMBER) nlen)) (chg_uidx i seg) else ret ()) (\<lambda>_.
            ret (Inr n))))))) (\<lambda>r.
     case r of Inl err \<Rightarrow> ret err | Inr n \<Rightarrow>
     bnd (putdic i w seg) (\<lambda>_.
     bnd (del_stdy (unat (dicid dp)) seg ofs n sb) (\<lambda>_. ret AD_DONE)))))))"

fun copy_down :: "ino \<Rightarrow> nat \<Rightarrow> int \<Rightarrow> nat \<Rightarrow> ('z sdep_scheme, nat) sm" where
  "copy_down i w s 0 = ret w"
| "copy_down i w s (Suc n) = bnd (the_df i) (\<lambda>dp. let w = getdic dp w s in
     bnd (putdic i w (s - 1)) (\<lambda>_. copy_down i w (s + 1) n))"

text \<open>
  \<^verbatim>\<open>del_segment\<close>: the local variable \<^verbatim>\<open>stdynum\<close> is not initialised; \<open>stdynum\<close> is the
  value it happens to have.
\<close>

definition del_segment :: "int \<Rightarrow> ino \<Rightarrow> ino option \<Rightarrow> int \<Rightarrow> nat \<Rightarrow> ('z sdep_scheme, u32) sm" where
  "del_segment stdynum i sb seg w = bnd (the_df i) (\<lambda>dp.
     bnd (if segunit dp > 1 then
            bnd (copy_down i w (seg + 1) (nat (segunit dp - (seg + 1)))) (\<lambda>w.
            bnd (upd_df i (\<lambda>dp. dp\<lparr>segunit := segunit dp - 1\<rparr>)) (\<lambda>_. ret w))
          else
            bnd (need (do { d \<leftarrow> memset (dicbuf dp w) 0 DICSEGTERM (int (seglen dp)); wr d 0 0 })) (\<lambda>d.
            bnd (put_dicbuf i w d) (\<lambda>_. bnd (putdic i w 0) (\<lambda>_. ret w)))) (\<lambda>w.
     bnd (the_df i) (\<lambda>dp. bnd (rszdic i w (segunit dp)) (\<lambda>_.
     bnd (del_uidx i seg) (\<lambda>_.
     bnd (forget
       (\<lambda>e. st_dicid e = unat (dicid dp) \<and> st_seg e = seg)
       (\<lambda>e. if st_dicid e = unat (dicid dp) \<and> st_seg e > seg then e\<lparr>st_seg := st_seg e - 1\<rparr> else e) stdynum sb) (\<lambda>_.
     ret AD_DONE))))))"

text \<open>
  The word is the last one of its class, the class the last one of its reading, the reading
  the last one of the segment, or not.
\<close>

definition del_word :: "int \<Rightarrow> ino \<Rightarrow> ino option \<Rightarrow> int \<Rightarrow> nat \<Rightarrow> nat \<times> nat \<times> nat \<Rightarrow> nat \<times> nat \<times> nat \<Rightarrow> ('z sdep_scheme, u32) sm" where
  "del_word stdynum i sb useg w = (\<lambda>(dblk, hblk, kblk) (p1, p2, p3). bnd (the_df i) (\<lambda>dp. let d = dicbuf dp w in
     bnd (need (skipkstr d p3)) (\<lambda>edp.
     if kblk = 1 \<and> hblk = 1 \<and> dblk = 1 then del_segment stdynum i sb useg w
     else if kblk = 1 \<and> hblk = 1 then del_douon i sb useg w p1 p3
     else let stp = (if kblk = 1 then p2 else p3); edp = (if kblk = 1 then edp + 1 else edp) in
       bnd (need (cut_bytes d (seglen dp) p1 stp edp)) (\<lambda>d.
       bnd (put_dicbuf i w d) (\<lambda>_.
       bnd (putdic i w useg) (\<lambda>_.
       bnd (del_stdy (unat (dicid dp)) useg p3 (edp - stp) sb) (\<lambda>_. ret AD_DONE)))))))"

definition deldic :: "int \<Rightarrow> ino \<Rightarrow> ino option \<Rightarrow> cbuf \<Rightarrow> cbuf \<Rightarrow> u8 \<Rightarrow> ('z sdep_scheme, u32) sm" where
  "deldic stdynum i sb yomi kanji hinsi =
     bnd (need (addel_arg yomi kanji hinsi (replicate (MAXWDYOMILEN + 1) 0) (MAXWDYOMILEN + 1))) (\<lambda>(err, y).
     if err \<noteq> 0 then ret err else
     bnd (the_df i) (\<lambda>dp.
     if maxunit dp = 0 then ret AD_NOTUSERDICT else
     bnd (need (cvtknj yomi kanji)) (\<lambda>k.
     if length k > MAXWDKANJILEN then jump Ub else
     bnd (need (strlen y)) (\<lambda>len.
     bnd (need (srchidx (idxbuf dp) (ofsptr dp) (segunit dp) y 0 len)) (\<lambda>useg.
     let w = getdic dp 0 useg; d = dicbuf dp w in
     bnd (need (srchkana y d (seglen dp) None)) (\<lambda>(dblk, p1, _).
     if dblk = 0 then ret AD_NOMIDASI else
     bnd (need (srchgram d p1 hinsi)) (\<lambda>(hblk, p2).
     if hblk = 0 then ret AD_NOHINSI else
     bnd (need (srchkanji d p2 k)) (\<lambda>(kblk, p3).
     bnd (need (rd d p3)) (\<lambda>c.
     if c = HINSIBLKTERM then ret AD_NOKANJI else
     del_word stdynum i sb useg w (dblk, hblk, kblk) (p1, p2, p3))))))))))"

end
