(* ===== verification/Sj_Kanji_Laws.thy ===== *)
theory Sj_Kanji_Laws
  imports Sj_Kanji
begin

text \<open>
  The kanji string of a word is read back as it was written, and the two cases where it is
  not: a string that is a proper beginning of its reading, and a comparison that starts
  before its object.
\<close>

section \<open>Bytes\<close>

lemma u8_all:
  assumes "list_all P (map of_nat [0..<256])"
  shows "P (c :: u8)"
proof -
  have "unat c \<in> set [0..<256]" using unsigned_less [of c] by simp
  then have "of_nat (unat c) \<in> set (map of_nat [0..<256] :: u8 list)" by (metis image_eqI image_set)
  then have "P (of_nat (unat c))" using assms unfolding list_all_iff by blast
  then show ?thesis by simp
qed

definition high :: "u8 \<Rightarrow> bool" where
  "high a \<longleftrightarrow> 0xa1 \<le> a \<and> a \<le> 0xfe"

definition plain_ok :: "u8 \<Rightarrow> bool" where
  "plain_ok a \<longleftrightarrow> (let b = a AND NORMALKANJIMASK; m = b AND KANJIMODEMASK in
     a \<noteq> 0 \<and> a \<noteq> SS2 \<and> a \<noteq> SS3 \<and> a AND 0x80 \<noteq> 0 \<and> b \<noteq> 0 \<and> b AND 0x80 = 0 \<and> b OR 0x80 = a \<and> a OR 0x80 = a \<and> codesize b = 2
     \<and> m \<notin> {ZENHIRAASSYUKU, ZENKATAASSYUKU, OFFSETASSYUKU, AIATTRIBUTE, LEADINGHANKAKU, KANJIASSYUKU})"

lemma high_plain:
  assumes "high a"
  shows "plain_ok a"
proof -
  have "list_all (\<lambda>n. plain_ok (of_nat n)) [0xa1..<0xff]"
    by (simp add: upt_rec plain_ok_def codesize_def Let_def)
  then have "\<forall>n \<in> {0xa1..<0xff}. plain_ok (of_nat n)" by (simp only: list_all_iff set_upt)
  moreover have "unat a \<in> {0xa1..<0xff}" using assms by (simp add: high_def word_le_nat_alt)
  ultimately have "plain_ok (of_nat (unat a))" by (rule bspec)
  then show ?thesis by simp
qed

lemma high_facts:
  assumes "high a"
  shows "a \<noteq> 0" "a \<noteq> SS2" "a \<noteq> SS3" "a AND 0x80 \<noteq> 0" "a AND NORMALKANJIMASK \<noteq> 0"
    "(a AND NORMALKANJIMASK) AND 0x80 = 0" "(a AND NORMALKANJIMASK) OR 0x80 = a" "a OR 0x80 = a"
    "codesize (a AND NORMALKANJIMASK) = 2"
    "(a AND NORMALKANJIMASK) AND KANJIMODEMASK
       \<notin> {ZENHIRAASSYUKU, ZENKATAASSYUKU, OFFSETASSYUKU, AIATTRIBUTE, LEADINGHANKAKU, KANJIASSYUKU}"
  using high_plain [OF assms] unfolding plain_ok_def Let_def by blast+

lemma ask_code_facts:
  assumes "0 < h" "h \<le> 16" "m \<in> {ZENHIRAASSYUKU, ZENKATAASSYUKU}"
  shows "ask_code m h AND KANJIMODEMASK = m" "unat (ask_code m h AND 0x0f) + 1 = h" "codesize (ask_code m h) = 1"
    "ask_code m h \<noteq> 0"
proof -
  have "\<forall>h \<in> set [1..<17]. \<forall>m \<in> {ZENHIRAASSYUKU, ZENKATAASSYUKU}. ask_code m h AND KANJIMODEMASK = m
      \<and> unat (ask_code m h AND 0x0f) + 1 = h \<and> codesize (ask_code m h) = 1 \<and> ask_code m h \<noteq> 0"
    by code_simp
  moreover have "h \<in> set [1..<17]" using assms by auto
  ultimately show "ask_code m h AND KANJIMODEMASK = m" "unat (ask_code m h AND 0x0f) + 1 = h" "codesize (ask_code m h) = 1"
    "ask_code m h \<noteq> 0" using assms(3) by blast+
qed

section \<open>EUC text\<close>

fun euc_char :: "u8 list \<Rightarrow> bool" where
  "euc_char [x] \<longleftrightarrow> x \<noteq> 0 \<and> x AND 0x80 = 0"
| "euc_char [a, b] \<longleftrightarrow> (a = SS2 \<and> b AND 0x80 \<noteq> 0) \<or> (high a \<and> high b)"
| "euc_char [a, b, c] \<longleftrightarrow> a = SS3 \<and> high b \<and> high c"
| "euc_char _ \<longleftrightarrow> False"

definition euc_text :: "u8 list \<Rightarrow> bool" where
  "euc_text t \<longleftrightarrow> (\<exists>cs. t = concat cs \<and> list_all euc_char cs)"

lemma euc_char_cases:
  assumes "euc_char c"
  obtains x where "c = [x]" "x \<noteq> 0" "x AND 0x80 = 0" "x \<noteq> SS2" "x \<noteq> SS3"
  | x where "c = [SS2, x]" "x AND 0x80 \<noteq> 0" "x \<noteq> 0"
  | a b where "c = [a, b]" "high a" "high b"
  | a b where "c = [SS3, a, b]" "high a" "high b"
  using assms proof (cases c rule: euc_char.cases)
  case (1 x)
  then have "x \<noteq> SS2" "x \<noteq> SS3" using assms by auto
  with 1 show ?thesis using assms that(1) by simp
next
  case (2 a b)
  then have "b AND 0x80 \<noteq> 0 \<longrightarrow> b \<noteq> 0" by auto
  with 2 show ?thesis using assms that(2,3) by auto
qed (use assms that(4) in auto)

section \<open>Readings\<close>

definition kata_of :: "u8 \<Rightarrow> u8 list" where
  "kata_of c = (case cd2sjh_chr c of None \<Rightarrow> [] | Some (a, b) \<Rightarrow> [if a = 0xa4 then 0xa5 else a, b])"

definition kata_str :: "u8 list \<Rightarrow> u8 list" where
  "kata_str ys = concat (map kata_of ys)"

lemma reading_code:
  assumes "yomi_code c"
  obtains a b where "euc_of c = [a, b]" "kata_of c = [if a = 0xa4 then 0xa5 else a, b]" "high a" "high b"
    "a = 0xa4 \<longrightarrow> 0xa1 \<le> b \<and> b \<le> 0xf3"
proof -
  have "yomi_code c \<longrightarrow> (case cd2sjh_chr c of None \<Rightarrow> False | Some (a, b) \<Rightarrow> high a \<and> high b \<and> (a = 0xa4 \<longrightarrow> 0xa1 \<le> b \<and> b \<le> 0xf3))"
    unfolding yomi_code_iff
    by (rule u8_all [of "\<lambda>c. (1 \<le> c \<and> c \<le> 4) \<or> (0x10 \<le> c \<and> c \<le> 0xa3) \<longrightarrow>
       (case cd2sjh_chr c of None \<Rightarrow> False | Some (a, b) \<Rightarrow> high a \<and> high b \<and> (a = 0xa4 \<longrightarrow> 0xa1 \<le> b \<and> b \<le> 0xf3))"])
      (simp add: upt_rec cd2sjh_chr_def high_def)
  then show ?thesis using assms that by (auto simp: euc_of_def kata_of_def split: option.splits prod.splits)
qed

lemma high_a5 [simp]: "high 0xa5"
  by (simp add: high_def)

lemma reading_simps [simp]:
  "euc_of_str [] = []" "euc_of_str (c # ys) = euc_of c @ euc_of_str ys"
  "kata_str [] = []" "kata_str (c # ys) = kata_of c @ kata_str ys"
  by (simp_all add: euc_of_str_def kata_str_def)

lemma reading_length:
  assumes "list_all yomi_code ys"
  shows "length (euc_of_str ys) = 2 * length ys" "length (kata_str ys) = 2 * length ys"
  using assms by (induction ys) (auto elim!: reading_code)

lemma reading_high:
  assumes "list_all yomi_code ys"
  shows "\<forall>c \<in> set (euc_of_str ys). high c" "\<forall>c \<in> set (kata_str ys). high c"
  using assms by (induction ys) (auto elim!: reading_code)

lemma reading_drop:
  assumes "list_all yomi_code ys"
  shows "drop (2 * n) (euc_of_str ys) = euc_of_str (drop n ys)" "drop (2 * n) (kata_str ys) = kata_str (drop n ys)"
  using assms
proof (induction ys arbitrary: n)
  case (Cons c ys)
  { case 1 then show ?case using Cons by (cases n) (auto elim!: reading_code) }
  { case 2 then show ?case using Cons by (cases n) (auto elim!: reading_code) }
qed simp_all

lemma reading_take:
  assumes "list_all yomi_code ys"
  shows "take (2 * n) (euc_of_str ys) = euc_of_str (take n ys)" "take (2 * n) (kata_str ys) = kata_str (take n ys)"
  using assms
proof (induction ys arbitrary: n)
  case (Cons c ys)
  { case 1 then show ?case using Cons by (cases n) (auto elim!: reading_code) }
  { case 2 then show ?case using Cons by (cases n) (auto elim!: reading_code) }
qed simp_all

lemma not_0_high: "\<forall>c \<in> set s. high c \<Longrightarrow> 0 \<notin> set s"
  using high_facts(1) by blast

lemma yomi2kata_reading:
  assumes "list_all yomi_code ys" "drop i src = euc_of_str ys @ 0 # r"
  shows "yomi2kata src i = Some (kata_str ys @ [0])"
  using assms
proof (induction ys arbitrary: i)
  case Nil
  then show ?case by (subst yomi2kata.simps) (simp add: drop_rds)
next
  case (Cons c ys)
  then obtain a b where c: "euc_of c = [a, b]" "kata_of c = [if a = 0xa4 then 0xa5 else a, b]" "high a"
    by (auto elim: reading_code)
  then have "drop i src = a # b # (euc_of_str ys @ 0 # r)" using Cons.prems by simp
  then show ?case using Cons.IH [of "i + 2"] Cons.prems(1) c high_facts(1) [OF c(3)]
    by (subst yomi2kata.simps) (simp add: drop_rds)
qed

lemma kata_bytes_reading:
  assumes "list_all yomi_code ys" "drop i p = euc_of_str ys @ r"
  shows "kata_bytes p i (length ys) = Some (kata_str ys)"
  using assms
proof (induction ys arbitrary: i)
  case (Cons c ys)
  then obtain a b where c: "euc_of c = [a, b]" "kata_of c = [if a = 0xa4 then 0xa5 else a, b]"
    "a = 0xa4 \<longrightarrow> 0xa1 \<le> b \<and> b \<le> 0xf3"
    by (auto elim: reading_code)
  then have "drop i p = a # b # (euc_of_str ys @ r)" using Cons.prems by simp
  then show ?case using Cons.IH [of "i + 2"] Cons.prems(1) c by (auto simp: drop_rds)
qed simp

lemma get_bytes_drop: "drop i p = t @ r \<Longrightarrow> get_bytes p i (length t) = Some t"
proof (induction t arbitrary: i)
  case (Cons c t)
  then show ?case using Cons.IH [of "Suc i"] by (simp add: drop_rds)
qed simp

section \<open>Comparisons\<close>

lemma strlen_app: "0 \<notin> set s \<Longrightarrow> strlen (s @ 0 # r) = Some (length s)"
  by (induction s) auto

lemma str_at_app: "0 \<notin> set s \<Longrightarrow> drop i p = s @ 0 # r \<Longrightarrow> str_at p i = Some (length s)"
  by (simp add: str_at_def strlen_app)

lemma sstrcmp_eq:
  assumes "0 \<notin> set s" "0 \<notin> set t" "drop i p = s @ 0 # r" "drop j q = t @ 0 # r'"
  shows "sstrcmp p i q j = Some (s \<noteq> t)"
  using assms
proof (induction s arbitrary: i j t)
  case Nil
  then show ?case by (subst sstrcmp.simps) (cases t; auto simp: drop_rds)
next
  case (Cons c s)
  show ?case
  proof (cases t)
    case Nil
    then show ?thesis using Cons.prems by (subst sstrcmp.simps) (simp add: drop_rds)
  next
    case (Cons c' t')
    show ?thesis unfolding Cons using Cons.IH [of t' "Suc i" "Suc j"] Cons.prems Cons
      by (subst sstrcmp.simps) (auto simp: drop_rds)
  qed
qed

lemma top_count_prefix:
  assumes "0 \<notin> set s" "drop i p = s @ 0 # r" "drop i q = t @ 0 # r'" "top_count p q i = Some n"
  shows "\<exists>k. n = i + k \<and> k \<le> length s \<and> k \<le> length t \<and> take k s = take k t"
  using assms
proof (induction s arbitrary: i t)
  case Nil
  then show ?case by (subst (asm) top_count.simps) (auto simp: drop_rds)
next
  case (Cons c s)
  have c: "rd p i = Some c" "drop (Suc i) p = s @ 0 # r" "c \<noteq> 0" using Cons.prems by (auto simp: drop_rds)
  show ?case
  proof (cases t)
    case Nil
    then show ?thesis using Cons.prems c by (subst (asm) top_count.simps) (simp add: drop_rds)
  next
    case (Cons c' t')
    then have c': "rd q i = Some c'" "drop (Suc i) q = t' @ 0 # r'" using Cons.prems by (auto simp: drop_rds)
    show ?thesis
    proof (cases "c = c'")
      case True
      then have "top_count p q (Suc i) = Some n" using Cons.prems(4) c c' by (subst (asm) top_count.simps) simp
      from Cons.IH [OF _ c(2) c'(2) this] Cons.prems(1) obtain k where
        "n = Suc i + k \<and> k \<le> length s \<and> k \<le> length t' \<and> take k s = take k t'" by auto
      then have "n = i + Suc k \<and> Suc k \<le> length (c # s) \<and> Suc k \<le> length t \<and> take (Suc k) (c # s) = take (Suc k) t"
        using True Cons by simp
      then show ?thesis by blast
    next
      case False
      then show ?thesis using Cons.prems(4) c c' by (subst (asm) top_count.simps) simp
    qed
  qed
qed

lemma top_strcmp_prefix:
  assumes "0 \<notin> set s" "top_strcmp (s @ 0 # r) (t @ 0 # r') = Some n"
  shows "n \<le> 16" "2 * n \<le> length s" "2 * n \<le> length t" "take (2 * n) s = take (2 * n) t"
proof -
  obtain m where m: "top_count (s @ 0 # r) (t @ 0 # r') 0 = Some m" "n = min (m div 2) 16"
    using assms(2) unfolding top_strcmp_def by (cases "top_count (s @ 0 # r) (t @ 0 # r') 0") simp_all
  have d: "drop 0 (s @ 0 # r) = s @ 0 # r" "drop 0 (t @ 0 # r') = t @ 0 # r'" by simp_all
  obtain k' where "m = 0 + k' \<and> k' \<le> length s \<and> k' \<le> length t \<and> take k' s = take k' t"
    using top_count_prefix [OF assms(1) d m(1)] by blast
  then have k: "m \<le> length s" "m \<le> length t" "take m s = take m t" by simp_all
  have n: "2 * n \<le> m" "n \<le> 16" using m(2) by auto
  then show "n \<le> 16" "2 * n \<le> length s" "2 * n \<le> length t" using k by auto
  show "take (2 * n) s = take (2 * n) t" using arg_cong [OF k(3), of "take (2 * n)"] n(1) by (simp add: min_absorb1)
qed

text \<open>A string of the bytes of two-byte characters has an even length.\<close>

lemma euc_high_even:
  assumes "list_all euc_char cs" "\<forall>c \<in> set (concat cs). high c"
  shows "length (concat cs) = 2 * length cs"
  using assms
proof (induction cs)
  case (Cons c cs)
  from Cons.prems(1) have "euc_char c" by simp
  then show ?case
  proof (cases rule: euc_char_cases)
    case (1 x)
    then show ?thesis using Cons.prems(2) high_facts(4) [of x] by simp
  next
    case (2 x)
    then show ?thesis using Cons.prems(2) by (simp add: high_def)
  next
    case (4 a b)
    then show ?thesis using Cons.prems(2) by (simp add: high_def)
  qed (use Cons in simp)
qed simp

lemma euc_char_0: "euc_char c \<Longrightarrow> 0 \<notin> set c \<and> c \<noteq> []"
  by (erule euc_char_cases) (auto dest: high_facts(1))

lemma euc_text_0: "list_all euc_char cs \<Longrightarrow> 0 \<notin> set (concat cs)"
  by (induction cs) (auto dest: euc_char_0)

lemma last_strcmp_suffix:
  assumes "last_strcmp (y @ 0 # r) p k = Some h" "h \<noteq> 0" "\<forall>c \<in> set y. high c" "list_all euc_char cs"
    "drop k p = concat cs @ 0 # r'"
  shows "h = length cs" "h \<le> 16" "2 * h \<le> length y" "concat cs = drop (length y - 2 * h) y" "length (concat cs) = 2 * h"
proof -
  let ?t = "concat cs"
  have len: "strlen (y @ 0 # r) = Some (length y)" "str_at p k = Some (length ?t)"
    using strlen_app not_0_high assms(3) str_at_app [OF euc_text_0 [OF assms(4)] assms(5)] by auto
  then have c: "length ?t \<le> 32" "length ?t \<le> length y"
    using assms(1,2) by (auto simp: last_strcmp_def split: if_splits)
  let ?s = "drop (length y - length ?t) y"
  have "drop (length y - length ?t) (y @ 0 # r) = ?s @ 0 # r" by simp
  then have "sstrcmp (y @ 0 # r) (length y - length ?t) p k = Some (?s \<noteq> ?t)"
    using assms(5) not_0_high [OF assms(3)] euc_text_0 [OF assms(4)] by (intro sstrcmp_eq) (auto dest: in_set_dropD)
  then have e: "?s = ?t" "h = length ?t div 2"
    using assms(1,2) len c by (auto simp: last_strcmp_def split: if_splits)
  then have "\<forall>c \<in> set ?t. high c" using assms(3) by (metis in_set_dropD)
  from euc_high_even [OF assms(4) this] have "length ?t = 2 * length cs" .
  then show "h = length cs" "h \<le> 16" "2 * h \<le> length y" "concat cs = drop (length y - 2 * h) y" "length ?t = 2 * h"
    using e c by auto
qed

section \<open>Single codes\<close>

definition code_of :: "u8 list \<Rightarrow> u8 list" where
  "code_of c = (case c of
     [x] \<Rightarrow> [LEADINGHANKAKU, x]
   | [a, b] \<Rightarrow> if a = SS2 then [LEADINGHANKAKU, b] else [a AND NORMALKANJIMASK, b AND NORMALKANJIMASK]
   | [s, a, b] \<Rightarrow> [a AND NORMALKANJIMASK, b]
   | _ \<Rightarrow> [])"

lemma code_of_head: "euc_char c \<Longrightarrow> \<exists>a b. code_of c = [a, b] \<and> a \<noteq> 0 \<and> codesize a = 2"
  by (erule euc_char_cases) (auto simp: code_of_def codesize_def [of LEADINGHANKAKU] dest: high_facts)

lemma cvt_plain:
  assumes "euc_char c" "drop k knj = c @ e # r"
  shows "\<exists>a. rd knj k = Some a \<and> rd knj (k + length c) = Some e \<and>
     (if a = SS2 then do { x \<leftarrow> rd knj (k + 1); Some ([LEADINGHANKAKU, x], k + 2) }
      else if a = SS3 then do {
        x \<leftarrow> rd knj (k + 1); z \<leftarrow> rd knj (k + 2); Some ([x AND NORMALKANJIMASK, z], k + 3) }
      else if a AND 0x80 \<noteq> 0 then do {
        x \<leftarrow> rd knj (k + 1); Some ([a AND NORMALKANJIMASK, x AND NORMALKANJIMASK], k + 2) }
      else Some ([LEADINGHANKAKU, a], k + 1)) = Some (code_of c, k + length c)"
proof -
  have e: "rd knj (k + length c) = Some e"
    using arg_cong [OF assms(2), of "drop (length c)"] by (simp add: rd_drop0 add.commute)
  from assms(1) show ?thesis
  proof (cases rule: euc_char_cases)
    case (1 x)
    then show ?thesis using assms(2) e by (simp add: code_of_def drop_rds)
  next
    case (2 x)
    then show ?thesis using assms(2) e by (simp add: code_of_def drop_rds)
  next
    case (3 a b)
    then show ?thesis using assms(2) e high_facts(2-4) [OF 3(2)] by (simp add: code_of_def drop_rds)
  next
    case (4 a b)
    then have "rd knj k = Some SS3" "rd knj (Suc k) = Some a" "rd knj (k + 2) = Some b"
      using assms(2) drop_rds(1) [of k knj] drop_rds(2) [of k knj] drop_rds(2) [of "Suc k" knj] drop_rds(3) [of k knj] by auto
    then show ?thesis using 4 e by (simp add: code_of_def)
  qed
qed

lemma plain_expand:
  assumes "euc_char c" "drop s d = code_of c @ e # r"
  shows "code2kanji d ask ym yl flg s =
    (if e = 0 then Some c else do { r \<leftarrow> code2kanji d ask ym yl flg (s + 2); Some (c @ r) })"
proof -
  obtain a b where ab: "code_of c = [a, b]" "codesize a = 2" using code_of_head [OF assms(1)] by blast
  then have "drop s d = a # b # e # r" using assms(2) by simp
  then have r: "rd d s = Some a" "rd d (Suc s) = Some b" "rd d (s + 2) = Some e"
    using drop_rds(1,2) [of s d] drop_rds(2) [of "Suc s" d] drop_rds(3) [of s d] by auto
  from assms(1) show ?thesis
  proof (cases rule: euc_char_cases)
    case (1 x)
    then show ?thesis using r ab by (subst code2kanji.simps) (simp add: code_of_def getkan_ascii_def)
  next
    case (2 x)
    then show ?thesis using r ab by (subst code2kanji.simps) (simp add: code_of_def getkan_ascii_def)
  next
    case (3 a' b')
    then have "a = a' AND NORMALKANJIMASK" "b = b' AND NORMALKANJIMASK" using ab high_facts(2) [of a'] by (auto simp: code_of_def)
    then show ?thesis using r ab(2) 3 high_facts [OF 3(2)] high_facts [OF 3(3)]
      by (subst code2kanji.simps) (simp add: getkan_norm_def)
  next
    case (4 a' b')
    then have "a = a' AND NORMALKANJIMASK" "b = b'" using ab by (auto simp: code_of_def)
    then show ?thesis using r ab(2) 4 high_facts [OF 4(2)] high_facts [OF 4(3)]
      by (subst code2kanji.simps) (simp add: getkan_norm_def)
  qed
qed

lemma ask_expand:
  assumes "drop s d = ask_code m h # e # r" "0 < h" "h \<le> 16"
  shows "m = ZENHIRAASSYUKU \<Longrightarrow> code2kanji d ask ym yl flg s =
      do { i \<leftarrow> ask_from yl h (flg \<and> e = 0); out \<leftarrow> get_bytes ym i (h * 2);
           if e = 0 then Some out else do { r \<leftarrow> code2kanji d ask ym yl flg (s + 1); Some (out @ r) } }" (is "_ \<Longrightarrow> ?H")
    "m = ZENKATAASSYUKU \<Longrightarrow> code2kanji d ask ym yl flg s =
      do { i \<leftarrow> ask_from yl h (flg \<and> e = 0); out \<leftarrow> kata_bytes ym i h;
           if e = 0 then Some out else do { r \<leftarrow> code2kanji d ask ym yl flg (s + 1); Some (out @ r) } }" (is "_ \<Longrightarrow> ?K")
proof -
  have r: "rd d s = Some (ask_code m h)" "rd d (Suc s) = Some e" using assms(1) by (simp_all add: drop_rds)
  { assume m: "m = ZENHIRAASSYUKU"
    have f: "ask_code m h AND KANJIMODEMASK = m" "unat (ask_code m h AND 0x0f) + 1 = h" "codesize (ask_code m h) = 1"
      using ask_code_facts [of h m] assms m by auto
    then show ?H using r m by (subst code2kanji.simps) (simp add: getkan_hira_def ask_cnt_def cong: if_cong) }
  { assume m: "m = ZENKATAASSYUKU"
    have f: "ask_code m h AND KANJIMODEMASK = m" "unat (ask_code m h AND 0x0f) + 1 = h" "codesize (ask_code m h) = 1"
      using ask_code_facts [of h m] assms m by auto
    then show ?K using r m by (subst code2kanji.simps) (simp add: getkan_kata_def ask_cnt_def cong: if_cong) }
qed

section \<open>The kanji string comes back\<close>

lemma reading_suffix:
  assumes "list_all yomi_code ys" "h \<le> length ys"
  shows "drop (length (euc_of_str ys) - 2 * h) (euc_of_str ys) = euc_of_str (drop (length ys - h) ys)"
    "drop (length (kata_str ys) - 2 * h) (kata_str ys) = kata_str (drop (length ys - h) ys)"
    "drop ((length ys - h) * 2) (euc_of_str ys @ r) = euc_of_str (drop (length ys - h) ys) @ r"
proof -
  have "2 * length ys - 2 * h = 2 * (length ys - h)" by simp
  then show "drop (length (euc_of_str ys) - 2 * h) (euc_of_str ys) = euc_of_str (drop (length ys - h) ys)"
    "drop (length (kata_str ys) - 2 * h) (kata_str ys) = kata_str (drop (length ys - h) ys)"
    by (simp_all only: reading_length [OF assms(1)] reading_drop [OF assms(1)])
  show "drop ((length ys - h) * 2) (euc_of_str ys @ r) = euc_of_str (drop (length ys - h) ys) @ r"
    using reading_drop(1) [OF assms(1), of "length ys - h"] reading_length(1) [OF assms(1)]
    by (simp add: mult.commute)
qed

lemma cvt_loop_last:
  assumes ys: "list_all yomi_code ys" and cs: "list_all euc_char cs" "drop k knj = concat cs @ 0 # r"
  shows "last_strcmp (euc_of_str ys @ 0 # r1) knj k = Some h \<Longrightarrow> h \<noteq> 0 \<Longrightarrow> drop s d = ask_code ZENHIRAASSYUKU h # 0 # r2
      \<Longrightarrow> code2kanji d ask (euc_of_str ys @ 0 # r1) (length ys) True s = Some (concat cs)" (is "?A \<Longrightarrow> _ \<Longrightarrow> ?B \<Longrightarrow> ?C")
    "last_strcmp (kata_str ys @ [0]) knj k = Some h \<Longrightarrow> h \<noteq> 0 \<Longrightarrow> drop s d = ask_code ZENKATAASSYUKU h # 0 # r2
      \<Longrightarrow> code2kanji d ask (euc_of_str ys @ 0 # r1) (length ys) True s = Some (concat cs)" (is "?A' \<Longrightarrow> _ \<Longrightarrow> ?B' \<Longrightarrow> ?C")
proof -
  note len = reading_length [OF ys]
  { assume a: ?A "h \<noteq> 0" ?B
    note f = last_strcmp_suffix [OF a(1,2) reading_high(1) [OF ys] cs]
    have h: "h \<le> length ys" using f(3) len by simp
    have t: "concat cs = euc_of_str (drop (length ys - h) ys)" using f(4) reading_suffix(1) [OF ys h] by simp
    have "get_bytes (euc_of_str ys @ 0 # r1) ((length ys - h) * 2) (length (concat cs)) = Some (concat cs)"
      by (rule get_bytes_drop) (simp only: t reading_suffix(3) [OF ys h])
    then show ?C using ask_expand(1) [OF a(3) _ f(2) refl] a(2) f(5) h by (simp add: ask_from_def mult.commute) }
  { assume a: ?A' "h \<noteq> 0" ?B'
    note f = last_strcmp_suffix [OF a(1,2) reading_high(2) [OF ys] cs]
    have h: "h \<le> length ys" using f(3) len by simp
    have t: "concat cs = kata_str (drop (length ys - h) ys)" using f(4) reading_suffix(2) [OF ys h] by simp
    have "list_all yomi_code (drop (length ys - h) ys)" using ys by (meson in_set_dropD list_all_iff)
    from kata_bytes_reading [OF this reading_suffix(3) [OF ys h]]
    have "kata_bytes (euc_of_str ys @ 0 # r1) ((length ys - h) * 2) h = Some (concat cs)" using h t by simp
    then show ?C using ask_expand(2) [OF a(3) _ f(2) refl] a(2) h by (simp add: ask_from_def) }
qed

text \<open>One turn of the loop of \<^verbatim>\<open>cvtknj\<close> on a text that begins with the character \<open>c\<close>.\<close>

lemma cvt_loop_step:
  assumes "list_all yomi_code ys" "list_all euc_char (c # cs)" "drop k knj = concat (c # cs) @ 0 # r"
    "cvt_loop (euc_of_str ys @ 0 # r1) (kata_str ys @ [0]) knj k = Some out"
  obtains (hira) h where "out = [ask_code ZENHIRAASSYUKU h]" "h \<noteq> 0" "h \<le> 16" "last_strcmp (euc_of_str ys @ 0 # r1) knj k = Some h"
  | (kata) h where "out = [ask_code ZENKATAASSYUKU h]" "h \<noteq> 0" "h \<le> 16" "last_strcmp (kata_str ys @ [0]) knj k = Some h"
  | (last) "cs = []" "out = code_of c"
  | (more) out' where "cs \<noteq> []" "out = code_of c @ out'" "drop (k + length c) knj = concat cs @ 0 # r"
      "cvt_loop (euc_of_str ys @ 0 # r1) (kata_str ys @ [0]) knj (k + length c) = Some out'"
proof -
  obtain h where h: "last_strcmp (euc_of_str ys @ 0 # r1) knj k = Some h"
    using assms(4) by (subst (asm) cvt_loop.simps) (auto split: bind_splits)
  show thesis
  proof (cases "h = 0")
    case False
    then have "out = [ask_code ZENHIRAASSYUKU h]" using assms(4) h by (subst (asm) cvt_loop.simps) simp
    then show thesis using hira False h last_strcmp_suffix(2) [OF h False reading_high(1) [OF assms(1)] assms(2,3)] by blast
  next
    case h0: True
    then obtain t where t: "last_strcmp (kata_str ys @ [0]) knj k = Some t"
      using assms(4) h by (subst (asm) cvt_loop.simps) (auto split: bind_splits)
    show thesis
    proof (cases "t = 0")
      case False
      then have "out = [ask_code ZENKATAASSYUKU t]" using assms(4) h h0 t by (subst (asm) cvt_loop.simps) simp
      then show thesis using kata False t last_strcmp_suffix(2) [OF t False reading_high(2) [OF assms(1)] assms(2,3)] by blast
    next
      case True
      have c: "euc_char c" using assms(2) by simp
      let ?e = "case cs of [] \<Rightarrow> 0 | c' # _ \<Rightarrow> hd c'"
      have "\<exists>q. concat cs @ 0 # r = ?e # q"
      proof (cases cs)
        case (Cons c' cs')
        then have "c' = hd c' # tl c'" using assms(2) euc_char_0 [of c'] by simp
        then show ?thesis using Cons by (metis append_Cons append_assoc concat.simps(2) list.simps(5))
      qed simp
      then obtain q where "drop k knj = c @ ?e # q" using assms(3) by auto
      from cvt_plain [OF c this] obtain x where x: "rd knj k = Some x" "rd knj (k + length c) = Some ?e"
        "(if x = SS2 then do { y \<leftarrow> rd knj (k + 1); Some ([LEADINGHANKAKU, y], k + 2) }
          else if x = SS3 then do {
            y \<leftarrow> rd knj (k + 1); z \<leftarrow> rd knj (k + 2); Some ([y AND NORMALKANJIMASK, z], k + 3) }
          else if x AND 0x80 \<noteq> 0 then do {
            y \<leftarrow> rd knj (k + 1); Some ([x AND NORMALKANJIMASK, y AND NORMALKANJIMASK], k + 2) }
          else Some ([LEADINGHANKAKU, x], k + 1)) = Some (code_of c, k + length c)" by blast
      have step: "Some out = (if ?e = 0 then Some (code_of c)
          else do { r \<leftarrow> cvt_loop (euc_of_str ys @ 0 # r1) (kata_str ys @ [0]) knj (k + length c); Some (code_of c @ r) })"
        using assms(4) h h0 t True x by (subst (asm) cvt_loop.simps) (simp only: Option.bind.simps if_True simp_thms split, simp)
      show thesis
      proof (cases cs)
        case Nil
        then show thesis using last step by simp
      next
        case (Cons c' cs')
        then have "?e \<noteq> 0" using assms(2) euc_char_0 [of c'] by (cases c') auto
        with step obtain out' where o: "cvt_loop (euc_of_str ys @ 0 # r1) (kata_str ys @ [0]) knj (k + length c) = Some out'"
          "out = code_of c @ out'" by (auto split: bind_splits)
        have "drop (k + length c) knj = concat cs @ 0 # r"
          using arg_cong [OF assms(3), of "drop (length c)"] by (simp add: add.commute)
        then show thesis using more o Cons by blast
      qed
    qed
  qed
qed

lemma cvt_loop_read:
  assumes "list_all yomi_code ys" "list_all euc_char cs" "cs \<noteq> []" "drop k knj = concat cs @ 0 # r"
    "cvt_loop (euc_of_str ys @ 0 # r1) (kata_str ys @ [0]) knj k = Some out"
  shows "(\<exists>c t. out = c # t \<and> c \<noteq> 0) \<and> (\<forall>s r2. drop s d = out @ 0 # r2 \<longrightarrow>
    code2kanji d ask (euc_of_str ys @ 0 # r1) (length ys) True s = Some (concat cs))"
  using assms(2-5)
proof (induction cs arbitrary: k out)
  case (Cons c cs)
  note cs = Cons.prems(1) Cons.prems(3)
  have c: "euc_char c" using Cons.prems(1) by simp
  obtain a b where code: "code_of c = [a, b]" "a \<noteq> 0" using code_of_head [OF c] by blast
  from assms(1) Cons.prems(1,3,4) show ?case
  proof (cases rule: cvt_loop_step)
    case (hira h)
    then show ?thesis using cvt_loop_last(1) [OF assms(1) cs hira(4,2)] ask_code_facts(4) [of h ZENHIRAASSYUKU] by simp
  next
    case (kata h)
    then show ?thesis using cvt_loop_last(2) [OF assms(1) cs kata(4,2)] ask_code_facts(4) [of h ZENKATAASSYUKU] by simp
  next
    case last
    then show ?thesis using code plain_expand [OF c] by simp
  next
    case (more out')
    from Cons.IH [OF _ more(1,3,4)] Cons.prems(1) have
      ih: "\<exists>c t. out' = c # t \<and> c \<noteq> 0" "\<And>s r2. drop s d = out' @ 0 # r2 \<Longrightarrow>
        code2kanji d ask (euc_of_str ys @ 0 # r1) (length ys) True s = Some (concat cs)" by auto
    then obtain e' q' where q': "out' = e' # q'" "e' \<noteq> 0" by blast
    have "code2kanji d ask (euc_of_str ys @ 0 # r1) (length ys) True s = Some (concat (c # cs))"
      if s: "drop s d = out @ 0 # r2" for s r2
    proof -
      have "drop s d = code_of c @ e' # (q' @ 0 # r2)" using s more(2) q' by simp
      note st = plain_expand [OF c this]
      have "drop (s + 2) d = out' @ 0 # r2"
        using arg_cong [OF s, of "drop 2"] more(2) code by (simp add: add.commute)
      then show ?thesis using st q'(2) ih(2) by simp
    qed
    then show ?thesis using more(2) code by simp
  qed
qed simp

lemma euc_aligned:
  assumes "list_all euc_char cs" "2 * n \<le> length (concat cs)" "\<forall>c \<in> set (take (2 * n) (concat cs)). high c"
  shows "drop (2 * n) (concat cs) = concat (drop n cs)"
  using assms
proof (induction n arbitrary: cs)
  case (Suc n)
  show ?case
  proof (cases cs)
    case (Cons c cs')
    from Suc.prems(1) Cons have "euc_char c" by simp
    then show ?thesis
    proof (cases rule: euc_char_cases)
      case (1 x)
      then show ?thesis using Suc.prems(3) Cons high_facts(4) [of x] by simp
    next
      case (2 x)
      then show ?thesis using Suc.prems(3) Cons by (simp add: high_def)
    next
      case (3 a b)
      then show ?thesis using Suc.IH [of cs'] Suc.prems Cons by simp
    next
      case (4 a b)
      then show ?thesis using Suc.prems(3) Cons by (simp add: high_def)
    qed
  qed (use Suc.prems in simp)
qed simp

lemma top_aligned:
  assumes "list_all euc_char cs" "\<forall>c \<in> set y. high c" "top_strcmp (y @ 0 # r) (concat cs @ 0 # r') = Some n"
  shows "concat cs = take (2 * n) y @ concat (drop n cs)" "n \<le> 16" "2 * n \<le> length y"
    "rd (concat cs @ 0 # r') (n * 2) = Some c \<Longrightarrow> c = 0 \<longleftrightarrow> concat (drop n cs) = []"
    "list_all euc_char (drop n cs)"
proof -
  note top = top_strcmp_prefix [OF not_0_high [OF assms(2)] assms(3)]
  have "\<forall>c \<in> set (take (2 * n) (concat cs)). high c" using top(4) assms(2) by (metis in_set_takeD)
  from euc_aligned [OF assms(1) top(3) this] have d: "drop (2 * n) (concat cs) = concat (drop n cs)" .
  then show "concat cs = take (2 * n) y @ concat (drop n cs)" using top(4) by (metis append_take_drop_id)
  show "n \<le> 16" "2 * n \<le> length y" using top by auto
  show "list_all euc_char (drop n cs)" using assms(1) by (meson in_set_dropD list_all_iff)
  assume c: "rd (concat cs @ 0 # r') (n * 2) = Some c"
  have "drop (2 * n) (concat cs @ 0 # r') = concat (drop n cs) @ 0 # r'" using d top(3) by simp
  then have "c = hd (concat (drop n cs) @ 0 # r')" using c by (auto simp: rd_Some_iff mult.commute hd_drop_conv_nth [symmetric])
  moreover have "0 \<notin> set (concat (drop n cs))" using euc_text_0 [OF assms(1)] d by (metis in_set_dropD)
  ultimately show "c = 0 \<longleftrightarrow> concat (drop n cs) = []" by (cases "concat (drop n cs)") auto
qed

lemma take_reading:
  assumes "list_all yomi_code ys" "n \<le> length ys"
  shows "get_bytes (euc_of_str ys @ r) 0 (n * 2) = Some (take (2 * n) (euc_of_str ys))"
    "kata_bytes (euc_of_str ys @ r) 0 n = Some (take (2 * n) (kata_str ys))"
proof -
  have len: "length (take (2 * n) (euc_of_str ys)) = n * 2" using reading_length(1) [OF assms(1)] assms(2) by simp
  have "drop 0 (euc_of_str ys @ r) = take (2 * n) (euc_of_str ys) @ drop (2 * n) (euc_of_str ys) @ r" by simp
  from get_bytes_drop [OF this] show "get_bytes (euc_of_str ys @ r) 0 (n * 2) = Some (take (2 * n) (euc_of_str ys))"
    by (simp only: len)
  have "list_all yomi_code (take n ys)" using assms(1) by (meson in_set_takeD list_all_iff)
  moreover have "drop 0 (euc_of_str ys @ r) = euc_of_str (take n ys) @ drop (2 * n) (euc_of_str ys) @ r"
    using reading_take(1) [OF assms(1), of n] by (metis append_take_drop_id append_assoc drop0)
  ultimately have "kata_bytes (euc_of_str ys @ r) 0 (length (take n ys)) = Some (kata_str (take n ys))"
    by (rule kata_bytes_reading)
  then show "kata_bytes (euc_of_str ys @ r) 0 n = Some (take (2 * n) (kata_str ys))"
    using assms(2) reading_take(2) [OF assms(1), of n] by simp
qed

text \<open>What \<^verbatim>\<open>cvtknj\<close> does behind the abbreviated beginning \<open>u\<close> of the text, and its expansion.\<close>

lemma cvt_rest:
  assumes ys: "list_all yomi_code ys" and cs: "list_all euc_char (drop n cs)" "c = 0 \<longleftrightarrow> concat (drop n cs) = []"
    and t: "t = u @ concat (drop n cs)" "length u = n * 2"
    and k: "Some k = (if c = 0 then Some tp
      else do { r \<leftarrow> cvt_loop (euc_of_str ys @ 0 # r1) (kata_str ys @ [0]) (t @ 0 # r2) (n * 2); Some (tp @ r) })"
    and d: "drop s d = k @ 0 # r"
  shows "(t = u \<and> k = tp) \<or> (\<exists>e q. e \<noteq> 0 \<and> k = tp @ e # q \<and>
    code2kanji d ask (euc_of_str ys @ 0 # r1) (length ys) True (s + length tp) = Some (concat (drop n cs)))"
proof (cases "c = 0")
  case True
  then show ?thesis using cs(2) t(1) k by simp
next
  case False
  with k obtain out where o: "cvt_loop (euc_of_str ys @ 0 # r1) (kata_str ys @ [0]) (t @ 0 # r2) (n * 2) = Some out" "k = tp @ out"
    by (auto split: bind_splits)
  have "drop n cs \<noteq> []" using False cs(2) by auto
  moreover have "drop (n * 2) (t @ 0 # r2) = concat (drop n cs) @ 0 # r2" unfolding t(1) using t(2) by simp
  ultimately have "\<exists>e q. out = e # q \<and> e \<noteq> 0" and "\<And>s r. drop s d = out @ 0 # r \<Longrightarrow>
      code2kanji d ask (euc_of_str ys @ 0 # r1) (length ys) True s = Some (concat (drop n cs))"
    using cvt_loop_read [OF ys cs(1) _ _ o(1)] by blast+
  moreover have "drop (s + length tp) d = out @ 0 # r"
    using arg_cong [OF d, of "drop (length tp)"] o(2) by (simp add: add.commute)
  ultimately show ?thesis using o(2) by blast
qed

lemma cvtknj_cases:
  assumes "cvtknj y knj = Some k" "yomi2kata y 0 = Some kana"
  obtains (hira) h c where "top_strcmp y knj = Some h" "h \<noteq> 0" "rd knj (h * 2) = Some c"
      "Some k = (if c = 0 then Some [ask_code ZENHIRAASSYUKU h]
        else do { r \<leftarrow> cvt_loop y kana knj (h * 2); Some ([ask_code ZENHIRAASSYUKU h] @ r) })"
    | (kata) g c where "top_strcmp kana knj = Some g" "g \<noteq> 0" "rd knj (g * 2) = Some c"
      "Some k = (if c = 0 then Some [ask_code ZENKATAASSYUKU g]
        else do { r \<leftarrow> cvt_loop y kana knj (g * 2); Some ([ask_code ZENKATAASSYUKU g] @ r) })"
    | (none) c where "rd knj 0 = Some c"
      "Some k = (if c = 0 then Some [] else do { r \<leftarrow> cvt_loop y kana knj 0; Some ([] @ r) })"
proof -
  obtain h where h: "top_strcmp y knj = Some h" using assms by (auto simp: cvtknj_def split: bind_splits if_splits)
  show ?thesis
  proof (cases "h = 0")
    case False
    then show ?thesis using assms h hira [OF h False] by (auto simp: cvtknj_def split: bind_splits if_splits)
  next
    case True
    then obtain g where g: "top_strcmp kana knj = Some g"
      using assms h by (auto simp: cvtknj_def split: bind_splits if_splits)
    show ?thesis using assms h True g kata [OF g] none by (cases "g = 0") (auto simp: cvtknj_def split: bind_splits if_splits)
  qed
qed

lemma kanji_back:
  assumes ys: "list_all yomi_code ys" and t: "euc_text t" "t \<noteq> []"
    and cvt: "cvtknj (euc_of_str ys @ 0 # r1) (t @ 0 # r2) = Some k"
    and whole: "\<And>n. n < length ys \<Longrightarrow> t \<noteq> take (2 * n) (euc_of_str ys) \<and> t \<noteq> take (2 * n) (kata_str ys)"
    and d: "drop s d = k @ 0 # r"
  shows "code2kanji d ask (euc_of_str ys @ 0 # r1) (length ys) True s = Some t"
proof -
  let ?y = "euc_of_str ys @ 0 # r1" and ?k = "kata_str ys @ [0]"
  obtain cs where cs: "t = concat cs" "list_all euc_char cs" using t(1) by (auto simp: euc_text_def)
  have kana: "yomi2kata ?y 0 = Some ?k" using ys by (intro yomi2kata_reading) simp_all
  have len: "length (euc_of_str ys) = 2 * length ys" "length (kata_str ys) = 2 * length ys" by (rule reading_length [OF ys])+
  from cvt kana show ?thesis
  proof (cases rule: cvtknj_cases)
    case (hira h c)
    note top = top_aligned [OF cs(2) reading_high(1) [OF ys] hira(1) [unfolded cs(1)]]
    have hl: "h \<le> length ys" using top(3) len by simp
    note ex = ask_expand(1) [of s d ZENHIRAASSYUKU h _ _ ask ?y "length ys" True] take_reading(1) [OF ys hl]
    have c0: "c = 0 \<longleftrightarrow> concat (drop h cs) = []" using top(4) hira(3) cs(1) by simp
    have t': "t = take (2 * h) (euc_of_str ys) @ concat (drop h cs)" using top(1) cs(1) by simp
    have u: "length (take (2 * h) (euc_of_str ys)) = h * 2" using hl len by simp
    from cvt_rest [OF ys top(5) c0 t' u hira(4) d, of ask] show ?thesis
    proof (elim disjE exE conjE)
      assume k: "t = take (2 * h) (euc_of_str ys)" "k = [ask_code ZENHIRAASSYUKU h]"
      then have "h = length ys" using whole [of h] hl by fastforce
      then show ?thesis using ex d k hira(2) top(2) by (simp add: ask_from_def)
    qed (use ex d hira(2) top(2) t' in \<open>simp_all add: ask_from_def\<close>)
  next
    case (kata h c)
    note top = top_aligned [OF cs(2) reading_high(2) [OF ys] kata(1) [unfolded cs(1)]]
    have hl: "h \<le> length ys" using top(3) len by simp
    note ex = ask_expand(2) [of s d ZENKATAASSYUKU h _ _ ask ?y "length ys" True] take_reading(2) [OF ys hl]
    have c0: "c = 0 \<longleftrightarrow> concat (drop h cs) = []" using top(4) kata(3) cs(1) by simp
    have t': "t = take (2 * h) (kata_str ys) @ concat (drop h cs)" using top(1) cs(1) by simp
    have u: "length (take (2 * h) (kata_str ys)) = h * 2" using hl len by simp
    from cvt_rest [OF ys top(5) c0 t' u kata(4) d, of ask] show ?thesis
    proof (elim disjE exE conjE)
      assume k: "t = take (2 * h) (kata_str ys)" "k = [ask_code ZENKATAASSYUKU h]"
      then have "h = length ys" using whole [of h] hl by fastforce
      then show ?thesis using ex d k kata(2) top(2) by (simp add: ask_from_def)
    qed (use ex d kata(2) top(2) t' in \<open>simp_all add: ask_from_def\<close>)
  next
    case (none c)
    obtain a t' where a: "t = a # t'" using t(2) by (cases t) auto
    then have "c = a" using none(1) by (simp add: rd_def)
    then have "c \<noteq> 0" using euc_text_0 [OF cs(2)] a cs(1) by (metis list.set_intros(1))
    then have c0: "c = 0 \<longleftrightarrow> concat (drop 0 cs) = []" using t(2) cs(1) by simp
    have t0: "t = [] @ concat (drop 0 cs)" "list_all euc_char (drop 0 cs)" "length ([] :: u8 list) = 0 * 2" using cs by simp_all
    have "Some k = (if c = 0 then Some [] else do { r \<leftarrow> cvt_loop ?y ?k (t @ 0 # r2) (0 * 2); Some ([] @ r) })"
      unfolding mult_zero_left by (rule none(2))
    from cvt_rest [OF ys t0(2) c0 t0(1,3) this d, of ask] t(2) cs(1) show ?thesis by auto
  qed
qed

text \<open>
  C32. A word is read back as it was registered: for every reading in dictionary codes and
  every text of EUC characters, expanding what \<^verbatim>\<open>cvtknj\<close> has written, wherever it stands
  in the segment, gives the text, provided that the text is not a proper beginning of the
  reading in hiragana or in katakana.
\<close>

theorem kanji_roundtrip:
  fixes ys t :: "u8 list"
  assumes "list_all yomi_code ys" "euc_text t" "t \<noteq> []"
    and "cvtknj (euc_of_str ys @ 0 # r1) (t @ 0 # r2) = Some k"
    and "\<forall>n < length ys. t \<noteq> take (2 * n) (euc_of_str ys) \<and> t \<noteq> take (2 * n) (kata_str ys)"
    and "drop s d = k @ 0 # r"
  shows "getkanji d ask (euc_of_str ys @ 0 # r1) (length ys) s = Some t"
  unfolding getkanji_def using assms by (intro kanji_back) auto

theorem kanji_roundtrip_witness:
  "getkanji [0, 7, 0x81, 0x30, 0x21, 0] [] (euc_of_str [0x58, 0x58] @ 0 # []) (length [0x58, 0x58 :: u8]) 2
    = Some [0xa4, 0xab, 0xa4, 0xab, 0xb0, 0xa1]"
proof (rule kanji_roundtrip)
  show "list_all yomi_code [0x58, 0x58]" by code_simp
  show "euc_text [0xa4, 0xab, 0xa4, 0xab, 0xb0, 0xa1]"
    unfolding euc_text_def
    by (rule exI [of _ "[[0xa4, 0xab], [0xa4, 0xab], [0xb0, 0xa1]]"]) (simp add: high_def)
  show "cvtknj (euc_of_str [0x58, 0x58] @ 0 # []) ([0xa4, 0xab, 0xa4, 0xab, 0xb0, 0xa1] @ 0 # []) = Some [0x81, 0x30, 0x21]"
    by code_simp
  show "\<forall>n < length [0x58, 0x58 :: u8]. [0xa4, 0xab, 0xa4, 0xab, 0xb0, 0xa1] \<noteq> take (2 * n) (euc_of_str [0x58, 0x58])
      \<and> [0xa4, 0xab, 0xa4, 0xab, 0xb0, 0xa1] \<noteq> take (2 * n) (kata_str [0x58, 0x58])"
    by (auto dest!: arg_cong [of _ _ length] simp: less_Suc_eq numeral_2_eq_2 reading_length)
  show "drop 2 [0, 7, 0x81, 0x30, 0x21, 0] = [0x81, 0x30, 0x21] @ 0 # []" by simp
qed simp

lemma top_count_eq:
  assumes "0 \<notin> set t" "drop i p = t @ a # r" "drop i q = t @ 0 # r'" "a \<noteq> 0"
  shows "top_count p q i = Some (i + length t)"
  using assms
proof (induction t arbitrary: i)
  case Nil
  then show ?case by (subst top_count.simps) (simp add: drop_rds)
next
  case (Cons c t)
  then show ?case using Cons.IH [of "Suc i"] by (subst top_count.simps) (simp add: drop_rds)
qed



end
