(* ===== verification/Sj_Insert_Laws.thy ===== *)
theory Sj_Insert_Laws
  imports Sj_Segment_Laws Sj_Adddic Sj_Kanji_Laws
begin

text \<open>
  Registering a word: what \<^verbatim>\<open>adddic\<close> does to the bytes of a segment (\<open>find_place\<close>,
  \<open>fits\<close>, \<open>make_gap\<close>, \<open>fill_gap\<close>) is an insertion into the abstract segment.
\<close>

section \<open>Insertion of a word\<close>

definition ins_class :: "u8 \<Rightarrow> u8 list \<Rightarrow> klass list \<Rightarrow> klass list" where
  "ins_class h k cs =
     (if h \<in> fst ` set cs then map (\<lambda>c. if fst c = h then (h, snd c @ [k]) else c) cs else cs @ [(h, [k])])"

definition ins_word :: "u8 list \<Rightarrow> u8 \<Rightarrow> u8 list \<Rightarrow> douon list \<Rightarrow> douon list" where
  "ins_word y h k bs = below y bs @
     (if found y bs then (y, ins_class h k (snd (hd (above y bs)))) # tl (above y bs)
      else (y, [(h, [k])]) # above y bs)"

text \<open>The kanji strings of a class of a reading.\<close>

definition words :: "u8 list \<Rightarrow> u8 \<Rightarrow> douon list \<Rightarrow> u8 list set" where
  "words y h bs = {k. \<exists>cs ks. (y, cs) \<in> set bs \<and> (h, ks) \<in> set cs \<and> k \<in> set ks}"

lemma blk_size_mono: "q < y \<Longrightarrow> y < fst b \<Longrightarrow> blk_size y b + (lcp y (fst b) - lcp q (fst b)) = blk_size q b \<and> lcp q (fst b) \<le> lcp y (fst b)"
proof -
  assume a: "q < y" "y < fst b"
  have "\<not> lcp q y < lcp q (fst b)" using lcp_between [OF a(1)] a(2) by fastforce
  then have "lcp q (fst b) \<le> lcp q y" by simp
  then obtain t u v where t: "fst b = t @ v" "y = t @ u" "length t = lcp q (fst b)" by (rule lcp_common)
  then have "lcp q (fst b) \<le> lcp y (fst b)" by (simp add: lcp_append)
  then show ?thesis using lcp_le(2) [of y "fst b"] by (simp add: blk_size_def)
qed

lemma ins_class_ok:
  assumes "list_all class_ok cs" "distinct (map fst cs)" "kstr k" "\<And>ks. (h, ks) \<in> set cs \<Longrightarrow> k \<notin> set ks"
  shows "list_all class_ok (ins_class h k cs)" "distinct (map fst (ins_class h k cs))" "ins_class h k cs \<noteq> []"
proof -
  show "list_all class_ok (ins_class h k cs)"
  proof (cases "h \<in> fst ` set cs")
    case True
    have "class_ok (h, snd c @ [k])" if "c \<in> set cs" "fst c = h" for c
    proof -
      have "k \<notin> set (snd c)" using assms(4) [of "snd c"] that by (metis prod.collapse)
      then show ?thesis using assms(1,3) that by (auto simp: class_ok_def list_all_iff)
    qed
    then show ?thesis using True assms(1) by (auto simp: ins_class_def list_all_iff)
  qed (use assms in \<open>simp add: ins_class_def class_ok_def\<close>)
  have "map fst (map (\<lambda>c. if fst c = h then (h, snd c @ [k]) else c) cs) = map fst cs" by (induction cs) auto
  then show "distinct (map fst (ins_class h k cs))" using assms(2) by (simp add: ins_class_def del: map_map)
  show "ins_class h k cs \<noteq> []" by (auto simp: ins_class_def)
qed

lemma ins_word_ok:
  assumes "seg_ok bs" "y \<noteq> []" "length y \<le> 31" "0 \<notin> set y" "kstr k" "k \<notin> words y h bs" "sizes_ok [] (ins_word y h k bs)"
  shows "seg_ok (ins_word y h k bs)"
proof -
  let ?q = "last_yomi [] (below y bs)"
  have y: "[] < y" using assms(2) by (cases y) simp_all
  note lo = seg_from_below [OF assms(1) [unfolded seg_ok_from] y]
  have size: "sizes_ok prev (as @ cs) \<longleftrightarrow> sizes_ok prev as \<and> sizes_ok (last_yomi prev as) cs" for prev as cs
    by (induction as arbitrary: prev) simp_all
  show ?thesis
  proof (cases rule: above_cases [of y bs])
    case none
    then have "ins_word y h k bs = below y bs @ [(y, [(h, [k])])]" by (simp add: ins_word_def)
    then show ?thesis using lo assms by (simp add: seg_ok_from seg_from_append seg_from_Cons size blk_ok_def class_ok_def)
  next
    case (same cs hi)
    then have i: "ins_word y h k bs = below y bs @ (y, ins_class h k cs) # hi" by (simp add: ins_word_def)
    have b: "blk_ok (y, cs)" "seg_from y hi" using lo(3) same by (simp_all add: seg_from_Cons)
    have "(y, cs) \<in> set bs" using same by (metis below_above in_set_conv_decomp)
    then have "\<And>ks. (h, ks) \<in> set cs \<Longrightarrow> k \<notin> set ks" using assms(6) by (auto simp: words_def)
    then have "blk_ok (y, ins_class h k cs)" using b(1) assms(5) ins_class_ok [of cs k h] by (simp add: blk_ok_def)
    then show ?thesis using lo b assms(7) unfolding i by (simp add: seg_ok_from seg_from_append seg_from_Cons size)
  next
    case (more b hi)
    then have i: "ins_word y h k bs = below y bs @ (y, [(h, [k])]) # b # hi" by (simp add: ins_word_def)
    show ?thesis using lo assms more unfolding i by (simp add: seg_ok_from seg_from_append seg_from_Cons size blk_ok_def class_ok_def)
  qed
qed

section \<open>The free space\<close>

lemma seg_used_eq:
  "seg_at d sl p prev bs \<Longrightarrow> seg_from prev bs \<Longrightarrow> seg_used d sl p = Some (p + length (enc_blks prev bs))"
proof (induction bs arbitrary: p prev)
  case Nil
  then show ?case by (subst seg_used.simps) (simp add: seg_at_end)
next
  case (Cons b bs)
  then have ok: "blk_ok b" "blk_size prev b \<le> 0xfff" "seg_from (fst b) bs" by (simp_all add: seg_from_Cons)
  note s = seg_at_Cons [OF Cons.prems(1) blk_okD(1) [OF ok(1)] ok(2)]
  show ?case using Cons.IH [OF s(6) ok(3)] s(1,2) by (subst seg_used.simps) (simp add: add.assoc)
qed

lemma usr_freelen_eq:
  assumes "seg_fits sl bs F r" "seg_ok bs"
  shows "usr_freelen (seg_bytes bs F r) sl = Some (int sl - int (Suc (length (enc_blks [] bs))))"
  using seg_used_eq [OF seg_at_top(1) [OF assms(1)]] assms(2) seg_at_top(2) [OF assms(1)] by (simp add: usr_freelen_def seg_ok_from)

lemma common_eq:
  assumes "drop p d = v @ rv" "drop i y = u @ 0 # ru" "0 \<notin> set v"
  shows "common d p y i (length v) = Some (lcp u v)"
  using assms
proof (induction v arbitrary: p i u)
  case (Cons b v)
  have b: "rd d p = Some b" "drop (Suc p) d = v @ rv" "b \<noteq> 0" using Cons.prems by (auto dest: drop_rds)
  show ?case
  proof (cases u)
    case Nil
    then show ?thesis using b Cons.prems(2) by (auto dest: drop_rds)
  next
    case (Cons a u')
    then have a: "rd y i = Some a" "drop (Suc i) y = u' @ 0 # ru" using Cons.prems(2) by (auto dest: drop_rds)
    then have "common d (Suc p) y (Suc i) (length v) = Some (lcp u' v)" using Cons.IH [OF b(2) a(2)] Cons.prems(3) by simp
    then show ?thesis using a b Cons by auto
  qed
qed simp

lemma cal_nextym_eq:
  assumes "seg_at d sl p q (b # bs)" "blk_ok b" "blk_size q b \<le> 0xfff" "q < y" "y < fst b"
  shows "cal_nextym d sl (y @ 0 # ry) p = Some (lcp y (fst b) - lcp q (fst b))"
proof -
  note s = seg_at_Cons [OF assms(1) blk_okD(1) [OF assms(2)] assms(3)]
  have "\<not> lcp q y < lcp q (fst b)" using lcp_between [OF assms(4)] assms(5) by fastforce
  then have "lcp q (fst b) \<le> lcp q y" by simp
  then obtain t u v where t: "fst b = t @ v" "y = t @ u" "length t = lcp q (fst b)" by (rule lcp_common)
  have nlen: "length (fst b) - lcp q (fst b) = length v" unfolding t(3) [symmetric] by (simp add: t(1))
  obtain rest where "drop (p + 3) d = drop (length t) (fst b) @ enc_classes (snd b) @ rest" using s(7) unfolding t(3) by blast
  then have d: "drop (p + 3) d = v @ enc_classes (snd b) @ rest" by (simp add: t(1))
  have y: "drop (length t) (y @ 0 # ry) = u @ 0 # ry" by (simp add: t(2))
  have "0 \<notin> set v" using blk_okD(3) [OF assms(2)] t(1) by simp
  from common_eq [OF d y this] have "cal_nextym d sl (y @ 0 # ry) p = Some (lcp u v)"
    unfolding cal_nextym_def s(1,4,5) nlen t(3) by simp
  moreover have "lcp y (fst b) = lcp q (fst b) + lcp u v" unfolding t(3) [symmetric] unfolding t(1,2) lcp_append ..
  ultimately show ?thesis by simp
qed

lemma cal_nextym_end: "seg_at d sl p q [] \<Longrightarrow> cal_nextym d sl y p = Some 0"
  by (simp add: cal_nextym_def seg_at_end)

section \<open>The place of a word\<close>

text \<open>Has the class a kanji string that \<open>k\<close> begins?\<close>

definition taken :: "u8 list \<Rightarrow> u8 \<Rightarrow> u8 list \<Rightarrow> douon list \<Rightarrow> bool" where
  "taken y h k bs \<longleftrightarrow> (\<exists>k' \<in> words y h bs. take (length k) k' = k)"

definition word_ok :: "u8 list \<Rightarrow> u8 list \<Rightarrow> bool" where
  "word_ok y k \<longleftrightarrow> y \<noteq> [] \<and> length y \<le> MAXWDYOMILEN \<and> 0 \<notin> set y \<and> kstr k"

lemma words_found:
  assumes "seg_ok bs" "above y bs = (y, cs) # hi"
  shows "words y h bs = {k. \<exists>ks. (h, ks) \<in> set cs \<and> k \<in> set ks}"
proof -
  have "distinct (map fst bs)" using assms(1) by (simp add: seg_ok_def strict_sorted_iff)
  moreover have "(y, cs) \<in> set bs" using assms(2) by (metis below_above in_set_conv_decomp)
  ultimately have "(y, cs') \<in> set bs \<longleftrightarrow> cs' = cs" for cs' by (metis eq_key_imp_eq_value)
  then show ?thesis by (auto simp: words_def)
qed

lemma words_not_found: "seg_ok bs \<Longrightarrow> \<not> found y bs \<Longrightarrow> words y h bs = {}"
  using found_iff [of bs y] by (force simp: words_def)

lemma find_place_new:
  assumes "seg_fits sl bs F r" "seg_ok bs" "word_ok y k" "\<not> found y bs"
  defines "q \<equiv> last_yomi [] (below y bs)"
  defines "p \<equiv> Suc (length (enc_blks [] (below y bs)))"
  shows "find_place (seg_bytes bs F r) sl (y @ 0 # ry) (length y) h k seg w = Some (Some
    \<lparr>f_seg = seg, f_w = w, f_dou = p, f_dst = p, f_saml = lcp q y, f_yomi = False, f_hinsi = False,
     f_nxt = (case above y bs of [] \<Rightarrow> 0 | b # hi \<Rightarrow> lcp y (fst b) - lcp q (fst b)),
     f_new = to_ushort (blk_size q (y, [(h, [k])])), f_old = 0\<rparr>)"
proof -
  have y: "[] < y" "y \<noteq> []" "length y \<le> 31" "0 \<notin> set y" "k \<noteq> []" using assms(3) by (auto simp: word_ok_def kstr_def neq_Nil_conv)
  note f = seg_from_below(2,3) [OF assms(2) [unfolded seg_ok_from] y(1), folded q_def]
  note at = seg_at_place [OF assms(1), of y, folded p_def q_def]
  have nxt: "cal_nextym (seg_bytes bs F r) sl (y @ 0 # ry) p = Some (case above y bs of [] \<Rightarrow> 0 | b # hi \<Rightarrow> lcp y (fst b) - lcp q (fst b))"
  proof (cases rule: above_cases [of y bs])
    case none
    then show ?thesis using at cal_nextym_end by simp
  next
    case (more b hi)
    then show ?thesis using at f cal_nextym_eq [of _ sl p q b hi y ry] by (simp add: seg_from_Cons)
  qed (use assms(4) in simp)
  have "srchkana (y @ 0 # ry) (seg_bytes bs F r) sl None = Some (0, p, lcp q y)"
    using srchkana_eq [OF assms(1,2) y(2-4), of ry] assms(4) unfolding p_def q_def by simp
  then show ?thesis using nxt y(5) unfolding find_place_def
    by (simp add: blk_size_def enc_class_def Let_def lcp_comm)
qed

lemma find_place_found:
  assumes "seg_fits sl bs F r" "seg_ok bs" "word_ok y k" "above y bs = (y, cs) # hi"
  defines "q \<equiv> last_yomi [] (below y bs)"
  defines "p \<equiv> Suc (length (enc_blks [] (below y bs)))"
  defines "t \<equiv> p + 3 + (length y - lcp q y)"
  shows "h \<notin> fst ` set cs \<Longrightarrow> find_place (seg_bytes bs F r) sl (y @ 0 # ry) (length y) h k seg w = Some (Some
    \<lparr>f_seg = seg, f_w = w, f_dou = p, f_dst = t + length (enc_classes cs), f_saml = length y, f_yomi = True, f_hinsi = False,
     f_nxt = 0, f_new = to_ushort (blk_size q (y, cs) + 2 + (length k + 1)), f_old = blk_size q (y, cs)\<rparr>)"
    "cs = X @ (h, ks) # Y \<Longrightarrow> find_place (seg_bytes bs F r) sl (y @ 0 # ry) (length y) h k seg w = Some
      (if \<exists>k' \<in> set ks. take (length k) k' = k then None else Some
    \<lparr>f_seg = seg, f_w = w, f_dou = p, f_dst = t + length (enc_classes X) + 1 + length (enc_strs ks), f_saml = length y,
     f_yomi = True, f_hinsi = True, f_nxt = 0, f_new = to_ushort (blk_size q (y, cs) + (length k + 1)), f_old = blk_size q (y, cs)\<rparr>)"
proof -
  let ?d = "seg_bytes bs F r"
  have y: "y \<noteq> []" "length y \<le> 31" "0 \<notin> set y" "k \<noteq> []" "codes_ok k" using assms(3) by (auto simp: word_ok_def kstr_def)
  note b = found_block [OF assms(1,2,4) y(1), folded p_def q_def]
  obtain rest where rest: "drop t ?d = enc_classes cs @ rest" using b(5) unfolding t_def by blast
  have cs: "list_all class_ok cs" "distinct (map fst cs)" using b(6) by (simp_all add: blk_ok_def)
  have gram: "srchgram ?d p h = Some (if h \<in> fst ` set cs then (length cs, t + class_pos h cs) else (0, t + length (enc_classes cs)))"
    using srchgram_eq [OF b(2,4) rest [unfolded t_def] cs] unfolding t_def .
  have "found y bs" using assms(4) by (simp add: found_def)
  then have kana: "srchkana (y @ 0 # ry) ?d sl None = Some (length bs, p, length y)"
    using srchkana_eq [OF assms(1,2) y(1-3), of ry] unfolding p_def q_def by simp
  have bs: "bs \<noteq> []" using assms(4) by (auto simp: above_def)
  note find = find_place_def kana gram b(1)
  show "find_place ?d sl (y @ 0 # ry) (length y) h k seg w = Some (Some
    \<lparr>f_seg = seg, f_w = w, f_dou = p, f_dst = t + length (enc_classes cs), f_saml = length y, f_yomi = True, f_hinsi = False,
     f_nxt = 0, f_new = to_ushort (blk_size q (y, cs) + 2 + (length k + 1)), f_old = blk_size q (y, cs)\<rparr>)" if "h \<notin> fst ` set cs"
    using that y(4) bs by (simp add: find Let_def)
  show "find_place ?d sl (y @ 0 # ry) (length y) h k seg w = Some
      (if \<exists>k' \<in> set ks. take (length k) k' = k then None else Some
    \<lparr>f_seg = seg, f_w = w, f_dou = p, f_dst = t + length (enc_classes X) + 1 + length (enc_strs ks), f_saml = length y,
     f_yomi = True, f_hinsi = True, f_nxt = 0, f_new = to_ushort (blk_size q (y, cs) + (length k + 1)), f_old = blk_size q (y, cs)\<rparr>)"
    if cX: "cs = X @ (h, ks) # Y"
  proof -
    have pos: "class_pos h cs = length (enc_classes X)"
    proof -
      have "h \<notin> fst ` set X" using cs(2) cX by auto
      then have "takeWhile (\<lambda>c. fst c \<noteq> h) cs = X" unfolding cX by (subst takeWhile_append2) auto
      then show ?thesis by (simp add: class_pos_def)
    qed
    have h: "h \<in> fst ` set cs" "length cs \<noteq> 0" using cX by auto
    have "drop t ?d = enc_classes X @ enc_class (h, ks) @ enc_classes Y @ rest" using rest cX by simp
    then have dk: "drop (t + length (enc_classes X)) ?d = enc_class (h, ks) @ enc_classes Y @ rest" by (rule drop_app)
    have ks: "list_all kstr ks" using cs(1) cX by (simp add: class_ok_def)
    note knj = srchkanji_eq [OF dk ks y(5)]
    have "drop (t + length (enc_classes X)) ?d = (h # enc_strs ks) @ 0xff # enc_classes Y @ rest" using dk by (simp add: enc_class_def)
    from drop_app [OF this] have "drop (t + length (enc_classes X) + 1 + length (enc_strs ks)) ?d = 0xff # enc_classes Y @ rest" by (simp add: add.assoc)
    from drop_eq_Cons_rd [OF this] have rend: "rd ?d (t + length (enc_classes X) + 1 + length (enc_strs ks)) = Some 0xff" ..
    show ?thesis
    proof (cases "\<exists>k' \<in> set ks. take (length k) k' = k")
      case True
      then obtain ls k' ms where l: "ks = ls @ k' # ms" "take (length k) k' = k"
        "str_pos k ks (t + length (enc_classes X) + 1) None = Some (t + length (enc_classes X) + 1 + length (enc_strs ls))"
        using str_pos_Some by blast
      obtain c k'' where c: "k' = c # k''" "c \<noteq> 0xff" using ks l(1) by (cases k') (auto simp: kstr_def)
      have "drop (t + length (enc_classes X)) ?d = (h # enc_strs ls) @ c # k'' @ 0 # enc_strs ms @ 0xff # enc_classes Y @ rest"
        using dk l(1) c(1) by (simp add: enc_class_def)
      from drop_app [OF this] have "drop (t + length (enc_classes X) + 1 + length (enc_strs ls)) ?d = c # k'' @ 0 # enc_strs ms @ 0xff # enc_classes Y @ rest" by (simp add: add.assoc)
      from drop_eq_Cons_rd [OF this] have "rd ?d (t + length (enc_classes X) + 1 + length (enc_strs ls)) = Some c" ..
      then show ?thesis using True h bs c(2) l(3) by (simp add: find pos knj)
    next
      case False
      then have "str_pos k ks (t + length (enc_classes X) + 1) None = None" by (intro str_pos_None) (simp add: list_all_iff)
      then show ?thesis using False h bs rend y(4) by (simp add: find pos knj Let_def)
    qed
  qed
qed

section \<open>The bytes of an insertion\<close>

lemma gap:
  assumes "length J = n" "sl = length (A @ C @ J)" "dst = length A"
  shows "\<exists>J'. length J' = n \<and> mvmemd (A @ C @ J @ r) (sl - n) sl (nat (int sl - int dst - int n)) = Some (A @ J' @ C @ r)"
proof -
  have "mvmemd (A @ C @ J @ r) (length (A @ C)) (length (A @ C) + length J) (length C) = Some (A @ take (length J) (C @ J) @ C @ r)"
    by (rule mvmemd_gap) simp_all
  moreover have "sl - n = length (A @ C)" "sl = length (A @ C) + length J" "nat (int sl - int dst - int n) = length C"
    using assms by simp_all
  ultimately show ?thesis using assms(1) by (intro exI [of _ "take (length J) (C @ J)"]) simp
qed

text \<open>A word of a reading that is there: bytes \<open>v\<close> are put between two parts of the block.\<close>

lemma grow_block:
  assumes "d = P @ hdr n p m @ X @ Y @ Z @ R" "n \<le> 0xfff" "p < 32" "m < 32" "length Z = length v"
    and "sl = length (P @ hdr n p m @ X @ Y @ Z)" "f_yomi f" "f_nxt f = 0" "f_dou f = length P" "f_dst f = length P + 3 + length X"
    and "f_new f = n + length v" "f_old f = n" "k \<noteq> []"
    and "v = (if f_hinsi f then [] else [h]) @ k @ [KANJISTREND] @ (if f_hinsi f then [] else [HINSIBLKTERM])"
  shows "\<exists>d'. make_gap d sl f = Some d' \<and>
    fill_gap d' f y len h k = Some (P @ hdr (n + length v) p m @ X @ v @ Y @ R, f_dst f + (if f_hinsi f then 0 else 1))"
proof -
  let ?A = "P @ hdr n p m @ X"
  obtain J where J: "length J = length v"
    "mvmemd (?A @ Y @ Z @ R) (sl - length v) sl (nat (int sl - int (length P + 3 + length X) - int (length v))) = Some (?A @ J @ Y @ R)"
    using gap [of Z "length v" sl ?A Y "length P + 3 + length X" R] assms(5,6) by auto
  have "make_gap d sl f = Some (?A @ J @ Y @ R)"
    using J(2) assms(1,8,10-12) by (simp add: make_gap_def trim_next_def)
  moreover have "fill_gap (P @ hdr n p m @ X @ J @ Y @ R) f y len h k = Some (P @ hdr (n + length v) p m @ X @ v @ Y @ R, f_dst f + (if f_hinsi f then 0 else 1))"
  proof -
    have s: "set_size (P @ hdr n p m @ X @ J @ Y @ R) (length P) (n + length v) p m = Some (P @ hdr (n + length v) p m @ X @ J @ Y @ R)"
      by (rule set_size_hdr) simp
    have w: "put_bytes ((P @ hdr (n + length v) p m @ X) @ J @ (Y @ R)) (length (P @ hdr (n + length v) p m @ X)) v
        = Some ((P @ hdr (n + length v) p m @ X) @ v @ (Y @ R))"
      using J(1) by (rule put_bytes_app)
    have v: "(if f_hinsi f then [] else [h]) @ k @ (if k \<noteq> [] then [KANJISTREND] else []) @ (if f_hinsi f then [] else [HINSIBLKTERM]) = v"
      using assms(13,14) by simp
    have l: "length P + 3 + length X = length (P @ hdr (n + length v) p m @ X)" by simp
    have w': "put_bytes (P @ hdr (n + length v) p m @ X @ J @ Y @ R) (length P + 3 + length X) v = Some (P @ hdr (n + length v) p m @ X @ v @ Y @ R)"
      using w unfolding l by simp
    show ?thesis unfolding fill_gap_def v assms(9-11)
      using s w' assms(7) hdr_reads [OF assms(2-4), of P "X @ J @ Y @ R"] by simp
  qed
  ultimately show ?thesis by simp
qed

text \<open>A new reading; the block behind gives up the codes \<open>T\<close>.\<close>

lemma trim_block:
  assumes "d = P @ hdr n p m @ T @ V @ Z @ R" "n \<le> 0xfff" "p < 32" "m < 32" "T \<noteq> []"
    and "sl = length (P @ hdr n p m @ T @ V @ Z)" "f_nxt f = length T" "f_dou f = length P"
  shows "\<exists>J. length J = length T \<and>
    trim_next d sl f = Some (P @ (hdr (n - length T) (p + length T) (m - length T) @ V) @ (Z @ J) @ R)"
proof -
  let ?H = "hdr (n - length T) (p + length T) (m - length T)"
  have s: "set_size (P @ hdr n p m @ T @ V @ Z @ R) (length P) (n - length T) (p + length T) (m - length T) = Some (P @ ?H @ T @ V @ Z @ R)"
    by (rule set_size_hdr) simp
  have g: "mvmemi ((P @ ?H) @ T @ (V @ Z) @ R) (length P + 3 + length T) (length P + 3) (length (V @ Z))
      = Some ((P @ ?H) @ (V @ Z) @ drop (length (V @ Z)) (T @ V @ Z) @ R)"
    by (rule mvmemi_gap) simp_all
  have e: "nat (int sl - int (length P + 3 + length T)) = length (V @ Z)" unfolding assms(6) by simp
  have m: "mvmemi (P @ ?H @ T @ V @ Z @ R) (length P + 3 + length T) (length P + 3) (nat (int sl - int (length P + 3 + length T)))
      = Some (P @ ?H @ V @ Z @ drop (length (V @ Z)) (T @ V @ Z) @ R)" using g unfolding e append_assoc .
  have nz: "length T \<noteq> 0" using assms(5) by simp
  have "trim_next d sl f = Some (P @ ?H @ V @ Z @ drop (length (V @ Z)) (T @ V @ Z) @ R)"
    unfolding trim_next_def assms(1,7,8) if_not_P [OF nz] hdr_reads(1-3) [OF assms(2-4)] Option.bind.simps s Let_def m ..
  moreover have "length (drop (length (V @ Z)) (T @ V @ Z)) = length T" by simp
  ultimately show ?thesis unfolding append_assoc by blast
qed

lemma new_block:
  assumes "trim_next d sl f = Some (P @ C @ J @ R)" "length J = n" "sl = length (P @ C @ J)" "f_dst f = length P"
    and "f_new f = n" "f_old f = 0" "\<not> f_yomi f" "\<not> f_hinsi f" "f_saml f = s" "s \<le> length y" "k \<noteq> []"
    and "n = 3 + (length y - s) + length k + 3"
  shows "\<exists>d'. make_gap d sl f = Some d' \<and>
    fill_gap d' f (y @ 0 # ry) (length y) h k =
      Some (P @ (hdr n s (length y - s) @ drop s y @ enc_class (h, [k])) @ C @ R, length P + 3 + (length y - s) + 1)"
proof -
  obtain J' where J: "length J' = n" "mvmemd (P @ C @ J @ R) (sl - n) sl (nat (int sl - int (length P) - int n)) = Some (P @ J' @ C @ R)"
    using gap [OF assms(2,3) refl] by blast
  have g: "make_gap d sl f = Some (P @ J' @ C @ R)"
    using J(2) assms(1,4-6) by (simp add: make_gap_def)
  define a b c where "a = take 3 J'" and "b = take (length y - s) (drop 3 J')" and "c = drop (length y - s) (drop 3 J')"
  have J': "J' = a @ b @ c" unfolding a_def b_def c_def by (simp only: append_take_drop_id)
  have len: "length a = 3" "length b = length (drop s y)" "length c = length (enc_class (h, [k]))"
    using J(1) assms(12) by (simp_all add: a_def b_def c_def enc_class_def)
  let ?H = "hdr n s (length y - s)"
  have s: "set_size (P @ a @ b @ c @ C @ R) (length P) n s (length y - s) = Some (P @ ?H @ b @ c @ C @ R)"
    by (rule set_size_hdr) (rule len)
  have r: "get_bytes (y @ 0 # ry) s (length y - s) = Some (drop s y)"
    using get_bytes_drop [of s "y @ 0 # ry" "drop s y" "0 # ry"] assms(10) by simp
  have "put_bytes ((P @ ?H) @ b @ (c @ C @ R)) (length (P @ ?H)) (drop s y) = Some ((P @ ?H) @ drop s y @ (c @ C @ R))"
    by (rule put_bytes_app) (rule len)
  moreover have "length (P @ ?H) = length P + 3" by simp
  ultimately have p1: "put_bytes (P @ ?H @ b @ c @ C @ R) (length P + 3) (drop s y) = Some (P @ ?H @ drop s y @ c @ C @ R)"
    by (metis append_assoc)
  have "put_bytes ((P @ ?H @ drop s y) @ c @ (C @ R)) (length (P @ ?H @ drop s y)) (enc_class (h, [k]))
      = Some ((P @ ?H @ drop s y) @ enc_class (h, [k]) @ (C @ R))"
    by (rule put_bytes_app) (rule len)
  moreover have "length (P @ ?H @ drop s y) = length P + 3 + (length y - s)" by simp
  ultimately have p2: "put_bytes (P @ ?H @ drop s y @ c @ C @ R) (length P + 3 + (length y - s)) (enc_class (h, [k]))
      = Some (P @ ?H @ drop s y @ enc_class (h, [k]) @ C @ R)" by (metis append_assoc)
  have v: "[h] @ k @ (if k \<noteq> [] then [KANJISTREND] else []) @ [HINSIBLKTERM] = enc_class (h, [k])" using assms(11) by (simp add: enc_class_def)
  have "fill_gap (P @ J' @ C @ R) f (y @ 0 # ry) (length y) h k =
      Some (P @ ?H @ drop s y @ enc_class (h, [k]) @ C @ R, length P + 3 + (length y - s) + 1)"
    unfolding fill_gap_def J' append_assoc assms(4,5,9) if_not_P [OF assms(7)] if_not_P [OF assms(8)] v s r Option.bind.simps p1 Let_def length_drop p2 prod.case ..
  with g show ?thesis by simp
qed

lemma trim_any:
  assumes "d = P @ hdr n p m @ T @ V @ Z @ R" "n \<le> 0xfff" "p < 32" "m < 32"
    and "sl = length (P @ hdr n p m @ T @ V @ Z)" "f_nxt f = length T" "f_dou f = length P"
  shows "\<exists>J. length J = length T \<and>
    trim_next d sl f = Some (P @ (hdr (n - length T) (p + length T) (m - length T) @ V) @ (Z @ J) @ R)"
proof (cases "T = []")
  case True
  then show ?thesis using assms(1,6) by (simp add: trim_next_def)
next
  case False
  then show ?thesis using trim_block [OF assms(1-4) False assms(5-7)] by blast
qed

definition inserted :: "nat \<Rightarrow> douon list \<Rightarrow> u8 list \<Rightarrow> u8 list \<Rightarrow> u8 list \<Rightarrow> u8 \<Rightarrow> u8 list \<Rightarrow> cbuf \<Rightarrow> fit \<Rightarrow> bool" where
  "inserted sl bs F r y h k ry f \<longleftrightarrow>
     fits (seg_bytes bs F r) sl f = Some (length (enc_blks [] (ins_word y h k bs)) < sl) \<and>
     (length (enc_blks [] (ins_word y h k bs)) < sl \<longrightarrow>
       (\<exists>d' d'' ofs s. make_gap (seg_bytes bs F r) sl f = Some d'
         \<and> fill_gap d' f (y @ 0 # ry) (length y) h k = Some (d'', ofs)
         \<and> seg_repr d'' sl (ins_word y h k bs) r \<and> drop ofs d'' = k @ KANJISTREND # s))"

lemma fits_eq:
  assumes "seg_fits sl bs F r" "seg_ok bs" "sl < 2 ^ 32" "f_new f = old + new" "f_old f = old" "f_nxt f \<le> new"
    and "E' = length (enc_blks [] bs) + (new - f_nxt f)" "new < 2 ^ 16"
  shows "fits (seg_bytes bs F r) sl f = Some (E' < sl)"
proof -
  have l: "length (enc_blks [] bs) < sl" using assms(1) by (auto simp: seg_fits_def)
  have "(int (f_new f) - int (f_old f) - int (f_nxt f)) mod 2 ^ 32 = int (new - f_nxt f)"
    using assms(4-6,8) by (simp add: of_nat_diff)
  moreover have "(int sl - int (Suc (length (enc_blks [] bs)))) mod 2 ^ 32 = int sl - int (Suc (length (enc_blks [] bs)))"
    using l assms(3) by simp
  ultimately show ?thesis using usr_freelen_eq [OF assms(1,2)] l assms(7) by (auto simp: fits_def)
qed

lemma free_split:
  assumes "seg_fits sl bs F r" "length (enc_blks [] bs) + n < sl"
  shows "\<exists>G Z. F = G @ Z \<and> length Z = n \<and> free_ok G"
proof -
  let ?m = "length F - n"
  have "n \<le> length F" "free_ok F" using assms by (auto simp: seg_fits_def)
  moreover have "free_ok (take ?m F)" using \<open>free_ok F\<close> by (cases F; cases ?m) (auto simp: free_ok_def)
  ultimately show ?thesis by (intro exI [of _ "take ?m F"] exI [of _ "drop ?m F"]) simp
qed

text \<open>The codes the block behind gives up when \<open>y\<close> comes between it and \<open>q\<close>.\<close>

definition gain :: "u8 list \<Rightarrow> u8 list \<Rightarrow> douon list \<Rightarrow> nat" where
  "gain q y hi = (case hi of [] \<Rightarrow> 0 | b # _ \<Rightarrow> lcp y (fst b) - lcp q (fst b))"

lemma lcp_short: "lcp (s @ u) b < length s \<Longrightarrow> lcp (s @ v) b = lcp (s @ u) b"
proof (induction s arbitrary: b)
  case (Cons a s)
  then show ?case by (cases b) (auto split: if_splits)
qed simp

lemma gain_le:
  assumes "q < y" "hi = [] \<or> y < fst (hd hi)"
  shows "gain q y hi \<le> length y - lcp q y" "length (enc_blks y hi) + gain q y hi = length (enc_blks q hi)"
proof -
  have "gain q y hi \<le> length y - lcp q y \<and> length (enc_blks y hi) + gain q y hi = length (enc_blks q hi)"
  proof (cases hi)
    case (Cons b hi')
    then have g: "gain q y hi = lcp y (fst b) - lcp q (fst b)" by (simp add: gain_def)
    have m: "blk_size y b + gain q y hi = blk_size q b" using blk_size_mono [OF assms(1), of b] assms(2) Cons g by simp
    have "gain q y hi \<le> length y - lcp q y"
    proof (cases "lcp q (fst b) < lcp q y")
      case True
      define s where "s = take (lcp q y) q"
      have s: "q = s @ drop (lcp q y) q" "y = s @ drop (lcp q y) y" "length s = lcp q y"
        unfolding s_def using lcp_le(1) [of q y] by (simp_all, metis take_lcp append_take_drop_id)
      have "lcp (s @ drop (lcp q y) y) (fst b) = lcp (s @ drop (lcp q y) q) (fst b)"
        by (rule lcp_short) (use True s in simp)
      then show ?thesis using s(1,2) g by simp
    next
      case False
      then show ?thesis using lcp_le(1) [of y "fst b"] g by simp
    qed
    then show ?thesis using m Cons by simp
  qed (simp add: gain_def)
  then show "gain q y hi \<le> length y - lcp q y" "length (enc_blks y hi) + gain q y hi = length (enc_blks q hi)" by simp_all
qed

lemma trim_place:
  assumes "q < y" "hi = [] \<or> y < fst (hd hi)" "seg_from q hi" "gain q y hi \<le> n" "f_nxt f = gain q y hi" "f_dou f = length P"
    and "sl = length P + length (enc_blks q hi) + (length F + (n - gain q y hi))" "length Z = n - gain q y hi"
  shows "\<exists>J. length J = n \<and>
    trim_next (P @ enc_blks q hi @ F @ Z @ r) sl f = Some (P @ (enc_blks y hi @ F) @ J @ r)"
proof (cases hi)
  case Nil
  then show ?thesis using assms(5,8) by (intro exI [of _ Z]) (simp add: trim_next_def gain_def)
next
  case (Cons b hi')
  let ?t = "gain q y hi" and ?p = "lcp q (fst b)" and ?l = "length (fst b)"
  have t: "?t = lcp y (fst b) - ?p" by (simp add: gain_def Cons)
  have m: "blk_size y b + ?t = blk_size q b" "?p + ?t = lcp y (fst b)"
    using blk_size_mono [OF assms(1), of b] assms(2) Cons t by simp_all
  have b: "blk_size q b \<le> 0xfff" "?l \<le> 31" using assms(3) by (simp_all add: Cons seg_from_Cons blk_ok_def)
  define T where "T = take ?t (drop ?p (fst b))"
  define V where "V = drop (lcp y (fst b)) (fst b) @ enc_classes (snd b) @ enc_blks (fst b) hi' @ F"
  have T: "length T = ?t" using lcp_le(2) [of y "fst b"] t by (simp add: T_def)
  have "drop ?t (drop ?p (fst b)) = drop (lcp y (fst b)) (fst b)" using m(2) by (simp add: add.commute)
  then have split: "drop ?p (fst b) = T @ drop (lcp y (fst b)) (fst b)" unfolding T_def by (metis append_take_drop_id)
  have enc: "enc_blks q hi @ F = hdr (blk_size q b) ?p (?l - ?p) @ T @ V" by (simp add: Cons enc_blk_def split V_def)
  have enc': "enc_blks y hi @ F = hdr (blk_size q b - ?t) (?p + ?t) (?l - ?p - ?t) @ V"
    using m by (simp add: Cons enc_blk_def V_def) (metis add_diff_cancel_right' diff_diff_left)
  have d: "P @ enc_blks q hi @ F @ Z @ r = P @ hdr (blk_size q b) ?p (?l - ?p) @ T @ V @ Z @ r"
    using enc by (metis append_assoc)
  have sl: "sl = length (P @ hdr (blk_size q b) ?p (?l - ?p) @ T @ V @ Z)"
    using assms(7,8) arg_cong [OF enc, of length] by simp
  have small: "?p < 32" "?l - ?p < 32" using b(2) lcp_le(2) [of q "fst b"] by linarith+
  obtain J where "length J = ?t" "trim_next (P @ enc_blks q hi @ F @ Z @ r) sl f
      = Some (P @ (hdr (blk_size q b - ?t) (?p + ?t) (?l - ?p - ?t) @ V) @ (Z @ J) @ r)"
    using trim_any [OF d b(1) small sl] assms(5,6) unfolding T by blast
  then show ?thesis using assms(4,8) unfolding enc' by (intro exI [of _ "Z @ J"]) simp
qed

lemma insert_new_reading:
  assumes "seg_fits sl bs F r" "seg_ok bs" "word_ok y k" "\<not> found y bs" "sl < 2 ^ 16" "sizes_ok [] (ins_word y h k bs)"
  shows "\<exists>f. find_place (seg_bytes bs F r) sl (y @ 0 # ry) (length y) h k seg w = Some (Some f) \<and> inserted sl bs F r y h k ry f"
proof -
  define lo hi q where "lo = below y bs" and "hi = above y bs" and "q = last_yomi [] (below y bs)"
  define P W n t where "P = 0 # enc_blks [] lo" and "W = (y, [(h, [k])])" and "n = blk_size q W" and "t = gain q y hi"
  let ?d = "seg_bytes bs F r" and ?bs' = "ins_word y h k bs"
  have y: "[] < y" "k \<noteq> []" using assms(3) by (auto simp: word_ok_def kstr_def neq_Nil_conv)
  have q: "q < y" "seg_from q hi" using seg_from_below(2,3) [OF assms(2) [unfolded seg_ok_from] y(1)] by (simp_all add: q_def hi_def)
  have hi: "hi = [] \<or> y < fst (hd hi)" using assms(4) by (cases rule: above_cases [of y bs]) (simp_all add: hi_def)
  have ins: "?bs' = lo @ W # hi" using assms(4) by (simp add: ins_word_def lo_def hi_def W_def)
  have bs: "bs = lo @ hi" by (simp add: lo_def hi_def below_above)
  have ql: "last_yomi [] lo = q" by (simp add: q_def lo_def)
  have n: "n \<le> 0xfff" using assms(6) unfolding ins n_def by (simp add: sizes_append ql)
  have n_eq: "n = 3 + (length y - lcp q y) + length k + 3" by (simp add: n_def W_def blk_size_def enc_class_def)
  note g = gain_le [OF q(1) hi, folded t_def]
  define f where "f = \<lparr>f_seg = seg, f_w = w, f_dou = length P, f_dst = length P, f_saml = lcp q y, f_yomi = False, f_hinsi = False,
     f_nxt = t, f_new = n, f_old = 0\<rparr>"
  have find: "find_place ?d sl (y @ 0 # ry) (length y) h k seg w = Some (Some f)"
    using find_place_new [OF assms(1-4), of ry h seg w, folded q_def lo_def hi_def] n
    by (simp add: f_def P_def t_def gain_def n_def W_def to_ushort_def)
  have len: "length (enc_blks [] bs) = length (enc_blks [] lo) + length (enc_blks q hi)"
    "length (enc_blks [] ?bs') = length (enc_blks [] bs) + (n - t)"
    using g n_eq ins arg_cong [OF bs, of "enc_blks []"] by (simp_all add: enc_blks_append ql n_def W_def)
  have fit: "fits ?d sl f = Some (length (enc_blks [] ?bs') < sl)"
    by (rule fits_eq [OF assms(1,2), of f 0 n]) (use assms(5) n n_eq g(1) len in \<open>simp_all add: f_def\<close>)
  have "\<exists>d' d'' ofs s. make_gap ?d sl f = Some d' \<and> fill_gap d' f (y @ 0 # ry) (length y) h k = Some (d'', ofs)
      \<and> seg_repr d'' sl ?bs' r \<and> drop ofs d'' = k @ KANJISTREND # s" if room: "length (enc_blks [] ?bs') < sl"
  proof -
    note free = free_split [OF assms(1), of "n - t"]
    obtain G Z where G: "F = G @ Z" "length Z = n - t" "free_ok G" using free room len(2) by auto
    have K: "Suc (length (enc_blks [] ?bs') + length G) = sl" "Suc (length (enc_blks [] bs)) + (length G + (n - t)) = sl"
      using assms(1) G(1,2) len(2) by (simp_all add: seg_fits_def)
    have d: "?d = P @ enc_blks q hi @ G @ Z @ r"
      by (simp add: seg_bytes_def G(1) arg_cong [OF bs, of "enc_blks []"] enc_blks_append ql P_def)
    have d': "seg_bytes ?bs' G r = P @ enc_blk q W @ (enc_blks y hi @ G) @ r"
      by (simp add: seg_bytes_def ins enc_blks_append ql P_def W_def)
    have sl: "sl = length P + length (enc_blks q hi) + (length G + (n - t))" using K(2) len(1) by (simp add: P_def)
    obtain J where J: "trim_next ?d sl f = Some (P @ (enc_blks y hi @ G) @ J @ r)" "length J = n"
      using trim_place [OF q(1) hi q(2), of n f P sl G Z r] g(1) n_eq sl G(2) unfolding d t_def [symmetric] by (auto simp: f_def)
    have "sl = length (P @ (enc_blks y hi @ G) @ J)" using sl J(2) g n_eq by simp
    from new_block [OF J this, of "lcp q y" y k ry h] y(2) n_eq lcp_le(2) [of q y]
    obtain e where e: "make_gap ?d sl f = Some e" "fill_gap e f (y @ 0 # ry) (length y) h k =
        Some (P @ (hdr n (lcp q y) (length y - lcp q y) @ drop (lcp q y) y @ enc_class (h, [k])) @ (enc_blks y hi @ G) @ r,
          length P + 3 + (length y - lcp q y) + 1)" by (auto simp: f_def)
    have blk: "hdr n (lcp q y) (length y - lcp q y) @ drop (lcp q y) y @ enc_class (h, [k]) = enc_blk q W"
      by (simp add: enc_blk_def W_def n_def)
    have "seg_bytes ?bs' G r = (P @ hdr n (lcp q y) (length y - lcp q y) @ drop (lcp q y) y @ [h]) @ k @ KANJISTREND # HINSIBLKTERM # (enc_blks y hi @ G) @ r"
      unfolding d' blk [symmetric] by (simp add: enc_class_def)
    from drop_app [of 0, unfolded drop_0, OF this]
    have "drop (length P + 3 + (length y - lcp q y) + 1) (seg_bytes ?bs' G r) = k @ KANJISTREND # HINSIBLKTERM # (enc_blks y hi @ G) @ r"
      by (simp add: ac_simps)
    moreover have "seg_repr (seg_bytes ?bs' G r) sl ?bs' r" using K(1) G(3) by (auto simp: seg_repr_def)
    ultimately show ?thesis using e unfolding blk d' by blast
  qed
  with find fit show ?thesis unfolding inserted_def by blast
qed

lemma enc_ins_class:
  assumes "distinct (map fst cs)"
  shows "h \<notin> fst ` set cs \<Longrightarrow> enc_classes (ins_class h k cs) = enc_classes cs @ enc_class (h, [k])"
    "cs = X @ (h, ks) # Y \<Longrightarrow> enc_classes (ins_class h k cs) = (enc_classes X @ h # enc_strs ks) @ (k @ [KANJISTREND]) @ HINSIBLKTERM # enc_classes Y"
proof -
  show "enc_classes (ins_class h k cs) = (enc_classes X @ h # enc_strs ks) @ (k @ [KANJISTREND]) @ HINSIBLKTERM # enc_classes Y"
    if cs: "cs = X @ (h, ks) # Y"
  proof -
    have "h \<notin> fst ` set X" "h \<notin> fst ` set Y" using assms cs by auto
    then have "map (\<lambda>c. if fst c = h then (h, snd c @ [k]) else c) X = X" "map (\<lambda>c. if fst c = h then (h, snd c @ [k]) else c) Y = Y"
      by (auto intro!: map_idI) force+
    then have "ins_class h k cs = X @ (h, ks @ [k]) # Y" unfolding cs by (simp add: ins_class_def)
    then show ?thesis by (simp add: enc_class_def)
  qed
qed (simp add: ins_class_def)

text \<open>A reading that is there: bytes \<open>v\<close> are put behind \<open>X\<close> in its class blocks.\<close>

lemma insert_at_reading:
  assumes "seg_fits sl bs F r" "seg_ok bs" "above y bs = (y, cs) # hi" "sl < 2 ^ 16" "sizes_ok [] (ins_word y h k bs)" "y \<noteq> []" "k \<noteq> []"
  defines "q \<equiv> last_yomi [] (below y bs)" and "p \<equiv> Suc (length (enc_blks [] (below y bs)))"
  assumes "enc_classes cs = X @ Y" "enc_classes (ins_class h k cs) = X @ v @ Y"
    and "v = (if f_hinsi f then [] else [h]) @ k @ [KANJISTREND] @ (if f_hinsi f then [] else [HINSIBLKTERM])"
    and "f_yomi f" "f_nxt f = 0" "f_dou f = p" "f_dst f = p + 3 + (length y - lcp q y) + length X"
    and "f_new f = to_ushort (blk_size q (y, cs) + length v)" "f_old f = blk_size q (y, cs)"
  shows "inserted sl bs F r y h k ry f"
proof -
  let ?d = "seg_bytes bs F r" and ?bs' = "ins_word y h k bs" and ?m = "length y - lcp q y"
  define lo P n where "lo = below y bs" and "P = 0 # enc_blks [] lo" and "n = blk_size q (y, cs)"
  have bs: "bs = lo @ (y, cs) # hi" unfolding lo_def by (metis below_above assms(3))
  have ins: "?bs' = lo @ (y, ins_class h k cs) # hi" using assms(3) by (simp add: ins_word_def lo_def found_def)
  have ql: "last_yomi [] lo = q" by (simp add: q_def lo_def)
  have n': "blk_size q (y, ins_class h k cs) = n + length v" by (simp add: blk_size_def n_def assms(10,11))
  have small: "n + length v \<le> 0xfff" using assms(5) unfolding ins by (simp add: sizes_append ql n')
  note b = found_block [OF assms(1,2,3,6), folded q_def p_def]
  have len: "length (enc_blks [] ?bs') = length (enc_blks [] bs) + length v"
    using ins arg_cong [OF bs, of "enc_blks []"] n' by (simp add: enc_blks_append ql n_def)
  have fit: "fits ?d sl f = Some (length (enc_blks [] ?bs') < sl)"
    by (rule fits_eq [OF assms(1,2), of f n "length v"]) (use assms(4,14,17,18) small len in \<open>simp_all add: n_def to_ushort_def\<close>)
  have "\<exists>d' d'' ofs s. make_gap ?d sl f = Some d' \<and> fill_gap d' f (y @ 0 # ry) (length y) h k = Some (d'', ofs)
      \<and> seg_repr d'' sl ?bs' r \<and> drop ofs d'' = k @ KANJISTREND # s" if room: "length (enc_blks [] ?bs') < sl"
  proof -
    obtain G Z where G: "F = G @ Z" "length Z = length v" "free_ok G" using free_split [OF assms(1), of "length v"] room len by auto
    let ?H = "\<lambda>n. hdr n (lcp q y) ?m" and ?X = "drop (lcp q y) y @ X" and ?Y = "Y @ enc_blks y hi @ G"
    have K: "Suc (length (enc_blks [] ?bs') + length G) = sl" using assms(1) G(1,2) len by (simp add: seg_fits_def)
    have d: "?d = P @ ?H n @ ?X @ ?Y @ Z @ r"
      by (simp add: seg_bytes_def G(1) arg_cong [OF bs, of "enc_blks []"] enc_blks_append ql P_def enc_blk_def n_def assms(10))
    have d': "seg_bytes ?bs' G r = P @ ?H (n + length v) @ ?X @ v @ ?Y @ r"
      by (simp add: seg_bytes_def ins enc_blks_append ql P_def enc_blk_def n' assms(11))
    have "length ?d = sl + length r" using assms(1) by (simp add: seg_bytes_def seg_fits_def)
    then have sl: "sl = length (P @ ?H n @ ?X @ ?Y @ Z)" unfolding d by simp
    have l: "lcp q y < 32" "?m < 32" using b(6) lcp_le(2) [of q y] by (auto simp: blk_ok_def)
    have pos: "f_dou f = length P" "f_dst f = length P + 3 + length ?X" using assms(15,16) by (simp_all add: P_def p_def lo_def)
    have new: "f_new f = n + length v" "f_old f = n" using assms(17,18) small by (simp_all add: n_def to_ushort_def)
    obtain g where g: "make_gap ?d sl f = Some g" "fill_gap g f (y @ 0 # ry) (length y) h k =
        Some (seg_bytes ?bs' G r, f_dst f + (if f_hinsi f then 0 else 1))"
      using grow_block [OF d b(7) [folded n_def] l G(2) sl assms(13,14) pos new assms(7,12)] unfolding d' by auto
    define a where "a = (if f_hinsi f then [] else [h])"
    obtain s where "v = a @ k @ KANJISTREND # s" unfolding assms(12) a_def by simp
    then have "seg_bytes ?bs' G r = (P @ ?H (n + length v) @ ?X @ a) @ k @ KANJISTREND # s @ ?Y @ r" unfolding d' by simp
    from drop_app [of 0, unfolded drop_0, OF this] pos(2)
    have "drop (f_dst f + (if f_hinsi f then 0 else 1)) (seg_bytes ?bs' G r) = k @ KANJISTREND # s @ ?Y @ r"
      by (simp add: a_def ac_simps split: if_splits)
    moreover have "seg_repr (seg_bytes ?bs' G r) sl ?bs' r" using K G(3) by (auto simp: seg_repr_def)
    ultimately show ?thesis using g by blast
  qed
  with fit show ?thesis unfolding inserted_def by blast
qed

lemma insert_old_reading:
  assumes "seg_fits sl bs F r" "seg_ok bs" "word_ok y k" "above y bs = (y, cs) # hi" "sl < 2 ^ 16" "sizes_ok [] (ins_word y h k bs)"
    and "\<not> taken y h k bs"
  shows "\<exists>f. find_place (seg_bytes bs F r) sl (y @ 0 # ry) (length y) h k seg w = Some (Some f) \<and> inserted sl bs F r y h k ry f"
proof -
  have y: "y \<noteq> []" "k \<noteq> []" using assms(3) by (auto simp: word_ok_def kstr_def)
  have cs: "distinct (map fst cs)" using found_block(6) [OF assms(1,2,4) y(1)] by (simp add: blk_ok_def)
  note at = insert_at_reading [OF assms(1,2,4,5,6) y]
  show ?thesis
  proof (cases "h \<in> fst ` set cs")
    case True
    then obtain ks where ks: "(h, ks) \<in> set cs" by auto
    then obtain X Y where X: "cs = X @ (h, ks) # Y" by (meson split_list)
    have "\<not> (\<exists>k' \<in> set ks. take (length k) k' = k)"
      using assms(7) ks words_found [OF assms(2,4), of h] by (auto simp: taken_def)
    with find_place_found(2) [OF assms(1-4) X, of ry seg w]
    show ?thesis
      by (intro exI conjI, simp, intro at [OF _ enc_ins_class(2) [OF cs X]]) (simp_all add: X enc_class_def add.assoc)
  next
    case False
    show ?thesis
      using find_place_found(1) [OF assms(1-4) False, of ry seg w]
      by (intro exI conjI, assumption, intro at [of "enc_classes cs" "[]" "enc_class (h, [k])"])
         (simp_all add: enc_ins_class(1) [OF cs False] enc_class_def)
  qed
qed

section \<open>The words of a segment\<close>

definition kstrs :: "u8 \<Rightarrow> klass list \<Rightarrow> u8 list set" where
  "kstrs h cs = {k. \<exists>ks. (h, ks) \<in> set cs \<and> k \<in> set ks}"

lemma words_kstrs: "words y h bs = (\<Union>cs \<in> {cs. (y, cs) \<in> set bs}. kstrs h cs)"
  by (auto simp: words_def kstrs_def)

lemma kstrs_ins: "kstrs h' (ins_class h k cs) = (if h' = h then insert k (kstrs h cs) else kstrs h' cs)"
  unfolding kstrs_def ins_class_def by (force split: if_splits)

lemma words_ins:
  assumes "seg_ok bs"
  shows "words y' h' (ins_word y h k bs) = (if y' = y \<and> h' = h then insert k (words y h bs) else words y' h' bs)"
proof (cases rule: above_cases [of y bs])
  case (same cs hi)
  let ?lo = "below y bs"
  have bs: "set bs = set ?lo \<union> {(y, cs)} \<union> set hi"
    using arg_cong [OF below_above [of y bs], of set] same(1) by auto
  have "set (ins_word y h k bs) = set ?lo \<union> {(y, ins_class h k cs)} \<union> set hi" using same by (auto simp: ins_word_def)
  then have "words y' h' (ins_word y h k bs) = (\<Union>cs \<in> {cs. (y', cs) \<in> set ?lo \<union> set hi}. kstrs h' cs) \<union> (if y' = y then kstrs h' (ins_class h k cs) else {})"
    by (auto simp: words_kstrs)
  moreover have "words y' h'' bs = (\<Union>cs \<in> {cs. (y', cs) \<in> set ?lo \<union> set hi}. kstrs h'' cs) \<union> (if y' = y then kstrs h'' cs else {})" for h''
    by (auto simp: words_kstrs bs)
  ultimately show ?thesis by (auto simp: kstrs_ins)
next
  case none
  then have "set (ins_word y h k bs) = insert (y, [(h, [k])]) (set bs)"
    using arg_cong [OF below_above [of y bs], of set] by (auto simp: ins_word_def)
  then show ?thesis by (auto simp: words_def)
next
  case (more b hi)
  then have "set (ins_word y h k bs) = insert (y, [(h, [k])]) (set bs)"
    using arg_cong [OF below_above [of y bs], of set] by (auto simp: ins_word_def)
  then show ?thesis by (auto simp: words_def)
qed



end
