(* ===== verification/Sj_Delete_Laws.thy ===== *)
theory Sj_Delete_Laws
  imports Sj_Insert_Laws
begin

text \<open>
  Deleting a word: what \<^verbatim>\<open>deldic\<close> does to the bytes of a segment (\<open>cut_bytes\<close>,
  \<open>cut_block\<close>, \<open>cut_last\<close>) removes the word from the abstract segment.
\<close>

section \<open>Deletion of a word\<close>

definition del_str :: "u8 \<Rightarrow> u8 list \<Rightarrow> klass \<Rightarrow> klass" where
  "del_str h k c = (if fst c = h then (h, remove1 k (snd c)) else c)"

definition del_class :: "u8 \<Rightarrow> u8 list \<Rightarrow> klass list \<Rightarrow> klass list" where
  "del_class h k cs = filter (\<lambda>c. snd c \<noteq> []) (map (del_str h k) cs)"

definition del_blk :: "u8 list \<Rightarrow> u8 \<Rightarrow> u8 list \<Rightarrow> douon \<Rightarrow> douon" where
  "del_blk y h k b = (if fst b = y then (y, del_class h k (snd b)) else b)"

definition del_reading :: "u8 list \<Rightarrow> u8 \<Rightarrow> u8 list \<Rightarrow> douon list \<Rightarrow> douon list" where
  "del_reading y h k bs = filter (\<lambda>b. snd b \<noteq> []) (map (del_blk y h k) bs)"

lemma fst_del [simp]: "fst (del_str h k c) = fst c" "fst (del_blk y h k b) = fst b"
  by (simp_all add: del_str_def del_blk_def)

lemma del_class_same: "h \<notin> fst ` set cs \<Longrightarrow> list_all class_ok cs \<Longrightarrow> del_class h k cs = cs"
  by (induction cs) (auto simp: del_class_def del_str_def class_ok_def)

lemma del_reading_same: "y \<notin> fst ` set bs \<Longrightarrow> list_all blk_ok bs \<Longrightarrow> del_reading y h k bs = bs"
  by (induction bs) (auto simp: del_reading_def del_blk_def blk_ok_def)

lemma del_append: "del_class h k (cs @ ds) = del_class h k cs @ del_class h k ds"
    "del_reading y h k (as @ bs) = del_reading y h k as @ del_reading y h k bs"
  by (simp_all add: del_class_def del_reading_def)

lemma del_class_eq:
  assumes "list_all class_ok (X @ (h, ls @ k # ms) # Y)" "distinct (map fst (X @ (h, ls @ k # ms) # Y))"
  shows "del_class h k (X @ (h, ls @ k # ms) # Y) = X @ (if ls @ ms = [] then Y else (h, ls @ ms) # Y)"
proof -
  have "del_class h k X = X" "del_class h k Y = Y" using assms by (auto intro: del_class_same)
  moreover have "k \<notin> set ls" using assms(1) by (auto simp: class_ok_def)
  then have "del_class h k [(h, ls @ k # ms)] = (if ls @ ms = [] then [] else [(h, ls @ ms)])"
    by (simp add: del_class_def del_str_def remove1_append)
  ultimately show ?thesis using del_append(1) [of h k X "[(h, ls @ k # ms)] @ Y"] del_append(1) [of h k "[(h, ls @ k # ms)]" Y] by simp
qed

lemma del_reading_eq:
  assumes "seg_ok bs" "above y bs = (y, cs) # hi"
  shows "del_reading y h k bs = below y bs @ (if del_class h k cs = [] then hi else (y, del_class h k cs) # hi)"
proof -
  define lo where "lo = below y bs"
  have bs: "bs = lo @ [(y, cs)] @ hi" unfolding lo_def append_Cons append_Nil by (metis below_above assms(2))
  have d: "distinct (map fst bs)" "list_all blk_ok bs" using assms(1) by (simp_all add: seg_ok_def strict_sorted_iff)
  then have "del_reading y h k lo = lo" "del_reading y h k hi = hi" unfolding bs by (auto intro: del_reading_same)
  then have "del_reading y h k bs = lo @ del_reading y h k [(y, cs)] @ hi" unfolding bs del_append by simp
  then show ?thesis by (simp add: lo_def del_reading_def del_blk_def)
qed

lemma skipkstr_eq: "drop p d = k @ 0 # r \<Longrightarrow> codes_ok k \<Longrightarrow> k \<noteq> [] \<Longrightarrow> skipkstr d p = Some (p + length k + 1)"
proof (induction k arbitrary: p rule: codes_ok.induct)
  case (2 c k)
  let ?n = "codesize c"
  have c: "rd d p = Some c" "?n \<le> Suc (length k)" "codes_ok (drop (?n - 1) k)" using "2.prems" by (auto dest: drop_rds)
  obtain m where m: "?n = Suc m" using codesize_pos [of c] by (cases "?n") auto
  have "drop (p + length (c # take m k)) d = drop m k @ 0 # r" using "2.prems"(1) by (intro drop_app) simp
  then have d: "drop (p + ?n) d = drop m k @ 0 # r" using c(2) m by simp
  show ?case
  proof (cases "drop m k")
    case Nil
    then have "rd d (p + ?n) = Some 0" "m = length k" using d c(2) m by (auto dest: drop_rds)
    then show ?thesis using c m by (subst skipkstr.simps) simp
  next
    case (Cons e k')
    then have e: "rd d (p + ?n) = Some e" "e \<noteq> 0" using d c(3) m by (auto dest: drop_rds)
    have "skipkstr d (p + ?n) = Some (p + ?n + length (drop m k) + 1)" using "2.IH" d c(3) m Cons by simp
    moreover have "m < length k" using Cons by (metis drop_all list.discI linorder_not_less)
    ultimately show ?thesis using c e m by (subst skipkstr.simps) simp
  qed
qed simp

section \<open>The bytes of a deletion\<close>

lemma cut_bytes_eq:
  assumes "d = P @ hdr n p m @ X @ v @ Y @ F @ r" "n \<le> 0xfff" "p < 32" "m < 32" "length v \<le> n"
    and "sl = length (P @ hdr n p m @ X @ v @ Y @ F)" "stp = length P + 3 + length X" "edp = stp + length v"
  shows "cut_bytes d sl (length P) stp edp
    = Some (P @ hdr (n - length v) p m @ X @ Y @ (F @ drop (length (Y @ F)) (v @ Y @ F)) @ r)"
proof -
  define J where "J = drop (length (Y @ F)) (v @ Y @ F)"
  have J: "length J = length v" by (simp add: J_def)
  have g: "mvmemi ((P @ hdr n p m @ X) @ v @ (Y @ F) @ r) edp stp (length (Y @ F)) = Some ((P @ hdr n p m @ X) @ (Y @ F) @ J @ r)"
    unfolding J_def by (rule mvmemi_gap) (use assms(7,8) in simp_all)
  have len: "int sl - int edp = int (length (Y @ F))" unfolding assms(6-8) by simp
  have m0: "memset e (nat (int edp + (int sl - int edp))) DICSEGTERM (int sl - (int edp + (int sl - int edp))) = Some e" for e
    by (simp add: memset_def)
  have s: "set_size (P @ hdr n p m @ X @ Y @ F @ J @ r) (length P) (n - length v) p m = Some (P @ hdr (n - length v) p m @ X @ Y @ F @ J @ r)"
    by (rule set_size_hdr) simp
  have "edp - stp = length v" by (simp add: assms(8))
  then show ?thesis
    unfolding cut_bytes_def Let_def assms(1) len nat_int g [unfolded append_assoc] Option.bind.simps m0 [unfolded len] append_assoc
      hdr_reads(1-3) [OF assms(2-4)]
    using s by (simp only: J_def append_assoc Option.bind.simps)
qed

lemma cut_last_eq:
  assumes "d = P @ B @ F @ r" "sl = length (P @ B @ F)"
  shows "cut_last d sl (length P) (length P + length B) = Some (P @ (replicate (length F) DICSEGTERM @ drop (length F) (B @ F)) @ r)"
proof -
  have "memset (P @ take (length F) (B @ F) @ (drop (length F) (B @ F) @ r)) (length P) DICSEGTERM (int (length F))
      = Some (P @ replicate (length (take (length F) (B @ F))) DICSEGTERM @ drop (length F) (B @ F) @ r)"
    by (rule memset_app) simp
  moreover have "P @ take (length F) (B @ F) @ drop (length F) (B @ F) @ r = d"
    unfolding assms(1) by (metis append_assoc append_take_drop_id)
  moreover have "int sl - int (length P + length B) = int (length F)" using assms(2) by simp
  ultimately show ?thesis by (simp add: cut_last_def)
qed

lemma lcp_sorted: "q < y \<Longrightarrow> y < b \<Longrightarrow> lcp q b = min (lcp q y) (lcp y b)"
proof -
  assume a: "q < y" "y < b"
  show ?thesis
  proof (cases "lcp q y \<le> lcp y b")
    case True
    have "lcp y q \<le> lcp y b" using True by (simp add: lcp_comm)
    then obtain t u v where t: "q = t @ v" "b = t @ u" "length t = lcp y q" by (rule lcp_common)
    then have "lcp q y \<le> lcp q b" by (simp add: lcp_append lcp_comm)
    moreover have "lcp q b \<le> lcp q y" using lcp_between [OF a(1), of b] a(2) by fastforce
    ultimately show ?thesis using True by simp
  next
    case False
    define s where "s = take (lcp q y) q"
    have s: "q = s @ drop (lcp q y) q" "y = s @ drop (lcp q y) y" "length s = lcp q y"
      unfolding s_def using lcp_le(1) [of q y] by (simp_all, metis take_lcp append_take_drop_id)
    have "lcp (s @ drop (lcp q y) q) b = lcp (s @ drop (lcp q y) y) b"
      by (rule lcp_short) (use False s in simp)
    then show ?thesis using False s by simp
  qed
qed

text \<open>The block behind takes over the codes \<open>T\<close> of the block that goes.\<close>

lemma cut_block_eq:
  assumes "d = P @ hdr n0 p0 m0 @ T @ V @ hdr n p m @ W @ F @ r"
    and "n0 \<le> 0xfff" "p0 < 32" "m0 < 32" "n \<le> 0xfff" "p < 32" "m < 32" "length T = p - p0"
    and "sl = length (P @ hdr n0 p0 m0 @ T @ V @ hdr n p m @ W @ F)" "nxt = length P + 3 + length T + length V"
  shows "cut_block d sl (length P) nxt =
    Some (P @ hdr (n + length T) (p - length T) (m + length T) @ T @ W @ (F @ replicate (length V + 3) DICSEGTERM) @ r,
      length V + 3, m + length T)"
proof -
  let ?K = "hdr n0 p0 m0" and ?H = "hdr n p m" and ?H' = "hdr (n + length T) (p - length T) (m + length T)"
  let ?Q = "P @ ?K @ T @ V"
  have nxt: "nxt = length ?Q" by (simp add: assms(10))
  have d: "d = ?Q @ ?H @ W @ F @ r" unfolding assms(1) append_assoc ..
  note r1 = hdr_reads(1-3) [OF assms(5-7), of ?Q "W @ F @ r", folded nxt, folded d]
  have r0: "getplen d (length P) = Some p0" unfolding assms(1) by (rule hdr_reads(2) [OF assms(2-4)])
  have len: "(if p0 < p then p - p0 else 0) = length T" using assms(8) by simp
  have s: "set_size d (length P) (n + length T) (p - length T) (m + length T) = Some (P @ ?H' @ T @ V @ ?H @ W @ F @ r)"
    unfolding assms(1) by (rule set_size_hdr [of ?K]) simp
  have "mvmemi ((P @ ?H' @ T) @ (V @ ?H) @ (W @ F) @ r) (nxt + 3) (length P + 3 + length T) (length (W @ F))
      = Some ((P @ ?H' @ T) @ (W @ F) @ drop (length (W @ F)) ((V @ ?H) @ W @ F) @ r)"
    by (rule mvmemi_gap) (simp_all add: assms(10))
  moreover have n1: "nat (int sl - int (nxt + 3)) = length (W @ F)" unfolding assms(9,10) by simp
  ultimately have mv: "mvmemi (P @ ?H' @ T @ V @ ?H @ W @ F @ r) (nxt + 3) (length P + 3 + length T) (nat (int sl - int (nxt + 3)))
      = Some (P @ ?H' @ T @ W @ F @ drop (length (W @ F)) ((V @ ?H) @ W @ F) @ r)" unfolding n1 append_assoc by simp
  have n2: "nxt + 3 - (length P + 3 + length T) = length V + 3" by (simp add: assms(10))
  have J: "length (drop (length (W @ F)) ((V @ ?H) @ W @ F)) = length V + 3" by simp
  have le: "\<not> length V + 3 > sl" "sl - (length V + 3) = length (P @ ?H' @ T @ W @ F)" unfolding assms(9) by simp_all
  have "memset ((P @ ?H' @ T @ W @ F) @ drop (length (W @ F)) ((V @ ?H) @ W @ F) @ r) (length (P @ ?H' @ T @ W @ F)) DICSEGTERM (int (length V + 3))
      = Some ((P @ ?H' @ T @ W @ F) @ replicate (length (drop (length (W @ F)) ((V @ ?H) @ W @ F))) DICSEGTERM @ r)"
    by (rule memset_app) (simp only: J)
  then have ms: "memset (P @ ?H' @ T @ W @ F @ drop (length (W @ F)) ((V @ ?H) @ W @ F) @ r) (sl - (length V + 3)) DICSEGTERM (int (length V + 3))
      = Some (P @ ?H' @ T @ W @ F @ replicate (length V + 3) DICSEGTERM @ r)"
    unfolding le(2) J [unfolded append_assoc] append_assoc .
  show ?thesis
    unfolding cut_block_def r1 r0 Option.bind.simps Let_def len s mv n2 if_not_P [OF le(1)] ms by simp
qed

section \<open>Deletion refines removal\<close>

lemma str_pos_unique:
  assumes "distinct (ls @ k # ms)" "\<And>k'. k' \<in> set (ls @ k # ms) \<Longrightarrow> take (length k) k' = k \<Longrightarrow> k' = k"
  shows "str_pos k (ls @ k # ms) p None = Some (p + length (enc_strs ls))"
proof -
  have "\<exists>k' \<in> set (ls @ k # ms). take (length k) k' = k" by simp
  from str_pos_Some [OF this, of p None] obtain ls' k' ms' where s: "ls @ k # ms = ls' @ k' # ms'" "take (length k) k' = k"
    "str_pos k (ls @ k # ms) p None = Some (p + length (enc_strs ls'))" by blast
  have "k' = k" using assms(2) [of k'] s(1,2) by simp
  moreover have "k \<notin> set ls" "k \<notin> set ms" using assms(1) by auto
  ultimately have "ls = ls'" using s(1) append_Cons_eq_iff [of k ls ms ls' ms'] by simp
  then show ?thesis using s(3) by simp
qed

text \<open>A word that is there, and where the searches find it.\<close>

lemma find_word:
  assumes "seg_fits sl bs F r" "seg_ok bs" "word_ok y k" "above y bs = (y, cs) # hi" "cs = X @ (h, ls @ k # ms) # Y"
    and "\<And>k'. k' \<in> set (ls @ k # ms) \<Longrightarrow> take (length k) k' = k \<Longrightarrow> k' = k"
  defines "q \<equiv> last_yomi [] (below y bs)" and "p \<equiv> Suc (length (enc_blks [] (below y bs)))"
  defines "t \<equiv> p + 3 + (length y - lcp q y) + length (enc_classes X)" and "d \<equiv> seg_bytes bs F r"
  defines "z \<equiv> t + 1 + length (enc_strs ls)"
  shows "srchkana (y @ 0 # ry) d sl None = Some (length bs, p, length y)" "srchgram d p h = Some (length cs, t)"
    "srchkanji d t k = Some (length (ls @ k # ms), z)" "skipkstr d z = Some (z + length k + 1)" "\<exists>c. rd d z = Some c \<and> c \<noteq> HINSIBLKTERM"
proof -
  have y: "y \<noteq> []" "length y \<le> 31" "0 \<notin> set y" "k \<noteq> []" "codes_ok k" "HINSIBLKTERM \<notin> set k"
    using assms(3) by (auto simp: word_ok_def kstr_def)
  note b = found_block [OF assms(1,2,4) y(1), folded p_def q_def d_def]
  obtain rest where rest: "drop (p + 3 + (length y - lcp q y)) d = enc_classes cs @ rest" using b(5) by blast
  have cs: "list_all class_ok cs" "distinct (map fst cs)" using b(6) by (simp_all add: blk_ok_def)
  have "found y bs" using assms(4) by (simp add: found_def)
  then show "srchkana (y @ 0 # ry) d sl None = Some (length bs, p, length y)"
    using srchkana_eq [OF assms(1,2) y(1-3), of ry] unfolding p_def q_def d_def by simp
  have "h \<notin> fst ` set X" using cs(2) assms(5) by auto
  then have "takeWhile (\<lambda>c. fst c \<noteq> h) cs = X" unfolding assms(5) by (subst takeWhile_append2) auto
  then have pos: "class_pos h cs = length (enc_classes X)" by (simp add: class_pos_def)
  show "srchgram d p h = Some (length cs, t)"
    using srchgram_eq [OF b(2,4) rest cs, of h] pos assms(5) by (simp add: t_def)
  have "drop (p + 3 + (length y - lcp q y)) d = enc_classes X @ enc_class (h, ls @ k # ms) @ enc_classes Y @ rest"
    using rest assms(5) by simp
  then have dk: "drop t d = enc_class (h, ls @ k # ms) @ enc_classes Y @ rest" unfolding t_def by (rule drop_app)
  have ks: "list_all kstr (ls @ k # ms)" "distinct (ls @ k # ms)" using cs(1) assms(5) by (simp_all add: class_ok_def)
  show "srchkanji d t k = Some (length (ls @ k # ms), z)"
    using srchkanji_eq [OF dk ks(1) y(5)] str_pos_unique [OF ks(2) assms(6)] by (simp add: z_def)
  have "drop t d = (h # enc_strs ls) @ k @ 0 # enc_strs ms @ 0xff # enc_classes Y @ rest" using dk by (simp add: enc_class_def)
  from drop_app [OF this] have dz: "drop z d = k @ 0 # enc_strs ms @ 0xff # enc_classes Y @ rest" by (simp add: z_def add.assoc)
  from skipkstr_eq [OF this y(5,4)] show "skipkstr d z = Some (z + length k + 1)" .
  obtain c k' where "k = c # k'" using y(4) by (cases k) auto
  then show "\<exists>c. rd d z = Some c \<and> c \<noteq> HINSIBLKTERM" using dz y(6) by (auto dest: drop_rds)
qed

lemma free_ok_append: "free_ok F \<Longrightarrow> F \<noteq> [] \<Longrightarrow> free_ok (F @ J)"
  by (simp add: free_ok_def)

text \<open>The reading stays: bytes \<open>v\<close> are cut out of its class blocks.\<close>

lemma delete_at_reading:
  assumes "seg_fits sl bs F r" "seg_ok bs" "above y bs = (y, cs) # hi" "y \<noteq> []" "F \<noteq> []"
    and "enc_classes cs = X @ v @ Y" "enc_classes (del_class h k cs) = X @ Y" "del_class h k cs \<noteq> []"
  defines "q \<equiv> last_yomi [] (below y bs)" and "p \<equiv> Suc (length (enc_blks [] (below y bs)))"
  assumes "stp = p + 3 + (length y - lcp q y) + length X" "edp = stp + length v"
  shows "\<exists>d'. cut_bytes (seg_bytes bs F r) sl p stp edp = Some d' \<and> seg_repr d' sl (del_reading y h k bs) r"
proof -
  let ?m = "length y - lcp q y" and ?cs = "del_class h k cs"
  define lo P n where "lo = below y bs" and "P = 0 # enc_blks [] lo" and "n = blk_size q (y, cs)"
  have bs: "bs = lo @ (y, cs) # hi" unfolding lo_def by (metis below_above assms(3))
  have del: "del_reading y h k bs = lo @ (y, ?cs) # hi" using del_reading_eq [OF assms(2,3)] assms(8) by (simp add: lo_def)
  have ql: "last_yomi [] lo = q" by (simp add: q_def lo_def)
  note b = found_block [OF assms(1-4), folded q_def p_def]
  have n: "blk_size q (y, ?cs) = n - length v" "length v \<le> n" by (simp_all add: blk_size_def n_def assms(6,7))
  let ?H = "\<lambda>n. hdr n (lcp q y) ?m" and ?X = "drop (lcp q y) y @ X" and ?Y = "Y @ enc_blks y hi"
  have d: "seg_bytes bs F r = P @ ?H n @ ?X @ v @ ?Y @ F @ r"
    by (simp add: seg_bytes_def arg_cong [OF bs, of "enc_blks []"] enc_blks_append ql P_def enc_blk_def n_def assms(6))
  define J where "J = drop (length (?Y @ F)) (v @ ?Y @ F)"
  have J: "length J = length v" by (simp add: J_def)
  have d': "seg_bytes (del_reading y h k bs) (F @ J) r = P @ ?H (n - length v) @ ?X @ ?Y @ (F @ J) @ r"
    by (simp add: seg_bytes_def del enc_blks_append ql P_def enc_blk_def n(1) assms(7))
  have l: "lcp q y < 32" "?m < 32" using b(6) lcp_le(2) [of q y] by (auto simp: blk_ok_def)
  have len: "length (seg_bytes bs F r) = sl + length r" using assms(1) by (simp add: seg_bytes_def seg_fits_def)
  then have sl: "sl = length (P @ ?H n @ ?X @ v @ ?Y @ F)" unfolding d by simp
  have pos: "p = length P" "stp = length P + 3 + length ?X" using assms(11) by (simp_all add: P_def p_def lo_def)
  have "cut_bytes (seg_bytes bs F r) sl p stp edp = Some (seg_bytes (del_reading y h k bs) (F @ J) r)"
    using cut_bytes_eq [OF d b(7) [folded n_def] l n(2) sl pos(2) assms(12), folded J_def] unfolding d' pos(1) .
  moreover have "Suc (length (enc_blks [] (del_reading y h k bs)) + length (F @ J)) = sl"
  proof -
    have "length (seg_bytes (del_reading y h k bs) (F @ J) r) = sl + length r" unfolding d' using sl J n(2) by simp
    then show ?thesis by (simp add: seg_bytes_def)
  qed
  moreover have "free_ok (F @ J)" using assms(1,5) by (simp add: seg_fits_def free_ok_append)
  ultimately show ?thesis by (auto simp: seg_repr_def)
qed

text \<open>The reading goes.\<close>

lemma delete_last_reading:
  assumes "seg_fits sl bs F r" "seg_ok bs" "above y bs = [(y, cs)]" "y \<noteq> []" "F \<noteq> []" "del_class h k cs = []"
  defines "p \<equiv> Suc (length (enc_blks [] (below y bs)))"
  shows "\<exists>nxt d'. getntag (seg_bytes bs F r) p = Some nxt \<and> segend (seg_bytes bs F r) sl nxt = Some True
    \<and> cut_last (seg_bytes bs F r) sl p nxt = Some d' \<and> seg_repr d' sl (del_reading y h k bs) r"
proof -
  define lo P q where "lo = below y bs" and "P = 0 # enc_blks [] lo" and "q = last_yomi [] (below y bs)"
  have bs: "bs = lo @ [(y, cs)]" unfolding lo_def by (metis below_above assms(3))
  have del: "del_reading y h k bs = lo" using del_reading_eq [OF assms(2,3)] assms(6) by (simp add: lo_def)
  note b = found_block [OF assms(1-4), folded q_def p_def]
  let ?B = "enc_blk q (y, cs)"
  define G where "G = replicate (length F) DICSEGTERM @ drop (length F) (?B @ F)"
  have ql: "last_yomi [] lo = q" by (simp add: q_def lo_def)
  have d: "seg_bytes bs F r = P @ ?B @ F @ r" by (simp add: seg_bytes_def bs enc_blks_append P_def ql)
  have p: "p = length P" by (simp add: P_def p_def lo_def)
  have sl: "sl = length (P @ ?B @ F)" using assms(1) by (simp add: seg_fits_def bs enc_blks_append P_def ql)
  have nxt: "getntag (seg_bytes bs F r) p = Some (p + length ?B)" using b(2) by (simp add: blk_size_def add.assoc)
  have "segend (seg_bytes bs F r) sl (p + length ?B) = Some True" using seg_at_end [of _ sl _ y] b(11) by simp
  moreover have "cut_last (seg_bytes bs F r) sl p (p + length ?B) = Some (seg_bytes lo G r)"
    using cut_last_eq [OF d sl] unfolding p by (simp add: G_def seg_bytes_def P_def)
  moreover have "seg_repr (seg_bytes lo G r) sl lo r"
    unfolding seg_repr_def using sl assms(5)
    by (intro exI [of _ G]) (auto simp: G_def P_def free_ok_def neq_Nil_conv)
  ultimately show ?thesis using nxt del by auto
qed

lemma taken_over:
  assumes "q < y" "y < b"
  defines "T \<equiv> take (lcp y b - lcp q y) (drop (lcp q y) y)"
  shows "length T = lcp y b - lcp q y" "lcp q b = lcp y b - length T" "drop (lcp q b) b = T @ drop (lcp y b) b"
    "drop (lcp q y) y = T @ drop (length T) (drop (lcp q y) y)"
proof -
  show T: "length T = lcp y b - lcp q y" using lcp_le(1) [of y b] by (simp add: T_def)
  show min: "lcp q b = lcp y b - length T" using lcp_sorted [OF assms(1,2)] T by simp
  show "drop (lcp q y) y = T @ drop (length T) (drop (lcp q y) y)" 
    unfolding T by (subst T_def) (simp only: append_take_drop_id)
  show "drop (lcp q b) b = T @ drop (lcp y b) b"
  proof (cases "lcp q y \<le> lcp y b")
    case True
    then have c: "lcp q b = lcp q y" using min T by simp
    have "T = drop (lcp q y) (take (lcp y b) y)" by (simp add: T_def drop_take)
    also have "\<dots> = drop (lcp q y) (take (lcp y b) b)" by (simp only: take_lcp)
    finally have "T = drop (lcp q y) (take (lcp y b) b)" .
    moreover have "drop (lcp q y) (take (lcp y b) b @ drop (lcp y b) b) = drop (lcp q y) (take (lcp y b) b) @ drop (lcp y b) b"
      using True lcp_le(2) [of y b] by (simp only: drop_append length_take) simp
    ultimately show ?thesis unfolding c by (simp only: append_take_drop_id)
  next
    case False
    then show ?thesis using min T by simp
  qed
qed

lemma delete_inner_reading:
  assumes "seg_fits sl bs F r" "seg_ok bs" "above y bs = (y, cs) # b # hi" "y \<noteq> []" "del_class h k cs = []"
  defines "p \<equiv> Suc (length (enc_blks [] (below y bs)))"
  shows "\<exists>nxt d' n m. getntag (seg_bytes bs F r) p = Some nxt \<and> segend (seg_bytes bs F r) sl nxt = Some False
    \<and> cut_block (seg_bytes bs F r) sl p nxt = Some (d', n, m) \<and> seg_repr d' sl (del_reading y h k bs) r"
proof -
  define lo P q where "lo = below y bs" and "P = 0 # enc_blks [] lo" and "q = last_yomi [] (below y bs)"
  let ?yb = "fst b"
  have bs: "bs = lo @ (y, cs) # b # hi" unfolding lo_def by (metis below_above assms(3))
  have ql: "last_yomi [] lo = q" by (simp add: q_def lo_def)
  have del: "del_reading y h k bs = lo @ b # hi" using del_reading_eq [OF assms(2,3)] assms(5) by (simp add: lo_def)
  note f = found_block [OF assms(1-4), folded q_def p_def]
  have b: "blk_ok b" "blk_size y b \<le> 0xfff" "y < ?yb" using f(9) by (simp_all add: seg_from_Cons)
  define T where "T = take (lcp y ?yb - lcp q y) (drop (lcp q y) y)"
  define V where "V = drop (length T) (drop (lcp q y) y) @ enc_classes cs"
  note to = taken_over [OF f(8) b(3), folded T_def]
  note T = to(1) and min = to(2) and own = to(3)
  have le: "lcp y ?yb \<le> length ?yb" "length T \<le> lcp y ?yb" using lcp_le(2) [of y ?yb] T by simp_all
  let ?W = "drop (lcp y ?yb) ?yb @ enc_classes (snd b) @ enc_blks ?yb hi"
  have split: "drop (lcp q y) y @ enc_classes cs = T @ V" unfolding V_def append_assoc [symmetric] to(4) [symmetric] ..
  have d: "seg_bytes bs F r = P @ hdr (blk_size q (y, cs)) (lcp q y) (length y - lcp q y) @ T @ V
      @ hdr (blk_size y b) (lcp y ?yb) (length ?yb - lcp y ?yb) @ ?W @ F @ r"
    using split by (simp add: seg_bytes_def bs enc_blks_append ql P_def enc_blk_def)
  have new: "blk_size q b = blk_size y b + length T" "length ?yb - lcp q ?yb = length ?yb - lcp y ?yb + length T"
    using min le by (simp_all add: blk_size_def)
  define G where "G = F @ replicate (length V + 3) DICSEGTERM"
  have d': "seg_bytes (lo @ b # hi) G r = P @ hdr (blk_size y b + length T) (lcp y ?yb - length T) (length ?yb - lcp y ?yb + length T) @ T @ ?W @ G @ r"
    using own min new by (simp add: seg_bytes_def enc_blks_append ql P_def enc_blk_def)
  have sl: "sl = length (P @ hdr (blk_size q (y, cs)) (lcp q y) (length y - lcp q y) @ T @ V
      @ hdr (blk_size y b) (lcp y ?yb) (length ?yb - lcp y ?yb) @ ?W @ F)"
  proof -
    have "length (seg_bytes bs F r) = sl + length r" using assms(1) by (simp add: seg_bytes_def seg_fits_def)
    then show ?thesis unfolding d by simp
  qed
  have l: "lcp q y < 32" "length y - lcp q y < 32" "lcp y ?yb < 32" "length ?yb - lcp y ?yb < 32"
    using f(6) b(1) lcp_le(2) [of q y] le(1) by (auto simp: blk_ok_def)
  have p: "p = length P" by (simp add: P_def p_def lo_def)
  have n3: "p + blk_size q (y, cs) = length P + 3 + length T + length V"
    using arg_cong [OF split, of length] by (simp add: p blk_size_def)
  have cut: "cut_block (seg_bytes bs F r) sl p (p + blk_size q (y, cs)) = Some (seg_bytes (lo @ b # hi) G r, length V + 3, length ?yb - lcp y ?yb + length T)"
    using cut_block_eq [OF d f(7) l(1,2) b(2) l(3,4) T sl n3 [unfolded p], folded G_def] unfolding d' p .
  have nxt: "getntag (seg_bytes bs F r) p = Some (p + blk_size q (y, cs))" using f(2) by (simp add: blk_size_def add.assoc)
  have "segend (seg_bytes bs F r) sl (p + blk_size q (y, cs)) = Some False"
    using seg_at_Cons(1) [OF f(11) _ b(2)] b(1) by (simp add: blk_ok_def)
  moreover have "seg_repr (seg_bytes (lo @ b # hi) G r) sl (lo @ b # hi) r"
  proof -
    have "length (seg_bytes (lo @ b # hi) G r) = sl + length r" unfolding d' using sl by (simp add: G_def)
    then have "Suc (length (enc_blks [] (lo @ b # hi)) + length G) = sl" by (simp add: seg_bytes_def)
    moreover have "free_ok G" using assms(1) by (cases F) (auto simp: G_def free_ok_def seg_fits_def)
    ultimately show ?thesis by (auto simp: seg_repr_def)
  qed
  ultimately show ?thesis using cut nxt unfolding del by blast
qed

section \<open>What is left\<close>

lemma kstrs_del:
  assumes "list_all class_ok cs"
  shows "kstrs h' (del_class h k cs) = (if h' = h then kstrs h cs - {k} else kstrs h' cs)"
  using assms
proof (induction cs)
  case (Cons c cs)
  have "kstrs h' (del_class h k [c]) = (if h' = h then kstrs h [c] - {k} else kstrs h' [c])"
  proof -
    obtain g ks where c: "c = (g, ks)" by (cases c)
    have "kstrs i [(j, ls)] = (if i = j then set ls else {})" for i j ls by (auto simp: kstrs_def)
    moreover have "kstrs i [] = {}" for i by (simp add: kstrs_def)
    moreover have "set (remove1 k ks) = set ks - {k}" using Cons.prems by (simp add: c class_ok_def)
    ultimately show ?thesis unfolding c del_class_def del_str_def list.map by (cases "remove1 k ks = []") auto
  qed
  moreover have "kstrs g (c # cs) = kstrs g [c] \<union> kstrs g cs" "kstrs g (as @ bs) = kstrs g as \<union> kstrs g bs" for g as bs
    by (auto simp: kstrs_def)
  ultimately show ?case using Cons del_append(1) [of h k "[c]" cs] by auto
qed (simp add: kstrs_def del_class_def)

lemma words_append: "words y h (as @ bs) = words y h as \<union> words y h bs"
  by (auto simp: words_def)

lemma words_del:
  assumes "list_all blk_ok bs"
  shows "words y' h' (del_reading y h k bs) = (if y' = y \<and> h' = h then words y h bs - {k} else words y' h' bs)"
  using assms
proof (induction bs)
  case (Cons b bs)
  obtain z cs where b: "b = (z, cs)" by (cases b)
  have ok: "list_all class_ok cs" using Cons.prems by (simp add: b blk_ok_def)
  have w: "words g i [(z, ds)] = (if g = z then kstrs i ds else {})" for g i ds by (simp add: words_def kstrs_def)
  have "words y' h' (del_reading y h k [b]) = (if y' = z then kstrs h' (if z = y then del_class h k cs else cs) else {})"
    by (cases "del_class h k cs = []") (auto simp: b del_reading_def del_blk_def w words_def kstrs_def)
  then have "words y' h' (del_reading y h k [b]) = (if y' = y \<and> h' = h then words y h [b] - {k} else words y' h' [b])"
    using kstrs_del [OF ok, of h' h k] by (auto simp: b w)
  then show ?case using Cons del_append(2) [of y h k "[b]" bs] words_append [of y h "[b]" bs] words_append [of y' h' "[b]" bs]
    by (auto simp: words_append)
qed (simp add: words_def del_reading_def)

lemma del_class_ok:
  assumes "list_all class_ok cs" "distinct (map fst cs)"
  shows "list_all class_ok (del_class h k cs)" "distinct (map fst (del_class h k cs))"
proof -
  have "class_ok (del_str h k c)" if "class_ok c" "snd (del_str h k c) \<noteq> []" for c
    using that set_remove1_subset [of k "snd c"] by (auto simp: del_str_def class_ok_def list_all_iff split: if_splits)
  then show "list_all class_ok (del_class h k cs)" using assms(1) unfolding del_class_def list_all_iff set_filter set_map by blast
  have "map fst (map (del_str h k) cs) = map fst cs" by simp
  then show "distinct (map fst (del_class h k cs))" unfolding del_class_def using assms(2) by (metis distinct_map_filter)
qed

lemma del_reading_ok:
  assumes "seg_ok bs" "sizes_ok [] (del_reading y h k bs)"
  shows "seg_ok (del_reading y h k bs)"
proof -
  have "blk_ok (del_blk y h k b)" if "blk_ok b" "snd (del_blk y h k b) \<noteq> []" for b
    using that del_class_ok [of "snd b" h k] by (auto simp: del_blk_def blk_ok_def split: if_splits)
  then have "list_all blk_ok (del_reading y h k bs)" using assms(1)
    unfolding del_reading_def seg_ok_def list_all_iff set_filter set_map by blast
  moreover have "map fst (map (del_blk y h k) bs) = map fst bs" by simp
  then have "sorted_wrt (<) (map fst (map (del_blk y h k) bs))" using assms(1) by (simp only: seg_ok_def)
  then have "sorted_wrt (<) (map fst (del_reading y h k bs))" unfolding del_reading_def by (simp only: sorted_wrt_map sorted_wrt_filter)
  ultimately show ?thesis using assms(2) by (simp add: seg_ok_def)
qed



text \<open>
  A full segment of one reading with two words: after the first one is cut out the three
  bytes at the end stay, and the next walk takes them for a block.
\<close>

lemma full_segment_deletion:
  defines "bs \<equiv> [([0x21], [(0x01, [[0x30, 0x21], [0x31, 0x21]])])]" and "bs' \<equiv> [([0x21], [(0x01, [[0x31, 0x21]])])]"
  shows "cut_bytes (seg_bytes bs [] [0]) 13 1 6 9 = Some (seg_bytes bs' [0x21, 0, 0xff] [0])"
    "segend (seg_bytes bs' [0x21, 0, 0xff] [0]) 13 (Suc (length (enc_blks [] bs'))) = Some False"
  unfolding bs_def bs'_def by code_simp+

end
