(* ===== verification/Sj_Registered.thy ===== *)
theory Sj_Registered
  imports Sj_Delete_Laws
begin

text \<open>
  What \<^verbatim>\<open>cvtknj\<close> writes has the form the segments require of their strings.
\<close>

lemma codes_ok_append: "codes_ok a \<Longrightarrow> codes_ok b \<Longrightarrow> codes_ok (a @ b)"
proof (induction a rule: codes_ok.induct)
  case (2 c k)
  have "drop (codesize c - 1) (k @ b) = drop (codesize c - 1) k @ b" using "2.prems"(1) by simp
  then show ?case using 2 by simp
qed simp

lemma kstr_append: "kstr a \<Longrightarrow> kstr b \<Longrightarrow> kstr (a @ b)"
  by (simp add: kstr_def codes_ok_append)

lemma kstr_ask:
  assumes "m \<in> {ZENHIRAASSYUKU, ZENKATAASSYUKU}" "0 < h" "h \<le> 16"
  shows "kstr [ask_code m h]"
proof -
  note f = ask_code_facts [OF assms(2,3,1)]
  have "ask_code m h \<noteq> 0xff"
  proof
    assume "ask_code m h = 0xff"
    then have "(0xff :: u8) AND KANJIMODEMASK = m" using f(1) by simp
    then show False using assms(1) by auto
  qed
  then show ?thesis using f(3,4) by (simp add: kstr_def)
qed

lemma kstr_code:
  assumes "euc_char c" "0xff \<notin> set c"
  shows "kstr (code_of c)"
proof -
  have h: "a \<noteq> 0xff \<and> a AND NORMALKANJIMASK \<noteq> 0xff" if "high a" for a
  proof -
    have "(a AND NORMALKANJIMASK) AND 0x80 = 0" using high_facts(6) [OF that] .
    then have "a AND NORMALKANJIMASK \<noteq> 0xff" by auto
    moreover have "a \<noteq> 0xff" using that by (auto simp: high_def)
    ultimately show ?thesis by blast
  qed
  obtain a b where ab: "code_of c = [a, b]" "a \<noteq> 0" "codesize a = 2" using code_of_head [OF assms(1)] by blast
  have "0xff \<notin> set (code_of c)"
    using assms(1)
  proof (cases rule: euc_char_cases)
    case (1 x)
    then show ?thesis using assms(2) by (simp add: code_of_def)
  next
    case (2 x)
    then show ?thesis using assms(2) by (simp add: code_of_def)
  next
    case (3 a b)
    then show ?thesis using h [of a] h [of b] high_facts(2) [of a] by (auto simp: code_of_def)
  next
    case (4 a b)
    then show ?thesis using h [of a] h [of b] by (auto simp: code_of_def)
  qed
  then show ?thesis using ab by (simp add: kstr_def)
qed

lemma kstr_loop:
  assumes "list_all yomi_code ys" "list_all euc_char cs" "cs \<noteq> []" "drop k knj = concat cs @ 0 # r" "0xff \<notin> set (concat cs)"
    "cvt_loop (euc_of_str ys @ 0 # r1) (kata_str ys @ [0]) knj k = Some out"
  shows "kstr out"
  using assms(2-6)
proof (induction cs arbitrary: k out)
  case (Cons c cs)
  have c: "kstr (code_of c)" using Cons.prems(1,4) by (intro kstr_code) simp_all
  from assms(1) Cons.prems(1,3,5) show ?case
  proof (cases rule: cvt_loop_step)
    case (more out')
    then show ?thesis using Cons.IH [OF _ more(1,3) _ more(4)] Cons.prems(1,4) kstr_append [OF c] by simp
  qed (use c kstr_ask in simp_all)
qed simp

lemma kstr_rest:
  assumes ys: "list_all yomi_code ys" and t: "list_all euc_char cs" "0xff \<notin> set (concat cs)"
    and top: "\<forall>c \<in> set (euc_of_str ys) \<union> set (kata_str ys). high c"
    and y: "y \<in> {euc_of_str ys, kata_str ys}" "top_strcmp (y @ 0 # r) (concat cs @ 0 # r2) = Some h" "rd (concat cs @ 0 # r2) (h * 2) = Some c"
    and k: "Some k = (if c = 0 then Some tp
      else do { r \<leftarrow> cvt_loop (euc_of_str ys @ 0 # r1) (kata_str ys @ [0]) (concat cs @ 0 # r2) (h * 2); Some (tp @ r) })"
    and tp: "kstr tp"
  shows "kstr k"
proof (cases "c = 0")
  case True
  then show ?thesis using k tp by simp
next
  case False
  have high: "\<forall>c \<in> set y. high c" using y(1) top by auto
  note a = top_aligned [OF t(1) high y(2)]
  obtain out where o: "cvt_loop (euc_of_str ys @ 0 # r1) (kata_str ys @ [0]) (concat cs @ 0 # r2) (h * 2) = Some out" "k = tp @ out"
    using k False by (auto split: bind_splits)
  have ne: "drop h cs \<noteq> []" using False a(4) [OF y(3)] by auto
  have "length (take (2 * h) y) = h * 2" using a(3) by simp
  then have d: "drop (h * 2) (concat cs @ 0 # r2) = concat (drop h cs) @ 0 # r2" by (subst a(1)) simp
  have "0xff \<notin> set (concat (drop h cs))" using t(2) by (metis UN_iff in_set_dropD set_concat)
  from kstr_loop [OF ys a(5) ne d this o(1)] show ?thesis using kstr_append [OF tp] o(2) by simp
qed

text \<open>
  C39. A registered word is well-formed: for every reading in dictionary codes and every EUC
  text without the byte 0xff, what \<^verbatim>\<open>cvtknj\<close> writes is a sequence of whole codes, none of
  which begins with the string terminator, without the terminator of class blocks, and is
  not empty. So the word may be put into a segment, and the invariant \<open>seg_ok\<close> is kept.
\<close>

theorem registered_word_typed:
  assumes "list_all yomi_code ys" "ys \<noteq> []" "length ys \<le> MAXWDYOMILEN" "euc_text t" "t \<noteq> []" "0xff \<notin> set t"
    and "cvtknj (euc_of_str ys @ 0 # r1) (t @ 0 # r2) = Some k"
  shows "word_ok ys k"
proof -
  obtain cs where cs: "t = concat cs" "list_all euc_char cs" using assms(4) by (auto simp: euc_text_def)
  have high: "\<forall>c \<in> set (euc_of_str ys) \<union> set (kata_str ys). high c" using reading_high [OF assms(1)] by blast
  have kana: "yomi2kata (euc_of_str ys @ 0 # r1) 0 = Some (kata_str ys @ [0])" using assms(1) by (intro yomi2kata_reading) simp_all
  have "kstr k"
    using assms(7) kana
  proof (cases rule: cvtknj_cases)
    case (hira h c)
    have "h \<le> 16" using top_aligned(2) [OF cs(2) reading_high(1) [OF assms(1)] hira(1) [unfolded cs(1)]] .
    then show ?thesis using kstr_rest [OF assms(1) cs(2) _ high _ hira(1) [unfolded cs(1)] hira(3) [unfolded cs(1)] hira(4) [unfolded cs(1)]] assms(6) cs(1) hira(2)
      by (simp add: kstr_ask)
  next
    case (kata h c)
    have "h \<le> 16" using top_aligned(2) [OF cs(2) reading_high(2) [OF assms(1)] kata(1) [unfolded cs(1)]] .
    then show ?thesis using kstr_rest [OF assms(1) cs(2) _ high _ kata(1) [unfolded cs(1)] kata(3) [unfolded cs(1)] kata(4) [unfolded cs(1)]] assms(6) cs(1) kata(2)
      by (simp add: kstr_ask)
  next
    case (none c)
    obtain a t' where a: "t = a # t'" using assms(5) by (cases t) auto
    then have "c = a" using none(1) by (simp add: rd_def)
    then have "c \<noteq> 0" using euc_text_0 [OF cs(2)] a cs(1) by (metis list.set_intros(1))
    then have "cvt_loop (euc_of_str ys @ 0 # r1) (kata_str ys @ [0]) (t @ 0 # r2) 0 = Some k" using none(2) by (auto split: bind_splits)
    moreover have "cs \<noteq> []" using assms(5) cs(1) by auto
    moreover have "drop 0 (t @ 0 # r2) = concat cs @ 0 # r2" by (simp add: cs(1))
    ultimately show ?thesis using kstr_loop [OF assms(1) cs(2)] assms(6) cs(1) by blast
  qed
  moreover have "0 \<notin> set ys" using assms(1) by (auto simp: list_all_iff yomi_code_iff)
  ultimately show ?thesis using assms(2,3) by (simp add: word_ok_def)
qed

theorem registered_word_typed_witness: "word_ok [0x58, 0x58] [0x81, 0x30, 0x21]"
proof (rule registered_word_typed)
  show "list_all yomi_code [0x58, 0x58]" by code_simp
  show "euc_text [0xa4, 0xab, 0xa4, 0xab, 0xb0, 0xa1]"
    unfolding euc_text_def
    by (rule exI [of _ "[[0xa4, 0xab], [0xa4, 0xab], [0xb0, 0xa1]]"]) (simp add: high_def)
  show "cvtknj (euc_of_str [0x58, 0x58] @ 0 # []) ([0xa4, 0xab, 0xa4, 0xab, 0xb0, 0xa1] @ 0 # []) = Some [0x81, 0x30, 0x21]"
    by code_simp
qed simp_all

end
