(* ===== verification/Spec2Isabelle.thy ===== *)
theory Spec2Isabelle
  imports Sj_String Sj_Study_Laws Sj_Client_Laws Sj_Sdepend_Laws Sj_Setup_Laws Sj_Server_Props Sj_Registered
begin

text \<open>
  A verification development for SJ3, a kana-kanji conversion system: a server
  (\<^verbatim>\<open>src/sj3serv\<close> on top of the conversion library \<^verbatim>\<open>lib/sj3core\<close>) that keeps
  dictionaries and learning files open and converts readings to kanji, and a client library
  (\<^verbatim>\<open>lib/sj3lib\<close>) that talks to it over a byte stream.

  \<^bold>\<open>Parts of the program and theories.\<close>

  \<^item> \<^theory_text>\<open>Sj_Prelude\<close>: machine types, C objects as lists of cells with bounds-checked
    \<open>rd\<close> and \<open>wr\<close> (a read or write outside the object is \<open>None\<close>), C strings inside an
    object, big-endian integers. \<^theory_text>\<open>Sj_Io\<close>: \<^verbatim>\<open>read\<close> and \<^verbatim>\<open>write\<close> as scripts of answers
    of the kernel, the command and error numbers of \<^verbatim>\<open>include/sj3common\<close>.
  \<^item> \<^theory_text>\<open>Sj_String\<close>: \<^verbatim>\<open>sj_string.c\<close> (the client and the server have the same file): the
    conversion between EUC and Shift JIS, code by code and string by string.
  \<^item> \<^theory_text>\<open>Sj_Study\<close>, \<^theory_text>\<open>Sj_Study_Laws\<close>: \<^verbatim>\<open>lib/sj3core/study.c\<close>, the learning of words: a
    sorted array of records with a use number each. \<open>STDY\<close> is the C struct.
  \<^item> \<^theory_text>\<open>Sj_Client\<close>, \<^theory_text>\<open>Sj_Client_Laws\<close>: \<^verbatim>\<open>lib/sj3lib/level1.c\<close>, the request functions
    of the client. \<open>cli\<close> holds the static buffers and flags of the file and the scripts of
    the connection.
  \<^item> \<^theory_text>\<open>Sj_Comuni\<close>: the buffered input and output of the server (\<^verbatim>\<open>comuni.c\<close>), in an
    error monad \<open>sm\<close>: \<open>Inl (Error_ret e)\<close> is the \<^verbatim>\<open>longjmp\<close> with which a handler reports an
    error number, \<open>Inl Client_dead\<close> the one that drops the client, \<open>Inl Ub\<close> an access outside
    an object or through a dead pointer, \<open>Inl Hang\<close> a loop that does not end, \<open>Inl Exit\<close> the
    end of the process.
  \<^item> \<^theory_text>\<open>Sj_Sdepend\<close>, \<^theory_text>\<open>Sj_Sdepend_Laws\<close>: \<^verbatim>\<open>lib/sj3core/sdepend.c\<close>: dictionary and study
    files, on a file system that is part of the state (names, inodes, bytes, rights, failing
    writes and allocations).
  \<^item> \<^theory_text>\<open>Sj_Setup\<close>, \<^theory_text>\<open>Sj_Setup_Laws\<close>: the access control of \<^verbatim>\<open>setup.c\<close> and
    \<^verbatim>\<open>make_full_path\<close>.
  \<^item> \<^theory_text>\<open>Sj_Execute\<close> (connections, files, locks, administration) and \<^theory_text>\<open>Sj_Convert\<close>
    (conversion, learning, dictionary editing and browsing): the handlers of \<^verbatim>\<open>execute.c\<close>.
    \<^theory_text>\<open>Sj_Server\<close>: \<^verbatim>\<open>execute_cmd\<close>, the client list and the main loop. The state is the
    record \<open>srv\<close>; the conversion engine behind the handlers is the record \<open>engine\<close>, an argument.
  \<^item> \<^theory_text>\<open>Sj_Books\<close>: the bookkeeping of the server alone (who has which file open, listed and
    locked) as an abstract machine with its invariant \<open>books_ok\<close>. \<^theory_text>\<open>Sj_Quiet\<close> shows which
    handlers do not touch the books, \<^theory_text>\<open>Sj_Wp\<close> is a weakest-precondition calculus for the
    monad, \<^theory_text>\<open>Sj_Execute_Laws\<close> and \<^theory_text>\<open>Sj_Server_Laws\<close> show that every handler and every turn
    of the main loop keep the invariant, \<^theory_text>\<open>Sj_Demo\<close> runs a concrete server, and
    \<^theory_text>\<open>Sj_Server_Props\<close> states the properties of every reachable state.
  \<^item> \<^theory_text>\<open>Sj_Yomi\<close>, \<^theory_text>\<open>Sj_Dict\<close>: readings and their one-byte codes (\<^verbatim>\<open>cnvyomi.c\<close>, \<^verbatim>\<open>cmpyomi.c\<close>,
    \<^verbatim>\<open>char.c\<close>) and the layout of a dictionary file: its header, the index of segments
    (\<^verbatim>\<open>dict.c\<close>, \<^verbatim>\<open>dictdisp.c\<close>, \<^verbatim>\<open>makeidx\<close>, \<^verbatim>\<open>srchidx.c\<close>), the walk over the
    blocks of a segment. \<^theory_text>\<open>Sj_Dict_Laws\<close> is about the index.
  \<^item> \<^theory_text>\<open>Sj_Kanji\<close>, \<^theory_text>\<open>Sj_Kanji_Laws\<close>: the kanji strings of a block (\<^verbatim>\<open>cvtkanji.c\<close>,
    \<^verbatim>\<open>getkan.c\<close>): compression, its bounds and its inverse.
  \<^item> \<^theory_text>\<open>Sj_Adddic\<close>: registering and deleting words of a user dictionary (\<^verbatim>\<open>adddic.c\<close>,
    \<^verbatim>\<open>deldic.c\<close>, \<^verbatim>\<open>srchdict.c\<close>). \<^theory_text>\<open>Sj_Segment\<close> gives the abstract segments, lists of
    blocks with their readings and classes of kanji strings, and their bytes;
    \<^theory_text>\<open>Sj_Segment_Laws\<close>, \<^theory_text>\<open>Sj_Insert_Laws\<close> and \<^theory_text>\<open>Sj_Delete_Laws\<close> show that search,
    insertion and deletion on the bytes are those operations on the blocks;
    \<^theory_text>\<open>Sj_Registered\<close> is about the strings that get in at all.
  \<^item> \<^theory_text>\<open>Sj_Clstudy\<close>: \<^verbatim>\<open>clstudy.c\<close>, the learning of clause boundaries.

  \<^bold>\<open>What the lemmas show.\<close>
  The conversions of codes and strings are inverse to each other, and the one case where a
  terminator leaves its buffer is exhibited. \<^verbatim>\<open>study\<close> refines a least-recently-used list of
  words; its binary search is correct. Requests and replies of the client are exact byte
  sequences for every splitting of the traffic, and its writes stay inside the buffers of the
  caller. Files that were made or written are read back. Paths stay below the dictionary
  directory; the gaps of the user table are exhibited. Every reachable state of the server
  satisfies the invariant of the books: listed files are open, reference counts are large
  enough, locks have connected owners, descriptors are counted exactly; hence closing,
  locking and dropping a client have no undefined behaviour. For user dictionaries:
  converting a kanji string to its compressed form and back is the identity; the binary
  search of the index finds the segment of a reading and the edits of the index are those of
  a sorted list; the search of a segment finds the block of a reading or the place where it
  belongs; adding and deleting a word changes exactly that word in the contents of the segment
  and keeps its well-formedness.

  \<^bold>\<open>Loops.\<close> No fuel is used: loops are structural recursions, or recursions whose measure is
  the unread part of a script, the distance of two indices, or the rest of an object. The
  loops whose end depends on the bytes of a file, the walks over segments and the clause
  learning, are \<open>partial_function (option)\<close>: not ending and reading outside the object are
  both \<open>None\<close>, and the properties show that the result is a \<open>Some\<close> on well-formed segments.

  \<^bold>\<open>Not modelled.\<close> The analysis of sentences in \<^verbatim>\<open>lib/sj3core\<close> with its connection
  tables (an argument \<open>engine\<close> of the server model); romaji-kana conversion
  (\<^verbatim>\<open>lib/sj3rkcv\<close>); the dictionary compiler and the command line tools; the Lua interpreter
  (vendored) and the reading of configuration files through it; the libc replacements of
  \<^verbatim>\<open>lib/sj3compat\<close>; the privileged helper process, daemon start-up, signals, timers and
  logging. Single alarms and \<^verbatim>\<open>select\<close> time-outs are left out; the answers of \<^verbatim>\<open>select\<close>,
  \<^verbatim>\<open>accept\<close>, \<^verbatim>\<open>connect\<close>, \<^verbatim>\<open>read\<close> and \<^verbatim>\<open>write\<close> are arguments.
\<close>

end
